(* ===== verification/Prelude.thy ===== *)
theory Prelude
  imports Main "HOL-Library.Word" "HOL-Library.AList"
begin

text \<open>
  What every component of the development shares.

  Time: the sources use \<^verbatim>\<open>std::time::Instant\<close> and \<^verbatim>\<open>Duration\<close>, whose resolution is the
  nanosecond. Both are natural numbers of nanoseconds here; \<open>ms\<close> and \<open>secs\<close> build a
  duration, \<open>as_millis\<close>, \<open>as_micros\<close> and \<open>as_secs\<close> round down as the library does. The clock a
  function reads (\<^verbatim>\<open>Instant::now()\<close>) is an argument \<open>now\<close>. Subtraction of instants saturates
  at zero in the standard library (\<^verbatim>\<open>duration_since\<close>, \<^verbatim>\<open>elapsed\<close>, \<^verbatim>\<open>saturating_duration_since\<close>),
  as it does on \<open>nat\<close>.

  Integers: sequence numbers and counters whose wrap-around matters are words of the code's
  width; the serial-number comparison the sources write in four places is characterised once,
  in the locale \<open>serial_order\<close>.

  Addresses: a \<open>socket_addr\<close> is only ever compared. Maps that the code iterates are
  association lists; logging is left out everywhere.
\<close>

unbundle bit_operations_syntax

named_theorems session_simps \<open>unfolding rules of the session table\<close>
named_theorems keep_inv \<open>an operation keeps its component's invariant\<close>

type_synonym u8 = "8 word"
type_synonym u16 = "16 word"
type_synonym u32 = "32 word"
type_synonym u64 = "64 word"

type_synonym instant = nat
type_synonym duration = nat

datatype socket_addr = SocketAddr (sa_ip: nat) (sa_port: nat)

section \<open>Durations\<close>

abbreviation (input) micros :: "nat \<Rightarrow> duration" where
  "micros n \<equiv> n * 1000"

abbreviation (input) ms :: "nat \<Rightarrow> duration" where
  "ms n \<equiv> n * 1000000"

abbreviation (input) secs :: "nat \<Rightarrow> duration" where
  "secs n \<equiv> n * 1000000000"

definition as_micros :: "duration \<Rightarrow> nat" where
  "as_micros d = d div 1000"

definition as_millis :: "duration \<Rightarrow> nat" where
  "as_millis d = d div 1000000"

definition as_secs :: "duration \<Rightarrow> nat" where
  "as_secs d = d div 1000000000"

lemma as_millis_ms [simp]: "as_millis (ms n) = n"
  by (simp add: as_millis_def)

lemma as_secs_secs [simp]: "as_secs (secs n) = n"
  by (simp add: as_secs_def)

lemma le_as_millis_iff: "n \<le> as_millis d \<longleftrightarrow> ms n \<le> d"
  by (simp add: as_millis_def less_eq_div_iff_mult_less_eq)

lemma as_secs_less_iff: "as_secs d < n \<longleftrightarrow> d < secs n"
  by (simp add: as_secs_def div_less_iff_less_mult)

text \<open>
  Ordering of \<^verbatim>\<open>Option<Instant>\<close>: \<^verbatim>\<open>None\<close> is below every \<^verbatim>\<open>Some\<close>, as the standard library's
  derived \<^verbatim>\<open>Ord\<close> has it; \<open>opt_max\<close> is \<^verbatim>\<open>Option::max\<close>.
\<close>

fun opt_max :: "instant option \<Rightarrow> instant option \<Rightarrow> instant option" where
  "opt_max None y = y"
| "opt_max x None = x"
| "opt_max (Some x) (Some y) = Some (max x y)"

definition clamp :: "'a::linorder \<Rightarrow> 'a \<Rightarrow> 'a \<Rightarrow> 'a" where
  "clamp lo hi x = (if x < lo then lo else if hi < x then hi else x)"

lemma clamp_bounds: "lo \<le> hi \<Longrightarrow> lo \<le> clamp lo hi x \<and> clamp lo hi x \<le> hi"
  by (auto simp: clamp_def)

lemma clamp_id [simp]: "lo \<le> x \<Longrightarrow> x \<le> hi \<Longrightarrow> clamp lo hi x = x"
  by (auto simp: clamp_def)

section \<open>Serial numbers\<close>

text \<open>
  Sequence numbers are \<^verbatim>\<open>u32\<close> and wrap. Four files compare them the same way, through the
  sign of the wrapped difference. The laws of that comparison are proved once, from its
  characterisation by the signed difference.
\<close>

lemma sint_u32: "sint (a :: u32) = (if uint a < 2 ^ 31 then uint a else uint a - 2 ^ 32)"
proof -
  have u: "0 \<le> uint a" "uint a < 2 ^ 32" using uint_lt2p [of a] by simp_all
  have s: "sint a = (uint a + 2 ^ 31) mod 2 ^ 32 - 2 ^ 31"
    by (simp add: sint_uint signed_take_bit_eq_take_bit_shift take_bit_eq_mod)
  show ?thesis
  proof (cases "uint a < 2 ^ 31")
    case True
    with u s show ?thesis by simp
  next
    case False
    have "(uint a + 2 ^ 31) mod 2 ^ 32 = uint a - 2 ^ 31"
      by (rule int_mod_pos_eq [where q = 1]) (use u False in simp_all)
    with s False show ?thesis by simp
  qed
qed

lemma pos_sint_u32: "0 < sint (a :: u32) \<longleftrightarrow> 0 < uint a \<and> uint a < 2 ^ 31"
  using uint_lt2p [of a] by (auto simp: sint_u32)

lemma uint_minus_u32: "0 < uint (a :: u32) \<Longrightarrow> uint (- a) = 2 ^ 32 - uint a"
proof -
  assume p: "0 < uint a"
  have "uint (- a) = (- uint a) mod 2 ^ 32"
    by (simp add: uint_word_ariths)
  also have "\<dots> = 2 ^ 32 - uint a"
    by (rule int_mod_pos_eq [where q = "-1"]) (use p uint_lt2p [of a] in simp_all)
  finally show ?thesis .
qed

locale serial_order =
  fixes after :: "u32 \<Rightarrow> u32 \<Rightarrow> bool"
  assumes after_iff: "after a b \<longleftrightarrow> 0 < sint (a - b)"
begin

lemma irrefl: "\<not> after a a"
  by (simp add: after_iff)

lemma asym: "after a b \<Longrightarrow> \<not> after b a"
  using uint_minus_u32 [of "a - b"] by (simp add: after_iff pos_sint_u32)

lemma ahead:
  assumes "0 < k" "k < 2 ^ 31"
  shows "after (b + of_nat k) b"
proof -
  have "uint (of_nat k :: u32) = int k"
    using assms by (simp add: unsigned_of_nat take_bit_nat_eq_self)
  then show ?thesis using assms by (simp add: after_iff pos_sint_u32)
qed

lemma behind:
  assumes "k < 2 ^ 31"
  shows "\<not> after b (b + of_nat k)"
proof (cases "k = 0")
  case True
  then show ?thesis by (simp add: irrefl)
next
  case False
  with assms have "after (b + of_nat k) b" by (intro ahead) simp_all
  then show ?thesis by (rule asym)
qed

lemma next_after: "after (b + 1) b"
  using ahead [of 1 b] by simp

end

section \<open>Bytes\<close>

text \<open>Big-endian integers, as \<^verbatim>\<open>to_be_bytes\<close> and \<^verbatim>\<open>from_be_bytes\<close> read and write them, and \<^verbatim>\<open>buf.get(i)\<close>.\<close>

definition get_byte :: "u8 list \<Rightarrow> nat \<Rightarrow> u8 option" where
  "get_byte buf i = (if i < length buf then Some (buf ! i) else None)"

definition u16_be :: "u8 \<Rightarrow> u8 \<Rightarrow> u16" where
  "u16_be a b = push_bit 8 (ucast a) OR ucast b"

definition u32_be :: "u8 \<Rightarrow> u8 \<Rightarrow> u8 \<Rightarrow> u8 \<Rightarrow> u32" where
  "u32_be a b c d =
     push_bit 24 (ucast a) OR push_bit 16 (ucast b) OR push_bit 8 (ucast c) OR ucast d"

definition u32_to_be :: "u32 \<Rightarrow> u8 list" where
  "u32_to_be w = [ucast (drop_bit 24 w), ucast (drop_bit 16 w), ucast (drop_bit 8 w), ucast w]"

definition u16_to_be :: "u16 \<Rightarrow> u8 list" where
  "u16_to_be w = [ucast (drop_bit 8 w), ucast w]"

lemma u32_be_roundtrip [simp]:
  "u32_be (ucast (drop_bit 24 w)) (ucast (drop_bit 16 w)) (ucast (drop_bit 8 w)) (ucast w) = w"
proof (rule bit_word_eqI)
  fix n assume "n < LENGTH(32)"
  then consider "n < 8" | "8 \<le> n" "n < 16" | "16 \<le> n" "n < 24" | "24 \<le> n" "n < 32" by fastforce
  then show "bit (u32_be (ucast (drop_bit 24 w)) (ucast (drop_bit 16 w)) (ucast (drop_bit 8 w)) (ucast w)) n = bit w n"
    by cases (auto simp: u32_be_def bit_simps)
qed

lemma u16_be_roundtrip [simp]: "u16_be (ucast (drop_bit 8 w)) (ucast w) = w"
proof (rule bit_word_eqI)
  fix n assume "n < LENGTH(16)"
  then consider "n < 8" | "8 \<le> n" "n < 16" by fastforce
  then show "bit (u16_be (ucast (drop_bit 8 w)) (ucast w)) n = bit w n"
    by cases (auto simp: u16_be_def bit_simps)
qed

lemma length_to_be [simp]: "length (u32_to_be w) = 4" "length (u16_to_be v) = 2"
  by (simp_all add: u32_to_be_def u16_to_be_def)

section \<open>The newest elements of a list\<close>

text \<open>What a bounded queue keeps when its oldest are dropped.\<close>

definition keep_newest :: "nat \<Rightarrow> 'a list \<Rightarrow> 'a list" where
  "keep_newest m xs = drop (length xs - m) xs"

lemma length_keep_newest [simp]: "length (keep_newest m xs) = min m (length xs)"
  by (simp add: keep_newest_def)

lemma keep_newest_all [simp]: "length xs \<le> m \<Longrightarrow> keep_newest m xs = xs"
  by (simp add: keep_newest_def)

lemma keep_newest_keep_newest [simp]: "keep_newest m (keep_newest m xs @ ys) = keep_newest m (xs @ ys)"
  by (cases "length xs \<le> m") (auto simp: keep_newest_def drop_append add.commute)

lemma set_keep_newest: "x \<in> set (keep_newest m xs) \<Longrightarrow> x \<in> set xs"
  by (auto simp: keep_newest_def dest: in_set_dropD)

lemma set_keep_newest_append: "x \<in> set (keep_newest m (xs @ ys)) \<Longrightarrow> x \<notin> set xs \<Longrightarrow> x \<in> set ys"
  by (drule set_keep_newest) simp

end
