(* ===== verification/TxTargets.thy ===== *)
theory TxTargets
  imports Prelude
begin

text \<open>
  The three transmitters a server can hand audio to (\<^verbatim>\<open>sdr-remote-server/src/session.rs\<close>,
  \<^verbatim>\<open>TxTarget\<close>), their order, and the number a CW packet names them by.
\<close>

datatype tx_target = Thetis | Yaesu1 | Yaesu2

definition ALL_targets :: "tx_target list" where
  "ALL_targets = [Thetis, Yaesu1, Yaesu2]"

fun radio_name :: "tx_target \<Rightarrow> string" where
  "radio_name Thetis = ''Thetis''"
| "radio_name Yaesu1 = ''Yaesu radio 0''"
| "radio_name Yaesu2 = ''Yaesu radio 1''"

definition from_cw_target :: "u8 \<Rightarrow> tx_target option" where
  "from_cw_target t =
     (if t = 0 then Some Thetis else if t = 1 then Some Yaesu1
      else if t = 2 then Some Yaesu2 else None)"

lemma set_ALL_targets [simp]: "set ALL_targets = UNIV"
  by (auto simp: ALL_targets_def intro: tx_target.exhaust)

lemma distinct_ALL_targets [simp]: "distinct ALL_targets"
  by (simp add: ALL_targets_def)

lemma UNIV_tx_target: "UNIV = {Thetis, Yaesu1, Yaesu2}"
  by (auto intro: tx_target.exhaust)

text \<open>The order of the enum: Thetis first, as the sources' slot numbers have it.\<close>

instantiation tx_target :: linorder
begin

fun slot_of :: "tx_target \<Rightarrow> nat" where
  "slot_of Thetis = 0"
| "slot_of Yaesu1 = 1"
| "slot_of Yaesu2 = 2"

definition less_eq_tx_target :: "tx_target \<Rightarrow> tx_target \<Rightarrow> bool" where
  "less_eq_tx_target a b \<longleftrightarrow> slot_of a \<le> slot_of b"

definition less_tx_target :: "tx_target \<Rightarrow> tx_target \<Rightarrow> bool" where
  "less_tx_target a b \<longleftrightarrow> slot_of a < slot_of b"

lemma slot_of_inject: "slot_of a = slot_of b \<Longrightarrow> a = b"
  by (cases a; cases b) simp_all

instance
  by standard (auto simp: less_eq_tx_target_def less_tx_target_def dest: slot_of_inject)

end

lemma sorted_ALL_targets: "sorted ALL_targets"
  by (simp add: ALL_targets_def less_eq_tx_target_def)

lemma slot_of_less [simp]: "slot_of t < 3"
  by (cases t) simp_all

lemma from_cw_target_slot: "from_cw_target (of_nat (slot_of t)) = Some t"
  by (cases t) (simp_all add: from_cw_target_def)

lemma from_cw_target_Some_iff: "from_cw_target n = Some t \<longleftrightarrow> n = of_nat (slot_of t)"
  by (cases t) (auto simp: from_cw_target_def)

end
