(* ===== verification/PttSafety.thy ===== *)
theory PttSafety
  imports TxTargets
begin

text \<open>
  The safety decision of the Thetis transmitter, from two clocks
  (\<^verbatim>\<open>sdr-remote-server/src/ptt.rs\<close>: \<^verbatim>\<open>SafetyClocks::action\<close>, \<^verbatim>\<open>silence_ended_the_over\<close>), the
  watch for a keyed transmitter nobody owns (\<^verbatim>\<open>tx_orphan.rs\<close>), and the constants they use.
\<close>

section \<open>Constants\<close>

definition PTT_PACKET_TIMEOUT_MS :: nat where "PTT_PACKET_TIMEOUT_MS = 2000"

definition HEARTBEAT_TIMEOUT_MS :: nat where "HEARTBEAT_TIMEOUT_MS = 2000"

section \<open>The two clocks\<close>

datatype ptt_state = Rx | Tx

datatype safety_action = NoSafetyAction | ReleaseHeartbeatLost | ReleaseNoPackets

record safety_clocks =
  sc_state :: ptt_state
  sc_since_heartbeat :: "duration option"
  sc_since_packet :: "duration option"
  sc_heartbeat_timeout :: duration
  sc_packet_timeout :: duration

definition safety_action :: "safety_clocks \<Rightarrow> safety_action" where
  "safety_action c =
     (if sc_state c \<noteq> Tx then NoSafetyAction
      else if (case sc_since_heartbeat c of None \<Rightarrow> True | Some d \<Rightarrow> d > sc_heartbeat_timeout c)
      then ReleaseHeartbeatLost
      else if (case sc_since_packet c of None \<Rightarrow> True | Some d \<Rightarrow> d > sc_packet_timeout c)
      then ReleaseNoPackets
      else NoSafetyAction)"

definition silence_ended_the_over :: "duration option \<Rightarrow> bool" where
  "silence_ended_the_over since_packet =
     (case since_packet of None \<Rightarrow> False | Some d \<Rightarrow> d > ms PTT_PACKET_TIMEOUT_MS)"

text \<open>
  The layer leaves a keyed transmitter alone in exactly one case: both clocks were set, and
  neither is past its window.
\<close>

lemma safety_action_none_iff:
  "safety_action c = NoSafetyAction \<longleftrightarrow>
     sc_state c = Rx \<or>
     (\<exists>h p. sc_since_heartbeat c = Some h \<and> h \<le> sc_heartbeat_timeout c \<and>
            sc_since_packet c = Some p \<and> p \<le> sc_packet_timeout c)"
  by (cases "sc_state c") (auto simp: safety_action_def split: option.splits)

lemma safety_action_rx [simp]: "sc_state c = Rx \<Longrightarrow> safety_action c = NoSafetyAction"
  by (simp add: safety_action_def)

lemma safety_action_tx_heartbeat_lost:
  "safety_action c = ReleaseHeartbeatLost \<longleftrightarrow>
     sc_state c = Tx \<and> (\<forall>h. sc_since_heartbeat c = Some h \<longrightarrow> sc_heartbeat_timeout c < h)"
  by (cases "sc_state c") (auto simp: safety_action_def split: option.splits)

text \<open>
  The safety and the transmit buffer agree on what a silence is: where the safety lets a
  keyed transmitter go for want of packets, the buffered audio is no longer this over's.
\<close>

lemma safety_agrees_with_the_buffer:
  assumes "sc_state c = Tx" "sc_packet_timeout c = ms PTT_PACKET_TIMEOUT_MS"
    and "silence_ended_the_over (sc_since_packet c)"
  shows "safety_action c \<noteq> NoSafetyAction"
  using assms by (auto simp: safety_action_def silence_ended_the_over_def split: option.splits)

section \<open>The orphan watch\<close>

text \<open>
  \<^verbatim>\<open>OrphanWatch::observe\<close>: a transmitter the server keyed and nobody owns is forced back on
  the second consecutive tick. The counter is a \<^verbatim>\<open>u32\<close> and is kept at its width.
\<close>

record orphan_watch =
  ow_seen :: u32

definition orphan_new :: orphan_watch where
  "orphan_new = \<lparr> ow_seen = 0 \<rparr>"

definition orphan_observe :: "orphan_watch \<Rightarrow> bool \<Rightarrow> bool \<Rightarrow> orphan_watch \<times> bool" where
  "orphan_observe w server_keyed has_holder =
     (if \<not> (server_keyed \<and> \<not> has_holder) then (w\<lparr> ow_seen := 0 \<rparr>, False)
      else let w' = w\<lparr> ow_seen := ow_seen w + 1 \<rparr> in (w', ow_seen w' = 2))"

fun orphan_run :: "orphan_watch \<Rightarrow> (bool \<times> bool) list \<Rightarrow> bool list" where
  "orphan_run w [] = []"
| "orphan_run w ((k, h) # ts) = (let (w', fire) = orphan_observe w k h in fire # orphan_run w' ts)"

lemma orphan_run_orphaned:
  assumes "unat (ow_seen w) + n < 2 ^ 32"
  shows "orphan_run w (replicate n (True, False)) =
         map (\<lambda>i. unat (ow_seen w) + Suc i = 2) [0..<n]"
  using assms
proof (induction n arbitrary: w)
  case 0
  then show ?case by simp
next
  case (Suc n)
  let ?w' = "w\<lparr> ow_seen := ow_seen w + 1 \<rparr>"
  have u: "unat (ow_seen w + 1) = Suc (unat (ow_seen w))"
    using Suc.prems by (simp add: unat_word_ariths)
  have two: "(ow_seen w + 1 = 2) \<longleftrightarrow> Suc (unat (ow_seen w)) = 2"
    using u by (auto simp: word_unat_eq_iff)
  have "orphan_run ?w' (replicate n (True, False)) =
        map (\<lambda>i. unat (ow_seen ?w') + Suc i = 2) [0..<n]"
    by (rule Suc.IH) (use Suc.prems u in simp)
  then show ?case
    using u two by (simp add: orphan_observe_def upt_conv_Cons map_Suc_upt [symmetric]
        del: upt_Suc)
qed

text \<open>
  A transmitter that is owned, or that the server did not key, resets the watch: no run of
  ticks of that kind ever fires, whatever came before.
\<close>

lemma orphan_run_owned:
  "\<forall>(k, h) \<in> set ts. \<not> k \<or> h \<Longrightarrow> True \<notin> set (orphan_run w ts)"
  by (induction ts arbitrary: w) (auto simp: orphan_observe_def)

section \<open>Properties\<close>

text \<open>How long the newest ticks have been orphaned, without a break.\<close>

definition orphaned_for :: "(bool \<times> bool) list \<Rightarrow> nat" where
  "orphaned_for ts = length (takeWhile (\<lambda>(keyed, owned). keyed \<and> \<not> owned) (rev ts))"

lemma orphaned_for_snoc:
  "orphaned_for (ts @ [(k, h)]) = (if k \<and> \<not> h then Suc (orphaned_for ts) else 0)"
  by (simp add: orphaned_for_def)

lemma orphaned_for_le: "orphaned_for ts \<le> length ts"
  using length_takeWhile_le [of _ "rev ts"] by (simp add: orphaned_for_def)

lemma orphan_run_nth:
  assumes "unat (ow_seen w) = orphaned_for past" "length past + length ts < 2 ^ 32"
  shows "orphan_run w ts = map (\<lambda>i. orphaned_for (past @ take (Suc i) ts) = 2) [0..<length ts]"
  using assms
proof (induction ts arbitrary: w past)
  case Nil
  then show ?case by simp
next
  case (Cons t ts)
  obtain k h where t: "t = (k, h)" by fastforce
  let ?w' = "fst (orphan_observe w k h)"
  have le: "orphaned_for past \<le> length past" by (rule orphaned_for_le)
  have u: "unat (ow_seen w + 1) = Suc (orphaned_for past)"
    using Cons.prems le by (simp add: unat_word_ariths)
  have seen: "unat (ow_seen ?w') = orphaned_for (past @ [t])"
    using u by (simp add: orphan_observe_def orphaned_for_snoc t)
  have fire: "snd (orphan_observe w k h) \<longleftrightarrow> orphaned_for (past @ [t]) = 2"
    using u by (auto simp: orphan_observe_def orphaned_for_snoc t word_unat_eq_iff)
  have "orphan_run ?w' ts = map (\<lambda>i. orphaned_for ((past @ [t]) @ take (Suc i) ts) = 2) [0..<length ts]"
    by (rule Cons.IH [OF seen]) (use Cons.prems in simp)
  then show ?case using fire t
    by (simp add: case_prod_beta upt_conv_Cons map_Suc_upt [symmetric] del: upt_Suc)
qed

text \<open>
  The orphan watch: over any run of ticks, the transmitter is forced off at a tick exactly when
  that tick is the second in a row at which the server keyed it and nobody held it - not on the
  first, and not again while the same orphaned stretch lasts.
\<close>

theorem orphan_forced_off_on_the_second_tick:
  assumes "length ts < 2 ^ 32"
  shows "orphan_run orphan_new ts = map (\<lambda>i. orphaned_for (take (Suc i) ts) = 2) [0..<length ts]"
  using orphan_run_nth [of orphan_new "[]" ts] assms by (simp add: orphan_new_def orphaned_for_def)

theorem orphan_forced_off_on_the_second_tick_witness:
  "orphan_run orphan_new [(True, False), (True, False), (True, False), (True, True), (True, False), (True, False)] =
     [False, True, False, False, False, True]"
  using orphan_forced_off_on_the_second_tick
    [of "[(True, False), (True, False), (True, False), (True, True), (True, False), (True, False)]"]
  by (simp add: orphaned_for_def upt_rec)

end
