(* ===== verification/TxIntake.thy ===== *)
theory TxIntake
  imports PttSafety
begin

text \<open>
  What a transmit audio packet does when it arrives (\<^verbatim>\<open>sdr-remote-server/src/tx_intake.rs\<close>): the
  decision \<open>intake\<close>, the comparison of sequence numbers, and \<^verbatim>\<open>Senders\<close>, the memory of the newest
  packet per transmitter. The arrays of length three are lists indexed by \<open>target_index\<close>.
\<close>

record arrival =
  ar_ptt :: bool
  ar_from_holder :: bool
  ar_keyed :: bool
  ar_stale :: bool
  ar_let_go_by_radio :: bool

datatype intake_result = Pass | Stale | LetGoByRadio | Claim | Play

definition intake :: "arrival \<Rightarrow> intake_result" where
  "intake a =
     (if \<not> ar_ptt a \<and> \<not> ar_from_holder a then Pass
      else if ar_ptt a \<and> (\<not> ar_from_holder a \<or> \<not> ar_keyed a) then
        (if ar_stale a then Stale
         else if ar_let_go_by_radio a then LetGoByRadio
         else Claim)
      else Play)"

definition sequence_after :: "u32 \<Rightarrow> u32 \<Rightarrow> bool" where
  "sequence_after a b \<longleftrightarrow> 0 <s (a - b)"

interpretation seq_after: serial_order sequence_after
  by unfold_locales (simp add: sequence_after_def word_sless_alt)

definition older_than_the_newest ::
    "(socket_addr \<times> u32 \<times> instant) option \<Rightarrow> socket_addr \<Rightarrow> u32 \<Rightarrow> instant \<Rightarrow> bool" where
  "older_than_the_newest newest addr seq now =
     (case newest of None \<Rightarrow> False
      | Some (from, n, at) \<Rightarrow>
          from = addr \<and> now - at \<le> ms PTT_PACKET_TIMEOUT_MS \<and> \<not> sequence_after seq n)"

section \<open>Senders\<close>

record senders =
  sn_newest :: "(socket_addr \<times> u32 \<times> instant) option list"
  sn_ignored :: "u64 list"

definition senders_default :: senders where
  "senders_default = \<lparr> sn_newest = [None, None, None], sn_ignored = [0, 0, 0] \<rparr>"

fun target_index :: "tx_target \<Rightarrow> nat" where
  "target_index Thetis = 0"
| "target_index Yaesu1 = 1"
| "target_index Yaesu2 = 2"

definition senders_stale ::
    "senders \<Rightarrow> tx_target \<Rightarrow> socket_addr \<Rightarrow> u32 \<Rightarrow> instant \<Rightarrow> bool" where
  "senders_stale s t addr seq now =
     older_than_the_newest (sn_newest s ! target_index t) addr seq now"

definition senders_ignored :: "senders \<Rightarrow> tx_target \<Rightarrow> senders \<times> bool" where
  "senders_ignored s t =
     (let n = sn_ignored s ! target_index t + 1
      in (s\<lparr> sn_ignored := (sn_ignored s)[target_index t := n] \<rparr>, n = 1))"

definition senders_taken :: "senders \<Rightarrow> tx_target \<Rightarrow> senders" where
  "senders_taken s t = s\<lparr> sn_ignored := (sn_ignored s)[target_index t := 0] \<rparr>"

definition senders_played ::
    "senders \<Rightarrow> tx_target \<Rightarrow> socket_addr \<Rightarrow> u32 \<Rightarrow> instant \<Rightarrow> senders" where
  "senders_played s t addr seq now =
     s\<lparr> sn_newest := (sn_newest s)[target_index t := Some (addr, seq, now)] \<rparr>"

text \<open>The arrays keep their length, so an index of a transmitter is always in range.\<close>

definition senders_wf :: "senders \<Rightarrow> bool" where
  "senders_wf s \<longleftrightarrow> length (sn_newest s) = 3 \<and> length (sn_ignored s) = 3"

lemma target_index_less [simp]: "target_index t < 3"
  by (cases t) simp_all

lemma target_index_eq_iff [simp]: "target_index t = target_index u \<longleftrightarrow> t = u"
  by (cases t; cases u) simp_all

lemma senders_wf_keep [keep_inv]:
  "senders_wf senders_default"
  "senders_wf s \<Longrightarrow> senders_wf (fst (senders_ignored s t))"
  "senders_wf s \<Longrightarrow> senders_wf (senders_taken s t)"
  "senders_wf s \<Longrightarrow> senders_wf (senders_played s t addr seq now)"
  by (simp_all add: senders_wf_def senders_default_def senders_ignored_def senders_taken_def
      senders_played_def Let_def)

lemma newest_played:
  "senders_wf s \<Longrightarrow>
   sn_newest (senders_played s t addr seq now) ! target_index u =
     (if u = t then Some (addr, seq, now) else sn_newest s ! target_index u)"
  by (auto simp: senders_played_def senders_wf_def nth_list_update)

lemma stale_after_played:
  assumes "senders_wf s"
  shows "senders_stale (senders_played s t addr n at) t addr seq now \<longleftrightarrow>
           now - at \<le> ms PTT_PACKET_TIMEOUT_MS \<and> \<not> sequence_after seq n"
  using assms by (simp add: senders_stale_def newest_played older_than_the_newest_def)

lemma stale_other_sender:
  assumes "senders_wf s" "addr' \<noteq> addr"
  shows "\<not> senders_stale (senders_played s t addr n at) t addr' seq now"
  using assms by (simp add: senders_stale_def newest_played older_than_the_newest_def)

lemma stale_other_target:
  assumes "senders_wf s" "u \<noteq> t"
  shows "senders_stale (senders_played s t addr n at) u addr' seq now =
         senders_stale s u addr' seq now"
  using assms by (simp add: senders_stale_def newest_played)

text \<open>One log line per run of ignored packets: the first one after a grant, and only that.\<close>

fun ignored_run :: "senders \<Rightarrow> tx_target \<Rightarrow> nat \<Rightarrow> bool list" where
  "ignored_run s t 0 = []"
| "ignored_run s t (Suc n) = (let (s', log) = senders_ignored s t in log # ignored_run s' t n)"

lemma ignored_run_counts:
  assumes "senders_wf s" "unat (sn_ignored s ! target_index t) = k" "k + n < 2 ^ 64"
  shows "ignored_run s t n = map (\<lambda>i. k + i = 0) [0..<n]"
  using assms
proof (induction n arbitrary: s k)
  case 0
  then show ?case by simp
next
  case (Suc n)
  let ?c = "sn_ignored s ! target_index t"
  let ?s' = "fst (senders_ignored s t)"
  have at: "sn_ignored ?s' ! target_index t = ?c + 1"
    using Suc.prems(1) by (simp add: senders_ignored_def senders_wf_def)
  have u: "unat (?c + 1) = Suc k"
    using Suc.prems(2,3) by (simp add: unat_word_ariths)
  have log: "snd (senders_ignored s t) \<longleftrightarrow> k = 0"
    using u by (auto simp: senders_ignored_def word_unat_eq_iff)
  have "ignored_run ?s' t n = map (\<lambda>i. Suc k + i = 0) [0..<n]"
    by (rule Suc.IH) (use Suc.prems u at in \<open>simp_all add: keep_inv\<close>)
  then show ?case
    using log by (simp add: case_prod_beta upt_conv_Cons map_Suc_upt [symmetric] del: upt_Suc)
qed

section \<open>What the decision promises\<close>

lemma intake_total:
  "intake a = Claim \<longleftrightarrow>
     ar_ptt a \<and> (\<not> ar_from_holder a \<or> \<not> ar_keyed a) \<and> \<not> ar_stale a \<and> \<not> ar_let_go_by_radio a"
  "intake a = Play \<longleftrightarrow> ar_from_holder a \<and> (ar_ptt a \<longrightarrow> ar_keyed a)"
  "intake a = Pass \<longleftrightarrow> \<not> ar_ptt a \<and> \<not> ar_from_holder a"
  by (auto simp: intake_def)

text \<open>Only the holder's packets play, and a packet without the flag takes nothing.\<close>

lemma play_only_holder: "intake a = Play \<Longrightarrow> ar_from_holder a"
  by (simp add: intake_total)

lemma release_never_ignored:
  "\<not> ar_ptt a \<Longrightarrow> ar_from_holder a \<Longrightarrow> intake a = Play"
  by (simp add: intake_total)

section \<open>Properties\<close>

text \<open>
  The arrival the loop builds for a packet: what the packet carries, who holds the transmitter,
  and what the memory of senders says of its number.
\<close>

definition arrival_of ::
    "senders \<Rightarrow> tx_target \<Rightarrow> socket_addr option \<Rightarrow> bool \<Rightarrow> bool \<Rightarrow> socket_addr \<Rightarrow> u32 \<Rightarrow> bool \<Rightarrow> instant \<Rightarrow> arrival" where
  "arrival_of s t holder keyed let_go addr seq ptt now =
     \<lparr> ar_ptt = ptt, ar_from_holder = (holder = Some addr), ar_keyed = keyed,
       ar_stale = senders_stale s t addr seq now, ar_let_go_by_radio = let_go \<rparr>"

text \<open>
  C35. A late packet keys nothing: once packet \<open>n\<close> of a client was played on a transmitter, a packet
  of that client with number \<open>n\<close>, or with any of the two thousand million numbers before it across
  the wrap, neither claims the transmitter nor - when it is not keyed - plays, for the whole of the
  two-second window; the newer half of the numbers is not held back.
\<close>

theorem late_packet_keys_nothing:
  assumes "senders_wf s" "now - at \<le> ms PTT_PACKET_TIMEOUT_MS" "k < 2 ^ 31"
  shows "intake (arrival_of (senders_played s t addr n at) t holder keyed let_go addr (n - of_nat k) True now)
           \<noteq> Claim \<and>
         \<not> (intake (arrival_of (senders_played s t addr n at) t holder False let_go addr (n - of_nat k) True now)
           = Play) \<and>
         (0 < k \<longrightarrow> \<not> senders_stale (senders_played s t addr n at) t addr (n + of_nat k) now)"
proof -
  have "\<not> sequence_after (n - of_nat k) n"
    using seq_after.behind [OF assms(3), of "n - of_nat k"] by simp
  moreover have "0 < k \<longrightarrow> sequence_after (n + of_nat k) n"
    using seq_after.ahead [of k n] assms(3) by blast
  ultimately show ?thesis
    using assms by (simp add: arrival_of_def intake_total stale_after_played)
qed

theorem late_packet_keys_nothing_witness:
  "intake (arrival_of (senders_played senders_default Thetis (SocketAddr 10 1) 3 0) Thetis None False False
      (SocketAddr 10 1) (3 - of_nat 5) True (ms 1999)) \<noteq> Claim"
  using late_packet_keys_nothing [of senders_default "ms 1999" 0 5 Thetis "SocketAddr 10 1" 3 None False False]
  by (simp add: senders_wf_def senders_default_def PTT_PACKET_TIMEOUT_MS_def)

text \<open>
  Who gets to act: a packet claims its transmitter only with the PTT flag, and never for a radio
  that let its sender go; only the holder's packets play; and the holder's release is never ignored,
  however late it is.
\<close>

theorem only_the_holder_plays:
  "(intake a = Claim \<longrightarrow> ar_ptt a \<and> \<not> ar_let_go_by_radio a \<and> \<not> ar_stale a) \<and>
   (intake a = Play \<longrightarrow> ar_from_holder a) \<and>
   (\<not> ar_ptt a \<and> ar_from_holder a \<longrightarrow> intake a = Play) \<and>
   (ar_from_holder a \<and> ar_keyed a \<longrightarrow> intake a = Play)"
  by (simp add: intake_total)

theorem only_the_holder_plays_witness:
  "intake \<lparr> ar_ptt = False, ar_from_holder = True, ar_keyed = True, ar_stale = True, ar_let_go_by_radio = True \<rparr> = Play"
  using only_the_holder_plays
    [of "\<lparr> ar_ptt = False, ar_from_holder = True, ar_keyed = True, ar_stale = True, ar_let_go_by_radio = True \<rparr>"]
  by simp

end
