(* ===== verification/TxDenial.thy ===== *)
theory TxDenial
  imports Prelude
begin

text \<open>
  How often a client is told that its request was turned down
  (\<^verbatim>\<open>sdr-remote-server/src/tx_denial.rs\<close>). The times are milliseconds since the server started
  (\<^verbatim>\<open>u64\<close>, natural numbers here); \<^verbatim>\<open>saturating_sub\<close> is the subtraction of \<open>nat\<close>. The table is a
  map; \<^verbatim>\<open>retain\<close> keeps the entries that are not forgotten.
\<close>

definition RESEND_MS :: nat where "RESEND_MS = 1000"

definition FORGET_AFTER_MS :: nat where "FORGET_AFTER_MS = 60000"

definition forgotten :: "nat \<Rightarrow> bool" where
  "forgotten since_last_ms \<longleftrightarrow> since_last_ms \<ge> FORGET_AFTER_MS"

definition denial_due :: "nat option \<Rightarrow> bool" where
  "denial_due since_last_ms =
     (case since_last_ms of None \<Rightarrow> True | Some m \<Rightarrow> m \<ge> RESEND_MS)"

record denial_log =
  told :: "socket_addr \<Rightarrow> nat option"

definition denial_log_default :: denial_log where
  "denial_log_default = \<lparr> told = Map.empty \<rparr>"

definition retain_told :: "nat \<Rightarrow> (socket_addr \<Rightarrow> nat option) \<Rightarrow> (socket_addr \<Rightarrow> nat option)" where
  "retain_told now_ms m =
     (\<lambda>a. case m a of None \<Rightarrow> None | Some at \<Rightarrow> if forgotten (now_ms - at) then None else Some at)"

definition should_send :: "denial_log \<Rightarrow> socket_addr \<Rightarrow> nat \<Rightarrow> denial_log \<times> bool" where
  "should_send d addr now_ms =
     (let m = retain_told now_ms (told d);
          since = map_option (\<lambda>at. now_ms - at) (m addr)
      in if denial_due since then (d\<lparr> told := m(addr \<mapsto> now_ms) \<rparr>, True)
         else (d\<lparr> told := m \<rparr>, False))"

definition is_first :: "denial_log \<Rightarrow> socket_addr \<Rightarrow> bool" where
  "is_first d addr \<longleftrightarrow> told d addr = None"

definition attempt_over :: "denial_log \<Rightarrow> socket_addr \<Rightarrow> denial_log" where
  "attempt_over d addr = d\<lparr> told := (told d)(addr := None) \<rparr>"

lemma retain_told_Some:
  "retain_told now m a = Some at \<longleftrightarrow> m a = Some at \<and> now - at < FORGET_AFTER_MS"
  by (auto simp: retain_told_def forgotten_def split: option.splits if_splits)

section \<open>Runs of requests\<close>

text \<open>
  The server asks once per refused packet and forgets an attempt when it is over. A run gives
  the times at which a refusal went out to one client.
\<close>

datatype denial_event = Ask socket_addr nat | Over socket_addr

fun told_times :: "denial_log \<Rightarrow> socket_addr \<Rightarrow> denial_event list \<Rightarrow> nat list" where
  "told_times d a [] = []"
| "told_times d a (Ask b t # es) =
     (let (d', send) = should_send d b t
      in (if send \<and> b = a then [t] else []) @ told_times d' a es)"
| "told_times d a (Over b # es) = told_times (attempt_over d b) a es"

fun ask_times :: "denial_event list \<Rightarrow> nat list" where
  "ask_times [] = []"
| "ask_times (Ask b t # es) = t # ask_times es"
| "ask_times (Over b # es) = ask_times es"

lemma told_times_subset: "set (told_times d a es) \<subseteq> set (ask_times es)"
proof (induction es arbitrary: d)
  case Nil
  then show ?case by simp
next
  case (Cons e es)
  then show ?case by (cases e) (fastforce split: prod.splits simp: Let_def)+
qed

text \<open>
  \<open>quiet_until d a t\<close>: if the log still knows \<open>a\<close>, it was told at a time that makes the next
  refusal wait until \<open>t\<close>; if it does not, nothing holds the next one back.
\<close>

lemma should_send_spacing:
  assumes "told d a = Some at" "should_send d a t = (d', True)" "at \<le> t"
  shows "at + RESEND_MS \<le> t"
  using assms
  by (auto simp: should_send_def Let_def denial_due_def retain_told_def forgotten_def
      RESEND_MS_def FORGET_AFTER_MS_def split: if_splits option.splits)

lemma should_send_keeps:
  assumes "told d a = Some at" "t < at + FORGET_AFTER_MS" "b \<noteq> a \<or> t < at + RESEND_MS"
  shows "told (fst (should_send d b t)) a = Some at"
  using assms
  by (auto simp: should_send_def Let_def denial_due_def retain_told_def forgotten_def
      RESEND_MS_def FORGET_AFTER_MS_def split: option.splits)

lemma should_send_records:
  "should_send d a t = (d', True) \<Longrightarrow> told d' a = Some t"
  by (auto simp: should_send_def Let_def split: if_splits)

lemma told_times_after:
  assumes "told d a = Some at" "sorted (at # ask_times es)" "Over a \<notin> set es"
  shows "\<forall>t \<in> set (told_times d a es). at + RESEND_MS \<le> t"
  using assms
proof (induction es arbitrary: d)
  case Nil
  then show ?case by simp
next
  case (Cons e es)
  show ?case
  proof (cases e)
    case (Over b)
    then have "told (attempt_over d b) a = Some at"
      using Cons.prems by (auto simp: attempt_over_def)
    then show ?thesis using Cons Over by auto
  next
    case (Ask b t)
    obtain d' send where ss: "should_send d b t = (d', send)" by fastforce
    have le: "at \<le> t" and sorted: "sorted (t # ask_times es)"
      using Cons.prems(2) Ask by auto
    show ?thesis
    proof (cases "at + RESEND_MS \<le> t")
      case True
      have "\<forall>u \<in> set (ask_times es). t \<le> u" using sorted by simp
      then show ?thesis
        using True ss Ask told_times_subset [of d' a es] by fastforce
    next
      case False
      then have "told d' a = Some at"
        using should_send_keeps [OF Cons.prems(1), of t b] ss
        by (simp add: RESEND_MS_def FORGET_AFTER_MS_def)
      moreover have "\<not> (send \<and> b = a)"
        using should_send_spacing [OF Cons.prems(1), of t d'] False ss le by auto
      moreover have "sorted (at # ask_times es)" using sorted le by auto
      ultimately show ?thesis using Cons.IH Cons.prems(3) ss Ask by auto
    qed
  qed
qed

lemma told_times_spaced:
  assumes "sorted (ask_times es)" "Over a \<notin> set es"
  shows "sorted_wrt (\<lambda>x y. x + RESEND_MS \<le> y) (told_times d a es)"
  using assms
proof (induction d a es rule: told_times.induct)
  case (1 d a)
  then show ?case by simp
next
  case (2 d a b t es)
  obtain d' send where ss: "should_send d b t = (d', send)" by fastforce
  have IH: "sorted_wrt (\<lambda>x y. x + RESEND_MS \<le> y) (told_times d' a es)"
    using "2.IH" [of "(d', send)" d' send] "2.prems" ss by simp
  have "send \<and> b = a \<Longrightarrow> \<forall>u \<in> set (told_times d' a es). t + RESEND_MS \<le> u"
    using told_times_after [of d' a t es] should_send_records [of d a t d'] ss "2.prems" by auto
  then show ?case using IH ss by auto
next
  case (3 d a b es)
  then show ?case by auto
qed

text \<open>
  Nothing is remembered for longer than \<open>FORGET_AFTER_MS\<close>: whatever a request finds, after it
  every entry is of the last minute. A client that falls silent is dropped by the next request
  of anybody.
\<close>

lemma should_send_prunes:
  "told (fst (should_send d b now)) a = Some at \<Longrightarrow> now - at < FORGET_AFTER_MS"
  by (auto simp: should_send_def Let_def retain_told_def forgotten_def FORGET_AFTER_MS_def
      split: if_splits option.splits)

lemma first_refusal_is_sent: "is_first d a \<Longrightarrow> snd (should_send d a now)"
  by (simp add: is_first_def should_send_def Let_def retain_told_def denial_due_def)

lemma told_again_after_a_second:
  assumes "told d a = Some at" "at + RESEND_MS \<le> now"
  shows "snd (should_send d a now)"
  using assms
  by (auto simp: should_send_def Let_def retain_told_def denial_due_def forgotten_def
      RESEND_MS_def FORGET_AFTER_MS_def)

section \<open>Properties\<close>

text \<open>
  Told, and told at most once a second: over any run of refused requests of any clients, at times
  that do not go back, a client whose attempt is not declared over hears of its refusals at least a
  second apart, and the first one always reaches it.
\<close>

theorem refusals_a_second_apart:
  assumes "sorted (ask_times es)" "Over a \<notin> set es"
  shows "sorted_wrt (\<lambda>x y. x + 1000 \<le> y) (told_times d a es) \<and>
         (is_first d a \<longrightarrow> told_times d a (Ask a t # es) \<noteq> [])"
  using told_times_spaced [OF assms] first_refusal_is_sent [of d a t]
  by (auto simp: RESEND_MS_def case_prod_beta)

theorem refusals_a_second_apart_witness:
  "sorted_wrt (\<lambda>x y. x + 1000 \<le> y)
     (told_times denial_log_default (SocketAddr 10 1)
        [Ask (SocketAddr 10 1) 0, Ask (SocketAddr 10 1) 20, Ask (SocketAddr 11 1) 40, Ask (SocketAddr 10 1) 1000])"
  using refusals_a_second_apart
    [of "[Ask (SocketAddr 10 1) 0, Ask (SocketAddr 10 1) 20, Ask (SocketAddr 11 1) 40, Ask (SocketAddr 10 1) 1000]"
        "SocketAddr 10 1" denial_log_default 0] by simp

end
