(* ===== verification/Utf8.thy ===== *)
theory Utf8
  imports Prelude
begin

text \<open>
  UTF-8 as the standard library reads it: \<^verbatim>\<open>String::from_utf8\<close>, which refuses what is not well formed,
  and \<^verbatim>\<open>String::from_utf8_lossy\<close>, which puts U+FFFD in the place of every maximal piece that is not.
  A \<^verbatim>\<open>String\<close> is the list of its UTF-8 bytes.
\<close>

definition utf8_cont :: "u8 \<Rightarrow> bool" where
  "utf8_cont b \<longleftrightarrow> 0x80 \<le> b \<and> b \<le> 0xBF"

definition REPLACEMENT_CHARACTER :: "u8 list" where
  "REPLACEMENT_CHARACTER = [0xEF, 0xBF, 0xBD]"

text \<open>
  How many bytes the next character takes, and whether they are one: an ill-formed sequence ends at
  the first byte that cannot continue it, and takes one byte at least.
\<close>

fun utf8_next :: "u8 list \<Rightarrow> nat \<times> bool" where
  "utf8_next [] = (0, True)"
| "utf8_next (a # bs) =
     (let at = (\<lambda>i. if i < length bs then bs ! i else 0)
      in if a < 0x80 then (1, True)
         else if 0xC2 \<le> a \<and> a \<le> 0xDF then (if utf8_cont (at 0) then (2, True) else (1, False))
         else if 0xE0 \<le> a \<and> a \<le> 0xEF then
           (if \<not> (utf8_cont (at 0) \<and> (a = 0xE0 \<longrightarrow> 0xA0 \<le> at 0) \<and> (a = 0xED \<longrightarrow> at 0 \<le> 0x9F)) then (1, False)
            else if \<not> utf8_cont (at 1) then (2, False) else (3, True))
         else if 0xF0 \<le> a \<and> a \<le> 0xF4 then
           (if \<not> (utf8_cont (at 0) \<and> (a = 0xF0 \<longrightarrow> 0x90 \<le> at 0) \<and> (a = 0xF4 \<longrightarrow> at 0 \<le> 0x8F)) then (1, False)
            else if \<not> utf8_cont (at 1) then (2, False)
            else if \<not> utf8_cont (at 2) then (3, False) else (4, True))
         else (1, False))"

lemma utf8_next_pos: "bs \<noteq> [] \<Longrightarrow> 0 < fst (utf8_next bs)"
  by (cases bs) (simp_all add: Let_def)

function utf8_valid :: "u8 list \<Rightarrow> bool" where
  "utf8_valid bs =
     (if bs = [] then True else let (n, ok) = utf8_next bs in ok \<and> utf8_valid (drop n bs))"
  by pat_completeness auto

termination
proof (relation "measure length")
  fix bs :: "u8 list" and p n ok
  assume "bs \<noteq> []" "p = utf8_next bs" "(n, ok) = p"
  then have "0 < n" using utf8_next_pos by (metis fst_conv)
  with \<open>bs \<noteq> []\<close> show "(drop n bs, bs) \<in> measure length" by simp
qed simp

function utf8_lossy :: "u8 list \<Rightarrow> u8 list" where
  "utf8_lossy bs =
     (if bs = [] then []
      else let (n, ok) = utf8_next bs
           in (if ok then take n bs else REPLACEMENT_CHARACTER) @ utf8_lossy (drop n bs))"
  by pat_completeness auto

termination
proof (relation "measure length")
  fix bs :: "u8 list" and p n ok
  assume "bs \<noteq> []" "p = utf8_next bs" "(n, ok) = p"
  then have "0 < n" using utf8_next_pos by (metis fst_conv)
  with \<open>bs \<noteq> []\<close> show "(drop n bs, bs) \<in> measure length" by simp
qed simp

declare utf8_valid.simps [simp del] utf8_lossy.simps [simp del]

lemma utf8_Nil [simp]: "utf8_valid []" "utf8_lossy [] = []"
  by (simp_all add: utf8_valid.simps utf8_lossy.simps)

lemma utf8_valid_step:
  "bs \<noteq> [] \<Longrightarrow> utf8_valid bs \<longleftrightarrow> snd (utf8_next bs) \<and> utf8_valid (drop (fst (utf8_next bs)) bs)"
  by (subst utf8_valid.simps) (simp add: case_prod_beta)

lemma utf8_lossy_step:
  "bs \<noteq> [] \<Longrightarrow> utf8_lossy bs =
     (if snd (utf8_next bs) then take (fst (utf8_next bs)) bs else REPLACEMENT_CHARACTER) @
     utf8_lossy (drop (fst (utf8_next bs)) bs)"
  by (subst utf8_lossy.simps) (simp add: case_prod_beta)

lemma utf8_cont_0 [simp]: "\<not> utf8_cont 0"
  by (simp add: utf8_cont_def)

text \<open>A whole character is read the same whatever follows it.\<close>

lemma utf8_next_prefix:
  assumes "utf8_next bs = (n, True)" "bs \<noteq> []"
  shows "n \<le> length bs \<and> utf8_next (take n bs @ ys) = (n, True)"
proof -
  obtain a cs where bs: "bs = a # cs" using assms(2) by (cases bs) auto
  let ?at = "\<lambda>i. if i < length cs then cs ! i else 0"
  have len: "i < length cs" if "utf8_cont (?at i)" for i using that by (simp split: if_splits)
  have same: "(if i < length (take m cs @ ys) then (take m cs @ ys) ! i else 0) = ?at i" if "i < m" "i < length cs" for i m
    using that by (auto simp: nth_append)
  have tk: "0 < n \<Longrightarrow> take n bs @ ys = a # (take (n - 1) cs @ ys)" using bs by (cases n) simp_all
  consider "a < 0x80" | "\<not> a < 0x80" "0xC2 \<le> a \<and> a \<le> 0xDF"
    | "\<not> a < 0x80" "\<not> (0xC2 \<le> a \<and> a \<le> 0xDF)" "0xE0 \<le> a \<and> a \<le> 0xEF"
    | "\<not> a < 0x80" "\<not> (0xC2 \<le> a \<and> a \<le> 0xDF)" "\<not> (0xE0 \<le> a \<and> a \<le> 0xEF)" "0xF0 \<le> a \<and> a \<le> 0xF4"
    using assms(1) unfolding bs by (simp add: Let_def split: if_splits)
  then show ?thesis
  proof cases
    case 1
    then show ?thesis using assms(1) tk bs by simp
  next
    case 2
    then have n: "n = 2" "utf8_cont (?at 0)" using assms(1) unfolding bs utf8_next.simps Let_def by (auto split: if_splits)
    then have "0 < length cs" using len by blast
    then show ?thesis using 2 n tk bs same [of 0 1] by (simp only: utf8_next.simps Let_def) (simp add: Suc_le_eq)
  next
    case 3
    then have n: "n = 3" "utf8_cont (?at 0)" "utf8_cont (?at 1)"
        "a = 0xE0 \<longrightarrow> 0xA0 \<le> ?at 0" "a = 0xED \<longrightarrow> ?at 0 \<le> 0x9F"
      using assms(1) unfolding bs utf8_next.simps Let_def by (auto split: if_splits)
    then have l: "0 < length cs" "1 < length cs" using len by blast+
    have "take n bs @ ys = a # (take 2 cs @ ys)" using tk n(1) by simp
    then show ?thesis using 3 n(1) l bs n(2-5)
      by (simp only: utf8_next.simps Let_def same [of 0 2] same [of 1 2]) simp
  next
    case 4
    then have n: "n = 4" "utf8_cont (?at 0)" "utf8_cont (?at 1)" "utf8_cont (?at 2)"
        "a = 0xF0 \<longrightarrow> 0x90 \<le> ?at 0" "a = 0xF4 \<longrightarrow> ?at 0 \<le> 0x8F"
      using assms(1) unfolding bs utf8_next.simps Let_def by (auto split: if_splits)
    then have l: "0 < length cs" "1 < length cs" "2 < length cs" using len by blast+
    have "take n bs @ ys = a # (take 3 cs @ ys)" using tk n(1) by simp
    then show ?thesis using 4 n(1) l bs n(2-6)
      by (simp only: utf8_next.simps Let_def same [of 0 3] same [of 1 3] same [of 2 3]) simp
  qed
qed

text \<open>What is well formed is read as it is; whatever comes in, what is read is well formed.\<close>

lemma utf8_lossy_valid [simp]: "utf8_valid bs \<Longrightarrow> utf8_lossy bs = bs"
proof (induction "length bs" arbitrary: bs rule: less_induct)
  case less
  show ?case
  proof (cases "bs = []")
    case False
    let ?n = "fst (utf8_next bs)"
    have v: "snd (utf8_next bs)" "utf8_valid (drop ?n bs)" using less.prems utf8_valid_step [OF False] by simp_all
    moreover have "length (drop ?n bs) < length bs" using utf8_next_pos [OF False] False by simp
    ultimately show ?thesis using less.hyps [of "drop ?n bs"] utf8_lossy_step [OF False] by simp
  qed simp
qed

lemma utf8_valid_char_append:
  assumes "utf8_next bs = (n, True)" "bs \<noteq> []" "utf8_valid ys"
  shows "utf8_valid (take n bs @ ys)"
proof -
  have p: "utf8_next (take n bs @ ys) = (n, True)" "n \<le> length bs" using utf8_next_prefix [OF assms(1,2)] by blast+
  have "0 < n" using utf8_next_pos [OF assms(2)] assms(1) by simp
  then have "take n bs @ ys \<noteq> []" using assms(2) by simp
  then show ?thesis using utf8_valid_step [of "take n bs @ ys"] p assms(3) by simp
qed

lemma utf8_valid_append: "utf8_valid xs \<Longrightarrow> utf8_valid ys \<Longrightarrow> utf8_valid (xs @ ys)"
proof (induction "length xs" arbitrary: xs rule: less_induct)
  case less
  show ?case
  proof (cases "xs = []")
    case False
    obtain n ok where n: "utf8_next xs = (n, ok)" by fastforce
    have v: "ok" "utf8_valid (drop n xs)" using less.prems(1) utf8_valid_step [OF False] n by simp_all
    have "length (drop n xs) < length xs" using utf8_next_pos [OF False] False n by simp
    then have "utf8_valid (drop n xs @ ys)" using less.hyps v(2) less.prems(2) by blast
    then have "utf8_valid (take n xs @ drop n xs @ ys)" using utf8_valid_char_append n v(1) False by simp
    then show ?thesis by (simp flip: append_assoc)
  qed (use less.prems in simp)
qed

lemma utf8_valid_replacement: "utf8_valid REPLACEMENT_CHARACTER"
  by (simp add: REPLACEMENT_CHARACTER_def utf8_valid.simps utf8_cont_def)

lemma utf8_valid_lossy [simp]: "utf8_valid (utf8_lossy bs)"
proof (induction "length bs" arbitrary: bs rule: less_induct)
  case less
  show ?case
  proof (cases "bs = []")
    case False
    obtain n ok where n: "utf8_next bs = (n, ok)" by fastforce
    have "length (drop n bs) < length bs" using utf8_next_pos [OF False] False n by simp
    then have r: "utf8_valid (utf8_lossy (drop n bs))" using less.hyps by blast
    then show ?thesis using utf8_lossy_step [OF False] n utf8_valid_char_append [of bs n] False
        utf8_valid_append [OF utf8_valid_replacement] by (cases ok) simp_all
  qed simp
qed

text \<open>ASCII text is well formed.\<close>

lemma utf8_valid_ascii: "list_all (\<lambda>b. b < 0x80) bs \<Longrightarrow> utf8_valid bs"
  by (induction bs) (simp_all add: utf8_valid_step)

end
