(* ===== verification/Auth.thy ===== *)
theory Auth
  imports Utf8
begin

text \<open>
  Challenge-response authentication (\<^verbatim>\<open>sdr-remote-core/src/auth.rs\<close>). HMAC-SHA256, HKDF-SHA256,
  the TOTP generator and base32 are crates: they are arguments of the definitions that use
  them (\<open>hmac key message\<close>, \<open>hkdf salt ikm info\<close>, \<open>totp secret time\<close>, \<open>b32\<close>). A MAC is fed
  in pieces (\<^verbatim>\<open>update\<close>), which is the MAC of their concatenation. Text is its UTF-8 bytes.
\<close>

type_synonym bytes = "u8 list"

fun bytes_of :: "string \<Rightarrow> bytes" where
  "bytes_of [] = []"
| "bytes_of (c # cs) = of_char c # bytes_of cs"

definition NONCE_SIZE :: nat where "NONCE_SIZE = 16"
definition HMAC_SIZE :: nat where "HMAC_SIZE = 32"
definition BINDING_SIZE :: nat where "BINDING_SIZE = 32"
definition CLIENT_NONCE_SIZE :: nat where "CLIENT_NONCE_SIZE = 16"
definition CHALLENGE_TTL_SECS :: nat where "CHALLENGE_TTL_SECS = 10"

definition BINDING_LABEL :: bytes where
  "BINDING_LABEL = bytes_of ''ThetisLink channel binding v1''"

definition SESSION_KEY_INFO :: bytes where
  "SESSION_KEY_INFO = bytes_of ''ThetisLink session key v1''"

definition SERVER_PROOF_LABEL :: bytes where
  "SERVER_PROOF_LABEL = bytes_of ''ThetisLink server proof''"

section \<open>The MACs\<close>

definition mac_binding :: "bytes option \<Rightarrow> bytes" where
  "mac_binding binding = (case binding of None \<Rightarrow> [] | Some b \<Rightarrow> BINDING_LABEL @ b)"

definition compute_hmac ::
    "(bytes \<Rightarrow> bytes \<Rightarrow> bytes) \<Rightarrow> bytes \<Rightarrow> bytes \<Rightarrow> bytes option \<Rightarrow> bytes" where
  "compute_hmac hmac password nonce binding = hmac password (nonce @ mac_binding binding)"

fun or_diffs :: "u8 \<Rightarrow> (u8 \<times> u8) list \<Rightarrow> u8" where
  "or_diffs diff [] = diff"
| "or_diffs diff ((x, y) # ps) = or_diffs (diff OR (x XOR y)) ps"

definition constant_time_eq :: "bytes \<Rightarrow> bytes \<Rightarrow> bool" where
  "constant_time_eq a b =
     (if length a \<noteq> length b then False else or_diffs 0 (zip a b) = 0)"

definition verify_hmac ::
    "(bytes \<Rightarrow> bytes \<Rightarrow> bytes) \<Rightarrow> bytes \<Rightarrow> bytes \<Rightarrow> bytes \<Rightarrow> bytes option \<Rightarrow> bool" where
  "verify_hmac hmac password nonce hmac_response binding =
     (let expected = compute_hmac hmac password nonce binding
      in constant_time_eq expected hmac_response)"

definition session_key_of ::
    "(bytes \<Rightarrow> bytes \<Rightarrow> bytes \<Rightarrow> bytes) \<Rightarrow> bytes \<Rightarrow> bytes \<Rightarrow> bytes \<Rightarrow> bytes option \<Rightarrow> bytes" where
  "session_key_of hkdf password server_nonce client_nonce binding =
     (let salt = server_nonce @ client_nonce @
                 (case binding of None \<Rightarrow> [] | Some b \<Rightarrow> BINDING_LABEL @ b)
      in hkdf salt password SESSION_KEY_INFO)"

definition server_proof ::
    "(bytes \<Rightarrow> bytes \<Rightarrow> bytes) \<Rightarrow> bytes \<Rightarrow> bytes \<Rightarrow> bytes \<Rightarrow> bytes option \<Rightarrow> bytes" where
  "server_proof hmac key server_nonce client_nonce binding =
     hmac key (SERVER_PROOF_LABEL @ server_nonce @ client_nonce @ mac_binding binding)"

definition verify_server_proof ::
    "(bytes \<Rightarrow> bytes \<Rightarrow> bytes) \<Rightarrow> bytes \<Rightarrow> bytes \<Rightarrow> bytes \<Rightarrow> bytes \<Rightarrow> bytes option \<Rightarrow> bool" where
  "verify_server_proof hmac key server_nonce client_nonce proof binding =
     constant_time_eq (server_proof hmac key server_nonce client_nonce binding) proof"

text \<open>The constant-time comparison is equality.\<close>

lemma xor_zero_iff: "x XOR y = (0 :: u8) \<longleftrightarrow> x = y"
proof
  assume "x XOR y = 0"
  then have "(x XOR y) XOR y = y" by simp
  then show "x = y" by (simp add: xor.assoc)
qed simp

lemma or_diffs_zero: "or_diffs d ps = 0 \<longleftrightarrow> d = 0 \<and> (\<forall>(x, y) \<in> set ps. x = y)"
  by (induction d ps rule: or_diffs.induct) (auto simp: or_eq_0_iff xor_zero_iff)

lemma constant_time_eq_iff [simp]: "constant_time_eq a b \<longleftrightarrow> a = b"
proof -
  have "length a = length b \<Longrightarrow> (\<forall>(x, y) \<in> set (zip a b). x = y) \<longleftrightarrow> a = b"
    by (induction a b rule: list_induct2) auto
  then show ?thesis by (auto simp: constant_time_eq_def or_diffs_zero)
qed

text \<open>
  Domain separation: a nonce of the fixed size and an optional binding of the fixed size
  determine the message that is authenticated, and the other way round.
\<close>

lemma mac_binding_inject:
  "mac_binding b = mac_binding b' \<longleftrightarrow> b = b'"
  by (auto simp: mac_binding_def BINDING_LABEL_def split: option.splits)

lemma mac_message_inject:
  assumes "length n = NONCE_SIZE" "length n' = NONCE_SIZE"
  shows "n @ mac_binding b = n' @ mac_binding b' \<longleftrightarrow> n = n' \<and> b = b'"
  using assms by (simp add: mac_binding_inject)

lemma proof_message_inject:
  assumes "length ns = NONCE_SIZE" "length ns' = NONCE_SIZE"
    and "length nc = CLIENT_NONCE_SIZE" "length nc' = CLIENT_NONCE_SIZE"
  shows "SERVER_PROOF_LABEL @ ns @ nc @ mac_binding b = SERVER_PROOF_LABEL @ ns' @ nc' @ mac_binding b'
     \<longleftrightarrow> ns = ns' \<and> nc = nc' \<and> b = b'"
  using assms by (simp add: mac_binding_inject)

lemma verify_hmac_iff:
  "verify_hmac hmac pw n r b \<longleftrightarrow> r = compute_hmac hmac pw n b"
  by (auto simp: verify_hmac_def)

section \<open>Passwords in the configuration file\<close>

definition OBFUSCATE_KEY :: bytes where
  "OBFUSCATE_KEY = bytes_of ''ThetisLink-PSK-2026''"

definition xor_key :: "bytes \<Rightarrow> bytes" where
  "xor_key bs =
     map (\<lambda>(i, b). b XOR OBFUSCATE_KEY ! (i mod length OBFUSCATE_KEY)) (enumerate 0 bs)"

definition hex_digit :: "u8 \<Rightarrow> u8" where
  "hex_digit n = (if n < 10 then 48 + n else 87 + n)"

definition hex_byte :: "u8 \<Rightarrow> bytes" where
  "hex_byte b = [hex_digit (drop_bit 4 b), hex_digit (take_bit 4 b)]"

definition obfuscate_password :: "bytes \<Rightarrow> bytes" where
  "obfuscate_password password = concat (map hex_byte (xor_key password))"

definition is_ascii_hexdigit :: "u8 \<Rightarrow> bool" where
  "is_ascii_hexdigit c \<longleftrightarrow> 48 \<le> c \<and> c \<le> 57 \<or> 65 \<le> c \<and> c \<le> 70 \<or> 97 \<le> c \<and> c \<le> 102"

definition hex_value :: "u8 \<Rightarrow> u8 option" where
  "hex_value c =
     (if 48 \<le> c \<and> c \<le> 57 then Some (c - 48)
      else if 97 \<le> c \<and> c \<le> 102 then Some (c - 87)
      else if 65 \<le> c \<and> c \<le> 70 then Some (c - 55)
      else None)"

text \<open>\<^verbatim>\<open>u8::from_str_radix(&encoded[i..i + 2], 16)\<close> over the pairs, stopping at the first error.\<close>

fun parse_hex_pairs :: "bytes \<Rightarrow> bytes option" where
  "parse_hex_pairs [] = Some []"
| "parse_hex_pairs [c] = None"
| "parse_hex_pairs (c # d # cs) =
     (case (hex_value c, hex_value d, parse_hex_pairs cs) of
        (Some x, Some y, Some bs) \<Rightarrow> Some ((push_bit 4 x OR y) # bs)
      | _ \<Rightarrow> None)"

definition deobfuscate_password :: "bytes \<Rightarrow> bytes option" where
  "deobfuscate_password encoded =
     (if length encoded mod 2 \<noteq> 0 \<or> \<not> list_all is_ascii_hexdigit encoded then None
      else case parse_hex_pairs encoded of
             None \<Rightarrow> None
           | Some bs \<Rightarrow> (let decoded = xor_key bs in if utf8_valid decoded then Some decoded else None))"

lemma length_xor_key [simp]: "length (xor_key bs) = length bs"
  by (simp add: xor_key_def)

lemma xor_key_nth:
  "i < length bs \<Longrightarrow> xor_key bs ! i = bs ! i XOR OBFUSCATE_KEY ! (i mod length OBFUSCATE_KEY)"
  by (simp add: xor_key_def nth_enumerate_eq)

lemma xor_key_invol [simp]: "xor_key (xor_key bs) = bs"
  by (rule nth_equalityI) (simp_all add: xor_key_nth xor.assoc)

lemma hex_nibble:
  assumes "n < 16"
  shows "hex_value (hex_digit n) = Some n \<and> is_ascii_hexdigit (hex_digit n)"
proof -
  have n: "unat n < 16" using assms by (simp add: word_less_nat_alt)
  have u: "unat (48 + n) = 48 + unat n" "unat (87 + n) = 87 + unat n"
    using n by (simp_all add: unat_word_ariths)
  have lt: "n < 10 \<longleftrightarrow> unat n < 10" by (simp add: word_less_nat_alt)
  show ?thesis using n u lt
    by (auto simp: hex_digit_def hex_value_def is_ascii_hexdigit_def word_le_nat_alt)
qed

lemma nibbles_less: "drop_bit 4 (b :: u8) < 16" "take_bit 4 b < 16"
proof -
  have "unat b < 2 ^ LENGTH(8)" by (rule unsigned_less)
  moreover have "unat (drop_bit 4 b) = unat b div 16"
    by (subst unat_drop_bit_eq) (simp add: drop_bit_eq_div)
  ultimately show "drop_bit 4 b < 16" by (simp add: word_less_nat_alt)
  have "unat (take_bit 4 b) = unat b mod 16"
    by (subst unsigned_take_bit_eq) (simp add: take_bit_eq_mod)
  then show "take_bit 4 b < 16" by (simp add: word_less_nat_alt)
qed

lemma nibbles_join: "push_bit 4 (drop_bit 4 b) OR (take_bit 4 b) = (b :: u8)"
  by (rule bit_eqI) (auto simp: bit_simps)

lemma hex_byte_parse:
  "hex_value (hex_digit (drop_bit 4 b)) = Some (drop_bit 4 b)"
  "hex_value (hex_digit (take_bit 4 b)) = Some (take_bit 4 b)"
  "is_ascii_hexdigit (hex_digit (drop_bit 4 b))"
  "is_ascii_hexdigit (hex_digit (take_bit 4 b))"
  by (simp_all add: hex_nibble nibbles_less)

lemma parse_hex_bytes: "parse_hex_pairs (concat (map hex_byte bs)) = Some bs"
  by (induction bs) (simp_all add: hex_byte_def hex_byte_parse nibbles_join)

lemma hex_bytes_shape:
  "length (concat (map hex_byte bs)) mod 2 = 0 \<and> list_all is_ascii_hexdigit (concat (map hex_byte bs))"
  by (induction bs) (simp_all add: hex_byte_def hex_byte_parse)

lemma deobfuscate_obfuscate:
  "utf8_valid p \<Longrightarrow> deobfuscate_password (obfuscate_password p) = Some p"
  by (simp add: deobfuscate_password_def obfuscate_password_def parse_hex_bytes hex_bytes_shape)

section \<open>Time-based codes\<close>

definition TOTP_PERIOD :: nat where "TOTP_PERIOD = 30"
definition TOTP_DIGITS :: nat where "TOTP_DIGITS = 6"

definition totp_key_bytes :: "(bytes \<Rightarrow> bytes option) \<Rightarrow> bytes \<Rightarrow> bytes option" where
  "totp_key_bytes b32 secret =
     (case b32 secret of None \<Rightarrow> None | Some k \<Rightarrow> if k = [] then None else Some k)"

definition totp_secret_decodes :: "(bytes \<Rightarrow> bytes option) \<Rightarrow> bytes \<Rightarrow> bool" where
  "totp_secret_decodes b32 secret \<longleftrightarrow> totp_key_bytes b32 secret \<noteq> None"

text \<open>\<^verbatim>\<open>now\<close> is Unix time in seconds; the cast \<^verbatim>\<open>(now as i64 + offset) as u64\<close> wraps.\<close>

definition verify_totp_at ::
    "(bytes \<Rightarrow> bytes option) \<Rightarrow> (bytes \<Rightarrow> u64 \<Rightarrow> bytes) \<Rightarrow> u64 \<Rightarrow> bytes \<Rightarrow> bytes \<Rightarrow> bool" where
  "verify_totp_at b32 totp now secret code =
     (if length code \<noteq> TOTP_DIGITS then False
      else case totp_key_bytes b32 secret of
             None \<Rightarrow> False
           | Some k \<Rightarrow>
               list_ex (\<lambda>offset. totp k (now + offset) = code)
                 [0, - of_nat TOTP_PERIOD, of_nat TOTP_PERIOD])"

lemma verify_totp_at_iff:
  "verify_totp_at b32 totp now secret code \<longleftrightarrow>
     length code = 6 \<and>
     (\<exists>k. totp_key_bytes b32 secret = Some k \<and>
          (code = totp k now \<or> code = totp k (now - 30) \<or> code = totp k (now + 30)))"
  by (auto simp: verify_totp_at_def TOTP_DIGITS_def TOTP_PERIOD_def split: option.splits)

lemma no_key_no_code: "\<not> totp_secret_decodes b32 secret \<Longrightarrow> \<not> verify_totp_at b32 totp now secret code"
  by (auto simp: verify_totp_at_iff totp_secret_decodes_def)

section \<open>Properties\<close>

text \<open>Two different inputs on which the MAC agrees.\<close>

definition mac_collision ::
    "(bytes \<Rightarrow> bytes \<Rightarrow> bytes) \<Rightarrow> bytes \<times> bytes \<Rightarrow> bytes \<times> bytes \<Rightarrow> bool" where
  "mac_collision hmac x y \<longleftrightarrow> x \<noteq> y \<and> hmac (fst x) (snd x) = hmac (fst y) (snd y)"

text \<open>
  An answer is good for one challenge and one channel: an answer made with some password for one
  nonce and one binding verifies under another password, for another challenge or on another
  connection - what somebody in the middle relays - only if these two very inputs are a collision of
  the HMAC; and the right answer always verifies.
\<close>

theorem answer_bound_to_challenge_and_channel:
  assumes "length n = NONCE_SIZE" "length n' = NONCE_SIZE"
  shows "verify_hmac hmac pw n (compute_hmac hmac pw' n' b') b \<longleftrightarrow>
           (pw', n', b') = (pw, n, b) \<or>
           mac_collision hmac (pw', n' @ mac_binding b') (pw, n @ mac_binding b)"
  using mac_message_inject [OF assms(2,1), of b' b]
  by (auto simp: verify_hmac_iff compute_hmac_def mac_collision_def)

theorem answer_bound_to_challenge_and_channel_witness:
  "\<not> verify_hmac (\<lambda>k msg. k @ msg) [9] (replicate 16 1)
      (compute_hmac (\<lambda>k msg. k @ msg) [9] (replicate 16 1) (Some [7])) (Some [8])"
  using answer_bound_to_challenge_and_channel [of "replicate 16 1" "replicate 16 1" "\<lambda>k msg. k @ msg" "[9]" "[9]" "Some [7]" "Some [8]"]
  by (simp add: NONCE_SIZE_def mac_collision_def mac_binding_def)

text \<open>
  The server's proof is bound the same way: a proof made for one pair of nonces and one binding
  verifies for another pair or another binding only through a collision of the HMAC on these two
  very inputs.
\<close>

theorem proof_bound_to_nonces_and_channel:
  assumes "length ns = NONCE_SIZE" "length ns' = NONCE_SIZE"
    and "length nc = CLIENT_NONCE_SIZE" "length nc' = CLIENT_NONCE_SIZE"
  shows "verify_server_proof hmac key ns nc (server_proof hmac key' ns' nc' b') b \<longleftrightarrow>
           (key', ns', nc', b') = (key, ns, nc, b) \<or>
           mac_collision hmac (key', SERVER_PROOF_LABEL @ ns' @ nc' @ mac_binding b')
                              (key, SERVER_PROOF_LABEL @ ns @ nc @ mac_binding b)"
  using proof_message_inject [OF assms(2,1,4,3), of b' b]
  by (auto simp: verify_server_proof_def server_proof_def mac_collision_def)

theorem proof_bound_to_nonces_and_channel_witness:
  "verify_server_proof (\<lambda>k msg. k @ msg) [5] (replicate 16 1) (replicate 16 2)
     (server_proof (\<lambda>k msg. k @ msg) [5] (replicate 16 1) (replicate 16 2) None) None"
  using proof_bound_to_nonces_and_channel [of "replicate 16 1" "replicate 16 1" "replicate 16 2" "replicate 16 2"
      "\<lambda>k msg. k @ msg" "[5]" "[5]" None None]
  by (simp add: NONCE_SIZE_def CLIENT_NONCE_SIZE_def)

text \<open>
  A password survives the configuration file: what was obfuscated is read back, for every
  UTF-8 text; and a value that is not of that form is refused rather than mangled.
\<close>

theorem password_survives_the_file:
  "(utf8_valid p \<longrightarrow> deobfuscate_password (obfuscate_password p) = Some p) \<and>
   (deobfuscate_password e = Some q \<longrightarrow>
      even (length e) \<and> list_all is_ascii_hexdigit e \<and> utf8_valid q)"
proof -
  have "deobfuscate_password e = Some q \<Longrightarrow> even (length e) \<and> list_all is_ascii_hexdigit e \<and> utf8_valid q"
    by (auto simp: deobfuscate_password_def Let_def even_iff_mod_2_eq_zero split: if_splits option.splits)
  then show ?thesis using deobfuscate_obfuscate by blast
qed

theorem password_survives_the_file_witness:
  "deobfuscate_password (obfuscate_password [0x70, 0xC3, 0xA9]) = Some [0x70, 0xC3, 0xA9]"
  using password_survives_the_file [of "[0x70, 0xC3, 0xA9]"] by (simp add: utf8_cont_def utf8_valid.simps)

text \<open>
  A code is accepted exactly when it has six characters and is the code of now, of thirty seconds
  ago or of thirty seconds ahead, under a secret that decodes to a key that is not empty.
\<close>

theorem code_accepted_within_one_period:
  "verify_totp_at b32 totp now secret code \<longleftrightarrow>
     length code = 6 \<and>
     (\<exists>k. b32 secret = Some k \<and> k \<noteq> [] \<and> code \<in> {totp k now, totp k (now - 30), totp k (now + 30)})"
  by (auto simp: verify_totp_at_iff totp_key_bytes_def split: option.splits if_splits)

end
