(* ===== verification/ControlAck.thy ===== *)
theory ControlAck
  imports Prelude
begin

text \<open>
  Acknowledged controls (\<^verbatim>\<open>sdr-remote-core/src/control_ack.rs\<close>, and \<^verbatim>\<open>numbered_control\<close> of
  \<^verbatim>\<open>protocol.rs\<close>): the client numbers, keeps and repeats (\<open>control_sender\<close>), the server decides
  whether a number is new (\<open>control_receiver\<close>). Counters are words; \<^verbatim>\<open>HashMap\<close> is a map,
  \<^verbatim>\<open>VecDeque\<close> a list with its front first, \<^verbatim>\<open>HashSet\<close> a set.
\<close>

section \<open>Keys\<close>

datatype control_key =
    Control u8
  | Yaesu u8 u8
  | Action u8 u32
  | YaesuAction u8 u8 u32

definition is_act :: "control_key \<Rightarrow> bool" where
  "is_act k = (case k of Action _ _ \<Rightarrow> True | YaesuAction _ _ _ \<Rightarrow> True | _ \<Rightarrow> False)"

text \<open>The ids of the controls that are acts, from the \<^verbatim>\<open>ControlId\<close> enum.\<close>

definition ACTIONS :: "u8 list" where
  "ACTIONS = [0x19, 0x25, 0x27, 0x2D, 0x2E, 0x2F, 0x4A, 0x46, 0x97, 0x85, 0x87, 0x8D, 0x8E, 0x8F]"

definition is_action :: "u8 \<Rightarrow> u16 \<Rightarrow> bool" where
  "is_action cid value =
     (if list_ex (\<lambda>a. a = cid) ACTIONS then True
      else (cid = 0x28 \<or> cid = 0x88) \<and> value \<ge> 2)"

definition is_yaesu_action :: "u8 \<Rightarrow> u16 \<Rightarrow> bool" where
  "is_yaesu_action control value \<longleftrightarrow> control = 24"

text \<open>
  \<^verbatim>\<open>buf.get(i)?\<close> is an index that may fail. Only the two control types are numbered, whatever
  other byte stands at the type's place.
\<close>

definition CONTROL_SIZE :: nat where "CONTROL_SIZE = 7"
definition YAESU_CONTROL_SIZE :: nat where "YAESU_CONTROL_SIZE = 8"

definition numbered_control :: "u8 list \<Rightarrow> (control_key \<times> u32) option" where
  "numbered_control buf =
     (case get_byte buf 2 of
        None \<Rightarrow> None
      | Some ty \<Rightarrow>
          (if ty \<noteq> 0x04 \<and> ty \<noteq> 0x2C then None
           else
             let at = (if ty = 0x04 then CONTROL_SIZE else YAESU_CONTROL_SIZE)
             in if length buf < at + 4 then None
                else
                  let seq = u32_be (buf ! at) (buf ! (at + 1)) (buf ! (at + 2)) (buf ! (at + 3));
                      key =
                        (if ty = 0x04 then
                           (let cid = buf ! 4; value = u16_be (buf ! 5) (buf ! 6)
                            in if is_action cid value then Action cid seq else Control cid)
                         else
                           (let slot = buf ! 4; control = buf ! 5; value = u16_be (buf ! 6) (buf ! 7)
                            in if is_yaesu_action control value then YaesuAction slot control seq
                               else Yaesu slot control))
                  in Some (key, seq)))"

section \<open>The client\<close>

definition MAX_REPEATS :: nat where "MAX_REPEATS = 4"
definition FIRST_REPEAT_MIN :: duration where "FIRST_REPEAT_MIN = ms 100"
definition FIRST_REPEAT_MAX :: duration where "FIRST_REPEAT_MAX = ms 500"
definition REPEAT_WINDOW :: duration where "REPEAT_WINDOW = ms (500 * 15)"

definition first_wait :: "duration \<Rightarrow> duration" where
  "first_wait rtt = clamp FIRST_REPEAT_MIN FIRST_REPEAT_MAX (rtt * 3 div 2)"

record pending =
  pd_key :: control_key
  pd_seq :: u32
  pd_sent_at :: instant
  pd_bytes :: "u8 list"
  pd_next_at :: instant
  pd_wait :: duration
  pd_repeats :: nat

record due =
  du_resend :: "u8 list list"
  du_given_up :: "control_key list"

record control_sender =
  cs_next_seq :: u32
  cs_session_first :: u32
  cs_pending :: "pending list"
  cs_server_acknowledges :: bool
  cs_sent :: u32
  cs_repeated :: u32
  cs_given_up :: u32

definition starting_at :: "u32 \<Rightarrow> control_sender" where
  "starting_at seq =
     (let first = max seq 1
      in \<lparr> cs_next_seq = first, cs_session_first = first, cs_pending = [],
           cs_server_acknowledges = False, cs_sent = 0, cs_repeated = 0, cs_given_up = 0 \<rparr>)"

text \<open>\<^verbatim>\<open>clock_ms\<close>: milliseconds since the epoch, \<^verbatim>\<open>None\<close> when the clock is before it.\<close>

definition control_sender_new :: "nat option \<Rightarrow> control_sender" where
  "control_sender_new clock_ms =
     starting_at (case clock_ms of None \<Rightarrow> 1 | Some m \<Rightarrow> of_nat m)"

definition send_control ::
    "control_sender \<Rightarrow> u8 list \<Rightarrow> instant \<Rightarrow> duration \<Rightarrow> control_sender \<times> u8 list" where
  "send_control s packet now rtt =
     (let seq = cs_next_seq s;
          bytes = packet @ u32_to_be seq
      in case numbered_control bytes of
           None \<Rightarrow> (s, packet)
         | Some (key, _) \<Rightarrow>
             (let wait = first_wait rtt;
                  p = \<lparr> pd_key = key, pd_seq = seq, pd_sent_at = now, pd_bytes = bytes,
                        pd_next_at = now + wait, pd_wait = wait, pd_repeats = 0 \<rparr>
              in (s\<lparr> cs_next_seq := max (cs_next_seq s + 1) 1,
                     cs_sent := cs_sent s + 1,
                     cs_pending := filter (\<lambda>q. pd_key q \<noteq> key) (cs_pending s) @ [p] \<rparr>,
                  bytes)))"

definition sent_this_session :: "control_sender \<Rightarrow> u32 \<Rightarrow> bool" where
  "sent_this_session s seq \<longleftrightarrow>
     seq - cs_session_first s < cs_next_seq s - cs_session_first s"

definition acknowledged :: "control_sender \<Rightarrow> u32 \<Rightarrow> instant \<Rightarrow> control_sender" where
  "acknowledged s seq now =
     (if \<not> sent_this_session s seq then s
      else
        let s1 = (if \<not> cs_server_acknowledges s
                  then s\<lparr> cs_server_acknowledges := True,
                          cs_pending := map (\<lambda>p. p\<lparr> pd_next_at := now + pd_wait p \<rparr>) (cs_pending s) \<rparr>
                  else s)
        in s1\<lparr> cs_pending := filter (\<lambda>p. pd_seq p \<noteq> seq) (cs_pending s1) \<rparr>)"

text \<open>The loop of \<^verbatim>\<open>due\<close> over the drained entries: what is kept, and what is handed back.\<close>

fun due_loop :: "instant \<Rightarrow> pending list \<Rightarrow> pending list \<times> due" where
  "due_loop now [] = ([], \<lparr> du_resend = [], du_given_up = [] \<rparr>)"
| "due_loop now (p # ps) =
     (let (keep, d) = due_loop now ps
      in if now < pd_next_at p then (p # keep, d)
         else if pd_repeats p \<ge> MAX_REPEATS
         then (keep, d\<lparr> du_given_up := pd_key p # du_given_up d \<rparr>)
         else
           (let wait = pd_wait p * 2
            in (p\<lparr> pd_repeats := pd_repeats p + 1, pd_wait := wait, pd_next_at := now + wait \<rparr> # keep,
                d\<lparr> du_resend := pd_bytes p # du_resend d \<rparr>)))"

definition due_now :: "control_sender \<Rightarrow> instant \<Rightarrow> control_sender \<times> due" where
  "due_now s now =
     (if \<not> cs_server_acknowledges s then
        (s\<lparr> cs_pending :=
              filter (\<lambda>p. \<not> is_act (pd_key p) \<or> now - pd_sent_at p < REPEAT_WINDOW) (cs_pending s) \<rparr>,
         \<lparr> du_resend = [], du_given_up = [] \<rparr>)
      else
        (let (keep, d) = due_loop now (cs_pending s)
         in (s\<lparr> cs_pending := keep,
                cs_repeated := cs_repeated s + of_nat (length (du_resend d)),
                cs_given_up := cs_given_up s + of_nat (length (du_given_up d)) \<rparr>, d)))"

definition session_ended :: "control_sender \<Rightarrow> control_sender" where
  "session_ended s =
     s\<lparr> cs_pending := [], cs_server_acknowledges := False, cs_session_first := cs_next_seq s \<rparr>"

definition unacknowledged :: "control_sender \<Rightarrow> nat" where
  "unacknowledged s = length (cs_pending s)"

definition take_counts :: "control_sender \<Rightarrow> control_sender \<times> (u32 \<times> u32 \<times> u32)" where
  "take_counts s =
     (s\<lparr> cs_sent := 0, cs_repeated := 0, cs_given_up := 0 \<rparr>,
      (cs_sent s, cs_repeated s, cs_given_up s))"

section \<open>The server\<close>

datatype verdict = Apply | Repeat | StaleControl

definition ACTS_REMEMBERED :: nat where "ACTS_REMEMBERED = 64"

record control_receiver =
  cr_last_applied :: "control_key \<Rightarrow> u32 option"
  cr_acts :: "u32 list"
  cr_acts_seen :: "u32 set"

definition control_receiver_new :: control_receiver where
  "control_receiver_new = \<lparr> cr_last_applied = Map.empty, cr_acts = [], cr_acts_seen = {} \<rparr>"

definition judge :: "control_receiver \<Rightarrow> control_key \<Rightarrow> u32 \<Rightarrow> control_receiver \<times> verdict" where
  "judge r key seq =
     (if is_act key then
        (if seq \<in> cr_acts_seen r then (r, Repeat)
         else
           let (acts, seen) =
             (if length (cr_acts r) = ACTS_REMEMBERED then
                (case cr_acts r of
                   [] \<Rightarrow> (cr_acts r, cr_acts_seen r)
                 | old # rest \<Rightarrow> (rest, cr_acts_seen r - {old}))
              else (cr_acts r, cr_acts_seen r))
           in (r\<lparr> cr_acts := acts @ [seq], cr_acts_seen := insert seq seen \<rparr>, Apply))
      else
        (case cr_last_applied r key of
           None \<Rightarrow> (r\<lparr> cr_last_applied := (cr_last_applied r)(key \<mapsto> seq) \<rparr>, Apply)
         | Some prev \<Rightarrow>
             (if seq = prev then (r, Repeat)
              else if seq - prev <s 0 then (r, StaleControl)
              else (r\<lparr> cr_last_applied := (cr_last_applied r)(key \<mapsto> seq) \<rparr>, Apply))))"

definition receiver_reset :: "control_receiver \<Rightarrow> control_receiver" where
  "receiver_reset r = \<lparr> cr_last_applied = Map.empty, cr_acts = [], cr_acts_seen = {} \<rparr>"


section \<open>What the receiver promises\<close>

text \<open>
  A setting is ordered: it is applied exactly when its number comes after the last one applied
  for the same control, in serial-number arithmetic.
\<close>

definition newer_than :: "u32 \<Rightarrow> u32 \<Rightarrow> bool" where
  "newer_than a b \<longleftrightarrow> a \<noteq> b \<and> \<not> a - b <s 0"

lemma newer_than_signed: "newer_than a b \<longleftrightarrow> 0 < sint (a - b)"
proof -
  have "sint (a - b) = 0 \<longleftrightarrow> uint (a - b) = 0"
    using uint_lt2p [of "a - b"] by (auto simp: sint_u32)
  also have "\<dots> \<longleftrightarrow> a = b" by (simp add: uint_0_iff)
  finally have "sint (a - b) = 0 \<longleftrightarrow> a = b" .
  then show ?thesis by (auto simp: newer_than_def word_sless_alt)
qed

interpretation control_order: serial_order newer_than
  by unfold_locales (rule newer_than_signed)

lemma judge_setting:
  assumes "\<not> is_act key"
  shows "snd (judge r key seq) = Apply \<longleftrightarrow>
           (\<forall>prev. cr_last_applied r key = Some prev \<longrightarrow> newer_than seq prev)"
    and "cr_last_applied (fst (judge r key seq)) =
           (if snd (judge r key seq) = Apply then (cr_last_applied r)(key \<mapsto> seq)
            else cr_last_applied r)"
    and "snd (judge r key seq) \<noteq> Apply \<Longrightarrow> fst (judge r key seq) = r"
  using assms by (auto simp: judge_def newer_than_def split: option.splits)

text \<open>The acts: a window of the last numbers, as a queue and as a set.\<close>

definition receiver_inv :: "control_receiver \<Rightarrow> bool" where
  "receiver_inv r \<longleftrightarrow>
     cr_acts_seen r = set (cr_acts r) \<and> distinct (cr_acts r) \<and> length (cr_acts r) \<le> ACTS_REMEMBERED"

lemma receiver_inv_new [keep_inv]: "receiver_inv control_receiver_new" "receiver_inv (receiver_reset r)"
  by (simp_all add: receiver_inv_def control_receiver_new_def receiver_reset_def)

lemma judge_keeps_inv [keep_inv]:
  assumes "receiver_inv r"
  shows "receiver_inv (fst (judge r key seq))"
  using assms
  by (auto simp: receiver_inv_def judge_def ACTS_REMEMBERED_def split: list.splits option.splits)

lemma judge_act:
  assumes "is_act key" "receiver_inv r"
  shows "snd (judge r key seq) = (if seq \<in> set (cr_acts r) then Repeat else Apply)"
    and "cr_acts (fst (judge r key seq)) =
           (if seq \<in> set (cr_acts r) then cr_acts r
            else (if length (cr_acts r) = ACTS_REMEMBERED then tl (cr_acts r) else cr_acts r) @ [seq])"
  using assms by (auto simp: judge_def receiver_inv_def ACTS_REMEMBERED_def split: list.splits)

text \<open>Judging one control never touches what was applied for another.\<close>

lemma judge_frame:
  "key' \<noteq> key \<Longrightarrow> cr_last_applied (fst (judge r key seq)) key' = cr_last_applied r key'"
  by (auto simp: judge_def split: option.splits list.splits)

fun judge_all :: "control_receiver \<Rightarrow> (control_key \<times> u32) list \<Rightarrow> verdict list" where
  "judge_all r [] = []"
| "judge_all r ((k, n) # ps) = snd (judge r k n) # judge_all (fst (judge r k n)) ps"

definition applied_numbers :: "control_key \<Rightarrow> control_receiver \<Rightarrow> (control_key \<times> u32) list \<Rightarrow> u32 list" where
  "applied_numbers key r ps =
     map (snd \<circ> fst) (filter (\<lambda>(p, v). fst p = key \<and> v = Apply) (zip ps (judge_all r ps)))"

lemma applied_numbers_simps [simp]:
  "applied_numbers key r [] = []"
  "applied_numbers key r ((k, n) # ps) =
     (if k = key \<and> snd (judge r k n) = Apply then [n] else []) @
     applied_numbers key (fst (judge r k n)) ps"
  by (auto simp: applied_numbers_def)

text \<open>
  Whatever arrives, in whatever order and however often: the numbers a server applies for one
  setting each come after the one applied before.
\<close>

lemma applied_numbers_ordered:
  assumes "\<not> is_act key"
  shows "successively (\<lambda>x y. newer_than y x)
           ((case cr_last_applied r key of None \<Rightarrow> [] | Some l \<Rightarrow> [l]) @ applied_numbers key r ps)"
proof (induction ps arbitrary: r)
  case Nil
  then show ?case by (simp split: option.splits)
next
  case (Cons p ps)
  obtain k n where p: "p = (k, n)" by fastforce
  let ?r' = "fst (judge r k n)"
  show ?case
  proof (cases "k = key \<and> snd (judge r k n) = Apply")
    case True
    then have "cr_last_applied ?r' key = Some n"
      using judge_setting(2) [OF assms, of r n] by auto
    moreover have "\<forall>l. cr_last_applied r key = Some l \<longrightarrow> newer_than n l"
      using True judge_setting(1) [OF assms, of r n] by auto
    ultimately show ?thesis
      using Cons.IH [of ?r'] True p by (auto split: option.splits)
  next
    case False
    then have "cr_last_applied ?r' key = cr_last_applied r key"
      using judge_setting(2) [OF assms, of r n] judge_frame [of key k r n] by (cases "k = key") auto
    then show ?thesis using Cons.IH [of ?r'] False p by auto
  qed
qed

section \<open>What the sender promises\<close>

lemma numbered_control_append:
  assumes "numbered_control (packet @ u32_to_be seq) = Some (key, n)"
    and "length packet = (if packet ! 2 = 0x04 then CONTROL_SIZE else YAESU_CONTROL_SIZE)"
  shows "n = seq"
  using assms
  by (auto simp: numbered_control_def get_byte_def u32_to_be_def CONTROL_SIZE_def
      YAESU_CONTROL_SIZE_def Let_def nth_append u32_be_roundtrip split: if_splits)

definition pending_of :: "control_sender \<Rightarrow> u32 \<Rightarrow> nat" where
  "pending_of s n = (\<Sum>p \<leftarrow> filter (\<lambda>p. pd_seq p = n) (cs_pending s). MAX_REPEATS - pd_repeats p)"

datatype sender_event =
    SendEv "u8 list" instant duration
  | AckEv u32 instant
  | DueEv instant
  | EndEv

text \<open>One event, and the numbers it puts on the wire again.\<close>

definition resent_numbers :: "instant \<Rightarrow> pending list \<Rightarrow> u32 list" where
  "resent_numbers now ps = map pd_seq (filter (\<lambda>p. \<not> now < pd_next_at p \<and> pd_repeats p < MAX_REPEATS) ps)"

fun sender_step :: "control_sender \<Rightarrow> sender_event \<Rightarrow> control_sender \<times> u32 list" where
  "sender_step s (SendEv packet now rtt) = (fst (send_control s packet now rtt), [])"
| "sender_step s (AckEv n now) = (acknowledged s n now, [])"
| "sender_step s (DueEv now) =
     (fst (due_now s now),
      if cs_server_acknowledges s then resent_numbers now (cs_pending s) else [])"
| "sender_step s EndEv = (session_ended s, [])"

fun sender_run :: "control_sender \<Rightarrow> sender_event list \<Rightarrow> u32 list" where
  "sender_run s [] = []"
| "sender_run s (e # es) = snd (sender_step s e) @ sender_run (fst (sender_step s e)) es"

fun sends_of :: "control_sender \<Rightarrow> sender_event list \<Rightarrow> u32 \<Rightarrow> nat" where
  "sends_of s [] n = 0"
| "sends_of s (e # es) n =
     (case e of SendEv _ _ _ \<Rightarrow> if cs_next_seq s = n then 1 else 0 | _ \<Rightarrow> 0) +
     sends_of (fst (sender_step s e)) es n"

lemma due_loop_resend: "length (du_resend (snd (due_loop now ps))) = length (resent_numbers now ps)"
  by (induction ps) (auto simp: resent_numbers_def Let_def case_prod_beta)

lemma due_loop_bytes:
  "du_resend (snd (due_loop now ps)) =
     map pd_bytes (filter (\<lambda>p. \<not> now < pd_next_at p \<and> pd_repeats p < MAX_REPEATS) ps)"
  by (induction ps) (auto simp: Let_def case_prod_beta)

lemma due_loop_budget:
  "(\<Sum>p \<leftarrow> filter (\<lambda>p. pd_seq p = n) (fst (due_loop now ps)). MAX_REPEATS - pd_repeats p) +
     count_list (resent_numbers now ps) n \<le>
   (\<Sum>p \<leftarrow> filter (\<lambda>p. pd_seq p = n) ps. MAX_REPEATS - pd_repeats p)"
  by (induction ps) (auto simp: resent_numbers_def Let_def case_prod_beta)

lemma sum_filter_le:
  "(\<Sum>p \<leftarrow> filter P (filter Q ps). f p) \<le> (\<Sum>p \<leftarrow> filter P ps. (f p :: nat))"
  by (induction ps) auto

lemma budget_step:
  "pending_of (fst (sender_step s e)) n + count_list (snd (sender_step s e)) n \<le>
     pending_of s n + MAX_REPEATS * sends_of s [e] n"
proof (cases e)
  case (SendEv packet now rtt)
  have "pending_of (fst (send_control s packet now rtt)) n \<le>
        pending_of s n + (if cs_next_seq s = n then MAX_REPEATS else 0)"
    using sum_filter_le [where P = "\<lambda>p. pd_seq p = n" and ps = "cs_pending s" and f = "\<lambda>p. MAX_REPEATS - pd_repeats p"]
    by (auto simp: send_control_def pending_of_def Let_def split: option.splits)
  then show ?thesis using SendEv by (cases "cs_next_seq s = n") simp_all
next
  case (AckEv m now)
  have mono: "(\<Sum>p \<leftarrow> filter (\<lambda>p. pd_seq p = n) (map (\<lambda>p. p\<lparr> pd_next_at := now + pd_wait p \<rparr>) ps).
          MAX_REPEATS - pd_repeats p) =
        (\<Sum>p \<leftarrow> filter (\<lambda>p. pd_seq p = n) ps. MAX_REPEATS - pd_repeats p)" for ps
    by (induction ps) auto
  have "pending_of (acknowledged s m now) n \<le> pending_of s n"
    using sum_filter_le [where P = "\<lambda>p. pd_seq p = n" and Q = "\<lambda>p. pd_seq p \<noteq> m" and f = "\<lambda>p. MAX_REPEATS - pd_repeats p"]
      mono [of "cs_pending s"]
    by (auto simp: acknowledged_def pending_of_def Let_def simp del: filter_filter
        intro: order_trans [OF _ eq_refl [OF mono]])
  then show ?thesis using AckEv by simp
next
  case (DueEv now)
  then show ?thesis
    using due_loop_budget [of n now "cs_pending s"]
      sum_filter_le [where P = "\<lambda>p. pd_seq p = n" and ps = "cs_pending s" and f = "\<lambda>p. MAX_REPEATS - pd_repeats p"]
    by (auto simp: due_now_def pending_of_def case_prod_beta Let_def simp del: filter_filter)
next
  case EndEv
  then show ?thesis by (simp add: session_ended_def pending_of_def)
qed

lemma resends_bounded:
  "count_list (sender_run s es) n \<le> pending_of s n + MAX_REPEATS * sends_of s es n"
proof (induction es arbitrary: s)
  case Nil
  then show ?case by simp
next
  case (Cons e es)
  have "count_list (sender_run s (e # es)) n =
        count_list (snd (sender_step s e)) n + count_list (sender_run (fst (sender_step s e)) es) n"
    by simp
  also have "\<dots> \<le> count_list (snd (sender_step s e)) n +
        (pending_of (fst (sender_step s e)) n + MAX_REPEATS * sends_of (fst (sender_step s e)) es n)"
    using Cons.IH by simp
  also have "\<dots> \<le> pending_of s n + MAX_REPEATS * sends_of s (e # es) n"
    using budget_step [of s e n] by (simp add: algebra_simps)
  finally show ?case .
qed

text \<open>Nothing is sent again before the server of this session acknowledged something.\<close>

lemma unacknowledged_server_gets_no_repeat:
  "\<not> cs_server_acknowledges s \<Longrightarrow> du_resend (snd (due_now s now)) = [] \<and> du_given_up (snd (due_now s now)) = []"
  by (simp add: due_now_def)

lemma foreign_ack_ignored: "\<not> sent_this_session s n \<Longrightarrow> acknowledged s n now = s"
  by (simp add: acknowledged_def)

lemma no_ack_right_after_end: "\<not> sent_this_session (session_ended s) n"
  by (simp add: session_ended_def sent_this_session_def)

lemma first_wait_bounds: "FIRST_REPEAT_MIN \<le> first_wait rtt \<and> first_wait rtt \<le> FIRST_REPEAT_MAX"
  unfolding first_wait_def by (rule clamp_bounds) (simp add: FIRST_REPEAT_MIN_def FIRST_REPEAT_MAX_def)

lemma judge_act_last_n:
  assumes "receiver_inv r" "is_act key"
  shows "cr_acts (fst (judge r key seq)) =
    (if seq \<in> set (cr_acts r) then cr_acts r
     else drop (Suc (length (cr_acts r)) - ACTS_REMEMBERED) (cr_acts r @ [seq]))"
proof (cases "length (cr_acts r) = ACTS_REMEMBERED")
  case True
  then show ?thesis using assms
    by (cases "cr_acts r") (simp_all add: judge_act ACTS_REMEMBERED_def)
next
  case False
  then have "Suc (length (cr_acts r)) - ACTS_REMEMBERED = 0"
    using assms(1) by (simp add: receiver_inv_def ACTS_REMEMBERED_def)
  then show ?thesis using False assms by (simp add: judge_act)
qed

text \<open>The acts applied in a run, and what the window holds after it.\<close>

fun judge_state :: "control_receiver \<Rightarrow> (control_key \<times> u32) list \<Rightarrow> control_receiver" where
  "judge_state r [] = r"
| "judge_state r ((k, n) # ps) = judge_state (fst (judge r k n)) ps"

fun acts_applied :: "control_receiver \<Rightarrow> (control_key \<times> u32) list \<Rightarrow> nat" where
  "acts_applied r [] = 0"
| "acts_applied r ((k, n) # ps) =
     (if is_act k \<and> snd (judge r k n) = Apply then 1 else 0) + acts_applied (fst (judge r k n)) ps"

lemma judge_setting_acts: "\<not> is_act key \<Longrightarrow> cr_acts (fst (judge r key seq)) = cr_acts r"
  by (auto simp: judge_def split: option.splits)

lemma window_keeps:
  assumes "receiver_inv r" "cr_acts r = older @ newer" "seq \<in> set newer"
    and "length newer + acts_applied r ps \<le> ACTS_REMEMBERED"
  shows "seq \<in> set (cr_acts (judge_state r ps))"
  using assms
proof (induction r ps arbitrary: older newer rule: judge_state.induct)
  case (1 r)
  then show ?case by simp
next
  case (2 r k n ps)
  let ?r' = "fst (judge r k n)"
  have inv: "receiver_inv ?r'" using 2(2) by (rule judge_keeps_inv)
  show ?case
  proof (cases "is_act k \<and> n \<notin> set (cr_acts r)")
    case False
    then have "cr_acts ?r' = older @ newer"
      using 2(2,3) judge_act_last_n judge_setting_acts by (cases "is_act k") auto
    then show ?thesis using 2(1) [OF inv] 2(4,5) by (auto intro: 2(1) [OF inv])
  next
    case True
    then have app: "snd (judge r k n) = Apply" using judge_act(1) 2(2) by auto
    let ?d = "Suc (length (cr_acts r)) - ACTS_REMEMBERED"
    have le: "length newer + 1 + acts_applied ?r' ps \<le> ACTS_REMEMBERED" using 2(5) True app by simp
    have d: "?d \<le> length older"
      using 2(2,3) le by (simp add: receiver_inv_def)
    have "cr_acts ?r' = drop ?d older @ (newer @ [n])"
      using judge_act_last_n [OF 2(2)] True 2(3) d by simp
    then show ?thesis
      using 2(4) le by (auto intro!: 2(1) [OF inv])
  qed
qed

section \<open>Properties\<close>

text \<open>
  C31. An act is carried out once: after the server applied an act, a repeat of it is recognised as a
  repeat as long as fewer than sixty-four other acts were applied since, whatever else arrived in
  between, in whatever order.
\<close>

theorem act_applied_once:
  assumes "receiver_inv r" "is_act key" "snd (judge r key seq) = Apply"
    and "acts_applied (fst (judge r key seq)) ps < ACTS_REMEMBERED"
  shows "snd (judge (judge_state (fst (judge r key seq)) ps) key seq) = Repeat"
proof -
  let ?r1 = "fst (judge r key seq)"
  have inv1: "receiver_inv ?r1" using assms(1) by (rule judge_keeps_inv)
  have "seq \<notin> set (cr_acts r)" using assms(1-3) judge_act(1) by (auto split: if_splits)
  then obtain older where "cr_acts ?r1 = older @ [seq]"
    using judge_act(2) [OF assms(2,1)] by auto
  then have "seq \<in> set (cr_acts (judge_state ?r1 ps))"
    by (rule window_keeps [OF inv1]) (use assms(4) in simp_all)
  moreover have "receiver_inv (judge_state ?r1 ps)"
    using inv1 by (induction ?r1 ps arbitrary: r key seq rule: judge_state.induct) (auto simp: keep_inv)
  ultimately show ?thesis using judge_act(1) [OF assms(2)] by simp
qed

theorem act_applied_once_witness:
  "snd (judge (judge_state (fst (judge control_receiver_new (Action 0x25 7) 7))
      [(Control 3, 8), (Action 0x25 9, 9)]) (Action 0x25 7) 7) = Repeat"
  by (rule act_applied_once, rule receiver_inv_new(1))
    (simp_all add: is_act_def judge_def control_receiver_new_def ACTS_REMEMBERED_def)

text \<open>
  A setting never goes back: whatever arrives at the server, reordered, repeated or lost, the
  numbers it applies for one control are each newer than the one applied before, in serial-number
  order. A late repeat of "PTT on" cannot undo the "off" that followed it.
\<close>

theorem settings_never_go_back:
  assumes "\<not> is_act key"
  shows "successively (\<lambda>x y. newer_than y x) (applied_numbers key control_receiver_new ps)"
  using applied_numbers_ordered [OF assms, of control_receiver_new ps]
  by (simp add: control_receiver_new_def)

theorem settings_never_go_back_witness:
  "successively (\<lambda>x y. newer_than y x)
     (applied_numbers (Control 3) control_receiver_new [(Control 3, 5), (Control 3, 6), (Control 3, 5)]) \<and>
   applied_numbers (Control 3) control_receiver_new [(Control 3, 5), (Control 3, 6), (Control 3, 5)] = [5, 6]"
  using settings_never_go_back [of "Control 3" "[(Control 3, 5), (Control 3, 6), (Control 3, 5)]"]
  by (simp add: is_act_def judge_def control_receiver_new_def word_sless_alt)

text \<open>
  Repeats are bounded: over any sequence of sends, acknowledgements, ticks and session ends, a
  number is put on the wire again at most four times for each control sent with it.
\<close>

theorem at_most_four_repeats:
  "count_list (sender_run (starting_at n0) es) n \<le> 4 * sends_of (starting_at n0) es n"
  using resends_bounded [of "starting_at n0" es n]
  by (simp add: pending_of_def starting_at_def MAX_REPEATS_def Let_def)

text \<open>
  What the client numbers the server reads: a control sent by the sender parses at the receiver
  to the number the sender counted, with the key under which the sender keeps it for repeating.
\<close>

theorem server_reads_the_sent_number:
  assumes "length packet = (if packet ! 2 = 0x04 then CONTROL_SIZE else YAESU_CONTROL_SIZE)"
    and "packet ! 2 = 0x04 \<or> packet ! 2 = 0x2C"
  shows "\<exists>key. numbered_control (snd (send_control s packet now rtt)) = Some (key, cs_next_seq s) \<and>
     (\<exists>p. cs_pending (fst (send_control s packet now rtt)) =
             filter (\<lambda>q. pd_key q \<noteq> key) (cs_pending s) @ [p] \<and>
           pd_key p = key \<and> pd_seq p = cs_next_seq s \<and> pd_bytes p = snd (send_control s packet now rtt))"
proof -
  let ?bytes = "packet @ u32_to_be (cs_next_seq s)"
  have "numbered_control ?bytes \<noteq> None"
    using assms
    by (auto simp: numbered_control_def get_byte_def CONTROL_SIZE_def YAESU_CONTROL_SIZE_def Let_def nth_append)
  then obtain key n where nc: "numbered_control ?bytes = Some (key, n)" by auto
  then have "n = cs_next_seq s" using numbered_control_append assms(1) by blast
  then show ?thesis using nc by (simp add: send_control_def Let_def)
qed

theorem server_reads_the_sent_number_witness:
  "\<exists>key. numbered_control (snd (send_control (starting_at 41) [1, 0, 4, 0, 3, 0, 1] 0 0)) = Some (key, 41)"
proof -
  have "cs_next_seq (starting_at 41) = 41"
    by (simp add: starting_at_def Let_def max_def word_le_nat_alt)
  then show ?thesis
    using server_reads_the_sent_number [of "[1, 0, 4, 0, 3, 0, 1]" "starting_at 41" 0 0]
    by (auto simp: CONTROL_SIZE_def)
qed

end
