(* ===== verification/Sessions.thy ===== *)
theory Sessions
  imports Complex_Main PttSafety Auth ControlAck
begin

text \<open>
  The session table of the server (\<^verbatim>\<open>sdr-remote-server/src/session.rs\<close>): who is authenticated,
  who holds which transmitter, who is subscribed to what, and when a silent client is dropped.

  \<^verbatim>\<open>clients\<close> is a \<^verbatim>\<open>HashMap\<close> the code iterates: an association list with one entry per address
  (\<open>AList.update\<close>, \<open>AList.delete\<close>); the order of a returned list of addresses carries no meaning.
  The maps keyed by a transmitter are functions. The \<^verbatim>\<open>AdmissionWatch\<close> is a callback: its calls
  are recorded in \<open>sm_watched\<close>, when one is set. Not modelled: the wall-clock time of a connect
  attempt and the labels of the status panel (display only), the byte counters of
  \<^verbatim>\<open>tracked_socket\<close>, the way lookup of the status panel, and the client of the \<^verbatim>\<open>naspelen\<close> build
  feature. The spectrum zoom and pan are \<^verbatim>\<open>f32\<close> values that are stored, clamped and compared
  here and never computed with: rationals, without the NaN that no packet can carry (the wire has
  integers).
\<close>

section \<open>Deadlines\<close>

definition SESSION_TIMEOUT_SECS :: nat where "SESSION_TIMEOUT_SECS = 15"
definition TOTP_ENTRY_TIMEOUT_SECS :: nat where "TOTP_ENTRY_TIMEOUT_SECS = 120"
definition TOTP_KNOCK_GRACE_SECS :: nat where "TOTP_KNOCK_GRACE_SECS = 2"
definition TX_HOLDER_TIMEOUT_SECS :: nat where "TX_HOLDER_TIMEOUT_SECS = 3"
definition MAX_AUTH_FAILURES :: u32 where "MAX_AUTH_FAILURES = 5"
definition AUTH_BLOCK_SECS :: nat where "AUTH_BLOCK_SECS = 60"
definition CONNECT_HISTORY_CAPACITY :: nat where "CONNECT_HISTORY_CAPACITY = 10"
definition SERVER_DEFAULT_MAX_BINS :: u16 where "SERVER_DEFAULT_MAX_BINS = 2048"
definition MAX_SPECTRUM_SEND_BINS :: nat where "MAX_SPECTRUM_SEND_BINS = 32768"
definition DEFAULT_SPECTRUM_FPS :: u8 where "DEFAULT_SPECTRUM_FPS = 15"
definition HEARTBEAT_RESTART_GAP :: u32 where "HEARTBEAT_RESTART_GAP = 32"

definition timeout_secs :: "bool \<Rightarrow> bool \<Rightarrow> nat" where
  "timeout_secs holds_transmitter at_the_code_step =
     (if holds_transmitter then TX_HOLDER_TIMEOUT_SECS
      else if at_the_code_step then TOTP_ENTRY_TIMEOUT_SECS
      else SESSION_TIMEOUT_SECS)"

definition silent_too_long :: "duration \<Rightarrow> bool \<Rightarrow> bool \<Rightarrow> bool" where
  "silent_too_long silence holds_transmitter at_the_code_step \<longleftrightarrow>
     silence > secs (timeout_secs holds_transmitter at_the_code_step)"

section \<open>Failures and attempts\<close>

datatype connect_outcome =
    Accepted | TotpRequired | WrongPassword | WrongTotp | ChallengeSent
  | ProtocolVersionMismatch u8

definition is_failure :: "connect_outcome \<Rightarrow> bool" where
  "is_failure oc = (case oc of WrongPassword \<Rightarrow> True | WrongTotp \<Rightarrow> True
     | ProtocolVersionMismatch _ \<Rightarrow> True | _ \<Rightarrow> False)"

record connect_attempt =
  ca_instant :: instant
  ca_remote_addr :: socket_addr
  ca_outcome :: connect_outcome

type_synonym auth_failures = "socket_addr \<Rightarrow> (u32 \<times> instant) option"

definition failures_blocked :: "auth_failures \<Rightarrow> socket_addr \<Rightarrow> instant \<Rightarrow> bool" where
  "failures_blocked f addr now =
     (case f addr of
        Some (count, failed_at) \<Rightarrow> count \<ge> MAX_AUTH_FAILURES \<and> as_secs (now - failed_at) < AUTH_BLOCK_SECS
      | None \<Rightarrow> False)"

definition record_failure :: "auth_failures \<Rightarrow> socket_addr \<Rightarrow> instant \<Rightarrow> auth_failures" where
  "record_failure f addr now =
     (let (count, _) = (case f addr of None \<Rightarrow> (0, now) | Some e \<Rightarrow> e)
      in f(addr \<mapsto> (count + 1, now)))"

definition failures_clear :: "auth_failures \<Rightarrow> socket_addr \<Rightarrow> auth_failures" where
  "failures_clear f addr = f(addr := None)"

section \<open>A client's session\<close>

datatype auth_state =
    NoAuth
  | PendingChallenge bytes instant
  | PendingTotp
  | Authenticated

datatype peer_build = UnknownBuild | OlderBuild | SameBuild | DifferentBuild "u8 list"

record client_session =
  cl_last_seen :: instant
  cl_connected_since :: instant
  cl_auth_state :: auth_state
  cl_session_key :: "bytes option"
  cl_controls :: control_receiver
  cl_last_heartbeat_seq :: u32
  cl_rtt_ms :: u16
  cl_loss_percent :: u8
  cl_jitter_ms :: u8
  cl_client_build :: peer_build
  cl_spectrum_enabled :: bool
  cl_spectrum_fps :: u8
  cl_spectrum_zoom :: rat
  cl_spectrum_pan :: rat
  cl_fine_pan :: bool
  cl_spectrum_max_bins :: u16
  cl_rx1_enabled :: bool
  cl_rx2_enabled :: bool
  cl_rx2_spectrum_enabled :: bool
  cl_rx2_spectrum_fps :: u8
  cl_rx2_spectrum_zoom :: rat
  cl_rx2_spectrum_pan :: rat
  cl_rx2_spectrum_max_bins :: u16
  cl_yaesu_enabled :: bool
  cl_yaesu_state_enabled :: bool
  cl_yaesu2_state_enabled :: bool
  cl_yaesu2_enabled :: bool
  cl_vrx1_audio_enabled :: bool
  cl_vrx2_audio_enabled :: bool
  cl_vrx1_spectrum_enabled :: bool
  cl_vrx2_spectrum_enabled :: bool
  cl_vrx1_autotune_enabled :: bool
  cl_vrx2_autotune_enabled :: bool
  cl_audio_mode :: u8
  cl_dx_spots_enabled :: bool
  cl_full_spectrum_enabled :: bool
  cl_allow_zoom_below_2x :: bool
  cl_smeter_sources :: u16
  cl_thetis_wideband_audio :: bool

text \<open>What both places that insert a session put in it, apart from its authentication state.\<close>

definition new_session :: "auth_state \<Rightarrow> instant \<Rightarrow> client_session" where
  "new_session auth now =
     \<lparr> cl_last_seen = now, cl_connected_since = now, cl_auth_state = auth,
       cl_session_key = None, cl_controls = control_receiver_new,
       cl_last_heartbeat_seq = 0, cl_rtt_ms = 0, cl_loss_percent = 0, cl_jitter_ms = 0,
       cl_client_build = UnknownBuild, cl_spectrum_enabled = False,
       cl_spectrum_fps = DEFAULT_SPECTRUM_FPS, cl_spectrum_zoom = 1, cl_spectrum_pan = 0,
       cl_fine_pan = False, cl_spectrum_max_bins = SERVER_DEFAULT_MAX_BINS,
       cl_rx1_enabled = True, cl_rx2_enabled = False, cl_rx2_spectrum_enabled = False,
       cl_rx2_spectrum_fps = DEFAULT_SPECTRUM_FPS,
       cl_rx2_spectrum_zoom = 1, cl_rx2_spectrum_pan = 0,
       cl_rx2_spectrum_max_bins = SERVER_DEFAULT_MAX_BINS,
       cl_yaesu_enabled = False, cl_yaesu_state_enabled = False,
       cl_yaesu2_state_enabled = False, cl_yaesu2_enabled = False,
       cl_vrx1_audio_enabled = False, cl_vrx2_audio_enabled = False,
       cl_vrx1_spectrum_enabled = False, cl_vrx2_spectrum_enabled = False,
       cl_vrx1_autotune_enabled = False, cl_vrx2_autotune_enabled = False,
       cl_audio_mode = 255, cl_dx_spots_enabled = True, cl_full_spectrum_enabled = True,
       cl_allow_zoom_below_2x = False, cl_smeter_sources = 0x22,
       cl_thetis_wideband_audio = False \<rparr>"

datatype watch_call = Admitted socket_addr | Gone socket_addr

record session_manager =
  sm_clients :: "(socket_addr \<times> client_session) list"
  sm_watched :: "watch_call list option"
  sm_tx_holders :: "tx_target \<Rightarrow> socket_addr option"
  sm_tx_closed :: bool
  sm_radio_heard :: "tx_target \<Rightarrow> instant option"
  sm_let_go_by_radio :: "tx_target \<Rightarrow> socket_addr option"
  sm_auth_failures :: auth_failures
  sm_password :: "bytes option"
  sm_totp_secret :: "bytes option"
  sm_connect_history :: "connect_attempt list"
  sm_connect_generation :: u64

definition session_manager_new :: "bytes option \<Rightarrow> bytes option \<Rightarrow> session_manager" where
  "session_manager_new password totp_secret =
     \<lparr> sm_clients = [], sm_watched = None, sm_tx_holders = Map.empty, sm_tx_closed = False,
       sm_radio_heard = Map.empty, sm_let_go_by_radio = Map.empty, sm_auth_failures = Map.empty,
       sm_password = password, sm_totp_secret = totp_secret, sm_connect_history = [],
       sm_connect_generation = 0 \<rparr>"

definition session_of :: "session_manager \<Rightarrow> socket_addr \<Rightarrow> client_session option" where
  "session_of m addr = map_of (sm_clients m) addr"

text \<open>\<^verbatim>\<open>if let Some(session) = self.clients.get_mut(&addr)\<close>: an update where there is a session.\<close>

definition with_session ::
    "session_manager \<Rightarrow> socket_addr \<Rightarrow> (client_session \<Rightarrow> client_session) \<Rightarrow> session_manager" where
  "with_session m addr f =
     (case session_of m addr of
        None \<Rightarrow> m
      | Some s \<Rightarrow> m\<lparr> sm_clients := AList.update addr (f s) (sm_clients m) \<rparr>)"

definition insert_session :: "session_manager \<Rightarrow> socket_addr \<Rightarrow> client_session \<Rightarrow> session_manager" where
  "insert_session m addr s = m\<lparr> sm_clients := AList.update addr s (sm_clients m) \<rparr>"

definition notify :: "watch_call \<Rightarrow> session_manager \<Rightarrow> session_manager" where
  "notify c m = m\<lparr> sm_watched := map_option (\<lambda>cs. cs @ [c]) (sm_watched m) \<rparr>"

definition watch_admissions :: "session_manager \<Rightarrow> session_manager" where
  "watch_admissions m = m\<lparr> sm_watched := Some [] \<rparr>"

section \<open>Admission\<close>

definition forget_client :: "session_manager \<Rightarrow> socket_addr \<Rightarrow> session_manager" where
  "forget_client m addr =
     notify (Gone addr)
       (m\<lparr> sm_clients := AList.delete addr (sm_clients m),
           sm_let_go_by_radio :=
             (\<lambda>t. if sm_let_go_by_radio m t = Some addr then None else sm_let_go_by_radio m t) \<rparr>)"

definition mark_admitted :: "session_manager \<Rightarrow> socket_addr \<Rightarrow> session_manager" where
  "mark_admitted m addr =
     notify (Admitted addr) (m\<lparr> sm_connect_generation := sm_connect_generation m + 1 \<rparr>)"

definition record_connect_attempt ::
    "session_manager \<Rightarrow> socket_addr \<Rightarrow> connect_outcome \<Rightarrow> instant \<Rightarrow> session_manager" where
  "record_connect_attempt m addr outcome now =
     (let h = (if length (sm_connect_history m) = CONNECT_HISTORY_CAPACITY
               then tl (sm_connect_history m) else sm_connect_history m)
      in m\<lparr> sm_connect_history :=
              h @ [\<lparr> ca_instant = now, ca_remote_addr = addr, ca_outcome = outcome \<rparr>] \<rparr>)"

definition get_auth_state :: "session_manager \<Rightarrow> socket_addr \<Rightarrow> auth_state option" where
  "get_auth_state m addr = map_option cl_auth_state (session_of m addr)"

definition is_authenticated :: "session_manager \<Rightarrow> socket_addr \<Rightarrow> bool" where
  "is_authenticated m addr =
     (if sm_password m = None then False else get_auth_state m addr = Some Authenticated)"

definition is_blocked :: "session_manager \<Rightarrow> socket_addr \<Rightarrow> instant \<Rightarrow> bool" where
  "is_blocked m addr now = failures_blocked (sm_auth_failures m) addr now"

text \<open>The packets \<^verbatim>\<open>wants_challenge\<close> tells apart.\<close>

datatype packet_kind = DisconnectPkt | HeartbeatPkt | OtherPkt

definition wants_challenge :: "session_manager \<Rightarrow> socket_addr \<Rightarrow> packet_kind \<Rightarrow> instant \<Rightarrow> bool" where
  "wants_challenge m addr packet now =
     (if packet = DisconnectPkt then False
      else case session_of m addr of
             None \<Rightarrow> True
           | Some s \<Rightarrow>
               (case cl_auth_state s of
                  NoAuth \<Rightarrow> True
                | PendingTotp \<Rightarrow>
                    packet = HeartbeatPkt \<and> now - cl_last_seen s \<ge> secs TOTP_KNOCK_GRACE_SECS
                | PendingChallenge _ _ \<Rightarrow> False
                | Authenticated \<Rightarrow> False))"

text \<open>The nonce comes from the random generator: an argument.\<close>

definition create_challenge ::
    "session_manager \<Rightarrow> socket_addr \<Rightarrow> bytes \<Rightarrow> instant \<Rightarrow> session_manager \<times> bytes" where
  "create_challenge m addr nonce now =
     (let m1 = (if session_of m addr \<noteq> None then forget_client m addr else m)
      in (insert_session m1 addr (new_session (PendingChallenge nonce now) now), nonce))"

record auth_channel =
  ch_binding :: bytes
  ch_peer :: "socket_addr option"

definition AUTH_REJECTED :: u8 where "AUTH_REJECTED = 0"
definition AUTH_ACCEPTED :: u8 where "AUTH_ACCEPTED = 1"
definition AUTH_TOTP_REQUIRED :: u8 where "AUTH_TOTP_REQUIRED = 2"
definition AUTH_NOT_ANSWERED :: u8 where "AUTH_NOT_ANSWERED = 0xff"

record auth_verdict =
  av_code :: u8
  av_proof :: "bytes option"

definition verify_auth ::
    "(bytes \<Rightarrow> bytes \<Rightarrow> bytes) \<Rightarrow> (bytes \<Rightarrow> bytes \<Rightarrow> bytes \<Rightarrow> bytes) \<Rightarrow> session_manager \<Rightarrow> socket_addr \<Rightarrow>
     bytes \<Rightarrow> bytes option \<Rightarrow> auth_channel \<Rightarrow> instant \<Rightarrow> session_manager \<times> auth_verdict" where
  "verify_auth hmac hkdf m addr response client_nonce channel now =
     (let binding = Some (ch_binding channel);
          throttle = (case ch_peer channel of None \<Rightarrow> addr | Some p \<Rightarrow> p);
          refused = \<lparr> av_code = AUTH_REJECTED, av_proof = None \<rparr>;
          not_answered = \<lparr> av_code = AUTH_NOT_ANSWERED, av_proof = None \<rparr>
      in case sm_password m of
           None \<Rightarrow> (m, refused)
         | Some password \<Rightarrow>
             (case get_auth_state m addr of
                Some (PendingChallenge nonce sent_at) \<Rightarrow>
                  if as_secs (now - sent_at) \<ge> CHALLENGE_TTL_SECS
                  then (forget_client m addr, not_answered)
                  else if verify_hmac hmac password nonce response binding then
                    (let (key, proof) =
                       (case client_nonce of
                          Some nc \<Rightarrow>
                            (let k = session_key_of hkdf password nonce nc binding
                             in (Some k, Some (server_proof hmac k nonce nc binding)))
                        | None \<Rightarrow> (None, None));
                         m1 = with_session m addr (\<lambda>s. s\<lparr> cl_session_key := key \<rparr>)
                     in if sm_totp_secret m \<noteq> None
                        then (with_session m1 addr (\<lambda>s. s\<lparr> cl_auth_state := PendingTotp \<rparr>),
                              \<lparr> av_code = AUTH_TOTP_REQUIRED, av_proof = proof \<rparr>)
                        else
                          (let m2 = with_session m1 addr
                                 (\<lambda>s. s\<lparr> cl_auth_state := Authenticated, cl_last_seen := now \<rparr>);
                               m3 = mark_admitted m2 addr
                           in (m3\<lparr> sm_auth_failures := failures_clear (sm_auth_failures m3) throttle \<rparr>,
                               \<lparr> av_code = AUTH_ACCEPTED, av_proof = proof \<rparr>)))
                  else
                    (let m1 = m\<lparr> sm_auth_failures := record_failure (sm_auth_failures m) throttle now \<rparr>
                     in (if client_nonce \<noteq> None then forget_client m1 addr else m1, refused))
              | _ \<Rightarrow> (m, not_answered)))"

definition verify_totp ::
    "(bytes \<Rightarrow> bytes \<Rightarrow> bool) \<Rightarrow> session_manager \<Rightarrow> socket_addr \<Rightarrow> bytes \<Rightarrow> socket_addr \<Rightarrow> instant \<Rightarrow>
     session_manager \<times> bool option" where
  "verify_totp code_ok m addr code throttle now =
     (case sm_totp_secret m of
        None \<Rightarrow> (m, None)
      | Some secret \<Rightarrow>
          if get_auth_state m addr \<noteq> Some PendingTotp then (m, None)
          else if code_ok secret code then
            (let m1 = with_session m addr
                   (\<lambda>s. s\<lparr> cl_auth_state := Authenticated, cl_last_seen := now \<rparr>);
                 m2 = mark_admitted m1 addr
             in (m2\<lparr> sm_auth_failures := failures_clear (sm_auth_failures m2) throttle \<rparr>, Some True))
          else (m\<lparr> sm_auth_failures := record_failure (sm_auth_failures m) throttle now \<rparr>, Some False))"

datatype touch_result = Existing | NewClient

definition touch :: "session_manager \<Rightarrow> socket_addr \<Rightarrow> instant \<Rightarrow> session_manager \<times> touch_result" where
  "touch m addr now =
     (if session_of m addr \<noteq> None
      then (with_session m addr (\<lambda>s. s\<lparr> cl_last_seen := now \<rparr>), Existing)
      else if sm_password m \<noteq> None then (m, NewClient)
      else (insert_session (mark_admitted m addr) addr (new_session NoAuth now), NewClient))"

text \<open>\<^verbatim>\<open>saturating_sub\<close> on \<^verbatim>\<open>u32\<close>.\<close>

definition sat_sub :: "u32 \<Rightarrow> u32 \<Rightarrow> u32" where
  "sat_sub a b = (if a < b then 0 else a - b)"

definition update_heartbeat ::
    "session_manager \<Rightarrow> socket_addr \<Rightarrow> u32 \<Rightarrow> u16 \<Rightarrow> u8 \<Rightarrow> u8 \<Rightarrow> instant \<Rightarrow> session_manager" where
  "update_heartbeat m addr seq rtt loss jitter now =
     (let restarted = (case session_of m addr of None \<Rightarrow> False
            | Some c \<Rightarrow> sat_sub (cl_last_heartbeat_seq c) seq > HEARTBEAT_RESTART_GAP);
          m1 = (if restarted then mark_admitted m addr else m)
      in with_session m1 addr
           (\<lambda>s. (if restarted
                 then s\<lparr> cl_connected_since := now, cl_controls := receiver_reset (cl_controls s) \<rparr>
                 else s)
                \<lparr> cl_last_heartbeat_seq := seq, cl_rtt_ms := rtt, cl_loss_percent := loss,
                  cl_jitter_ms := jitter \<rparr>))"

definition judge_control ::
    "session_manager \<Rightarrow> socket_addr \<Rightarrow> control_key \<Rightarrow> u32 \<Rightarrow> session_manager \<times> verdict option" where
  "judge_control m addr key seq =
     (case session_of m addr of
        None \<Rightarrow> (m, None)
      | Some c \<Rightarrow>
          (with_session m addr (\<lambda>s. s\<lparr> cl_controls := fst (judge (cl_controls s) key seq) \<rparr>),
           Some (snd (judge (cl_controls c) key seq))))"

definition note_client_build ::
    "session_manager \<Rightarrow> socket_addr \<Rightarrow> peer_build \<Rightarrow> session_manager \<times> (peer_build \<times> peer_build) option" where
  "note_client_build m addr build_now =
     (case session_of m addr of
        None \<Rightarrow> (m, None)
      | Some c \<Rightarrow> (with_session m addr (\<lambda>s. s\<lparr> cl_client_build := build_now \<rparr>),
                   Some (cl_client_build c, build_now)))"

section \<open>Who holds a transmitter\<close>

definition tx_holder :: "session_manager \<Rightarrow> tx_target \<Rightarrow> socket_addr option" where
  "tx_holder m target = sm_tx_holders m target"

definition accepts :: "session_manager \<Rightarrow> tx_target \<Rightarrow> socket_addr \<Rightarrow> bool" where
  "accepts m target addr \<longleftrightarrow> sm_tx_holders m target = Some addr"

definition try_acquire_tx ::
    "session_manager \<Rightarrow> tx_target \<Rightarrow> socket_addr \<Rightarrow> instant \<Rightarrow> session_manager \<times> bool" where
  "try_acquire_tx m target addr now =
     (if sm_tx_closed m then (m, False)
      else case sm_tx_holders m target of
             None \<Rightarrow>
               (m\<lparr> sm_tx_holders := (sm_tx_holders m)(target \<mapsto> addr),
                   sm_radio_heard := (sm_radio_heard m)(target \<mapsto> now) \<rparr>, True)
           | Some holder \<Rightarrow> (m, holder = addr))"

definition release_tx :: "session_manager \<Rightarrow> tx_target \<Rightarrow> socket_addr \<Rightarrow> session_manager \<times> bool" where
  "release_tx m target addr =
     (if sm_tx_holders m target = Some addr
      then (m\<lparr> sm_tx_holders := (sm_tx_holders m)(target := None) \<rparr>, True)
      else (m, False))"

definition release_after_safety :: "session_manager \<Rightarrow> session_manager \<times> socket_addr option" where
  "release_after_safety m =
     (case tx_holder m Thetis of
        None \<Rightarrow> (m, None)
      | Some holder \<Rightarrow> (fst (release_tx m Thetis holder), Some holder))"

definition release_silent_radio ::
    "session_manager \<Rightarrow> tx_target \<Rightarrow> instant \<Rightarrow> session_manager \<times> (socket_addr \<times> duration) option" where
  "release_silent_radio m target now =
     (if target = Thetis then (m, None)
      else case tx_holder m target of
             None \<Rightarrow> (m, None)
           | Some holder \<Rightarrow>
               (case (case sm_radio_heard m target of
                        Some t \<Rightarrow> Some t
                      | None \<Rightarrow> map_option cl_last_seen (session_of m holder)) of
                  None \<Rightarrow> (m, None)
                | Some heard \<Rightarrow>
                    let silence = now - heard
                    in if \<not> silence_ended_the_over (Some silence) then (m, None)
                       else (m\<lparr> sm_tx_holders := (sm_tx_holders m)(target := None) \<rparr>,
                             Some (holder, silence))))"

definition heard_on :: "session_manager \<Rightarrow> tx_target \<Rightarrow> socket_addr \<Rightarrow> instant \<Rightarrow> session_manager" where
  "heard_on m target addr now =
     (if tx_holder m target = Some addr
      then m\<lparr> sm_radio_heard := (sm_radio_heard m)(target \<mapsto> now) \<rparr> else m)"

definition let_go_by_the_radio ::
    "session_manager \<Rightarrow> tx_target \<Rightarrow> socket_addr \<Rightarrow> session_manager \<times> bool" where
  "let_go_by_the_radio m target addr =
     (let (m1, held) = release_tx m target addr
      in (if held then m1\<lparr> sm_let_go_by_radio := (sm_let_go_by_radio m1)(target \<mapsto> addr) \<rparr> else m1, held))"

definition still_pressing :: "session_manager \<Rightarrow> tx_target \<Rightarrow> socket_addr \<Rightarrow> bool" where
  "still_pressing m target addr \<longleftrightarrow> sm_let_go_by_radio m target = Some addr"

definition let_go_seen :: "session_manager \<Rightarrow> tx_target \<Rightarrow> socket_addr \<Rightarrow> session_manager" where
  "let_go_seen m target addr =
     (if sm_let_go_by_radio m target = Some addr
      then m\<lparr> sm_let_go_by_radio := (sm_let_go_by_radio m)(target := None) \<rparr> else m)"

definition acquire_for_attempt ::
    "session_manager \<Rightarrow> tx_target \<Rightarrow> socket_addr \<Rightarrow> instant \<Rightarrow> session_manager \<times> bool option" where
  "acquire_for_attempt m target addr now =
     (let held_before = (tx_holder m target = Some addr);
          (m1, ok) = try_acquire_tx m target addr now
      in (m1, if ok then Some held_before else None))"

definition give_back_attempt ::
    "session_manager \<Rightarrow> tx_target \<Rightarrow> socket_addr \<Rightarrow> bool \<Rightarrow> session_manager" where
  "give_back_attempt m target addr held_before =
     (if \<not> held_before then fst (release_tx m target addr) else m)"

datatype denial = Refused | ServerReleased | Closed

definition acquire_refusal :: "session_manager \<Rightarrow> denial" where
  "acquire_refusal m = (if sm_tx_closed m then Closed else Refused)"

section \<open>The end of a session\<close>

definition is_active_authed :: "client_session \<Rightarrow> instant \<Rightarrow> bool" where
  "is_active_authed s now \<longleftrightarrow>
     \<not> silent_too_long (now - cl_last_seen s) False False \<and>
     (cl_auth_state s = NoAuth \<or> cl_auth_state s = Authenticated)"

definition addrs_where ::
    "session_manager \<Rightarrow> instant \<Rightarrow> (client_session \<Rightarrow> bool) \<Rightarrow> socket_addr list" where
  "addrs_where m now P =
     map fst (filter (\<lambda>(_, s). P s \<and> is_active_authed s now) (sm_clients m))"

definition active_addrs :: "session_manager \<Rightarrow> instant \<Rightarrow> socket_addr list" where
  "active_addrs m now = addrs_where m now (\<lambda>_. True)"

record tx_closed_result =
  tc_held :: "(tx_target \<times> socket_addr) list"
  tc_tell :: "socket_addr list"

definition close_tx :: "session_manager \<Rightarrow> instant \<Rightarrow> session_manager \<times> tx_closed_result" where
  "close_tx m now =
     (m\<lparr> sm_tx_closed := True, sm_tx_holders := Map.empty \<rparr>,
      \<lparr> tc_held = concat (map (\<lambda>t. case sm_tx_holders m t of None \<Rightarrow> [] | Some a \<Rightarrow> [(t, a)]) ALL_targets),
        tc_tell = active_addrs m now \<rparr>)"

text \<open>Both endings of a session walk the three transmitters.\<close>

fun release_targets ::
    "socket_addr \<Rightarrow> tx_target list \<Rightarrow> session_manager \<Rightarrow> session_manager \<times> tx_target list" where
  "release_targets addr [] m = (m, [])"
| "release_targets addr (t # ts) m =
     (if sm_tx_holders m t = Some addr
      then (let (m1, rel) = release_targets addr ts
                  (m\<lparr> sm_tx_holders := (sm_tx_holders m)(t := None) \<rparr>)
            in (m1, t # rel))
      else release_targets addr ts m)"

definition remove_client :: "session_manager \<Rightarrow> socket_addr \<Rightarrow> session_manager \<times> tx_target list" where
  "remove_client m addr = release_targets addr ALL_targets (forget_client m addr)"

definition timed_out_addrs :: "session_manager \<Rightarrow> instant \<Rightarrow> socket_addr list" where
  "timed_out_addrs m now =
     (let holders = {a. \<exists>t \<in> set ALL_targets. sm_tx_holders m t = Some a}
      in map fst (filter (\<lambda>(a, s). silent_too_long (now - cl_last_seen s) (a \<in> holders)
                                      (cl_auth_state s = PendingTotp)) (sm_clients m)))"

definition check_timeout :: "session_manager \<Rightarrow> instant \<Rightarrow> session_manager \<times> socket_addr list" where
  "check_timeout m now =
     (let timed_out = timed_out_addrs m now
      in (fold (\<lambda>a st. fst (release_targets a ALL_targets (forget_client st a))) timed_out m, timed_out))"

section \<open>Playout and the holder\<close>

definition playout_keys :: "bool \<Rightarrow> socket_addr option \<Rightarrow> socket_addr option \<Rightarrow> bool" where
  "playout_keys frame_ptt owner audio_from \<longleftrightarrow> frame_ptt \<and> owner \<noteq> None \<and> owner = audio_from"

definition playout_hands_back :: "bool \<Rightarrow> socket_addr option \<Rightarrow> socket_addr option \<Rightarrow> bool" where
  "playout_hands_back frame_ptt owner audio_from \<longleftrightarrow>
     \<not> frame_ptt \<and> owner \<noteq> None \<and> owner = audio_from"

definition holder_outlived :: "socket_addr option \<Rightarrow> socket_addr option \<Rightarrow> bool" where
  "holder_outlived remembered holder_now \<longleftrightarrow> remembered \<noteq> None \<and> holder_now \<noteq> remembered"

section \<open>Reading the table back\<close>

definition sessions_wf :: "session_manager \<Rightarrow> bool" where
  "sessions_wf m \<longleftrightarrow> distinct (map fst (sm_clients m))"

lemma session_of_insert [session_simps]:
  "session_of (insert_session m a s) b = (if b = a then Some s else session_of m b)"
  by (simp add: session_of_def insert_session_def update_conv)

lemma session_of_with [session_simps]:
  "session_of (with_session m a f) b = (if b = a then map_option f (session_of m a) else session_of m b)"
  by (auto simp: session_of_def with_session_def update_conv split: option.splits)

lemma session_of_forget [session_simps]:
  "session_of (forget_client m a) b = (if b = a then None else session_of m b)"
  by (simp add: session_of_def forget_client_def notify_def delete_conv)

lemma session_of_mark [session_simps]: "session_of (mark_admitted m a) b = session_of m b"
  by (simp add: session_of_def mark_admitted_def notify_def)

lemma session_of_fields [session_simps]:
  "session_of (m\<lparr> sm_tx_holders := h \<rparr>) b = session_of m b"
  "session_of (m\<lparr> sm_tx_closed := c \<rparr>) b = session_of m b"
  "session_of (m\<lparr> sm_radio_heard := r \<rparr>) b = session_of m b"
  "session_of (m\<lparr> sm_let_go_by_radio := l \<rparr>) b = session_of m b"
  "session_of (m\<lparr> sm_auth_failures := f \<rparr>) b = session_of m b"
  "session_of (m\<lparr> sm_connect_history := ch \<rparr>) b = session_of m b"
  by (simp_all add: session_of_def)

lemma with_session_fields [session_simps]:
  "sm_tx_holders (with_session m a f) = sm_tx_holders m"
  "sm_tx_closed (with_session m a f) = sm_tx_closed m"
  "sm_radio_heard (with_session m a f) = sm_radio_heard m"
  "sm_let_go_by_radio (with_session m a f) = sm_let_go_by_radio m"
  "sm_auth_failures (with_session m a f) = sm_auth_failures m"
  "sm_password (with_session m a f) = sm_password m"
  "sm_totp_secret (with_session m a f) = sm_totp_secret m"
  "sm_connect_history (with_session m a f) = sm_connect_history m"
  "sm_connect_generation (with_session m a f) = sm_connect_generation m"
  "sm_watched (with_session m a f) = sm_watched m"
  by (simp_all add: with_session_def split: option.splits)

lemma insert_session_fields [session_simps]:
  "sm_tx_holders (insert_session m a s) = sm_tx_holders m"
  "sm_tx_closed (insert_session m a s) = sm_tx_closed m"
  "sm_let_go_by_radio (insert_session m a s) = sm_let_go_by_radio m"
  "sm_auth_failures (insert_session m a s) = sm_auth_failures m"
  "sm_password (insert_session m a s) = sm_password m"
  "sm_totp_secret (insert_session m a s) = sm_totp_secret m"
  "sm_connect_history (insert_session m a s) = sm_connect_history m"
  "sm_connect_generation (insert_session m a s) = sm_connect_generation m"
  by (simp_all add: insert_session_def)

lemma mark_admitted_fields [session_simps]:
  "sm_tx_holders (mark_admitted m a) = sm_tx_holders m"
  "sm_tx_closed (mark_admitted m a) = sm_tx_closed m"
  "sm_auth_failures (mark_admitted m a) = sm_auth_failures m"
  "sm_password (mark_admitted m a) = sm_password m"
  "sm_totp_secret (mark_admitted m a) = sm_totp_secret m"
  "sm_connect_history (mark_admitted m a) = sm_connect_history m"
  "sm_connect_generation (mark_admitted m a) = sm_connect_generation m + 1"
  by (simp_all add: mark_admitted_def notify_def)

lemma forget_client_fields [session_simps]:
  "sm_tx_holders (forget_client m a) = sm_tx_holders m"
  "sm_tx_closed (forget_client m a) = sm_tx_closed m"
  "sm_auth_failures (forget_client m a) = sm_auth_failures m"
  "sm_password (forget_client m a) = sm_password m"
  "sm_totp_secret (forget_client m a) = sm_totp_secret m"
  "sm_connect_history (forget_client m a) = sm_connect_history m"
  "sm_connect_generation (forget_client m a) = sm_connect_generation m"
  "sm_let_go_by_radio (forget_client m a) t = Some b \<longleftrightarrow> sm_let_go_by_radio m t = Some b \<and> b \<noteq> a"
  by (auto simp: forget_client_def notify_def)

lemma clients_wf [session_simps]:
  "sessions_wf m \<Longrightarrow> sessions_wf (insert_session m a s)"
  "sessions_wf m \<Longrightarrow> sessions_wf (with_session m a f)"
  "sessions_wf m \<Longrightarrow> sessions_wf (forget_client m a)"
  "sessions_wf (mark_admitted m a) = sessions_wf m"
  by (auto simp: sessions_wf_def insert_session_def with_session_def forget_client_def
      mark_admitted_def notify_def distinct_update distinct_delete split: option.splits)

lemma clients_wf_fields [session_simps]:
  "sessions_wf (m\<lparr> sm_tx_holders := h \<rparr>) = sessions_wf m"
  "sessions_wf (m\<lparr> sm_tx_closed := c \<rparr>) = sessions_wf m"
  "sessions_wf (m\<lparr> sm_radio_heard := r \<rparr>) = sessions_wf m"
  "sessions_wf (m\<lparr> sm_let_go_by_radio := l \<rparr>) = sessions_wf m"
  "sessions_wf (m\<lparr> sm_auth_failures := f \<rparr>) = sessions_wf m"
  "sessions_wf (m\<lparr> sm_connect_history := ch \<rparr>) = sessions_wf m"
  by (simp_all add: sessions_wf_def)

lemma session_in_clients:
  assumes "sessions_wf m"
  shows "(a, s) \<in> set (sm_clients m) \<longleftrightarrow> session_of m a = Some s"
  using assms by (auto simp: sessions_wf_def session_of_def)

lemma addrs_where_iff:
  assumes "sessions_wf m"
  shows "a \<in> set (addrs_where m now P) \<longleftrightarrow>
           (\<exists>s. session_of m a = Some s \<and> P s \<and> is_active_authed s now)"
  using assms by (force simp: addrs_where_def session_in_clients [symmetric])

lemma addrs_where_distinct: "sessions_wf m \<Longrightarrow> distinct (addrs_where m now P)"
  by (auto simp: addrs_where_def sessions_wf_def intro: distinct_map_filter)

end
