(* ===== verification/Subscriptions.thy ===== *)
theory Subscriptions
  imports Sessions
begin

text \<open>
  What a client asked to receive, and who receives it: the setters, the subscription mask of the
  heartbeat answer, the lists of addresses the server's push loops send to, and the values
  resolved over all clients (\<^verbatim>\<open>sdr-remote-server/src/session.rs\<close>; \<^verbatim>\<open>SubscriptionMask\<close> of
  \<^verbatim>\<open>sdr-remote-core/src/protocol.rs\<close>). A setter for an address without a session changes nothing.
\<close>

section \<open>The setters\<close>

definition set_spectrum_enabled :: "session_manager \<Rightarrow> socket_addr \<Rightarrow> bool \<Rightarrow> session_manager" where
  "set_spectrum_enabled m addr enabled = with_session m addr (\<lambda>s. s\<lparr> cl_spectrum_enabled := enabled \<rparr>)"

definition set_rx1_enabled :: "session_manager \<Rightarrow> socket_addr \<Rightarrow> bool \<Rightarrow> session_manager" where
  "set_rx1_enabled m addr enabled = with_session m addr (\<lambda>s. s\<lparr> cl_rx1_enabled := enabled \<rparr>)"

definition set_rx2_enabled :: "session_manager \<Rightarrow> socket_addr \<Rightarrow> bool \<Rightarrow> session_manager" where
  "set_rx2_enabled m addr enabled = with_session m addr (\<lambda>s. s\<lparr> cl_rx2_enabled := enabled \<rparr>)"

definition set_yaesu_enabled :: "session_manager \<Rightarrow> socket_addr \<Rightarrow> bool \<Rightarrow> session_manager" where
  "set_yaesu_enabled m addr enabled = with_session m addr (\<lambda>s. s\<lparr> cl_yaesu_enabled := enabled \<rparr>)"

definition set_yaesu2_enabled :: "session_manager \<Rightarrow> socket_addr \<Rightarrow> bool \<Rightarrow> session_manager" where
  "set_yaesu2_enabled m addr enabled = with_session m addr (\<lambda>s. s\<lparr> cl_yaesu2_enabled := enabled \<rparr>)"

definition set_yaesu_state_enabled :: "session_manager \<Rightarrow> socket_addr \<Rightarrow> bool \<Rightarrow> session_manager" where
  "set_yaesu_state_enabled m addr enabled = with_session m addr (\<lambda>s. s\<lparr> cl_yaesu_state_enabled := enabled \<rparr>)"

definition set_yaesu2_state_enabled :: "session_manager \<Rightarrow> socket_addr \<Rightarrow> bool \<Rightarrow> session_manager" where
  "set_yaesu2_state_enabled m addr enabled = with_session m addr (\<lambda>s. s\<lparr> cl_yaesu2_state_enabled := enabled \<rparr>)"

definition set_dx_spots_enabled :: "session_manager \<Rightarrow> socket_addr \<Rightarrow> bool \<Rightarrow> session_manager" where
  "set_dx_spots_enabled m addr enabled = with_session m addr (\<lambda>s. s\<lparr> cl_dx_spots_enabled := enabled \<rparr>)"

definition set_full_spectrum_enabled :: "session_manager \<Rightarrow> socket_addr \<Rightarrow> bool \<Rightarrow> session_manager" where
  "set_full_spectrum_enabled m addr enabled = with_session m addr (\<lambda>s. s\<lparr> cl_full_spectrum_enabled := enabled \<rparr>)"

definition set_thetis_wideband :: "session_manager \<Rightarrow> socket_addr \<Rightarrow> bool \<Rightarrow> session_manager" where
  "set_thetis_wideband m addr enabled = with_session m addr (\<lambda>s. s\<lparr> cl_thetis_wideband_audio := enabled \<rparr>)"

definition set_rx2_spectrum_enabled :: "session_manager \<Rightarrow> socket_addr \<Rightarrow> bool \<Rightarrow> session_manager" where
  "set_rx2_spectrum_enabled m addr enabled = with_session m addr (\<lambda>s. s\<lparr> cl_rx2_spectrum_enabled := enabled \<rparr>)"

definition set_allow_zoom_below_2x :: "session_manager \<Rightarrow> socket_addr \<Rightarrow> bool \<Rightarrow> session_manager" where
  "set_allow_zoom_below_2x m addr enabled = with_session m addr (\<lambda>s. s\<lparr> cl_allow_zoom_below_2x := enabled \<rparr>)"

definition set_vrx_audio :: "session_manager \<Rightarrow> socket_addr \<Rightarrow> u8 \<Rightarrow> bool \<Rightarrow> session_manager" where
  "set_vrx_audio m addr ch on = with_session m addr (\<lambda>s. if ch = 0 then s\<lparr> cl_vrx1_audio_enabled := on \<rparr> else s\<lparr> cl_vrx2_audio_enabled := on \<rparr>)"

definition set_vrx_spectrum :: "session_manager \<Rightarrow> socket_addr \<Rightarrow> u8 \<Rightarrow> bool \<Rightarrow> session_manager" where
  "set_vrx_spectrum m addr ch on = with_session m addr (\<lambda>s. if ch = 0 then s\<lparr> cl_vrx1_spectrum_enabled := on \<rparr> else s\<lparr> cl_vrx2_spectrum_enabled := on \<rparr>)"

definition set_vrx_autotune :: "session_manager \<Rightarrow> socket_addr \<Rightarrow> u8 \<Rightarrow> bool \<Rightarrow> session_manager" where
  "set_vrx_autotune m addr ch on = with_session m addr (\<lambda>s. if ch = 0 then s\<lparr> cl_vrx1_autotune_enabled := on \<rparr> else s\<lparr> cl_vrx2_autotune_enabled := on \<rparr>)"

definition set_spectrum_fps :: "session_manager \<Rightarrow> socket_addr \<Rightarrow> u8 \<Rightarrow> session_manager" where
  "set_spectrum_fps m addr fps = with_session m addr (\<lambda>s. s\<lparr> cl_spectrum_fps := clamp 5 30 fps \<rparr>)"

definition set_rx2_spectrum_fps :: "session_manager \<Rightarrow> socket_addr \<Rightarrow> u8 \<Rightarrow> session_manager" where
  "set_rx2_spectrum_fps m addr fps = with_session m addr (\<lambda>s. s\<lparr> cl_rx2_spectrum_fps := clamp 5 30 fps \<rparr>)"

definition set_spectrum_max_bins :: "session_manager \<Rightarrow> socket_addr \<Rightarrow> u16 \<Rightarrow> session_manager" where
  "set_spectrum_max_bins m addr max_bins = with_session m addr (\<lambda>s. 
     s\<lparr> cl_spectrum_max_bins :=
          (if max_bins = 0 then SERVER_DEFAULT_MAX_BINS
           else clamp 64 (of_nat MAX_SPECTRUM_SEND_BINS) max_bins) \<rparr>)"

definition set_rx2_spectrum_max_bins :: "session_manager \<Rightarrow> socket_addr \<Rightarrow> u16 \<Rightarrow> session_manager" where
  "set_rx2_spectrum_max_bins m addr max_bins = with_session m addr (\<lambda>s. 
     s\<lparr> cl_rx2_spectrum_max_bins :=
          (if max_bins = 0 then SERVER_DEFAULT_MAX_BINS
           else clamp 64 (of_nat MAX_SPECTRUM_SEND_BINS) max_bins) \<rparr>)"

definition set_spectrum_zoom :: "session_manager \<Rightarrow> socket_addr \<Rightarrow> rat \<Rightarrow> session_manager" where
  "set_spectrum_zoom m addr zoom = with_session m addr (\<lambda>s. s\<lparr> cl_spectrum_zoom := clamp 1 1024 zoom \<rparr>)"

definition set_rx2_spectrum_zoom :: "session_manager \<Rightarrow> socket_addr \<Rightarrow> rat \<Rightarrow> session_manager" where
  "set_rx2_spectrum_zoom m addr zoom = with_session m addr (\<lambda>s. s\<lparr> cl_rx2_spectrum_zoom := clamp 1 1024 zoom \<rparr>)"

definition set_spectrum_pan :: "session_manager \<Rightarrow> socket_addr \<Rightarrow> rat \<Rightarrow> bool \<Rightarrow> session_manager" where
  "set_spectrum_pan m addr pan fine = with_session m addr (\<lambda>s. 
     (if fine \<or> \<not> cl_fine_pan s then s\<lparr> cl_spectrum_pan := clamp (- 1/2) (1/2) pan \<rparr> else s)
       \<lparr> cl_fine_pan := cl_fine_pan s \<or> fine \<rparr>)"

definition set_rx2_spectrum_pan :: "session_manager \<Rightarrow> socket_addr \<Rightarrow> rat \<Rightarrow> bool \<Rightarrow> session_manager" where
  "set_rx2_spectrum_pan m addr pan fine = with_session m addr (\<lambda>s. 
     (if fine \<or> \<not> cl_fine_pan s then s\<lparr> cl_rx2_spectrum_pan := clamp (- 1/2) (1/2) pan \<rparr> else s)
       \<lparr> cl_fine_pan := cl_fine_pan s \<or> fine \<rparr>)"

definition set_smeter_sources :: "session_manager \<Rightarrow> socket_addr \<Rightarrow> u16 \<Rightarrow> session_manager" where
  "set_smeter_sources m addr sources = with_session m addr (\<lambda>s. s\<lparr> cl_smeter_sources := sources \<rparr>)"

definition set_audio_mode :: "session_manager \<Rightarrow> socket_addr \<Rightarrow> u8 \<Rightarrow> session_manager" where
  "set_audio_mode m addr mode = with_session m addr (\<lambda>s. s\<lparr> cl_audio_mode := mode \<rparr>)"

lemmas setter_defs = set_spectrum_enabled_def
  set_rx1_enabled_def
  set_rx2_enabled_def
  set_yaesu_enabled_def
  set_yaesu2_enabled_def
  set_yaesu_state_enabled_def
  set_yaesu2_state_enabled_def
  set_dx_spots_enabled_def
  set_full_spectrum_enabled_def
  set_thetis_wideband_def
  set_rx2_spectrum_enabled_def
  set_allow_zoom_below_2x_def
  set_vrx_audio_def
  set_vrx_spectrum_def
  set_vrx_autotune_def
  set_spectrum_fps_def
  set_rx2_spectrum_fps_def
  set_spectrum_max_bins_def
  set_rx2_spectrum_max_bins_def
  set_spectrum_zoom_def
  set_rx2_spectrum_zoom_def
  set_spectrum_pan_def
  set_rx2_spectrum_pan_def
  set_smeter_sources_def
  set_audio_mode_def

section \<open>Reading one client's settings\<close>

definition smeter_sources :: "session_manager \<Rightarrow> socket_addr \<Rightarrow> u16" where
  "smeter_sources m addr = (case session_of m addr of None \<Rightarrow> 0x22 | Some s \<Rightarrow> cl_smeter_sources s)"

definition client_audio_mode :: "session_manager \<Rightarrow> socket_addr \<Rightarrow> u8" where
  "client_audio_mode m addr = (case session_of m addr of None \<Rightarrow> 255 | Some s \<Rightarrow> cl_audio_mode s)"

definition client_rx2_enabled :: "session_manager \<Rightarrow> socket_addr \<Rightarrow> bool" where
  "client_rx2_enabled m addr = (case session_of m addr of None \<Rightarrow> False | Some s \<Rightarrow> cl_rx2_enabled s)"

definition client_rx1_enabled :: "session_manager \<Rightarrow> socket_addr \<Rightarrow> bool" where
  "client_rx1_enabled m addr = (case session_of m addr of None \<Rightarrow> True | Some s \<Rightarrow> cl_rx1_enabled s)"

definition client_thetis_wideband :: "session_manager \<Rightarrow> socket_addr \<Rightarrow> bool" where
  "client_thetis_wideband m addr =
     (case session_of m addr of None \<Rightarrow> False | Some s \<Rightarrow> cl_thetis_wideband_audio s)"

definition client_loss :: "session_manager \<Rightarrow> socket_addr \<Rightarrow> u8" where
  "client_loss m addr = (case session_of m addr of None \<Rightarrow> 0 | Some s \<Rightarrow> cl_loss_percent s)"

definition opening_burst :: "session_manager \<Rightarrow> socket_addr \<Rightarrow> instant \<Rightarrow> bool" where
  "opening_burst m addr now =
     (case session_of m addr of None \<Rightarrow> False | Some s \<Rightarrow> now - cl_connected_since s < secs 3)"

text \<open>The mask: one bit per subscription.\<close>

definition mask_has :: "u16 \<Rightarrow> u16 \<Rightarrow> bool" where
  "mask_has m b \<longleftrightarrow> m AND b \<noteq> 0"

definition mask_set :: "u16 \<Rightarrow> u16 \<Rightarrow> bool \<Rightarrow> u16" where
  "mask_set m b on = (if on then m OR b else m AND NOT b)"

definition RX1_AUDIO :: u16 where "RX1_AUDIO = push_bit 0 1"
definition RX2_AUDIO :: u16 where "RX2_AUDIO = push_bit 1 1"
definition RX1_SPECTRUM :: u16 where "RX1_SPECTRUM = push_bit 2 1"
definition RX2_SPECTRUM :: u16 where "RX2_SPECTRUM = push_bit 3 1"
definition VRX1 :: u16 where "VRX1 = push_bit 4 1"
definition VRX2 :: u16 where "VRX2 = push_bit 5 1"
definition VRX1_SPECTRUM :: u16 where "VRX1_SPECTRUM = push_bit 6 1"
definition VRX2_SPECTRUM :: u16 where "VRX2_SPECTRUM = push_bit 7 1"
definition YAESU :: u16 where "YAESU = push_bit 8 1"
definition YAESU2 :: u16 where "YAESU2 = push_bit 9 1"
definition FULL_SPECTRUM :: u16 where "FULL_SPECTRUM = push_bit 10 1"
definition DX_SPOTS :: u16 where "DX_SPOTS = push_bit 11 1"

lemmas mask_bits_defs =
  RX1_AUDIO_def RX2_AUDIO_def RX1_SPECTRUM_def RX2_SPECTRUM_def VRX1_def VRX2_def
  VRX1_SPECTRUM_def VRX2_SPECTRUM_def YAESU_def YAESU2_def FULL_SPECTRUM_def DX_SPOTS_def

definition subscription_mask :: "session_manager \<Rightarrow> socket_addr \<Rightarrow> u16" where
  "subscription_mask m addr =
     (case session_of m addr of
        None \<Rightarrow> 0
      | Some s \<Rightarrow>
          fold (\<lambda>(b, on) acc. mask_set acc b on)
            [(RX1_AUDIO, cl_rx1_enabled s),
             (RX2_AUDIO, cl_rx2_enabled s),
             (RX1_SPECTRUM, cl_spectrum_enabled s),
             (RX2_SPECTRUM, cl_rx2_spectrum_enabled s),
             (VRX1, cl_vrx1_audio_enabled s),
             (VRX2, cl_vrx2_audio_enabled s),
             (VRX1_SPECTRUM, cl_vrx1_spectrum_enabled s),
             (VRX2_SPECTRUM, cl_vrx2_spectrum_enabled s),
             (YAESU, cl_yaesu_enabled s),
             (YAESU2, cl_yaesu2_enabled s),
             (FULL_SPECTRUM, cl_full_spectrum_enabled s),
             (DX_SPOTS, cl_dx_spots_enabled s)] 0)"

section \<open>Who receives what\<close>

definition smeter_addrs :: "session_manager \<Rightarrow> instant \<Rightarrow> socket_addr list" where
  "smeter_addrs m now =
     addrs_where m now
       (\<lambda>s. \<not> (cl_yaesu_enabled s \<or> cl_yaesu2_enabled s) \<or> cl_spectrum_enabled s)"

definition thetis_audio_addrs :: "session_manager \<Rightarrow> instant \<Rightarrow> socket_addr list" where
  "thetis_audio_addrs m now = addrs_where m now (\<lambda>s. True)"

definition vrx_audio_addrs :: "u8 \<Rightarrow> session_manager \<Rightarrow> instant \<Rightarrow> socket_addr list" where
  "vrx_audio_addrs ch m now =
     addrs_where m now (\<lambda>s. if ch = 0 then cl_vrx1_audio_enabled s else cl_vrx2_audio_enabled s)"

definition vrx_spectrum_addrs :: "u8 \<Rightarrow> session_manager \<Rightarrow> instant \<Rightarrow> socket_addr list" where
  "vrx_spectrum_addrs ch m now =
     addrs_where m now (\<lambda>s. if ch = 0 then cl_vrx1_spectrum_enabled s else cl_vrx2_spectrum_enabled s)"

definition vrx_autotune_addrs :: "u8 \<Rightarrow> session_manager \<Rightarrow> instant \<Rightarrow> socket_addr list" where
  "vrx_autotune_addrs ch m now =
     addrs_where m now (\<lambda>s. if ch = 0 then cl_vrx1_autotune_enabled s else cl_vrx2_autotune_enabled s)"

definition dx_spots_addrs :: "session_manager \<Rightarrow> instant \<Rightarrow> socket_addr list" where
  "dx_spots_addrs m now = addrs_where m now cl_dx_spots_enabled"

definition yaesu_addrs :: "session_manager \<Rightarrow> instant \<Rightarrow> socket_addr list" where
  "yaesu_addrs m now = addrs_where m now cl_yaesu_enabled"

definition yaesu2_addrs :: "session_manager \<Rightarrow> instant \<Rightarrow> socket_addr list" where
  "yaesu2_addrs m now = addrs_where m now cl_yaesu2_enabled"

definition yaesu_state_addrs :: "session_manager \<Rightarrow> instant \<Rightarrow> socket_addr list" where
  "yaesu_state_addrs m now = addrs_where m now (\<lambda>s. cl_yaesu_state_enabled s \<or> cl_yaesu_enabled s)"

definition yaesu2_state_addrs :: "session_manager \<Rightarrow> instant \<Rightarrow> socket_addr list" where
  "yaesu2_state_addrs m now = addrs_where m now (\<lambda>s. cl_yaesu2_state_enabled s \<or> cl_yaesu2_enabled s)"

definition rx2_addrs :: "session_manager \<Rightarrow> instant \<Rightarrow> socket_addr list" where
  "rx2_addrs m now = addrs_where m now cl_rx2_enabled"

definition rx2_spectrum_addrs :: "session_manager \<Rightarrow> instant \<Rightarrow> socket_addr list" where
  "rx2_spectrum_addrs m now = addrs_where m now cl_rx2_spectrum_enabled"

definition spectrum_addrs :: "session_manager \<Rightarrow> instant \<Rightarrow> socket_addr list" where
  "spectrum_addrs m now = addrs_where m now cl_spectrum_enabled"

text \<open>The lists that carry more than the address.\<close>

definition full_row_clients ::
    "u8 \<Rightarrow> session_manager \<Rightarrow> instant \<Rightarrow> (socket_addr \<times> u16 \<times> u8) list" where
  "full_row_clients ch m now =
     map (\<lambda>(a, s). (a, if ch = 0 then cl_spectrum_max_bins s else cl_rx2_spectrum_max_bins s,
                    cl_loss_percent s))
       (filter (\<lambda>(_, s). if ch = 0 then cl_spectrum_enabled s \<or> cl_vrx1_spectrum_enabled s
                         else cl_rx2_spectrum_enabled s \<or> cl_vrx2_spectrum_enabled s)
         (filter (\<lambda>(_, s). is_active_authed s now \<and> cl_full_spectrum_enabled s) (sm_clients m)))"

definition spectrum_clients ::
    "session_manager \<Rightarrow> instant \<Rightarrow> (socket_addr \<times> rat \<times> rat \<times> u16) list" where
  "spectrum_clients m now =
     map (\<lambda>(a, s). (a, cl_spectrum_zoom s, cl_spectrum_pan s, cl_spectrum_max_bins s))
       (filter (\<lambda>(_, s). cl_spectrum_enabled s \<and> is_active_authed s now) (sm_clients m))"

definition rx2_spectrum_clients ::
    "session_manager \<Rightarrow> instant \<Rightarrow> (socket_addr \<times> rat \<times> rat \<times> u16) list" where
  "rx2_spectrum_clients m now =
     map (\<lambda>(a, s). (a, cl_rx2_spectrum_zoom s, cl_rx2_spectrum_pan s, cl_rx2_spectrum_max_bins s))
       (filter (\<lambda>(_, s). cl_rx2_spectrum_enabled s \<and> is_active_authed s now) (sm_clients m))"

section \<open>Resolved over all clients\<close>

definition any_client_wants_thetis_wideband :: "session_manager \<Rightarrow> instant \<Rightarrow> bool" where
  "any_client_wants_thetis_wideband m now =
     list_ex (\<lambda>(_, s). cl_thetis_wideband_audio s \<and> is_active_authed s now) (sm_clients m)"

text \<open>\<^verbatim>\<open>Iterator::max\<close>: nothing for an empty list.\<close>

fun max_of :: "'a::linorder list \<Rightarrow> 'a option" where
  "max_of [] = None"
| "max_of (x # xs) = (case max_of xs of None \<Rightarrow> Some x | Some y \<Rightarrow> Some (max x y))"

definition resolved_audio_mode :: "session_manager \<Rightarrow> instant \<Rightarrow> u8" where
  "resolved_audio_mode m now =
     (let active = map (\<lambda>(_, s). cl_audio_mode s)
                     (filter (\<lambda>(_, s). is_active_authed s now) (sm_clients m))
      in if active = [] then 0
         else if list_all (\<lambda>d. d = 1) active then 1
         else case max_of (filter (\<lambda>d. d \<noteq> 1) active) of None \<Rightarrow> 0 | Some d \<Rightarrow> d)"

definition spectrum_max_fps :: "session_manager \<Rightarrow> u8" where
  "spectrum_max_fps m =
     (case max_of (map (\<lambda>(_, s). cl_spectrum_fps s)
             (filter (\<lambda>(_, s). cl_spectrum_enabled s) (sm_clients m))) of
        None \<Rightarrow> DEFAULT_SPECTRUM_FPS | Some f \<Rightarrow> f)"

definition server_enforced_zoom_min :: "session_manager \<Rightarrow> rat" where
  "server_enforced_zoom_min m =
     (if sm_clients m = [] then 2
      else if list_all (\<lambda>(_, s). cl_allow_zoom_below_2x s) (sm_clients m) then 1 else 2)"

definition fold_min :: "rat list \<Rightarrow> rat option" where
  "fold_min zs = fold (\<lambda>z acc. Some (case acc of None \<Rightarrow> z | Some a \<Rightarrow> min a z)) zs None"

definition effective_zoom_rx1 :: "session_manager \<Rightarrow> rat option" where
  "effective_zoom_rx1 m =
     (let raw = fold_min (map (\<lambda>(_, s). cl_spectrum_zoom s)
                   (filter (\<lambda>(_, s). cl_spectrum_enabled s) (sm_clients m)));
          strictest = server_enforced_zoom_min m
      in map_option (\<lambda>z. max z strictest) raw)"

definition effective_zoom_rx2 :: "session_manager \<Rightarrow> rat option" where
  "effective_zoom_rx2 m =
     (let raw = fold_min (map (\<lambda>(_, s). cl_rx2_spectrum_zoom s)
                   (filter (\<lambda>(_, s). cl_rx2_spectrum_enabled s) (sm_clients m)));
          strictest = server_enforced_zoom_min m
      in map_option (\<lambda>z. max z strictest) raw)"

section \<open>The mask says what the session holds\<close>

lemma mask_has_bit: "mask_has m (push_bit k 1) \<longleftrightarrow> k < 16 \<and> bit m k"
proof
  assume "mask_has m (push_bit k 1)"
  then obtain n where "bit (m AND push_bit k 1) n"
    by (auto simp: mask_has_def bit_eq_iff)
  then show "k < 16 \<and> bit m k" by (auto simp: bit_simps dest: bit_imp_le_length)
next
  assume "k < 16 \<and> bit m k"
  then have "bit (m AND push_bit k 1) k" by (auto simp: bit_simps)
  then show "mask_has m (push_bit k 1)" by (auto simp: mask_has_def)
qed

lemma bit_mask_set:
  "bit (mask_set m (push_bit k 1) on) n \<longleftrightarrow>
     (if n = k \<and> n < 16 then on else bit m n)"
  by (auto simp: mask_set_def bit_simps dest: bit_imp_le_length)

lemmas bit_mask_bits = bit_mask_set [of m 0 on n for m on n, folded RX1_AUDIO_def]
  bit_mask_set [of m 1 on n for m on n, folded RX2_AUDIO_def]
  bit_mask_set [of m 2 on n for m on n, folded RX1_SPECTRUM_def]
  bit_mask_set [of m 3 on n for m on n, folded RX2_SPECTRUM_def]
  bit_mask_set [of m 4 on n for m on n, folded VRX1_def]
  bit_mask_set [of m 5 on n for m on n, folded VRX2_def]
  bit_mask_set [of m 6 on n for m on n, folded VRX1_SPECTRUM_def]
  bit_mask_set [of m 7 on n for m on n, folded VRX2_SPECTRUM_def]
  bit_mask_set [of m 8 on n for m on n, folded YAESU_def]
  bit_mask_set [of m 9 on n for m on n, folded YAESU2_def]
  bit_mask_set [of m 10 on n for m on n, folded FULL_SPECTRUM_def]
  bit_mask_set [of m 11 on n for m on n, folded DX_SPOTS_def]

lemma bit_subscription_mask:
  assumes "session_of m addr = Some s"
  shows "bit (subscription_mask m addr) n \<longleftrightarrow>
     n < 12 \<and>
     [cl_rx1_enabled s, cl_rx2_enabled s, cl_spectrum_enabled s, cl_rx2_spectrum_enabled s,
      cl_vrx1_audio_enabled s, cl_vrx2_audio_enabled s, cl_vrx1_spectrum_enabled s,
      cl_vrx2_spectrum_enabled s, cl_yaesu_enabled s, cl_yaesu2_enabled s,
      cl_full_spectrum_enabled s, cl_dx_spots_enabled s] ! n"
proof -
  have "n \<in> {0, 1, 2, 3, 4, 5, 6, 7, 8, 9, 10, 11} \<or> 12 \<le> n" by (simp, arith)
  then show ?thesis
    by (elim disjE insertE emptyE) (simp_all add: assms subscription_mask_def bit_mask_bits)
qed

section \<open>Audiences\<close>

locale audience =
  fixes subscribed :: "client_session \<Rightarrow> bool"
    and addrs :: "session_manager \<Rightarrow> instant \<Rightarrow> socket_addr list"
  assumes addrs_def: "addrs m now = addrs_where m now subscribed"
begin

lemma receives_iff:
  assumes "sessions_wf m"
  shows "a \<in> set (addrs m now) \<longleftrightarrow>
           (\<exists>s. session_of m a = Some s \<and> subscribed s \<and> is_active_authed s now)"
  using assms by (simp add: addrs_def addrs_where_iff)

lemma once: "sessions_wf m \<Longrightarrow> distinct (addrs m now)"
  by (simp add: addrs_def addrs_where_distinct)

lemma among_active: "sessions_wf m \<Longrightarrow> set (addrs m now) \<subseteq> set (active_addrs m now)"
  by (auto simp: receives_iff active_addrs_def addrs_where_iff)

lemma none_at_the_login:
  assumes "sessions_wf m" "get_auth_state m a = Some PendingTotp \<or> get_auth_state m a = Some (PendingChallenge n t)"
  shows "a \<notin> set (addrs m now)"
  using assms by (auto simp: receives_iff get_auth_state_def is_active_authed_def)

lemma not_after_removal:
  assumes "sessions_wf m"
  shows "a \<notin> set (addrs (forget_client m a) now)"
  using assms by (simp add: receives_iff session_simps)

end

interpretation smeter: audience
  "\<lambda>s. \<not> (cl_yaesu_enabled s \<or> cl_yaesu2_enabled s) \<or> cl_spectrum_enabled s" smeter_addrs
  by unfold_locales (rule smeter_addrs_def)
interpretation thetis_audio: audience "\<lambda>s. True" thetis_audio_addrs
  by unfold_locales (rule thetis_audio_addrs_def)
interpretation vrx_audio: audience
  "\<lambda>s. if ch = 0 then cl_vrx1_audio_enabled s else cl_vrx2_audio_enabled s" "vrx_audio_addrs ch" for ch
  by unfold_locales (rule vrx_audio_addrs_def)
interpretation dx_spots: audience cl_dx_spots_enabled dx_spots_addrs
  by unfold_locales (rule dx_spots_addrs_def)
interpretation vrx_spectrum: audience
  "\<lambda>s. if ch = 0 then cl_vrx1_spectrum_enabled s else cl_vrx2_spectrum_enabled s" "vrx_spectrum_addrs ch" for ch
  by unfold_locales (rule vrx_spectrum_addrs_def)
interpretation vrx_autotune: audience
  "\<lambda>s. if ch = 0 then cl_vrx1_autotune_enabled s else cl_vrx2_autotune_enabled s" "vrx_autotune_addrs ch" for ch
  by unfold_locales (rule vrx_autotune_addrs_def)
interpretation yaesu: audience cl_yaesu_enabled yaesu_addrs
  by unfold_locales (rule yaesu_addrs_def)
interpretation yaesu2: audience cl_yaesu2_enabled yaesu2_addrs
  by unfold_locales (rule yaesu2_addrs_def)
interpretation yaesu_state: audience
  "\<lambda>s. cl_yaesu_state_enabled s \<or> cl_yaesu_enabled s" yaesu_state_addrs
  by unfold_locales (rule yaesu_state_addrs_def)
interpretation yaesu2_state: audience
  "\<lambda>s. cl_yaesu2_state_enabled s \<or> cl_yaesu2_enabled s" yaesu2_state_addrs
  by unfold_locales (rule yaesu2_state_addrs_def)
interpretation rx2: audience cl_rx2_enabled rx2_addrs
  by unfold_locales (rule rx2_addrs_def)
interpretation rx2_spectrum: audience cl_rx2_spectrum_enabled rx2_spectrum_addrs
  by unfold_locales (rule rx2_spectrum_addrs_def)
interpretation spectrum: audience cl_spectrum_enabled spectrum_addrs
  by unfold_locales (rule spectrum_addrs_def)

section \<open>Resolved values\<close>

lemma max_of_Some: "max_of xs = Some y \<longleftrightarrow> xs \<noteq> [] \<and> y \<in> set xs \<and> (\<forall>x \<in> set xs. x \<le> y)"
proof (induction xs arbitrary: y)
  case Nil
  then show ?case by simp
next
  case (Cons x xs)
  show ?case
  proof (cases "max_of xs")
    case None
    then have "xs = []" by (cases xs) (auto split: option.splits)
    then show ?thesis by auto
  next
    case (Some z)
    then show ?thesis using Cons.IH [of z]
      by (auto simp: max_def intro: order_antisym dest: order_trans)
  qed
qed

lemma max_of_None: "max_of xs = None \<longleftrightarrow> xs = []"
  by (cases xs) (auto split: option.splits)

lemma fold_min_aux:
  "fold (\<lambda>z acc. Some (case acc of None \<Rightarrow> z | Some a \<Rightarrow> min a z)) zs (Some a) = Some (fold min zs (a :: rat))"
proof (induction zs arbitrary: a)
  case Nil
  then show ?case by simp
next
  case (Cons z zs)
  then show ?case by (simp add: min.commute [of z a])
qed

lemma fold_min_eq: "fold_min zs = (if zs = [] then None else Some (Min (set zs)))"
  by (cases zs) (auto simp add: fold_min_def fold_min_aux Min.set_eq_fold [symmetric] del: list.set)


text \<open>BIN (1) goes out only when every active client asks for it.\<close>

lemma resolved_bin_iff:
  "resolved_audio_mode m now = 1 \<longleftrightarrow>
     (\<exists>(a, s) \<in> set (sm_clients m). is_active_authed s now) \<and>
     (\<forall>(a, s) \<in> set (sm_clients m). is_active_authed s now \<longrightarrow> cl_audio_mode s = 1)"
proof -
  let ?act = "map (\<lambda>(_, s). cl_audio_mode s) (filter (\<lambda>(_, s). is_active_authed s now) (sm_clients m))"
  have "?act = [] \<longleftrightarrow> \<not> (\<exists>(a, s) \<in> set (sm_clients m). is_active_authed s now)"
    by (auto simp: filter_empty_conv)
  moreover have "list_all (\<lambda>d. d = 1) ?act \<longleftrightarrow>
      (\<forall>(a, s) \<in> set (sm_clients m). is_active_authed s now \<longrightarrow> cl_audio_mode s = 1)"
    by (auto simp: list_all_iff)
  moreover have "max_of (filter (\<lambda>d. d \<noteq> 1) ?act) \<noteq> Some 1"
    by (simp add: max_of_Some)
  ultimately show ?thesis
    by (auto simp: resolved_audio_mode_def Let_def split: option.splits)
qed

lemma effective_zoom_rx1_eq:
  "effective_zoom_rx1 m = Some z \<longleftrightarrow>
     (let zs = cl_spectrum_zoom ` {s. \<exists>a. (a, s) \<in> set (sm_clients m) \<and> cl_spectrum_enabled s}
      in zs \<noteq> {} \<and> z = max (Min zs) (server_enforced_zoom_min m))"
proof -
  have "set (map (\<lambda>(_, s). cl_spectrum_zoom s) (filter (\<lambda>(_, s). cl_spectrum_enabled s) (sm_clients m))) =
        cl_spectrum_zoom ` {s. \<exists>a. (a, s) \<in> set (sm_clients m) \<and> cl_spectrum_enabled s}"
    by force
  then show ?thesis
    by (auto simp: effective_zoom_rx1_def fold_min_eq Let_def filter_empty_conv)
qed

end
