(* ===== verification/SessionRuns.thy ===== *)
theory SessionRuns imports Subscriptions
begin

text \<open>
  Runs of the session table: every operation that changes it as a step, and what holds along any
  sequence of steps - who can be authenticated, and how the ownership of a transmitter moves. A
  step is labelled with the call that was made. The crates (HMAC, key derivation, the TOTP check)
  come in one record.
\<close>

section \<open>Steps\<close>

record auth_env =
  ae_hmac :: "bytes \<Rightarrow> bytes \<Rightarrow> bytes"
  ae_hkdf :: "bytes \<Rightarrow> bytes \<Rightarrow> bytes \<Rightarrow> bytes"
  ae_code_ok :: "bytes \<Rightarrow> bytes \<Rightarrow> bool"

datatype session_event =
    EvTouch socket_addr instant
  | EvChallenge socket_addr bytes instant
  | EvAuth socket_addr bytes "bytes option" auth_channel instant
  | EvTotp socket_addr bytes socket_addr instant
  | EvHeartbeat socket_addr u32 u16 u8 u8 instant
  | EvControl socket_addr control_key u32
  | EvBuild socket_addr peer_build
  | EvSetting socket_addr
  | EvHistory socket_addr connect_outcome instant
  | EvAcquire tx_target socket_addr instant
  | EvRelease tx_target socket_addr
  | EvGiveBack tx_target socket_addr bool
  | EvSafety
  | EvSilentRadio tx_target instant
  | EvHeard tx_target socket_addr instant
  | EvRadioLetsGo tx_target socket_addr
  | EvLetGoSeen tx_target socket_addr
  | EvClose instant
  | EvRemove socket_addr
  | EvTimeout instant

text \<open>A setting of the client: an update of its session that leaves its login alone.\<close>

definition is_setting :: "(client_session \<Rightarrow> client_session) \<Rightarrow> bool" where
  "is_setting f \<longleftrightarrow> (\<forall>s. cl_auth_state (f s) = cl_auth_state s)"

inductive session_step ::
    "auth_env \<Rightarrow> session_manager \<Rightarrow> session_event \<Rightarrow> session_manager \<Rightarrow> bool"
  for env :: auth_env where
  step_touch: "session_step env m (EvTouch a now) (fst (touch m a now))"
| step_challenge: "session_step env m (EvChallenge a nonce now) (fst (create_challenge m a nonce now))"
| step_auth: "session_step env m (EvAuth a response nc ch now)
    (fst (verify_auth (ae_hmac env) (ae_hkdf env) m a response nc ch now))"
| step_totp: "session_step env m (EvTotp a code throttle now)
    (fst (verify_totp (ae_code_ok env) m a code throttle now))"
| step_heartbeat: "session_step env m (EvHeartbeat a n rtt loss jit now)
    (update_heartbeat m a n rtt loss jit now)"
| step_control: "session_step env m (EvControl a key n) (fst (judge_control m a key n))"
| step_build: "session_step env m (EvBuild a b) (fst (note_client_build m a b))"
| step_setting: "is_setting f \<Longrightarrow> session_step env m (EvSetting a) (with_session m a f)"
| step_history: "session_step env m (EvHistory a oc now) (record_connect_attempt m a oc now)"
| step_acquire: "session_step env m (EvAcquire t a now) (fst (try_acquire_tx m t a now))"
| step_release: "session_step env m (EvRelease t a) (fst (release_tx m t a))"
| step_give_back: "session_step env m (EvGiveBack t a held) (give_back_attempt m t a held)"
| step_safety: "session_step env m EvSafety (fst (release_after_safety m))"
| step_silent: "session_step env m (EvSilentRadio t now) (fst (release_silent_radio m t now))"
| step_heard: "session_step env m (EvHeard t a now) (heard_on m t a now)"
| step_radio: "session_step env m (EvRadioLetsGo t a) (fst (let_go_by_the_radio m t a))"
| step_seen: "session_step env m (EvLetGoSeen t a) (let_go_seen m t a)"
| step_close: "session_step env m (EvClose now) (fst (close_tx m now))"
| step_remove: "session_step env m (EvRemove a) (fst (remove_client m a))"
| step_timeout: "session_step env m (EvTimeout now) (fst (check_timeout m now))"

inductive session_run ::
    "auth_env \<Rightarrow> session_manager \<Rightarrow> session_event list \<Rightarrow> session_manager \<Rightarrow> bool"
  for env :: auth_env and m0 :: session_manager where
  run_start: "session_run env m0 [] m0"
| run_step: "session_run env m0 tr m \<Longrightarrow> session_step env m e m' \<Longrightarrow> session_run env m0 (tr @ [e]) m'"

inductive_cases session_stepE: "session_step env m e m'"

section \<open>Releasing a client's transmitters\<close>

lemma release_targets_holders:
  "sm_tx_holders (fst (release_targets a ts m)) =
     (\<lambda>t. if t \<in> set ts \<and> sm_tx_holders m t = Some a then None else sm_tx_holders m t)"
  by (induction ts arbitrary: m) (auto simp: Let_def case_prod_beta)

lemma release_targets_names:
  "distinct ts \<Longrightarrow> snd (release_targets a ts m) = filter (\<lambda>t. sm_tx_holders m t = Some a) ts"
proof (induction ts arbitrary: m)
  case Nil
  then show ?case by simp
next
  case (Cons t ts)
  then show ?case by (auto simp: Let_def case_prod_beta intro: filter_cong)
qed

lemma release_targets_other [simp]:
  "sm_clients (fst (release_targets a ts m)) = sm_clients m"
  "sm_password (fst (release_targets a ts m)) = sm_password m"
  "sm_totp_secret (fst (release_targets a ts m)) = sm_totp_secret m"
  "sm_tx_closed (fst (release_targets a ts m)) = sm_tx_closed m"
  "sm_connect_history (fst (release_targets a ts m)) = sm_connect_history m"
  "sm_auth_failures (fst (release_targets a ts m)) = sm_auth_failures m"
  by (induction ts arbitrary: m) (auto simp: Let_def case_prod_beta)

lemma session_of_clients: "sm_clients m = sm_clients m' \<Longrightarrow> session_of m = session_of m'"
  by (simp add: session_of_def fun_eq_iff)

lemma remove_client_effect:
  "sm_tx_holders (fst (remove_client m a)) =
     (\<lambda>t. if sm_tx_holders m t = Some a then None else sm_tx_holders m t)"
  "snd (remove_client m a) = filter (\<lambda>t. sm_tx_holders m t = Some a) ALL_targets"
  "session_of (fst (remove_client m a)) b = (if b = a then None else session_of m b)"
  using session_of_clients [OF release_targets_other(1) [of a ALL_targets "forget_client m a"]]
  by (simp_all add: remove_client_def release_targets_holders release_targets_names session_simps fun_eq_iff)

text \<open>The fold of \<open>check_timeout\<close>, for any list of addresses.\<close>

abbreviation drop_one :: "socket_addr \<Rightarrow> session_manager \<Rightarrow> session_manager" where
  "drop_one a m \<equiv> fst (release_targets a ALL_targets (forget_client m a))"

lemma drop_all:
  "sm_tx_holders (fold drop_one xs m) =
     (\<lambda>t. case sm_tx_holders m t of None \<Rightarrow> None | Some h \<Rightarrow> if h \<in> set xs then None else Some h)"
  "session_of (fold drop_one xs m) b = (if b \<in> set xs then None else session_of m b)"
  "sm_password (fold drop_one xs m) = sm_password m"
  "sm_totp_secret (fold drop_one xs m) = sm_totp_secret m"
  "sm_tx_closed (fold drop_one xs m) = sm_tx_closed m"
  "sm_connect_history (fold drop_one xs m) = sm_connect_history m"
proof (induction xs arbitrary: m)
  case (Cons a xs)
  { case 1 show ?case
      by (simp add: Cons(1) release_targets_holders session_simps fun_eq_iff split: option.splits) }
  { case 2
    have "session_of (drop_one a m) = session_of (forget_client m a)"
      by (rule session_of_clients) simp
    then show ?case by (simp add: Cons(2) session_simps) }
qed (auto simp: session_simps fun_eq_iff split: option.splits)

lemma check_timeout_effect:
  "sm_tx_holders (fst (check_timeout m now)) =
     (\<lambda>t. case sm_tx_holders m t of None \<Rightarrow> None
           | Some h \<Rightarrow> if h \<in> set (timed_out_addrs m now) then None else Some h)"
  "session_of (fst (check_timeout m now)) b =
     (if b \<in> set (timed_out_addrs m now) then None else session_of m b)"
  "snd (check_timeout m now) = timed_out_addrs m now"
  by (simp_all add: check_timeout_def Let_def drop_all)

lemma timed_out_iff:
  assumes "sessions_wf m"
  shows "a \<in> set (timed_out_addrs m now) \<longleftrightarrow>
           (\<exists>s. session_of m a = Some s \<and>
                silent_too_long (now - cl_last_seen s) (\<exists>t. sm_tx_holders m t = Some a)
                  (cl_auth_state s = PendingTotp))"
  using assms
  by (force simp: timed_out_addrs_def Let_def session_in_clients [symmetric])

section \<open>What a step leaves alone\<close>

text \<open>Settings, ownership and bookkeeping never change a login: it stays, or the session ends.\<close>

definition logins_kept :: "session_manager \<Rightarrow> session_manager \<Rightarrow> bool" where
  "logins_kept m m' \<longleftrightarrow>
     (\<forall>a. get_auth_state m' a = get_auth_state m a \<or> get_auth_state m' a = None)"

lemma logins_kept_sessions:
  "(\<And>a. session_of m' a = session_of m a) \<Longrightarrow> logins_kept m m'"
  by (simp add: logins_kept_def get_auth_state_def)

lemma setting_keeps_logins: "is_setting f \<Longrightarrow> logins_kept m (with_session m a f)"
  by (auto simp: logins_kept_def get_auth_state_def session_simps is_setting_def option.map_comp comp_def)

lemma setters_are_settings [simp]:
  "is_setting (\<lambda>s. s\<lparr> cl_last_seen := now \<rparr>)"
  "is_setting (\<lambda>s. s\<lparr> cl_controls := f s \<rparr>)"
  "is_setting (\<lambda>s. s\<lparr> cl_client_build := b \<rparr>)"
  by (simp_all add: is_setting_def)

lemma try_acquire_fields [session_simps]:
  "session_of (fst (try_acquire_tx m t a now)) b = session_of m b"
  "sm_password (fst (try_acquire_tx m t a now)) = sm_password m"
  "sm_totp_secret (fst (try_acquire_tx m t a now)) = sm_totp_secret m"
  "sm_tx_closed (fst (try_acquire_tx m t a now)) = sm_tx_closed m"
  by (auto simp: try_acquire_tx_def session_simps split: option.splits)

lemma release_tx_fields [session_simps]:
  "session_of (fst (release_tx m t a)) b = session_of m b"
  "sm_password (fst (release_tx m t a)) = sm_password m"
  "sm_totp_secret (fst (release_tx m t a)) = sm_totp_secret m"
  "sm_tx_closed (fst (release_tx m t a)) = sm_tx_closed m"
  by (auto simp: release_tx_def session_simps)

lemma release_tx_holders [session_simps]:
  "sm_tx_holders (fst (release_tx m t a)) =
     (\<lambda>u. if u = t \<and> sm_tx_holders m t = Some a then None else sm_tx_holders m u)"
  "snd (release_tx m t a) \<longleftrightarrow> sm_tx_holders m t = Some a"
  by (auto simp: release_tx_def fun_eq_iff)

text \<open>The events that can change a login: a challenge, an answer to one, a code.\<close>

definition is_login_event :: "session_event \<Rightarrow> bool" where
  "is_login_event e \<longleftrightarrow>
     (case e of EvChallenge _ _ _ \<Rightarrow> True | EvAuth _ _ _ _ _ \<Rightarrow> True | EvTotp _ _ _ _ \<Rightarrow> True | _ \<Rightarrow> False)"

lemma other_steps_keep_logins:
  assumes "session_step env m e m'" "\<not> is_login_event e" "sm_password m \<noteq> None"
  shows "logins_kept m m'"
  using assms
proof (cases rule: session_step.cases)
  case (step_heartbeat a n rtt loss jit now)
  then show ?thesis
    by (auto simp: update_heartbeat_def Let_def session_simps logins_kept_def get_auth_state_def
        option.map_comp comp_def)
next
  case (step_remove a)
  then show ?thesis by (simp add: logins_kept_def get_auth_state_def remove_client_effect)
next
  case (step_timeout now)
  then show ?thesis by (simp add: logins_kept_def get_auth_state_def check_timeout_effect)
qed (auto simp: is_login_event_def touch_def judge_control_def note_client_build_def
      record_connect_attempt_def Let_def give_back_attempt_def release_after_safety_def
      release_silent_radio_def heard_on_def let_go_by_the_radio_def let_go_seen_def close_tx_def
      session_simps case_prod_beta setting_keeps_logins logins_kept_sessions split: option.splits)

lemma steps_keep_credentials:
  assumes "session_step env m e m'"
  shows "sm_password m' = sm_password m" "sm_totp_secret m' = sm_totp_secret m"
proof -
  from assms have "sm_password m' = sm_password m \<and> sm_totp_secret m' = sm_totp_secret m"
  proof (cases rule: session_step.cases)
    case (step_auth a response nc ch now)
    then show ?thesis
      by (auto simp: verify_auth_def Let_def session_simps split: option.splits auth_state.splits prod.splits)
  qed (auto simp: touch_def create_challenge_def verify_totp_def update_heartbeat_def judge_control_def note_client_build_def
      record_connect_attempt_def Let_def give_back_attempt_def release_after_safety_def
      release_silent_radio_def heard_on_def let_go_by_the_radio_def let_go_seen_def close_tx_def
      remove_client_def check_timeout_def drop_all
      session_simps case_prod_beta split: option.splits)
  then show "sm_password m' = sm_password m" "sm_totp_secret m' = sm_totp_secret m" by auto
qed

section \<open>Ownership\<close>

text \<open>The calls that can take transmitter \<open>t\<close> from its holder \<open>a\<close>.\<close>

definition ends_holding :: "session_manager \<Rightarrow> session_event \<Rightarrow> tx_target \<Rightarrow> socket_addr \<Rightarrow> bool" where
  "ends_holding m e t a \<longleftrightarrow>
     (case e of
        EvRelease u b \<Rightarrow> u = t \<and> b = a
      | EvGiveBack u b held \<Rightarrow> u = t \<and> b = a \<and> \<not> held
      | EvSafety \<Rightarrow> t = Thetis
      | EvSilentRadio u now \<Rightarrow> u = t \<and> t \<noteq> Thetis \<and>
          (\<exists>heard. (sm_radio_heard m t = Some heard \<or>
                     sm_radio_heard m t = None \<and> map_option cl_last_seen (session_of m a) = Some heard) \<and>
                    ms PTT_PACKET_TIMEOUT_MS < now - heard)
      | EvRadioLetsGo u b \<Rightarrow> u = t \<and> b = a
      | EvClose now \<Rightarrow> True
      | EvRemove b \<Rightarrow> b = a
      | EvTimeout now \<Rightarrow> a \<in> set (timed_out_addrs m now)
      | _ \<Rightarrow> False)"

definition takes :: "session_event \<Rightarrow> tx_target \<Rightarrow> socket_addr \<Rightarrow> bool" where
  "takes e t a \<longleftrightarrow> (\<exists>now. e = EvAcquire t a now)"

lemma holders_untouched [session_simps]:
  "sm_tx_holders (fst (touch m a now)) = sm_tx_holders m"
  "sm_tx_holders (fst (create_challenge m a nonce now)) = sm_tx_holders m"
  "sm_tx_holders (fst (verify_totp ok m a code thr now)) = sm_tx_holders m"
  "sm_tx_holders (update_heartbeat m a n rtt loss jit now) = sm_tx_holders m"
  "sm_tx_holders (fst (judge_control m a key n)) = sm_tx_holders m"
  "sm_tx_holders (fst (note_client_build m a b)) = sm_tx_holders m"
  "sm_tx_holders (record_connect_attempt m a oc now) = sm_tx_holders m"
  "sm_tx_holders (heard_on m t a now) = sm_tx_holders m"
  "sm_tx_holders (let_go_seen m t a) = sm_tx_holders m"
  by (auto simp: touch_def create_challenge_def verify_totp_def update_heartbeat_def judge_control_def
      note_client_build_def record_connect_attempt_def heard_on_def let_go_seen_def Let_def
      session_simps split: option.splits)

lemma holders_verify_auth [session_simps]:
  "sm_tx_holders (fst (verify_auth hmac hkdf m a r nc ch now)) = sm_tx_holders m"
  by (auto simp: verify_auth_def Let_def session_simps split: option.splits auth_state.splits prod.splits)

lemma holders_after_radio [session_simps]:
  "sm_tx_holders (fst (let_go_by_the_radio m t a)) = sm_tx_holders (fst (release_tx m t a))"
  by (auto simp: let_go_by_the_radio_def Let_def case_prod_beta)

lemma holders_after_acquire [session_simps]:
  "sm_tx_holders (fst (try_acquire_tx m t a now)) =
     (if \<not> sm_tx_closed m \<and> sm_tx_holders m t = None then (sm_tx_holders m)(t \<mapsto> a) else sm_tx_holders m)"
  by (auto simp: try_acquire_tx_def split: option.splits)

lemma holders_after_safety [session_simps]:
  "sm_tx_holders (fst (release_after_safety m)) = (sm_tx_holders m)(Thetis := None)"
  by (auto simp: release_after_safety_def tx_holder_def session_simps fun_eq_iff split: option.splits)

lemma holders_after_silent_radio:
  "sm_tx_holders (fst (release_silent_radio m u now)) t =
     (if t = u \<and> (\<exists>a. sm_tx_holders m t = Some a \<and> ends_holding m (EvSilentRadio u now) t a)
      then None else sm_tx_holders m t)"
proof (cases "u = Thetis \<or> sm_tx_holders m u = None")
  case True
  then show ?thesis by (auto simp: release_silent_radio_def tx_holder_def ends_holding_def)
next
  case False
  then obtain a where a: "sm_tx_holders m u = Some a" and u: "u \<noteq> Thetis" by auto
  let ?heard = "case sm_radio_heard m u of Some h \<Rightarrow> Some h | None \<Rightarrow> map_option cl_last_seen (session_of m a)"
  have ends: "ends_holding m (EvSilentRadio u now) u a \<longleftrightarrow>
      (\<exists>h. ?heard = Some h \<and> ms PTT_PACKET_TIMEOUT_MS < now - h)"
    using u by (simp add: ends_holding_def split: option.splits)
  have "sm_tx_holders (fst (release_silent_radio m u now)) =
      (if \<exists>h. ?heard = Some h \<and> ms PTT_PACKET_TIMEOUT_MS < now - h
       then (sm_tx_holders m)(u := None) else sm_tx_holders m)"
    using a u by (cases ?heard)
      (simp_all add: release_silent_radio_def tx_holder_def silence_ended_the_over_def Let_def)
  then show ?thesis using a ends by (simp add: fun_upd_def)
qed

text \<open>
  One step moves a transmitter in one of two ways: its holder loses it by one of the calls that
  end holding, or it was free and the caller of the acquisition takes it. In particular it never
  passes from one client to another in one step.
\<close>

lemma holder_lost:
  assumes "session_step env m e m'" "sm_tx_holders m t = Some a"
  shows "sm_tx_holders m' t = (if ends_holding m e t a then None else Some a)"
  using assms
proof (cases rule: session_step.cases)
  case (step_silent u now)
  show ?thesis
  proof (cases "u = t")
    case True
    then show ?thesis using step_silent assms(2) by (simp add: holders_after_silent_radio)
  next
    case False
    then have "\<not> ends_holding m e t a" by (simp add: step_silent ends_holding_def)
    then show ?thesis using False step_silent assms(2) by (simp add: holders_after_silent_radio)
  qed
next
  case (step_remove b)
  then show ?thesis using assms(2) by (simp add: remove_client_effect ends_holding_def)
next
  case (step_timeout now)
  then show ?thesis using assms(2) by (simp add: check_timeout_effect ends_holding_def)
qed (auto simp: ends_holding_def give_back_attempt_def close_tx_def session_simps)

lemma holder_taken:
  assumes "session_step env m e m'" "sm_tx_holders m t = None" "sm_tx_holders m' t = Some a"
  shows "takes e t a \<and> \<not> sm_tx_closed m"
  using assms
proof (cases rule: session_step.cases)
  case (step_silent u now)
  then show ?thesis using assms(2,3) by (auto simp: holders_after_silent_radio split: if_splits)
next
  case (step_remove b)
  then show ?thesis using assms(2,3) by (simp add: remove_client_effect)
next
  case (step_timeout now)
  then show ?thesis using assms(2,3) by (simp add: check_timeout_effect)
qed (auto simp: takes_def give_back_attempt_def close_tx_def session_simps split: if_splits)

lemma closed_untouched [session_simps]:
  "sm_tx_closed (fst (touch m a now)) = sm_tx_closed m"
  "sm_tx_closed (fst (create_challenge m a nonce now)) = sm_tx_closed m"
  "sm_tx_closed (fst (verify_totp ok m a code thr now)) = sm_tx_closed m"
  "sm_tx_closed (update_heartbeat m a n rtt loss jit now) = sm_tx_closed m"
  "sm_tx_closed (fst (judge_control m a key n)) = sm_tx_closed m"
  "sm_tx_closed (fst (note_client_build m a b)) = sm_tx_closed m"
  "sm_tx_closed (record_connect_attempt m a oc now) = sm_tx_closed m"
  "sm_tx_closed (heard_on m t a now) = sm_tx_closed m"
  "sm_tx_closed (let_go_seen m t a) = sm_tx_closed m"
  "sm_tx_closed (give_back_attempt m t a h) = sm_tx_closed m"
  "sm_tx_closed (fst (release_after_safety m)) = sm_tx_closed m"
  "sm_tx_closed (fst (release_silent_radio m t now)) = sm_tx_closed m"
  "sm_tx_closed (fst (let_go_by_the_radio m t a)) = sm_tx_closed m"
  "sm_tx_closed (fst (remove_client m a)) = sm_tx_closed m"
  "sm_tx_closed (fst (check_timeout m now)) = sm_tx_closed m"
  by (auto simp: touch_def create_challenge_def verify_totp_def update_heartbeat_def judge_control_def
      note_client_build_def record_connect_attempt_def heard_on_def let_go_seen_def Let_def
      give_back_attempt_def release_after_safety_def release_silent_radio_def let_go_by_the_radio_def
      remove_client_def check_timeout_def drop_all case_prod_beta
      session_simps split: option.splits)

lemma closed_verify_auth [session_simps]:
  "sm_tx_closed (fst (verify_auth hmac hkdf m a r nc ch now)) = sm_tx_closed m"
  by (auto simp: verify_auth_def Let_def session_simps split: option.splits auth_state.splits prod.splits)

lemma closed_step:
  assumes "session_step env m e m'"
  shows "sm_tx_closed m' \<longleftrightarrow> sm_tx_closed m \<or> (\<exists>now. e = EvClose now)"
  using assms by (cases rule: session_step.cases) (auto simp: session_simps close_tx_def)

definition closed_holds_nothing :: "session_manager \<Rightarrow> bool" where
  "closed_holds_nothing m \<longleftrightarrow> (sm_tx_closed m \<longrightarrow> sm_tx_holders m = Map.empty)"

lemma closed_holds_nothing_step [keep_inv]:
  assumes "session_step env m e m'" "closed_holds_nothing m"
  shows "closed_holds_nothing m'"
proof (cases "\<exists>now. e = EvClose now")
  case True
  then obtain now where e: "e = EvClose now" by blast
  from assms(1) e have "m' = fst (close_tx m now)" by (cases rule: session_step.cases) simp_all
  then show ?thesis by (simp add: closed_holds_nothing_def close_tx_def)
next
  case False
  show ?thesis
    unfolding closed_holds_nothing_def
  proof (intro impI ext)
    fix t assume "sm_tx_closed m'"
    then have c: "sm_tx_closed m" using closed_step [OF assms(1)] False by simp
    then have "sm_tx_holders m t = None" using assms(2) by (simp add: closed_holds_nothing_def)
    then show "sm_tx_holders m' t = None"
      using holder_taken [OF assms(1)] c by (cases "sm_tx_holders m' t") auto
  qed
qed

lemma run_closed_holds_nothing:
  "session_run env m0 tr m \<Longrightarrow> closed_holds_nothing m0 \<Longrightarrow> closed_holds_nothing m"
  by (induction rule: session_run.induct) (auto intro: keep_inv)

lemma run_closed_iff:
  "session_run env m0 tr m \<Longrightarrow>
     sm_tx_closed m \<longleftrightarrow> sm_tx_closed m0 \<or> (\<exists>now. EvClose now \<in> set tr)"
  by (induction rule: session_run.induct) (auto simp: closed_step)

text \<open>The holder after a run: its own acquisition is in the run, and nothing ended it since.\<close>

lemma run_holder:
  assumes "session_run env m0 tr m" "sm_tx_holders m t = Some a"
  shows "sm_tx_holders m0 t = Some a \<or> (\<exists>now. EvAcquire t a now \<in> set tr)"
  using assms
proof (induction rule: session_run.induct)
  case run_start
  then show ?case by simp
next
  case (run_step tr m e m')
  show ?case
  proof (cases "sm_tx_holders m t")
    case None
    then show ?thesis using holder_taken [OF run_step.hyps(2) None run_step.prems] by (auto simp: takes_def)
  next
    case (Some b)
    then have "b = a" using holder_lost [OF run_step.hyps(2) Some] run_step.prems by (auto split: if_splits)
    then show ?thesis using run_step.IH Some by auto
  qed
qed

section \<open>Admission\<close>

text \<open>
  What the history of a client at each step of the login must contain. \<open>challenged tr a n t\<close>: a
  challenge with nonce \<open>n\<close> went to \<open>a\<close> at \<open>t\<close> and none since. \<open>answered\<close>: it was answered in time
  with the HMAC of the password over that nonce and the binding of the channel it came in on, and
  no challenge went out since. \<open>code_given\<close>: and a right code came after that.
\<close>

definition no_challenge :: "socket_addr \<Rightarrow> session_event list \<Rightarrow> bool" where
  "no_challenge a es \<longleftrightarrow> (\<forall>e \<in> set es. \<forall>n t. e \<noteq> EvChallenge a n t)"

definition challenged :: "session_event list \<Rightarrow> socket_addr \<Rightarrow> bytes \<Rightarrow> instant \<Rightarrow> bool" where
  "challenged tr a n t \<longleftrightarrow>
     (\<exists>pre post. tr = pre @ EvChallenge a n t # post \<and> no_challenge a post)"

definition right_answer :: "auth_env \<Rightarrow> bytes \<Rightarrow> bytes \<Rightarrow> instant \<Rightarrow> socket_addr \<Rightarrow> session_event \<Rightarrow> bool" where
  "right_answer env pw n t a e \<longleftrightarrow>
     (\<exists>nc ch now. e = EvAuth a (compute_hmac (ae_hmac env) pw n (Some (ch_binding ch))) nc ch now \<and>
        as_secs (now - t) < CHALLENGE_TTL_SECS)"

definition answered :: "auth_env \<Rightarrow> bytes \<Rightarrow> session_event list \<Rightarrow> socket_addr \<Rightarrow> bool" where
  "answered env pw tr a \<longleftrightarrow>
     (\<exists>pre e post n t. tr = pre @ e # post \<and> challenged pre a n t \<and> right_answer env pw n t a e \<and>
        no_challenge a post)"

definition code_given :: "auth_env \<Rightarrow> bytes \<Rightarrow> bytes \<Rightarrow> session_event list \<Rightarrow> socket_addr \<Rightarrow> bool" where
  "code_given env pw secret tr a \<longleftrightarrow>
     (\<exists>pre code thr now post. tr = pre @ EvTotp a code thr now # post \<and> answered env pw pre a \<and>
        ae_code_ok env secret code \<and> no_challenge a post)"

definition login_ok ::
    "auth_env \<Rightarrow> bytes \<Rightarrow> bytes option \<Rightarrow> session_event list \<Rightarrow> socket_addr \<Rightarrow> auth_state \<Rightarrow> bool" where
  "login_ok env pw totp tr a st =
     (case st of
        NoAuth \<Rightarrow> False
      | PendingChallenge n t \<Rightarrow> challenged tr a n t
      | PendingTotp \<Rightarrow> totp \<noteq> None \<and> answered env pw tr a
      | Authenticated \<Rightarrow>
          (case totp of None \<Rightarrow> answered env pw tr a | Some secret \<Rightarrow> code_given env pw secret tr a))"

lemma no_challenge_snoc: "no_challenge a (es @ [e]) \<longleftrightarrow> no_challenge a es \<and> (\<forall>n t. e \<noteq> EvChallenge a n t)"
  by (auto simp: no_challenge_def)

lemma challenged_snoc:
  assumes "challenged tr a n t" "\<forall>n t. e \<noteq> EvChallenge a n t"
  shows "challenged (tr @ [e]) a n t"
proof -
  obtain pre post where "tr @ [e] = pre @ EvChallenge a n t # (post @ [e])" "no_challenge a (post @ [e])"
    using assms unfolding challenged_def by (fastforce simp: no_challenge_snoc)
  then show ?thesis unfolding challenged_def by blast
qed

lemma answered_snoc:
  assumes "answered env pw tr a" "\<forall>n t. e \<noteq> EvChallenge a n t"
  shows "answered env pw (tr @ [e]) a"
proof -
  obtain pre f post n t where "tr @ [e] = pre @ f # (post @ [e])" "challenged pre a n t"
      "right_answer env pw n t a f" "no_challenge a (post @ [e])"
    using assms unfolding answered_def by (fastforce simp: no_challenge_snoc)
  then show ?thesis unfolding answered_def by blast
qed

lemma code_given_snoc:
  assumes "code_given env pw secret tr a" "\<forall>n t. e \<noteq> EvChallenge a n t"
  shows "code_given env pw secret (tr @ [e]) a"
proof -
  obtain pre code thr now post where "tr @ [e] = pre @ EvTotp a code thr now # (post @ [e])"
      "answered env pw pre a" "ae_code_ok env secret code" "no_challenge a (post @ [e])"
    using assms unfolding code_given_def by (fastforce simp: no_challenge_snoc)
  then show ?thesis unfolding code_given_def by blast
qed

lemma login_ok_snoc:
  assumes "login_ok env pw totp tr a st" "\<forall>n t. e \<noteq> EvChallenge a n t"
  shows "login_ok env pw totp (tr @ [e]) a st"
  using assms
  by (auto simp: login_ok_def challenged_snoc answered_snoc code_given_snoc
      split: auth_state.splits option.splits)

lemma challenged_new: "challenged (tr @ [EvChallenge a n t]) a n t"
  unfolding challenged_def by (rule exI [of _ tr], rule exI [of _ "[]"]) (simp add: no_challenge_def)

lemma answered_new:
  "challenged tr a n t \<Longrightarrow> right_answer env pw n t a e \<Longrightarrow> answered env pw (tr @ [e]) a"
  unfolding answered_def
  by (rule exI [of _ tr], rule exI [of _ e], rule exI [of _ "[]"]) (auto simp: no_challenge_def)

lemma code_given_new:
  "answered env pw tr a \<Longrightarrow> ae_code_ok env secret code \<Longrightarrow>
     code_given env pw secret (tr @ [EvTotp a code thr now]) a"
  unfolding code_given_def
  by (rule exI [of _ tr], rule exI [of _ code], rule exI [of _ thr], rule exI [of _ now],
      rule exI [of _ "[]"]) (auto simp: no_challenge_def)

text \<open>What the three login operations do to the login of an address.\<close>

lemma auth_state_challenge:
  "get_auth_state (fst (create_challenge m a n now)) b =
     (if b = a then Some (PendingChallenge n now) else get_auth_state m b)"
  by (auto simp: create_challenge_def get_auth_state_def session_simps new_session_def Let_def)

lemma auth_state_other:
  assumes "b \<noteq> a"
  shows "get_auth_state (fst (verify_auth hmac hkdf m a r nc ch now)) b = get_auth_state m b"
    and "get_auth_state (fst (verify_totp ok m a code thr now)) b = get_auth_state m b"
  using assms
  by (auto simp: verify_auth_def verify_totp_def get_auth_state_def session_simps Let_def
      split: option.splits auth_state.splits prod.splits)

lemma auth_state_verify_auth:
  assumes "sm_password m = Some pw"
    and "get_auth_state (fst (verify_auth hmac hkdf m a r nc ch now)) a = Some st"
    and "get_auth_state m a \<noteq> Some st"
  obtains n t where "get_auth_state m a = Some (PendingChallenge n t)"
    "as_secs (now - t) < CHALLENGE_TTL_SECS"
    "r = compute_hmac hmac pw n (Some (ch_binding ch))"
    "st = (if sm_totp_secret m = None then Authenticated else PendingTotp)"
proof -
  from assms obtain n t where st: "get_auth_state m a = Some (PendingChallenge n t)"
    by (auto simp: verify_auth_def Let_def split: option.splits auth_state.splits)
  have "as_secs (now - t) < CHALLENGE_TTL_SECS"
  proof (rule ccontr)
    assume "\<not> as_secs (now - t) < CHALLENGE_TTL_SECS"
    then have "fst (verify_auth hmac hkdf m a r nc ch now) = forget_client m a"
      using assms(1) st by (simp add: verify_auth_def)
    then show False using assms(2) by (simp add: get_auth_state_def session_simps)
  qed
  moreover from this have "verify_hmac hmac pw n r (Some (ch_binding ch))"
    using assms st
    by (rule_tac ccontr) (auto simp: verify_auth_def Let_def get_auth_state_def session_simps split: if_splits)
  moreover from calculation have "st = (if sm_totp_secret m = None then Authenticated else PendingTotp)"
    using assms(1,2) st
    by (auto simp: verify_auth_def Let_def get_auth_state_def session_simps split: option.splits)
  ultimately show ?thesis using that st by (simp add: verify_hmac_iff)
qed

lemma auth_state_verify_totp:
  assumes "get_auth_state (fst (verify_totp ok m a code thr now)) a = Some st"
    and "get_auth_state m a \<noteq> Some st"
  obtains secret where "sm_totp_secret m = Some secret" "get_auth_state m a = Some PendingTotp"
    "ok secret code" "st = Authenticated"
  using assms
  by (auto simp: verify_totp_def Let_def get_auth_state_def session_simps split: option.splits if_splits)

definition logins_ok :: "auth_env \<Rightarrow> bytes \<Rightarrow> bytes option \<Rightarrow> session_event list \<Rightarrow> session_manager \<Rightarrow> bool" where
  "logins_ok env pw totp tr m \<longleftrightarrow>
     sm_password m = Some pw \<and> sm_totp_secret m = totp \<and>
     (\<forall>a st. get_auth_state m a = Some st \<longrightarrow> login_ok env pw totp tr a st)"

lemma logins_ok_start: "logins_ok env pw totp [] (session_manager_new (Some pw) totp)"
  by (simp add: logins_ok_def session_manager_new_def get_auth_state_def session_of_def)

lemma logins_ok_step [keep_inv]:
  assumes step: "session_step env m e m'" and ok: "logins_ok env pw totp tr m"
  shows "logins_ok env pw totp (tr @ [e]) m'"
proof -
  have pw: "sm_password m = Some pw" and totp: "sm_totp_secret m = totp"
    and ih: "\<And>a st. get_auth_state m a = Some st \<Longrightarrow> login_ok env pw totp tr a st"
    using ok by (auto simp: logins_ok_def)
  have "login_ok env pw totp (tr @ [e]) a st" if now: "get_auth_state m' a = Some st" for a st
  proof (cases "get_auth_state m a = Some st \<and> (\<forall>n t. e \<noteq> EvChallenge a n t)")
    case True
    then show ?thesis using ih login_ok_snoc by blast
  next
    case changed: False
    have login: "is_login_event e"
    proof (rule ccontr)
      assume other: "\<not> is_login_event e"
      then have "get_auth_state m a = Some st"
        using other_steps_keep_logins [OF step other] pw now
        by (metis logins_kept_def option.distinct(1))
      then show False using changed other by (auto simp: is_login_event_def)
    qed
    from step show ?thesis
    proof (cases rule: session_step.cases)
      case (step_challenge b n t)
      then show ?thesis using changed now ih [of a st]
        by (cases "b = a") (auto simp: auth_state_challenge login_ok_def challenged_new)
    next
      case (step_auth b r nc ch t)
      have ba: "b = a" using changed now step_auth by (cases "a = b") (auto simp: auth_state_other(1))
      have new: "get_auth_state m a \<noteq> Some st" using changed step_auth by auto
      obtain n t0 where "get_auth_state m a = Some (PendingChallenge n t0)"
          "as_secs (t - t0) < CHALLENGE_TTL_SECS"
          and r: "r = compute_hmac (ae_hmac env) pw n (Some (ch_binding ch))"
          and st: "st = (if sm_totp_secret m = None then Authenticated else PendingTotp)"
        using auth_state_verify_auth [OF pw] now new step_auth ba by blast
      moreover from this have "challenged tr a n t0"
        using ih by (fastforce simp: login_ok_def)
      ultimately have "answered env pw (tr @ [e]) a"
        using step_auth ba by (intro answered_new) (auto simp: right_answer_def)
      then show ?thesis using st totp by (auto simp: login_ok_def)
    next
      case (step_totp b code thr t)
      have ba: "b = a" using changed now step_totp by (cases "a = b") (auto simp: auth_state_other(2))
      have new: "get_auth_state m a \<noteq> Some st" using changed step_totp by auto
      obtain secret where "sm_totp_secret m = Some secret" "get_auth_state m a = Some PendingTotp"
          "ae_code_ok env secret code" "st = Authenticated"
        using auth_state_verify_totp [of _ m a code thr t st] now new step_totp ba by blast
      moreover from this have "answered env pw tr a"
        using ih by (fastforce simp: login_ok_def)
      ultimately show ?thesis
        using step_totp ba totp by (simp add: login_ok_def code_given_new)
    qed (use login in \<open>simp_all add: is_login_event_def\<close>)
  qed
  then show ?thesis
    using steps_keep_credentials [OF step] pw totp by (simp add: logins_ok_def)
qed

lemma run_logins_ok:
  "session_run env m0 tr m \<Longrightarrow> m0 = session_manager_new (Some pw) totp \<Longrightarrow> logins_ok env pw totp tr m"
  by (induction rule: session_run.induct) (auto intro: keep_inv logins_ok_start)

section \<open>The table keeps one session per address\<close>

lemma release_targets_wf [session_simps]:
  "sessions_wf (fst (release_targets a ts m)) = sessions_wf m"
  by (simp add: sessions_wf_def)

lemma fold_drop_wf: "sessions_wf m \<Longrightarrow> sessions_wf (fold drop_one xs m)"
  by (induction xs arbitrary: m) (auto simp: session_simps)

lemma sessions_wf_step [keep_inv]:
  assumes "session_step env m e m'" "sessions_wf m"
  shows "sessions_wf m'"
  using assms
proof (cases rule: session_step.cases)
  case (step_auth b r nc ch t)
  then show ?thesis using assms(2)
    by (auto simp: verify_auth_def Let_def session_simps split: option.splits auth_state.splits prod.splits)
qed (auto simp: touch_def create_challenge_def verify_totp_def update_heartbeat_def judge_control_def
      note_client_build_def record_connect_attempt_def heard_on_def let_go_seen_def Let_def
      give_back_attempt_def release_after_safety_def release_silent_radio_def let_go_by_the_radio_def
      try_acquire_tx_def release_tx_def close_tx_def
      remove_client_def check_timeout_def fold_drop_wf case_prod_beta
      session_simps split: option.splits)

lemma run_sessions_wf: "session_run env m0 tr m \<Longrightarrow> sessions_wf m0 \<Longrightarrow> sessions_wf m"
  by (induction rule: session_run.induct) (auto intro: keep_inv)

text \<open>The list of connect attempts: the last ten, in order.\<close>

definition last_n :: "nat \<Rightarrow> 'a list \<Rightarrow> 'a list" where
  "last_n n xs = drop (length xs - n) xs"

lemma history_push:
  assumes "sm_connect_history m = last_n CONNECT_HISTORY_CAPACITY xs"
  shows "sm_connect_history (record_connect_attempt m a oc now) =
         last_n CONNECT_HISTORY_CAPACITY (xs @ [\<lparr> ca_instant = now, ca_remote_addr = a, ca_outcome = oc \<rparr>])"
proof (cases "length xs < CONNECT_HISTORY_CAPACITY")
  case True
  then show ?thesis using assms by (simp add: record_connect_attempt_def last_n_def)
next
  case False
  then have "Suc (length xs) - CONNECT_HISTORY_CAPACITY = Suc (length xs - CONNECT_HISTORY_CAPACITY)"
    by simp
  then show ?thesis using assms False
    by (simp add: record_connect_attempt_def last_n_def drop_Suc tl_drop CONNECT_HISTORY_CAPACITY_def)
qed

lemma history_of_attempts:
  "sm_connect_history m = [] \<Longrightarrow>
   sm_connect_history (fold (\<lambda>(a, oc, now) m. record_connect_attempt m a oc now) as m) =
     last_n CONNECT_HISTORY_CAPACITY
       (map (\<lambda>(a, oc, now). \<lparr> ca_instant = now, ca_remote_addr = a, ca_outcome = oc \<rparr>) as)"
proof (induction as rule: rev_induct)
  case Nil
  then show ?case by (simp add: last_n_def)
next
  case (snoc x as)
  then show ?case using history_push by (cases x) simp
qed

section \<open>Failures\<close>

text \<open>A right answer, a late one and one to nothing never count; a wrong answer counts once.\<close>

lemma failures_verify_auth:
  assumes "sm_password m = Some pw"
  shows "snd (verify_auth hmac hkdf m a r nc ch now) = \<lparr> av_code = AUTH_NOT_ANSWERED, av_proof = None \<rparr> \<Longrightarrow>
           sm_auth_failures (fst (verify_auth hmac hkdf m a r nc ch now)) = sm_auth_failures m"
    and "av_code (snd (verify_auth hmac hkdf m a r nc ch now)) = AUTH_REJECTED \<Longrightarrow>
           sm_auth_failures (fst (verify_auth hmac hkdf m a r nc ch now)) =
             record_failure (sm_auth_failures m) (case ch_peer ch of None \<Rightarrow> a | Some p \<Rightarrow> p) now"
  using assms
  by (auto simp: verify_auth_def Let_def session_simps AUTH_REJECTED_def AUTH_NOT_ANSWERED_def
      AUTH_ACCEPTED_def AUTH_TOTP_REQUIRED_def
      split: option.splits auth_state.splits prod.splits if_splits)

lemma failures_blocked_after:
  assumes "unat (case f a of None \<Rightarrow> 0 | Some (c, t) \<Rightarrow> c) = k" "k + n < 2 ^ 32" "0 < n"
    "length ts = n"
  shows "fold (\<lambda>t f. record_failure f a t) ts f a = Some (of_nat (k + n), last ts)"
  using assms
proof (induction ts arbitrary: f k n)
  case Nil
  then show ?case by simp
next
  case (Cons t ts)
  let ?c = "case f a of None \<Rightarrow> 0 | Some (c, t) \<Rightarrow> c"
  have c: "?c = of_nat k" using Cons.prems(1) by auto
  have u: "unat (1 + of_nat k :: u32) = Suc k"
    using Cons.prems(2,3) by (simp add: unat_word_ariths unsigned_of_nat take_bit_nat_eq_self)
  have rec: "record_failure f a t = f(a \<mapsto> (of_nat (Suc k), t))"
    using c by (auto simp: record_failure_def Let_def ac_simps split: option.splits prod.splits)
  show ?case
  proof (cases "ts = []")
    case True
    then have "n = 1" using Cons.prems(4) by simp
    then show ?thesis using rec True by simp
  next
    case False
    then have n1: "1 < n" using Cons.prems(4) by (cases ts) auto
    have "fold (\<lambda>t f. record_failure f a t) ts (record_failure f a t) a =
          Some (of_nat (Suc k + (n - 1)), last ts)"
      by (rule Cons.IH) (use Cons.prems(2-4) False rec u n1 in simp_all)
    then show ?thesis using False Cons.prems by simp
  qed
qed

end
