(* ===== verification/SessionProperties.thy ===== *)
theory SessionProperties
  imports SessionRuns
begin

text \<open>
  What the session table promises: the login, the ownership of the transmitters, the time-out, the
  lock-out, and what the subscriptions say. Each property rests on the lemmas of \<^verbatim>\<open>SessionRuns\<close>
  and \<^verbatim>\<open>Subscriptions\<close>; its witness applies it to one small table.
\<close>

section \<open>Properties\<close>

text \<open>
  C1. Nobody is authenticated on a server with a password without having answered: in every run
  from a new session table, a client found authenticated was sent a challenge, answered it within
  ten seconds with the HMAC of the server's password over that nonce and over the binding of the
  very channel the answer came in on, was sent no other challenge since, and, where the server has
  a TOTP secret, gave a right code after that.
\<close>

theorem admitted_only_by_password:
  assumes "session_run env (session_manager_new (Some pw) totp) tr m" "is_authenticated m a"
  shows "\<exists>pre n t mid nc ch now post.
     tr = pre @ EvChallenge a n t # mid @
            EvAuth a (compute_hmac (ae_hmac env) pw n (Some (ch_binding ch))) nc ch now # post \<and>
     as_secs (now - t) < CHALLENGE_TTL_SECS \<and> no_challenge a (mid @ post) \<and>
     (\<forall>secret. totp = Some secret \<longrightarrow>
        (\<exists>code thr given. EvTotp a code thr given \<in> set post \<and> ae_code_ok env secret code))"
proof -
  have "get_auth_state m a = Some Authenticated"
    using assms(2) by (auto simp: is_authenticated_def split: if_splits)
  then have ok: "login_ok env pw totp tr a Authenticated"
    using run_logins_ok [OF assms(1) refl] by (auto simp: logins_ok_def)
  show ?thesis
  proof (cases totp)
    case None
    then show ?thesis using ok
      by (fastforce simp: login_ok_def answered_def challenged_def right_answer_def no_challenge_def)
  next
    case (Some secret)
    then obtain pre code thr given post where tr: "tr = pre @ EvTotp a code thr given # post"
        and ans: "answered env pw pre a" and rest: "ae_code_ok env secret code" "no_challenge a post"
      using ok by (auto simp: login_ok_def code_given_def)
    from ans obtain pre' n t mid nc ch now post' where
      "pre = pre' @ EvChallenge a n t # mid @
            EvAuth a (compute_hmac (ae_hmac env) pw n (Some (ch_binding ch))) nc ch now # post'"
      "as_secs (now - t) < CHALLENGE_TTL_SECS" "no_challenge a (mid @ post')"
      by (fastforce simp: answered_def challenged_def right_answer_def no_challenge_def)
    then show ?thesis
      using tr rest Some
      by (intro exI [of _ pre'] exI [of _ n] exI [of _ t] exI [of _ mid] exI [of _ nc] exI [of _ ch]
          exI [of _ now] exI [of _ "post' @ EvTotp a code thr given # post"])
        (auto simp: no_challenge_def)
  qed
qed

definition demo_env :: auth_env where
  "demo_env = \<lparr> ae_hmac = (\<lambda>k msg. k @ msg), ae_hkdf = (\<lambda>salt k info. salt @ k),
                ae_code_ok = (\<lambda>secret code. code = secret) \<rparr>"

definition demo_channel :: auth_channel where
  "demo_channel = \<lparr> ch_binding = [7], ch_peer = None \<rparr>"

abbreviation demo_addr :: socket_addr where "demo_addr \<equiv> SocketAddr 10 4580"

definition demo_run :: "session_event list" where
  "demo_run = [EvChallenge demo_addr [1, 2] (secs 1),
     EvAuth demo_addr (compute_hmac (ae_hmac demo_env) [9] [1, 2] (Some [7])) None demo_channel (secs 2)]"

definition demo_manager :: session_manager where
  "demo_manager = fst (verify_auth (ae_hmac demo_env) (ae_hkdf demo_env)
       (fst (create_challenge (session_manager_new (Some [9]) None) demo_addr [1, 2] (secs 1)))
       demo_addr (compute_hmac (ae_hmac demo_env) [9] [1, 2] (Some [7])) None demo_channel (secs 2))"

lemma demo_run_is_run: "session_run demo_env (session_manager_new (Some [9]) None) demo_run demo_manager"
proof -
  let ?m0 = "session_manager_new (Some [9]) None"
  have "session_run demo_env ?m0 ([] @ [EvChallenge demo_addr [1, 2] (secs 1)])
      (fst (create_challenge ?m0 demo_addr [1, 2] (secs 1)))"
    by (rule run_step [OF run_start step_challenge])
  from run_step [OF this step_auth] show ?thesis
    unfolding demo_run_def demo_manager_def by simp
qed

lemma demo_manager_eq:
  "demo_manager =
     (mark_admitted (with_session (with_session
        (fst (create_challenge (session_manager_new (Some [9]) None) demo_addr [1, 2] (secs 1)))
        demo_addr (\<lambda>s. s\<lparr> cl_session_key := None \<rparr>))
        demo_addr (\<lambda>s. s\<lparr> cl_auth_state := Authenticated, cl_last_seen := secs 2 \<rparr>)) demo_addr)
     \<lparr> sm_auth_failures := Map.empty \<rparr>"
  by (simp add: demo_manager_def verify_auth_def get_auth_state_def session_simps create_challenge_def
      session_manager_new_def new_session_def Let_def verify_hmac_iff demo_channel_def
      CHALLENGE_TTL_SECS_def as_secs_def failures_clear_def)

lemma demo_session:
  "session_of demo_manager demo_addr = Some ((new_session (PendingChallenge [1, 2] (secs 1)) (secs 1))
     \<lparr> cl_auth_state := Authenticated, cl_last_seen := secs 2 \<rparr>)"
  by (simp add: demo_manager_eq session_simps create_challenge_def Let_def new_session_def)

lemma demo_authenticated: "is_authenticated demo_manager demo_addr"
  by (simp add: is_authenticated_def get_auth_state_def demo_session)
    (simp add: demo_manager_eq session_simps create_challenge_def Let_def session_manager_new_def)

theorem admitted_only_by_password_witness:
  "\<exists>pre n t mid nc ch now post.
     demo_run = pre @ EvChallenge demo_addr n t # mid @
            EvAuth demo_addr (compute_hmac (ae_hmac demo_env) [9] n (Some (ch_binding ch))) nc ch now # post \<and>
     as_secs (now - t) < CHALLENGE_TTL_SECS \<and> no_challenge demo_addr (mid @ post)"
  using admitted_only_by_password [OF demo_run_is_run demo_authenticated] by blast

text \<open>
  C2. A transmitter moves only as the table says: in one step its holder either stays or loses it to
  nobody, by one of the calls that end holding, and a free transmitter goes to a client only by that
  client's own acquisition on a server that is not closed. It never passes from one client to another
  in one step, and holding one transmitter changes nothing for the other two.
\<close>

theorem transmitter_moves_only_by_its_own_calls:
  assumes "session_step env m e m'"
  shows "sm_tx_holders m' t =
     (case sm_tx_holders m t of
        Some a \<Rightarrow> if ends_holding m e t a then None else Some a
      | None \<Rightarrow> (case e of EvAcquire u a now \<Rightarrow> if u = t \<and> \<not> sm_tx_closed m then Some a else None
                 | _ \<Rightarrow> None))"
proof (cases "sm_tx_holders m t")
  case (Some a)
  then show ?thesis using holder_lost [OF assms] by simp
next
  case None
  show ?thesis
  proof (cases "\<exists>a. takes e t a \<and> \<not> sm_tx_closed m")
    case True
    then obtain a now where e: "e = EvAcquire t a now" "\<not> sm_tx_closed m" by (auto simp: takes_def)
    with assms None show ?thesis by (cases rule: session_step.cases) (auto simp: session_simps)
  next
    case False
    then have "sm_tx_holders m' t = None" using holder_taken [OF assms None] by fastforce
    then show ?thesis using None False by (auto simp: takes_def split: session_event.splits)
  qed
qed

theorem transmitter_moves_only_by_its_own_calls_witness:
  "sm_tx_holders (fst (try_acquire_tx demo_manager Yaesu1 demo_addr 5)) Yaesu1 = Some demo_addr"
  using transmitter_moves_only_by_its_own_calls
    [OF step_acquire [of demo_env demo_manager Yaesu1 demo_addr 5], of Yaesu1]
  by (simp add: demo_manager_def session_simps create_challenge_def Let_def session_manager_new_def)

text \<open>
  C3. Closing is final: after a close, in every run, no transmitter has a holder, every request for
  one is refused and nothing changes, and the refusal says that the server is closed.
\<close>

theorem closed_is_final:
  assumes "session_run env (session_manager_new pw totp) tr m" "EvClose t0 \<in> set tr"
  shows "sm_tx_holders m = Map.empty \<and> try_acquire_tx m t a now = (m, False) \<and>
         acquire_for_attempt m t a now = (m, None) \<and> acquire_refusal m = Closed"
proof -
  have "closed_holds_nothing m"
    by (rule run_closed_holds_nothing [OF assms(1)]) (simp add: closed_holds_nothing_def session_manager_new_def)
  moreover have "sm_tx_closed m" using run_closed_iff [OF assms(1)] assms(2) by auto
  ultimately show ?thesis
    by (simp add: closed_holds_nothing_def try_acquire_tx_def acquire_for_attempt_def acquire_refusal_def)
qed

theorem closed_is_final_witness:
  "try_acquire_tx (fst (close_tx (session_manager_new None None) 3)) Thetis demo_addr 4 =
     (fst (close_tx (session_manager_new None None) 3), False)"
  using closed_is_final [of demo_env None None "[] @ [EvClose 3]" "fst (close_tx (session_manager_new None None) 3)" 3 Thetis demo_addr 4]
    run_step [OF run_start step_close] by simp

text \<open>
  C4. The time-out is exact: after \<open>check_timeout\<close> a client still has its session, unchanged, just
  when it was heard within its own deadline - three seconds while it holds a transmitter, two
  minutes at the code step, fifteen seconds otherwise - and a transmitter still has its holder just
  when that holder was not one of those dropped.
\<close>

theorem check_timeout_exact:
  assumes "sessions_wf m"
  shows "(session_of (fst (check_timeout m now)) a = Some s \<longleftrightarrow>
            session_of m a = Some s \<and>
            now - cl_last_seen s \<le>
              secs (if \<exists>t. sm_tx_holders m t = Some a then 3
                    else if cl_auth_state s = PendingTotp then 120 else 15)) \<and>
         (sm_tx_holders (fst (check_timeout m now)) t = Some a \<longleftrightarrow>
            sm_tx_holders m t = Some a \<and>
            (\<forall>s. session_of m a = Some s \<longrightarrow> now - cl_last_seen s \<le> secs 3))"
proof -
  have silent: "a \<in> set (timed_out_addrs m now) \<longleftrightarrow>
      (\<exists>s. session_of m a = Some s \<and>
           secs (if \<exists>t. sm_tx_holders m t = Some a then 3
                 else if cl_auth_state s = PendingTotp then 120 else 15) < now - cl_last_seen s)"
    unfolding timed_out_iff [OF assms] silent_too_long_def timeout_secs_def TX_HOLDER_TIMEOUT_SECS_def
      TOTP_ENTRY_TIMEOUT_SECS_def SESSION_TIMEOUT_SECS_def ..
  have sess: "session_of (fst (check_timeout m now)) a = Some s \<longleftrightarrow>
           session_of m a = Some s \<and>
           now - cl_last_seen s \<le>
             secs (if \<exists>t. sm_tx_holders m t = Some a then 3
                   else if cl_auth_state s = PendingTotp then 120 else 15)"
    using silent by (auto simp: check_timeout_effect not_less)
  have hold: "sm_tx_holders (fst (check_timeout m now)) t = Some a \<longleftrightarrow>
           sm_tx_holders m t = Some a \<and>
           (\<forall>s. session_of m a = Some s \<longrightarrow> now - cl_last_seen s \<le> secs 3)"
  proof (cases "sm_tx_holders m t = Some a")
    case True
    then have "\<exists>t. sm_tx_holders m t = Some a" by blast
    then show ?thesis using silent True by (auto simp: check_timeout_effect not_less)
  next
    case False
    then show ?thesis by (auto simp: check_timeout_effect split: option.splits if_splits)
  qed
  show ?thesis using sess hold by blast
qed

theorem check_timeout_exact_witness:
  "session_of (fst (check_timeout demo_manager (secs 18))) demo_addr = None"
proof -
  have "sessions_wf demo_manager"
    using run_sessions_wf [OF demo_run_is_run] by (simp add: sessions_wf_def session_manager_new_def)
  note exact = check_timeout_exact [OF this, THEN conjunct1, of "secs 18" demo_addr]
  have "session_of demo_manager demo_addr = Some s \<Longrightarrow> cl_last_seen s = secs 2 \<and> cl_auth_state s = Authenticated" for s
    by (auto simp: demo_session)
  moreover have "sm_tx_holders demo_manager t = None" for t
    by (simp add: demo_manager_def session_simps create_challenge_def Let_def session_manager_new_def)
  ultimately show ?thesis using exact
    by (cases "session_of (fst (check_timeout demo_manager (secs 18))) demo_addr") auto
qed

text \<open>
  An attempt gives back exactly what it took: keying CW takes the transmitter, and when the radio
  could not be keyed the hand-back restores the ownership of before - whether the client held it
  already or took it for the attempt - and a refused attempt changed nothing.
\<close>

theorem attempt_gives_back_what_it_took:
  "case acquire_for_attempt m t a now of
     (m1, Some held_before) \<Rightarrow>
        sm_tx_holders m1 t = Some a \<and> sm_tx_holders (give_back_attempt m1 t a held_before) = sm_tx_holders m
   | (m1, None) \<Rightarrow> m1 = m \<and> (sm_tx_closed m \<or> sm_tx_holders m t \<notin> {None, Some a})"
  by (auto simp: acquire_for_attempt_def give_back_attempt_def try_acquire_tx_def release_tx_def
      tx_holder_def Let_def fun_eq_iff split: option.splits)

theorem attempt_gives_back_what_it_took_witness:
  "sm_tx_holders (give_back_attempt (fst (acquire_for_attempt demo_manager Thetis demo_addr 3)) Thetis demo_addr False) Thetis = None"
proof -
  have "sm_tx_holders demo_manager = Map.empty" "\<not> sm_tx_closed demo_manager"
    by (simp_all add: demo_manager_def session_simps create_challenge_def Let_def session_manager_new_def)
  then have "acquire_for_attempt demo_manager Thetis demo_addr 3 =
      (fst (acquire_for_attempt demo_manager Thetis demo_addr 3), Some False)"
    by (simp add: acquire_for_attempt_def try_acquire_tx_def tx_holder_def)
  then show ?thesis
    using attempt_gives_back_what_it_took [of demo_manager Thetis demo_addr 3] \<open>sm_tx_holders demo_manager = Map.empty\<close>
    by (cases "acquire_for_attempt demo_manager Thetis demo_addr 3") auto
qed

text \<open>
  C6. The lock-out: starting from an address with a clean record, \<open>n\<close> failures one after another block
  it exactly when there were at least five, and until sixty seconds after the last one.
\<close>

theorem lock_out_after_five_failures:
  assumes "f a = None" "ts \<noteq> []" "length ts < 2 ^ 32"
  shows "failures_blocked (fold (\<lambda>t f. record_failure f a t) ts f) a now \<longleftrightarrow>
           5 \<le> length ts \<and> now - last ts < secs 60"
proof -
  have "fold (\<lambda>t f. record_failure f a t) ts f a = Some (of_nat (0 + length ts), last ts)"
    by (rule failures_blocked_after) (use assms in auto)
  moreover have "MAX_AUTH_FAILURES \<le> of_nat (length ts) \<longleftrightarrow> 5 \<le> length ts"
    using assms(3)
    by (simp add: MAX_AUTH_FAILURES_def word_le_nat_alt unsigned_of_nat take_bit_nat_eq_self)
  ultimately show ?thesis
    by (simp add: failures_blocked_def as_secs_less_iff AUTH_BLOCK_SECS_def)
qed

theorem lock_out_after_five_failures_witness:
  "failures_blocked (fold (\<lambda>t f. record_failure f demo_addr t) [1, 2, 3, 4, 5] Map.empty) demo_addr (secs 59)"
  using lock_out_after_five_failures [of Map.empty demo_addr "[1, 2, 3, 4, 5]" "secs 59"] by simp

text \<open>
  The mask that rides on the heartbeat answer says exactly what the session holds: each of its
  twelve bits is set just when that subscription is on, no other bit is ever set, and an address
  without a session gets an empty mask. Whoever has a session and is active receives the VRX audio
  just when the mask says so.
\<close>

theorem subscription_mask_is_the_session:
  "case session_of m a of
     None \<Rightarrow> subscription_mask m a = 0
   | Some s \<Rightarrow>
       map (mask_has (subscription_mask m a))
         [RX1_AUDIO, RX2_AUDIO, RX1_SPECTRUM, RX2_SPECTRUM, VRX1, VRX2, VRX1_SPECTRUM,
          VRX2_SPECTRUM, YAESU, YAESU2, FULL_SPECTRUM, DX_SPOTS] =
         [cl_rx1_enabled s, cl_rx2_enabled s, cl_spectrum_enabled s, cl_rx2_spectrum_enabled s,
          cl_vrx1_audio_enabled s, cl_vrx2_audio_enabled s, cl_vrx1_spectrum_enabled s,
          cl_vrx2_spectrum_enabled s, cl_yaesu_enabled s, cl_yaesu2_enabled s,
          cl_full_spectrum_enabled s, cl_dx_spots_enabled s] \<and>
       unat (subscription_mask m a) < 2 ^ 12"
proof (cases "session_of m a")
  case None
  then show ?thesis by (simp add: subscription_mask_def)
next
  case (Some s)
  have bits: "\<And>k. mask_has (subscription_mask m a) (push_bit k 1) \<longleftrightarrow> k < 16 \<and> bit (subscription_mask m a) k"
    by (rule mask_has_bit)
  have "take_bit 12 (subscription_mask m a) = subscription_mask m a"
    by (rule bit_word_eqI) (auto simp: bit_simps bit_subscription_mask [OF Some])
  then have "unat (take_bit 12 (subscription_mask m a)) = unat (subscription_mask m a)" by simp
  then have "unat (subscription_mask m a) < 2 ^ 12"
    by (metis (no_types) unsigned_take_bit_eq take_bit_nat_less_exp)
  then show ?thesis
    using Some
    unfolding mask_bits_defs list.map bits by (simp add: bit_subscription_mask [OF Some])
qed

text \<open>
  The binaural mode is unanimous: the server resolves BIN just when somebody listens and every
  active client asks for it; with one active client that does not, it sends another mode.
\<close>

theorem binaural_needs_everybody:
  assumes "sessions_wf m"
  shows "resolved_audio_mode m now = 1 \<longleftrightarrow>
     active_addrs m now \<noteq> [] \<and>
     (\<forall>a \<in> set (active_addrs m now). client_audio_mode m a = 1)"
proof -
  have act: "a \<in> set (active_addrs m now) \<longleftrightarrow> (\<exists>s. (a, s) \<in> set (sm_clients m) \<and> is_active_authed s now)" for a
    by (simp add: active_addrs_def addrs_where_iff [OF assms] session_in_clients [OF assms])
  have "active_addrs m now \<noteq> [] \<longleftrightarrow> (\<exists>(a, s) \<in> set (sm_clients m). is_active_authed s now)"
    using act by (metis (mono_tags, lifting) case_prodE case_prodI last_in_set list.set(1) empty_iff)
  moreover have "(\<forall>a \<in> set (active_addrs m now). client_audio_mode m a = 1) \<longleftrightarrow>
      (\<forall>(a, s) \<in> set (sm_clients m). is_active_authed s now \<longrightarrow> cl_audio_mode s = 1)"
  proof -
    have "(\<forall>(a, s) \<in> set (sm_clients m). is_active_authed s now \<longrightarrow> cl_audio_mode s = 1) \<longleftrightarrow>
        (\<forall>a s. session_of m a = Some s \<longrightarrow> is_active_authed s now \<longrightarrow> cl_audio_mode s = 1)"
      by (auto simp: session_in_clients [OF assms, symmetric])
    moreover have "(\<forall>a \<in> set (active_addrs m now). client_audio_mode m a = 1) \<longleftrightarrow>
        (\<forall>a s. session_of m a = Some s \<longrightarrow> is_active_authed s now \<longrightarrow> client_audio_mode m a = 1)"
      using act by (auto simp: session_in_clients [OF assms])
    ultimately show ?thesis by (auto simp: client_audio_mode_def)
  qed
  ultimately show ?thesis by (simp only: resolved_bin_iff)
qed

theorem binaural_needs_everybody_witness:
  "resolved_audio_mode (set_audio_mode (fst (touch (session_manager_new None None) demo_addr 5)) demo_addr 1) 6 = 1"
  by (subst binaural_needs_everybody)
    (auto simp: touch_def session_manager_new_def set_audio_mode_def session_simps sessions_wf_def
      active_addrs_def addrs_where_def session_of_def insert_session_def mark_admitted_def notify_def
      with_session_def new_session_def is_active_authed_def silent_too_long_def timeout_secs_def
      SESSION_TIMEOUT_SECS_def client_audio_mode_def)

text \<open>
  The strictest client decides the zoom: the zoom the auto-recenter works with is never below
  two while any client has not opted in to less, never below one, and never above the smallest zoom
  in use unless that smallest zoom is itself below the enforced minimum.
\<close>

theorem strictest_zoom_wins:
  assumes "effective_zoom_rx1 m = Some z" "(a, s) \<in> set (sm_clients m)"
  shows "(\<not> cl_allow_zoom_below_2x s \<longrightarrow> 2 \<le> z) \<and> 1 \<le> z \<and>
         (cl_spectrum_enabled s \<longrightarrow> z \<le> max (cl_spectrum_zoom s) (server_enforced_zoom_min m))"
proof -
  let ?zs = "cl_spectrum_zoom ` {s. \<exists>a. (a, s) \<in> set (sm_clients m) \<and> cl_spectrum_enabled s}"
  have z: "z = max (Min ?zs) (server_enforced_zoom_min m)"
    using assms(1) by (simp add: effective_zoom_rx1_eq Let_def)
  have "?zs \<subseteq> (\<lambda>(a, s). cl_spectrum_zoom s) ` set (sm_clients m)" by force
  then have "finite ?zs" by (rule finite_subset) simp
  then have "cl_spectrum_enabled s \<longrightarrow> Min ?zs \<le> cl_spectrum_zoom s"
    using assms(2) by (auto intro: Min_le)
  moreover have "\<not> cl_allow_zoom_below_2x s \<longrightarrow> server_enforced_zoom_min m = 2"
    using assms(2) by (auto simp: server_enforced_zoom_min_def list_all_iff)
  moreover have "1 \<le> server_enforced_zoom_min m" by (simp add: server_enforced_zoom_min_def)
  ultimately show ?thesis using z by (auto simp: max_def)
qed

theorem strictest_zoom_wins_witness:
  "2 \<le> (case effective_zoom_rx1 (set_spectrum_enabled (fst (touch (session_manager_new None None) demo_addr 5))
                    demo_addr True) of Some z \<Rightarrow> z | None \<Rightarrow> 0)"
proof -
  let ?m = "set_spectrum_enabled (fst (touch (session_manager_new None None) demo_addr 5)) demo_addr True"
  have c: "sm_clients ?m = [(demo_addr, (new_session NoAuth 5)\<lparr> cl_spectrum_enabled := True \<rparr>)]"
    by (simp add: touch_def session_manager_new_def set_spectrum_enabled_def session_of_def
        insert_session_def mark_admitted_def notify_def with_session_def)
  then have "effective_zoom_rx1 ?m = Some 2"
    by (simp add: effective_zoom_rx1_def fold_min_def server_enforced_zoom_min_def new_session_def)
  from strictest_zoom_wins [OF this, of demo_addr "(new_session NoAuth 5)\<lparr> cl_spectrum_enabled := True \<rparr>"] c this
  show ?thesis by (simp add: new_session_def)
qed

end
