(* ===== verification/Wire.thy ===== *)
theory Wire
  imports Utf8
begin

text \<open>
  The foundations of the wire format (\<^verbatim>\<open>sdr-remote-core/src/protocol.rs\<close>): what a parser returns, how
  it reads a buffer, the numbered enums, the flags and the four-byte header.

  A parser here has three outcomes: \<open>Ok\<close>, \<open>Err\<close> for a \<^verbatim>\<open>bail!\<close>, and \<open>Panic\<close> for an index or a slice out of
  range, which would end the task that parses. Every read that indexes is written with its bounds, so
  that not panicking is a theorem. A serializer returns the bytes it writes or appends. Error texts are
  left out, their cause is kept. Signed integers are words; \<open>sint\<close> reads them.
\<close>

section \<open>Outcomes\<close>

type_synonym i8 = "8 word"
type_synonym i16 = "16 word"
type_synonym i32 = "32 word"

datatype wire_error =
    TooShort nat
  | BadMagic u8
  | UnsupportedVersion u8
  | UnknownPacketType u8
  | UnexpectedType u8
  | Truncated nat
  | UnknownControl u8
  | UnknownDevice u8
  | UnknownFamily u8
  | BadEdgeCount nat

datatype 'a wire = Ok 'a | Err wire_error | Panic

fun wbind :: "'a wire \<Rightarrow> ('a \<Rightarrow> 'b wire) \<Rightarrow> 'b wire" where
  "wbind (Ok x) f = f x"
| "wbind (Err e) f = Err e"
| "wbind Panic f = Panic"

text \<open>\<^verbatim>\<open>if !b { bail! }\<close>\<close>

definition ensure :: "bool \<Rightarrow> wire_error \<Rightarrow> 'a wire \<Rightarrow> 'a wire" where
  "ensure b e k = (if b then k else Err e)"

lemma ensure_simps [simp]:
  "ensure True e k = k" "ensure False e k = Err e" "b \<Longrightarrow> ensure b e k = k" "\<not> b \<Longrightarrow> ensure b e k = Err e"
  by (simp_all add: ensure_def)

lemma wbind_ok_iff: "wbind m f = Ok y \<longleftrightarrow> (\<exists>x. m = Ok x \<and> f x = Ok y)"
  by (cases m) simp_all

lemma wbind_panic_iff: "wbind m f = Panic \<longleftrightarrow> m = Panic \<or> (\<exists>x. m = Ok x \<and> f x = Panic)"
  by (cases m) simp_all

lemma ensure_panic_iff: "ensure b e k = Panic \<longleftrightarrow> b \<and> k = Panic"
  by (simp add: ensure_def)

lemma ensure_ok_iff: "ensure b e k = Ok y \<longleftrightarrow> b \<and> k = Ok y"
  by (simp add: ensure_def)

lemma wbind_assoc: "wbind (wbind m f) g = wbind m (\<lambda>x. wbind (f x) g)"
  by (cases m) simp_all

text \<open>Not panicking, as a rule per construct.\<close>

named_theorems no_panic \<open>a parser that does not panic\<close>

lemma no_panic_ok [no_panic]: "Ok x \<noteq> Panic" "Err e \<noteq> Panic"
  by simp_all

lemma no_panic_bind: "m \<noteq> Panic \<Longrightarrow> (\<And>x. m = Ok x \<Longrightarrow> f x \<noteq> Panic) \<Longrightarrow> wbind m f \<noteq> Panic"
  by (cases m) simp_all

lemma no_panic_ensure: "(b \<Longrightarrow> k \<noteq> Panic) \<Longrightarrow> ensure b e k \<noteq> Panic"
  by (simp add: ensure_def)

section \<open>Reading\<close>

definition byte_at :: "u8 list \<Rightarrow> nat \<Rightarrow> u8 wire" where
  "byte_at buf i = (if i < length buf then Ok (buf ! i) else Panic)"

definition slice_at :: "u8 list \<Rightarrow> nat \<Rightarrow> nat \<Rightarrow> u8 list wire" where
  "slice_at buf i j = (if i \<le> j \<and> j \<le> length buf then Ok (take (j - i) (drop i buf)) else Panic)"

definition u16_at :: "u8 list \<Rightarrow> nat \<Rightarrow> u16 wire" where
  "u16_at buf i = (if i + 2 \<le> length buf then Ok (u16_be (buf ! i) (buf ! (i + 1))) else Panic)"

definition u32_at :: "u8 list \<Rightarrow> nat \<Rightarrow> u32 wire" where
  "u32_at buf i =
     (if i + 4 \<le> length buf
      then Ok (u32_be (buf ! i) (buf ! (i + 1)) (buf ! (i + 2)) (buf ! (i + 3))) else Panic)"

definition u64_be :: "u32 \<Rightarrow> u32 \<Rightarrow> u64" where
  "u64_be hi lo = push_bit 32 (ucast hi) OR ucast lo"

definition u64_to_be :: "u64 \<Rightarrow> u8 list" where
  "u64_to_be w = u32_to_be (ucast (drop_bit 32 w)) @ u32_to_be (ucast w)"

definition u64_at :: "u8 list \<Rightarrow> nat \<Rightarrow> u64 wire" where
  "u64_at buf i =
     (if i + 8 \<le> length buf
      then Ok (u64_be
        (u32_be (buf ! i) (buf ! (i + 1)) (buf ! (i + 2)) (buf ! (i + 3)))
        (u32_be (buf ! (i + 4)) (buf ! (i + 5)) (buf ! (i + 6)) (buf ! (i + 7)))) else Panic)"

text \<open>\<^verbatim>\<open>b as u8\<close> and \<^verbatim>\<open>n as u8\<close>, \<^verbatim>\<open>n as u16\<close>.\<close>

definition bool_byte :: "bool \<Rightarrow> u8" where
  "bool_byte b = (if b then 1 else 0)"

lemma bool_byte_simps [simp]: "bool_byte b = 0 \<longleftrightarrow> \<not> b" "bool_byte b \<noteq> 0 \<longleftrightarrow> b"
  by (simp_all add: bool_byte_def)

lemma u64_be_roundtrip [simp]: "u64_be (ucast (drop_bit 32 w)) (ucast w) = w"
proof (rule bit_word_eqI)
  fix n assume "n < LENGTH(64)"
  then consider "n < 32" | "32 \<le> n" "n < 64" by fastforce
  then show "bit (u64_be (ucast (drop_bit 32 w)) (ucast w)) n = bit w n"
    by cases (auto simp: u64_be_def bit_simps)
qed

lemma length_u64_to_be [simp]: "length (u64_to_be w) = 8"
  by (simp add: u64_to_be_def)

text \<open>Reading past what comes first, and reading what was written there.\<close>

lemma read_past [simp]:
  "length xs \<le> i \<Longrightarrow> byte_at (xs @ ys) i = byte_at ys (i - length xs)"
  "length xs \<le> i \<Longrightarrow> u16_at (xs @ ys) i = u16_at ys (i - length xs)"
  "length xs \<le> i \<Longrightarrow> u32_at (xs @ ys) i = u32_at ys (i - length xs)"
  "length xs \<le> i \<Longrightarrow> u64_at (xs @ ys) i = u64_at ys (i - length xs)"
  by (auto simp: byte_at_def u16_at_def u32_at_def u64_at_def nth_append Suc_diff_le)

lemma slice_past [simp]: "length xs \<le> i \<Longrightarrow> i \<le> j \<Longrightarrow> slice_at (xs @ ys) i j = slice_at ys (i - length xs) (j - length xs)"
  by (auto simp: slice_at_def)

lemma read_past_byte [simp]:
  "byte_at (x # ys) (Suc i) = byte_at ys i" "u16_at (x # ys) (Suc i) = u16_at ys i"
  "u32_at (x # ys) (Suc i) = u32_at ys i" "u64_at (x # ys) (Suc i) = u64_at ys i"
  "byte_at (x # ys) (numeral k) = byte_at ys (pred_numeral k)" "u16_at (x # ys) (numeral k) = u16_at ys (pred_numeral k)"
  "u32_at (x # ys) (numeral k) = u32_at ys (pred_numeral k)" "u64_at (x # ys) (numeral k) = u64_at ys (pred_numeral k)"
  by (simp_all add: byte_at_def u16_at_def u32_at_def u64_at_def numeral_eq_Suc)

lemma slice_past_byte [simp]:
  "slice_at (x # ys) (Suc i) (Suc j) = slice_at ys i j"
  "0 < j \<Longrightarrow> slice_at (x # ys) (numeral k) j = slice_at ys (pred_numeral k) (j - 1)"
  "slice_at (x # ys) (Suc i) (numeral k) = slice_at ys i (pred_numeral k)"
  by (cases j) (auto simp: slice_at_def numeral_eq_Suc)

lemma read_here [simp]:
  "byte_at (x # ys) 0 = Ok x" "u16_at (u16_to_be v @ ys) 0 = Ok v" "u32_at (u32_to_be w @ ys) 0 = Ok w"
  "u64_at (u64_to_be z @ ys) 0 = Ok z"
  by (simp_all add: byte_at_def u16_at_def u32_at_def u64_at_def u16_to_be_def u32_to_be_def u64_to_be_def)

lemma read_here_last [simp]:
  "u16_at (u16_to_be v) 0 = Ok v" "u32_at (u32_to_be w) 0 = Ok w" "u64_at (u64_to_be z) 0 = Ok z"
  using read_here(2-4) [where ys = "[]"] by simp_all

lemma u16_to_be_nth [simp]: "u16_be (u16_to_be v ! 0) (u16_to_be v ! Suc 0) = v"
  using read_here_last(1) [of v] by (simp add: u16_at_def u16_to_be_def)

lemma slice_here [simp]: "slice_at (xs @ ys) 0 (length xs) = Ok xs"
  by (simp add: slice_at_def)

lemma slice_here_n [simp]: "length xs = n \<Longrightarrow> slice_at (xs @ ys) 0 n = Ok xs" "length xs = n \<Longrightarrow> slice_at xs 0 n = Ok xs"
  by (auto simp: slice_at_def)

lemma no_panic_reads [no_panic]:
  "i < length buf \<Longrightarrow> byte_at buf i \<noteq> Panic" "i + 2 \<le> length buf \<Longrightarrow> u16_at buf i \<noteq> Panic"
  "i + 4 \<le> length buf \<Longrightarrow> u32_at buf i \<noteq> Panic" "i + 8 \<le> length buf \<Longrightarrow> u64_at buf i \<noteq> Panic"
  "i \<le> j \<Longrightarrow> j \<le> length buf \<Longrightarrow> slice_at buf i j \<noteq> Panic"
  by (simp_all add: byte_at_def u16_at_def u32_at_def u64_at_def slice_at_def)

lemma read_ok_iff [simp]:
  "byte_at buf i = Ok b \<longleftrightarrow> i < length buf \<and> b = buf ! i"
  "slice_at buf i j = Ok s \<longleftrightarrow> i \<le> j \<and> j \<le> length buf \<and> s = take (j - i) (drop i buf)"
  by (auto simp: byte_at_def slice_at_def)

section \<open>Numbered enums\<close>

text \<open>\<^verbatim>\<open>TryFromPrimitive\<close> on a \<^verbatim>\<open>#[repr(u8)]\<close> enum: the number of each variant, and back by looking it up.\<close>

locale wire_enum =
  fixes code :: "'a \<Rightarrow> u8"
    and variants :: "'a list"
    and from_u8 :: "u8 \<Rightarrow> 'a option"
  assumes from_u8_def: "from_u8 v = find (\<lambda>t. code t = v) variants"
    and complete: "t \<in> set variants"
    and distinct_codes: "distinct (map code variants)"
begin

lemma code_inj: "code s = code t \<Longrightarrow> s = t"
  using distinct_codes complete by (simp add: distinct_map inj_on_def)

lemma from_code [simp]: "from_u8 (code t) = Some t"
proof -
  have "find (\<lambda>s. code s = code t) variants \<noteq> None" using complete [of t] by (auto simp: find_None_iff)
  then obtain s where "find (\<lambda>s. code s = code t) variants = Some s" by blast
  moreover from this have "code s = code t" by (auto simp: find_Some_iff)
  ultimately show ?thesis using code_inj from_u8_def by simp
qed

lemma code_from: "from_u8 v = Some t \<longleftrightarrow> code t = v"
  using from_code [of t] by (auto simp: from_u8_def find_Some_iff)

lemma unknown_code: "from_u8 v = None \<longleftrightarrow> (\<forall>t. code t \<noteq> v)"
  using code_from by (metis not_None_eq option.distinct(1))

end

datatype (plugins only: size) packet_type =
    Audio | Heartbeat | HeartbeatAck | Control | Disconnect | PttDenied | Frequency | Mode |
    Smeter | Spectrum | FullSpectrum | EquipmentStatus | EquipmentCommand | AudioRx2 |
    FrequencyRx2 | ModeRx2 | SmeterRx2 | SpectrumRx2 | FullSpectrumRx2 | Spot | TxProfiles |
    AudioYaesu | YaesuState | FrequencyYaesu | AudioBinR | AudioMultiCh | SmeterSig |
    SmeterMaxBin | SmeterRx2Sig | SmeterRx2MaxBin | YaesuMemoryData | AmplitecPowerTable |
    AuthChallenge | AuthResponse | AuthResult | TotpChallenge | TotpResponse | AudioVrx |
    FrequencyVrx | SpectrumVrx1 | SpectrumVrx2 | AudioYaesu2 | YaesuState2 | FrequencyYaesu2 |
    YaesuMemoryData2 | RadioInfo | FrequencyVrxActual | TxFilterBand | YaesuControl |
    YaesuFeature | YaesuPresence | CwEdges | ServerReportRequest | ServerReportPart |
    ControlAck | PunchOffer | PunchReady | PunchLocal

definition packet_code :: "packet_type \<Rightarrow> u8" where
  "packet_code t = (case t of
     packet_type.Audio \<Rightarrow> 0x01 | packet_type.Heartbeat \<Rightarrow> 0x02 |
     packet_type.HeartbeatAck \<Rightarrow> 0x03 | packet_type.Control \<Rightarrow> 0x04 |
     packet_type.Disconnect \<Rightarrow> 0x05 | packet_type.PttDenied \<Rightarrow> 0x06 |
     packet_type.Frequency \<Rightarrow> 0x07 | packet_type.Mode \<Rightarrow> 0x08 |
     packet_type.Smeter \<Rightarrow> 0x09 | packet_type.Spectrum \<Rightarrow> 0x0A |
     packet_type.FullSpectrum \<Rightarrow> 0x0B |
     packet_type.EquipmentStatus \<Rightarrow> 0x0C |
     packet_type.EquipmentCommand \<Rightarrow> 0x0D |
     packet_type.AudioRx2 \<Rightarrow> 0x0E | packet_type.FrequencyRx2 \<Rightarrow> 0x0F |
     packet_type.ModeRx2 \<Rightarrow> 0x10 | packet_type.SmeterRx2 \<Rightarrow> 0x11 |
     packet_type.SpectrumRx2 \<Rightarrow> 0x12 |
     packet_type.FullSpectrumRx2 \<Rightarrow> 0x13 | packet_type.Spot \<Rightarrow> 0x14 |
     packet_type.TxProfiles \<Rightarrow> 0x15 | packet_type.AudioYaesu \<Rightarrow> 0x16 |
     packet_type.YaesuState \<Rightarrow> 0x17 |
     packet_type.FrequencyYaesu \<Rightarrow> 0x18 | packet_type.AudioBinR \<Rightarrow> 0x1A |
     packet_type.AudioMultiCh \<Rightarrow> 0x1B | packet_type.SmeterSig \<Rightarrow> 0x1C |
     packet_type.SmeterMaxBin \<Rightarrow> 0x1D |
     packet_type.SmeterRx2Sig \<Rightarrow> 0x1E |
     packet_type.SmeterRx2MaxBin \<Rightarrow> 0x1F |
     packet_type.YaesuMemoryData \<Rightarrow> 0x19 |
     packet_type.AmplitecPowerTable \<Rightarrow> 0x20 |
     packet_type.AuthChallenge \<Rightarrow> 0x30 |
     packet_type.AuthResponse \<Rightarrow> 0x31 | packet_type.AuthResult \<Rightarrow> 0x32 |
     packet_type.TotpChallenge \<Rightarrow> 0x33 |
     packet_type.TotpResponse \<Rightarrow> 0x34 | packet_type.AudioVrx \<Rightarrow> 0x21 |
     packet_type.FrequencyVrx \<Rightarrow> 0x22 |
     packet_type.SpectrumVrx1 \<Rightarrow> 0x23 |
     packet_type.SpectrumVrx2 \<Rightarrow> 0x24 | packet_type.AudioYaesu2 \<Rightarrow> 0x25 |
     packet_type.YaesuState2 \<Rightarrow> 0x26 |
     packet_type.FrequencyYaesu2 \<Rightarrow> 0x27 |
     packet_type.YaesuMemoryData2 \<Rightarrow> 0x28 |
     packet_type.RadioInfo \<Rightarrow> 0x29 |
     packet_type.FrequencyVrxActual \<Rightarrow> 0x2A |
     packet_type.TxFilterBand \<Rightarrow> 0x2B |
     packet_type.YaesuControl \<Rightarrow> 0x2C |
     packet_type.YaesuFeature \<Rightarrow> 0x2D |
     packet_type.YaesuPresence \<Rightarrow> 0x2E | packet_type.CwEdges \<Rightarrow> 0x2F |
     packet_type.ServerReportRequest \<Rightarrow> 0x35 |
     packet_type.ServerReportPart \<Rightarrow> 0x36 |
     packet_type.ControlAck \<Rightarrow> 0x37 | packet_type.PunchOffer \<Rightarrow> 0x38 |
     packet_type.PunchReady \<Rightarrow> 0x39 | packet_type.PunchLocal \<Rightarrow> 0x3A)"

definition ALL_packet_types :: "packet_type list" where
  "ALL_packet_types =
    [packet_type.Audio, packet_type.Heartbeat, packet_type.HeartbeatAck, packet_type.Control,
     packet_type.Disconnect, packet_type.PttDenied, packet_type.Frequency, packet_type.Mode,
     packet_type.Smeter, packet_type.Spectrum, packet_type.FullSpectrum,
     packet_type.EquipmentStatus, packet_type.EquipmentCommand, packet_type.AudioRx2,
     packet_type.FrequencyRx2, packet_type.ModeRx2, packet_type.SmeterRx2,
     packet_type.SpectrumRx2, packet_type.FullSpectrumRx2, packet_type.Spot,
     packet_type.TxProfiles, packet_type.AudioYaesu, packet_type.YaesuState,
     packet_type.FrequencyYaesu, packet_type.AudioBinR, packet_type.AudioMultiCh,
     packet_type.SmeterSig, packet_type.SmeterMaxBin, packet_type.SmeterRx2Sig,
     packet_type.SmeterRx2MaxBin, packet_type.YaesuMemoryData, packet_type.AmplitecPowerTable,
     packet_type.AuthChallenge, packet_type.AuthResponse, packet_type.AuthResult,
     packet_type.TotpChallenge, packet_type.TotpResponse, packet_type.AudioVrx,
     packet_type.FrequencyVrx, packet_type.SpectrumVrx1, packet_type.SpectrumVrx2,
     packet_type.AudioYaesu2, packet_type.YaesuState2, packet_type.FrequencyYaesu2,
     packet_type.YaesuMemoryData2, packet_type.RadioInfo, packet_type.FrequencyVrxActual,
     packet_type.TxFilterBand, packet_type.YaesuControl, packet_type.YaesuFeature,
     packet_type.YaesuPresence, packet_type.CwEdges, packet_type.ServerReportRequest,
     packet_type.ServerReportPart, packet_type.ControlAck, packet_type.PunchOffer,
     packet_type.PunchReady, packet_type.PunchLocal]"

definition packet_type_from_u8 :: "u8 \<Rightarrow> packet_type option" where
  "packet_type_from_u8 v = find (\<lambda>t. packet_code t = v) ALL_packet_types"

interpretation ptype: wire_enum packet_code ALL_packet_types packet_type_from_u8
proof
  show "t \<in> set ALL_packet_types" for t by (cases t) (simp_all add: ALL_packet_types_def)
  show "distinct (map packet_code ALL_packet_types)" by (simp add: ALL_packet_types_def packet_code_def)
qed (simp add: packet_type_from_u8_def)

datatype device_type =
    Amplitec6x2 | Tuner | SpeExpert | Rf2k | UltraBeam | Rotor | RemoteServer

definition device_code :: "device_type \<Rightarrow> u8" where
  "device_code t = (case t of
     device_type.Amplitec6x2 \<Rightarrow> 0x01 | device_type.Tuner \<Rightarrow> 0x02 |
     device_type.SpeExpert \<Rightarrow> 0x03 | device_type.Rf2k \<Rightarrow> 0x04 |
     device_type.UltraBeam \<Rightarrow> 0x05 | device_type.Rotor \<Rightarrow> 0x06 |
     device_type.RemoteServer \<Rightarrow> 0x07)"

definition ALL_devices :: "device_type list" where
  "ALL_devices =
    [device_type.Amplitec6x2, device_type.Tuner, device_type.SpeExpert, device_type.Rf2k,
     device_type.UltraBeam, device_type.Rotor, device_type.RemoteServer]"

definition device_type_from_u8 :: "u8 \<Rightarrow> device_type option" where
  "device_type_from_u8 v = find (\<lambda>t. device_code t = v) ALL_devices"

interpretation dtype: wire_enum device_code ALL_devices device_type_from_u8
proof
  show "t \<in> set ALL_devices" for t by (cases t) (simp_all add: ALL_devices_def)
  show "distinct (map device_code ALL_devices)" by (simp add: ALL_devices_def device_code_def)
qed (simp add: device_type_from_u8_def)

text \<open>
  \<^verbatim>\<open>ControlId\<close> has 151 variants; a variant is its number here, and the numbers that are variants are
  listed.
\<close>

definition CONTROL_CODES :: "u8 list" where
  "CONTROL_CODES =
    [0x01, 0x02, 0x03, 0x04, 0x05, 0x06, 0x07, 0x08, 0x09, 0x0A, 0x0B, 0x0C, 0x0D, 0x0E, 0x0F,
     0x10, 0x11, 0x12, 0x13, 0x14, 0x15, 0x16, 0x17, 0x18, 0x19, 0x1A, 0x1B, 0x1C, 0x3F, 0x1D,
     0x1E, 0x1F, 0x20, 0x21, 0x22, 0x23, 0x24, 0x25, 0x26, 0x27, 0x28, 0x29, 0x2A, 0x2B, 0x2C,
     0x2D, 0x2E, 0x2F, 0x30, 0x31, 0x32, 0x33, 0x34, 0x35, 0x36, 0x37, 0x38, 0x39, 0x3A, 0x3B,
     0x3C, 0x50, 0x51, 0x52, 0x53, 0x54, 0x55, 0x56, 0x57, 0x58, 0x59, 0x4A, 0x48, 0x49, 0x3D,
     0x3E, 0x40, 0x41, 0x42, 0x43, 0x44, 0x45, 0x46, 0x47, 0x5A, 0x5B, 0x5C, 0x5D, 0x5E, 0x5F,
     0x60, 0x61, 0x62, 0x63, 0x64, 0x65, 0x66, 0x67, 0x68, 0x69, 0x6A, 0x6B, 0x6C, 0x6D, 0x6E,
     0x6F, 0x70, 0x71, 0x72, 0x73, 0x74, 0x75, 0x76, 0x77, 0x78, 0x79, 0x7A, 0x80, 0x81, 0x82,
     0x83, 0x84, 0x85, 0x86, 0x87, 0x88, 0x89, 0x8A, 0x8B, 0x8C, 0x8D, 0x8E, 0x8F, 0x90, 0x91,
     0x92, 0x93, 0x94, 0x95, 0x96, 0x97, 0x98, 0x99, 0x9A, 0x9B, 0x9C, 0x9D, 0x9E, 0x9F, 0xA0,
     0xA1]"

definition control_id_from_u8 :: "u8 \<Rightarrow> u8 option" where
  "control_id_from_u8 v = (if list_ex (\<lambda>c. c = v) CONTROL_CODES then Some v else None)"

section \<open>Flags and header\<close>

definition MAGIC :: u8 where "MAGIC = 0xAA"
definition VERSION :: u8 where "VERSION = 3"

definition is_audio :: "packet_type \<Rightarrow> bool" where
  "is_audio t \<longleftrightarrow>
     (case t of packet_type.Audio \<Rightarrow> True | packet_type.AudioRx2 \<Rightarrow> True | packet_type.AudioYaesu \<Rightarrow> True
      | packet_type.AudioBinR \<Rightarrow> True | packet_type.AudioMultiCh \<Rightarrow> True | packet_type.AudioVrx \<Rightarrow> True
      | packet_type.AudioYaesu2 \<Rightarrow> True | _ \<Rightarrow> False)"

definition is_spectrum :: "packet_type \<Rightarrow> bool" where
  "is_spectrum t \<longleftrightarrow>
     (case t of packet_type.Spectrum \<Rightarrow> True | packet_type.FullSpectrum \<Rightarrow> True | packet_type.SpectrumRx2 \<Rightarrow> True
      | packet_type.FullSpectrumRx2 \<Rightarrow> True | packet_type.SpectrumVrx1 \<Rightarrow> True
      | packet_type.SpectrumVrx2 \<Rightarrow> True | _ \<Rightarrow> False)"

definition AUDIO_PACKET_TYPES :: "u8 list" where
  "AUDIO_PACKET_TYPES = map packet_code
     [packet_type.Audio, packet_type.AudioRx2, packet_type.AudioYaesu, packet_type.AudioBinR,
      packet_type.AudioMultiCh, packet_type.AudioVrx, packet_type.AudioYaesu2]"

definition SPECTRUM_PACKET_TYPES :: "u8 list" where
  "SPECTRUM_PACKET_TYPES = map packet_code
     [packet_type.Spectrum, packet_type.FullSpectrum, packet_type.SpectrumRx2,
      packet_type.FullSpectrumRx2, packet_type.SpectrumVrx1, packet_type.SpectrumVrx2]"

type_synonym flags = u8

definition NO_FLAGS :: flags where "NO_FLAGS = 0"
definition FLAG_PTT :: flags where "FLAG_PTT = 0x01"
definition FLAG_AUDIO_WIDEBAND :: flags where "FLAG_AUDIO_WIDEBAND = 0x02"
definition FLAG_HELD_BY_OTHER :: flags where "FLAG_HELD_BY_OTHER = 0x04"
definition FLAG_SERVER_RELEASED :: flags where "FLAG_SERVER_RELEASED = 0x08"
definition FLAG_SERVER_CLOSED :: flags where "FLAG_SERVER_CLOSED = 0x40"

definition flag_ptt :: "flags \<Rightarrow> bool" where "flag_ptt f \<longleftrightarrow> f AND 0x01 \<noteq> 0"
definition flag_wideband :: "flags \<Rightarrow> bool" where "flag_wideband f \<longleftrightarrow> f AND 0x02 \<noteq> 0"
definition flag_held_by_other :: "flags \<Rightarrow> bool" where "flag_held_by_other f \<longleftrightarrow> f AND 0x04 \<noteq> 0"
definition flag_server_released :: "flags \<Rightarrow> bool" where "flag_server_released f \<longleftrightarrow> f AND 0x08 \<noteq> 0"
definition flag_server_closed :: "flags \<Rightarrow> bool" where "flag_server_closed f \<longleftrightarrow> f AND 0x40 \<noteq> 0"

definition with_ptt :: "flags \<Rightarrow> bool \<Rightarrow> flags" where
  "with_ptt f ptt = (if ptt then f OR 0x01 else f AND NOT 0x01)"

definition with_wideband :: "flags \<Rightarrow> bool \<Rightarrow> flags" where
  "with_wideband f wb = (if wb then f OR 0x02 else f AND NOT 0x02)"

datatype denied_target = NotStated | DeniedThetis | DeniedRadio1 | DeniedRadio2

definition denied_index :: "denied_target \<Rightarrow> nat option" where
  "denied_index t = (case t of NotStated \<Rightarrow> None | DeniedThetis \<Rightarrow> Some 0 | DeniedRadio1 \<Rightarrow> Some 1 | DeniedRadio2 \<Rightarrow> Some 2)"

definition denied_bits :: "denied_target \<Rightarrow> u8" where
  "denied_bits t = (case t of NotStated \<Rightarrow> 0x00 | DeniedThetis \<Rightarrow> 0x10 | DeniedRadio1 \<Rightarrow> 0x20 | DeniedRadio2 \<Rightarrow> 0x30)"

definition flag_denied_target :: "flags \<Rightarrow> denied_target" where
  "flag_denied_target f =
     (let b = f AND 0x30
      in if b = 0x10 then DeniedThetis else if b = 0x20 then DeniedRadio1
         else if b = 0x30 then DeniedRadio2 else NotStated)"

record header =
  hd_type :: packet_type
  hd_flags :: flags

definition HEADER_SIZE :: nat where "HEADER_SIZE = 4"

definition header_bytes :: "packet_type \<Rightarrow> flags \<Rightarrow> u8 list" where
  "header_bytes t f = [MAGIC, VERSION, packet_code t, f]"

definition header_deserialize :: "u8 list \<Rightarrow> header wire" where
  "header_deserialize buf =
     ensure (HEADER_SIZE \<le> length buf) (TooShort (length buf))
      (wbind (byte_at buf 0) (\<lambda>b0. ensure (b0 = MAGIC) (BadMagic b0)
      (wbind (byte_at buf 1) (\<lambda>b1. ensure (b1 = VERSION) (UnsupportedVersion b1)
      (wbind (byte_at buf 2) (\<lambda>b2.
        case packet_type_from_u8 b2 of
          None \<Rightarrow> Err (UnknownPacketType b2)
        | Some t \<Rightarrow> wbind (byte_at buf 3) (\<lambda>b3. Ok \<lparr> hd_type = t, hd_flags = b3 \<rparr>)))))))"

lemma length_header [simp]: "length (header_bytes t f) = 4"
  by (simp add: header_bytes_def)

lemma header_roundtrip [simp]:
  "header_deserialize (header_bytes t f @ rest) = Ok \<lparr> hd_type = t, hd_flags = f \<rparr>"
  by (simp add: header_deserialize_def header_bytes_def HEADER_SIZE_def)

lemma header_roundtrip_bare [simp]:
  "header_deserialize (header_bytes t f) = Ok \<lparr> hd_type = t, hd_flags = f \<rparr>"
  using header_roundtrip [of t f "[]"] by simp

lemma header_no_panic [no_panic]: "header_deserialize buf \<noteq> Panic"
  by (auto simp: header_deserialize_def HEADER_SIZE_def byte_at_def ensure_def split: option.splits)

text \<open>Which buffers have a header, and which one.\<close>

lemma header_ok_iff:
  "header_deserialize buf = Ok h \<longleftrightarrow>
     4 \<le> length buf \<and> buf ! 0 = MAGIC \<and> buf ! 1 = VERSION \<and> buf ! 2 = packet_code (hd_type h) \<and> buf ! 3 = hd_flags h"
  by (cases h) (auto simp: header_deserialize_def HEADER_SIZE_def byte_at_def ensure_def ptype.code_from
      split: option.splits if_splits; metis ptype.code_from option.inject option.distinct(1))

lemma classified_alike:
  "is_audio t \<longleftrightarrow> packet_code t \<in> set AUDIO_PACKET_TYPES"
  "is_spectrum t \<longleftrightarrow> packet_code t \<in> set SPECTRUM_PACKET_TYPES"
  by (cases t; simp add: is_audio_def AUDIO_PACKET_TYPES_def packet_code_def)
    (cases t; simp add: is_spectrum_def SPECTRUM_PACKET_TYPES_def packet_code_def)

end
