(* ===== verification/WireAudio.thy ===== *)
theory WireAudio
  imports Wire
begin

text \<open>
  What carries a signal (\<^verbatim>\<open>protocol.rs\<close>): audio of one and of several channels, VRX audio, frequency,
  mode, S-meter, the transmit filter and the spectrum, each with its serializer and its parser. The
  law every codec of the format obeys is stated once, in the locale \<open>packet_codec\<close>.
\<close>

section \<open>Codecs\<close>

text \<open>
  A parser is total - no bytes make it panic - and reads back what the serializer wrote, for the
  packets the format can carry; a codec whose packets may grow at the end ignores what follows.
\<close>

locale packet_codec =
  fixes ser :: "'p \<Rightarrow> u8 list"
    and de :: "u8 list \<Rightarrow> 'p wire"
    and carried :: "'p \<Rightarrow> bool"
  assumes roundtrip: "carried p \<Longrightarrow> de (ser p) = Ok p"
    and total: "de buf \<noteq> Panic"
begin

lemma unambiguous: "carried p \<Longrightarrow> carried q \<Longrightarrow> ser p = ser q \<Longrightarrow> p = q"
  by (metis roundtrip wire.inject(1))

lemma refused_or_read: "(\<exists>p. de buf = Ok p) \<or> (\<exists>e. de buf = Err e)"
  using total [of buf] by (cases "de buf") auto

end

locale open_codec = packet_codec +
  assumes ignores_rest: "carried p \<Longrightarrow> de (ser p @ rest) = Ok p"

lemma open_codecI:
  assumes "\<And>p rest. carried p \<Longrightarrow> de (ser p @ rest) = Ok p" "\<And>buf. de buf \<noteq> Panic"
  shows "open_codec ser de carried"
  using assms(1) [where rest = "[]"] assms by unfold_locales simp_all

text \<open>The shape all parsers share: the header, then the type, then the length.\<close>

definition expect :: "u8 list \<Rightarrow> packet_type set \<Rightarrow> nat \<Rightarrow> (header \<Rightarrow> 'a wire) \<Rightarrow> 'a wire" where
  "expect buf types need k =
     wbind (header_deserialize buf) (\<lambda>h.
       ensure (hd_type h \<in> types) (UnexpectedType (packet_code (hd_type h)))
         (ensure (need \<le> length buf) (TooShort (length buf)) (k h)))"

lemma expect_header [simp]:
  "expect (header_bytes t f @ rest) types need k =
     (if t \<notin> types then Err (UnexpectedType (packet_code t))
      else if 4 + length rest < need then Err (TooShort (4 + length rest))
      else k \<lparr> hd_type = t, hd_flags = f \<rparr>)"
  by (simp add: expect_def)

lemma no_panic_expect:
  assumes "\<And>h. need \<le> length buf \<Longrightarrow> hd_type h \<in> types \<Longrightarrow> k h \<noteq> Panic"
  shows "expect buf types need k \<noteq> Panic"
  unfolding expect_def by (intro no_panic_bind no_panic_ensure no_panic assms)

lemma expect_ok_iff:
  "expect buf types need k = Ok y \<longleftrightarrow>
     (\<exists>h. header_deserialize buf = Ok h \<and> hd_type h \<in> types \<and> need \<le> length buf \<and> k h = Ok y)"
  by (auto simp: expect_def wbind_ok_iff ensure_ok_iff)

lemmas parse_intros = no_panic_expect no_panic_bind no_panic_ensure no_panic

section \<open>Audio\<close>

record audio_packet =
  au_flags :: flags
  au_sequence :: u32
  au_timestamp :: u32
  au_opus_data :: "u8 list"

definition AUDIO_HEADER_SIZE :: nat where "AUDIO_HEADER_SIZE = HEADER_SIZE + 4 + 4 + 2"

definition audio_serialize_as :: "packet_type \<Rightarrow> audio_packet \<Rightarrow> u8 list" where
  "audio_serialize_as t p =
     header_bytes t (au_flags p) @ u32_to_be (au_sequence p) @ u32_to_be (au_timestamp p) @
     u16_to_be (of_nat (length (au_opus_data p))) @ au_opus_data p"

definition audio_serialize :: "audio_packet \<Rightarrow> u8 list" where
  "audio_serialize p = audio_serialize_as packet_type.Audio p"

definition audio_deserialize :: "u8 list \<Rightarrow> audio_packet wire" where
  "audio_deserialize buf =
     expect buf {packet_type.Audio, packet_type.AudioRx2, packet_type.AudioYaesu, packet_type.AudioBinR,
                 packet_type.AudioYaesu2} AUDIO_HEADER_SIZE (\<lambda>h.
       wbind (u32_at buf 4) (\<lambda>sequence.
       wbind (u32_at buf 8) (\<lambda>timestamp.
       wbind (u16_at buf 12) (\<lambda>opus_len.
         ensure (AUDIO_HEADER_SIZE + unat opus_len \<le> length buf) (Truncated (length buf))
           (wbind (slice_at buf 14 (14 + unat opus_len)) (\<lambda>opus_data.
             Ok \<lparr> au_flags = hd_flags h, au_sequence = sequence, au_timestamp = timestamp,
                  au_opus_data = opus_data \<rparr>))))))"

definition audio_carried :: "packet_type \<Rightarrow> audio_packet \<Rightarrow> bool" where
  "audio_carried t p \<longleftrightarrow>
     t \<in> {packet_type.Audio, packet_type.AudioRx2, packet_type.AudioYaesu, packet_type.AudioBinR,
          packet_type.AudioYaesu2} \<and> length (au_opus_data p) < 2 ^ 16"

lemma unat_of_nat_u16 [simp]: "n < 65536 \<Longrightarrow> unat (of_nat n :: u16) = n"
  by (simp add: unsigned_of_nat take_bit_nat_eq_self)

lemma unat_of_nat_u8 [simp]: "n < 256 \<Longrightarrow> unat (of_nat n :: u8) = n"
  by (simp add: unsigned_of_nat take_bit_nat_eq_self)

interpretation audio: open_codec "audio_serialize_as t" audio_deserialize "audio_carried t" for t
proof (rule open_codecI)
  show "audio_deserialize (audio_serialize_as t p @ rest) = Ok p" if "audio_carried t p" for p rest
    using that by (auto simp: audio_deserialize_def audio_serialize_as_def audio_carried_def AUDIO_HEADER_SIZE_def HEADER_SIZE_def)
  show "audio_deserialize buf \<noteq> Panic" for buf
    unfolding audio_deserialize_def by (intro parse_intros) (auto simp: AUDIO_HEADER_SIZE_def HEADER_SIZE_def)
qed

section \<open>VRX audio\<close>

record vrx_audio_packet =
  va_sequence :: u32
  va_timestamp :: u32
  va_vrx_id :: u8
  va_opus_data :: "u8 list"
  va_wideband :: bool

definition VRX_AUDIO_HEADER_SIZE :: nat where "VRX_AUDIO_HEADER_SIZE = HEADER_SIZE + 4 + 4 + 1 + 2"

definition vrx_audio_serialize :: "vrx_audio_packet \<Rightarrow> u8 list" where
  "vrx_audio_serialize p =
     header_bytes packet_type.AudioVrx (if va_wideband p then FLAG_AUDIO_WIDEBAND else NO_FLAGS) @
     u32_to_be (va_sequence p) @ u32_to_be (va_timestamp p) @ [va_vrx_id p] @
     u16_to_be (of_nat (length (va_opus_data p))) @ va_opus_data p"

definition vrx_audio_deserialize :: "u8 list \<Rightarrow> vrx_audio_packet wire" where
  "vrx_audio_deserialize buf =
     expect buf {packet_type.AudioVrx} VRX_AUDIO_HEADER_SIZE (\<lambda>h.
       wbind (u32_at buf 4) (\<lambda>sequence.
       wbind (u32_at buf 8) (\<lambda>timestamp.
       wbind (byte_at buf 12) (\<lambda>vrx_id.
       wbind (u16_at buf 13) (\<lambda>opus_len.
         ensure (VRX_AUDIO_HEADER_SIZE + unat opus_len \<le> length buf) (Truncated (length buf))
           (wbind (slice_at buf 15 (15 + unat opus_len)) (\<lambda>opus_data.
             Ok \<lparr> va_sequence = sequence, va_timestamp = timestamp, va_vrx_id = vrx_id,
                  va_opus_data = opus_data,
                  va_wideband = (hd_flags h AND FLAG_AUDIO_WIDEBAND \<noteq> 0) \<rparr>)))))))"

interpretation vrx_audio: open_codec vrx_audio_serialize vrx_audio_deserialize
  "\<lambda>p. length (va_opus_data p) < 2 ^ 16"
proof (rule open_codecI)
  show "vrx_audio_deserialize (vrx_audio_serialize p @ rest) = Ok p" if "length (va_opus_data p) < 2 ^ 16" for p rest
    using that by (auto simp: vrx_audio_deserialize_def vrx_audio_serialize_def VRX_AUDIO_HEADER_SIZE_def HEADER_SIZE_def
        FLAG_AUDIO_WIDEBAND_def NO_FLAGS_def)
  show "vrx_audio_deserialize buf \<noteq> Panic" for buf
    unfolding vrx_audio_deserialize_def by (intro parse_intros) (auto simp: VRX_AUDIO_HEADER_SIZE_def HEADER_SIZE_def)
qed

section \<open>Several channels\<close>

record multi_channel_audio_packet =
  ma_sequence :: u32
  ma_timestamp :: u32
  ma_channels :: "(u8 \<times> u8 list) list"
  ma_flags :: flags

definition MULTI_HEADER_SIZE :: nat where "MULTI_HEADER_SIZE = HEADER_SIZE + 4 + 4 + 1"

definition channel_bytes :: "u8 \<times> u8 list \<Rightarrow> u8 list" where
  "channel_bytes c = fst c # u16_to_be (of_nat (length (snd c))) @ snd c"

definition multi_serialize :: "multi_channel_audio_packet \<Rightarrow> u8 list" where
  "multi_serialize p =
     header_bytes packet_type.AudioMultiCh (ma_flags p) @ u32_to_be (ma_sequence p) @
     u32_to_be (ma_timestamp p) @ [of_nat (length (ma_channels p))] @
     concat (map channel_bytes (ma_channels p))"

fun read_channels :: "nat \<Rightarrow> u8 list \<Rightarrow> nat \<Rightarrow> (u8 \<times> u8 list) list wire" where
  "read_channels 0 buf pos = Ok []"
| "read_channels (Suc n) buf pos =
     (if pos + 3 > length buf then Ok []
      else wbind (byte_at buf pos) (\<lambda>ch_id.
           wbind (u16_at buf (pos + 1)) (\<lambda>opus_len.
             if pos + 3 + unat opus_len > length buf then Ok []
             else wbind (slice_at buf (pos + 3) (pos + 3 + unat opus_len)) (\<lambda>opus_data.
                  wbind (read_channels n buf (pos + 3 + unat opus_len)) (\<lambda>rest. Ok ((ch_id, opus_data) # rest))))))"

definition multi_deserialize :: "u8 list \<Rightarrow> multi_channel_audio_packet wire" where
  "multi_deserialize buf =
     expect buf {packet_type.AudioMultiCh} MULTI_HEADER_SIZE (\<lambda>h.
       wbind (u32_at buf 4) (\<lambda>sequence.
       wbind (u32_at buf 8) (\<lambda>timestamp.
       wbind (byte_at buf 12) (\<lambda>count.
       wbind (read_channels (unat count) buf MULTI_HEADER_SIZE) (\<lambda>channels.
         Ok \<lparr> ma_sequence = sequence, ma_timestamp = timestamp, ma_channels = channels, ma_flags = hd_flags h \<rparr>)))))"

lemma read_channels_past:
  "length xs \<le> pos \<Longrightarrow> read_channels n (xs @ ys) pos = read_channels n ys (pos - length xs)"
proof (induction n arbitrary: pos)
  case (Suc n)
  let ?p = "pos - length xs"
  show ?case
  proof (cases "?p + 3 > length ys")
    case True
    then have "length (xs @ ys) < pos + 3" using Suc.prems by simp
    then show ?thesis using True by simp
  next
    case False
    obtain b v where r: "byte_at ys ?p = Ok b" "u16_at ys (?p + 1) = Ok v"
      using False by (simp add: byte_at_def u16_at_def)
    have e: "byte_at (xs @ ys) pos = Ok b" "u16_at (xs @ ys) (pos + 1) = Ok v"
      using r Suc.prems by (simp_all add: Suc_diff_le)
    let ?q = "?p + 3 + unat v"
    have q: "pos + 3 + unat v - length xs = ?q" "pos + 3 - length xs = ?p + 3" using Suc.prems by simp_all
    have s: "slice_at (xs @ ys) (pos + 3) (pos + 3 + unat v) = slice_at ys (?p + 3) ?q"
      by (rule slice_past [of xs "pos + 3" "pos + 3 + unat v" ys, unfolded q]) (use Suc.prems in simp_all)
    have i: "read_channels n (xs @ ys) (pos + 3 + unat v) = read_channels n ys ?q"
      by (rule Suc.IH [of "pos + 3 + unat v", unfolded q]) (use Suc.prems in simp)
    have c: "pos + 3 + unat v > length (xs @ ys) \<longleftrightarrow> ?q > length ys" "pos + 3 > length (xs @ ys) \<longleftrightarrow> ?p + 3 > length ys"
      using Suc.prems by auto
    show ?thesis by (simp only: read_channels.simps c e r s i wbind.simps)
  qed
qed simp

lemma read_channels_written:
  "\<forall>(_, d) \<in> set cs. length d < 2 ^ 16 \<Longrightarrow> read_channels (length cs) (concat (map channel_bytes cs) @ rest) 0 = Ok cs"
proof (induction cs)
  case (Cons c cs)
  obtain i d where c: "c = (i, d)" by fastforce
  then have d: "length d < 65536" using Cons.prems by simp
  define ys where "ys = concat (map channel_bytes cs) @ rest"
  have ih: "read_channels (length cs) ys 0 = Ok cs" using Cons by (simp add: ys_def)
  have "read_channels (length cs) (channel_bytes c @ ys) (3 + length d) = Ok cs"
    using read_channels_past [of "channel_bytes c" "3 + length d" "length cs" ys] ih c by (simp add: channel_bytes_def)
  then have "read_channels (length cs) (i # u16_to_be (of_nat (length d)) @ d @ ys) (3 + length d) = Ok cs"
    using c by (simp add: channel_bytes_def)
  then have "read_channels (length (c # cs)) (channel_bytes c @ ys) 0 = Ok (c # cs)"
    using c d by (simp add: channel_bytes_def)
  then show ?case by (simp add: ys_def)
qed simp

lemma read_channels_no_panic [simp]: "read_channels n buf pos \<noteq> Panic"
  by (induction n arbitrary: pos) (auto simp: wbind_panic_iff byte_at_def u16_at_def slice_at_def)

interpretation multi: open_codec multi_serialize multi_deserialize
  "\<lambda>p. length (ma_channels p) < 256 \<and> (\<forall>(_, d) \<in> set (ma_channels p). length d < 2 ^ 16)"
proof (rule open_codecI)
  show "multi_deserialize (multi_serialize p @ rest) = Ok p"
    if "length (ma_channels p) < 256 \<and> (\<forall>(_, d) \<in> set (ma_channels p). length d < 2 ^ 16)" for p rest
    using that read_channels_written [of "ma_channels p" rest]
    by (auto simp: multi_deserialize_def multi_serialize_def MULTI_HEADER_SIZE_def HEADER_SIZE_def read_channels_past
        read_channels_past [of "[c]" for c, simplified])
  show "multi_deserialize buf \<noteq> Panic" for buf
    unfolding multi_deserialize_def by (intro parse_intros) (auto simp: MULTI_HEADER_SIZE_def HEADER_SIZE_def)
qed

end
