(* ===== verification/CwEdges.thy ===== *)
theory CwEdges
  imports WireAudio
begin

text \<open>
  The packet that carries CW key edges (\<^verbatim>\<open>CwEdgesPacket\<close> of \<^verbatim>\<open>protocol.rs\<close>): the newest edge and up to
  three before it. The hang time at its end came later than the rest: a packet without it reads as 0.
\<close>

record cw_edge =
  ce_seq :: u32
  ce_down :: bool
  ce_prev_len_ms :: u16
  ce_run_start :: bool

record cw_edges_packet =
  ck_target :: u8
  ck_edges :: "cw_edge list"
  ck_hang_ms :: u16

definition MAX_EDGES :: nat where "MAX_EDGES = 4"
definition EDGE_SIZE :: nat where "EDGE_SIZE = 4 + 1 + 2"

definition edge_flags :: "cw_edge \<Rightarrow> u8" where
  "edge_flags e = bool_byte (ce_down e) OR push_bit 1 (bool_byte (ce_run_start e))"

definition edge_bytes :: "cw_edge \<Rightarrow> u8 list" where
  "edge_bytes e = u32_to_be (ce_seq e) @ [edge_flags e] @ u16_to_be (ce_prev_len_ms e)"

definition cw_edges_before_hang :: "cw_edges_packet \<Rightarrow> u8 list" where
  "cw_edges_before_hang p =
     header_bytes packet_type.CwEdges NO_FLAGS @ [ck_target p, of_nat (length (ck_edges p))] @
     concat (map edge_bytes (ck_edges p))"

text \<open>The serializer asserts one to four edges.\<close>

definition cw_edges_serialize :: "cw_edges_packet \<Rightarrow> u8 list wire" where
  "cw_edges_serialize p =
     (if ck_edges p \<noteq> [] \<and> length (ck_edges p) \<le> MAX_EDGES
      then Ok (cw_edges_before_hang p @ u16_to_be (ck_hang_ms p)) else Panic)"

fun edges_at :: "u8 list \<Rightarrow> nat \<Rightarrow> nat \<Rightarrow> cw_edge list wire" where
  "edges_at buf pos 0 = Ok []"
| "edges_at buf pos (Suc n) =
     wbind (u32_at buf pos) (\<lambda>seq.
     wbind (byte_at buf (pos + 4)) (\<lambda>flags.
     wbind (u16_at buf (pos + 5)) (\<lambda>prev_len_ms.
     wbind (edges_at buf (pos + EDGE_SIZE) n) (\<lambda>edges.
       Ok (\<lparr> ce_seq = seq, ce_down = (flags AND 1 \<noteq> 0), ce_prev_len_ms = prev_len_ms,
             ce_run_start = (flags AND 2 \<noteq> 0) \<rparr> # edges)))))"

definition cw_edges_deserialize :: "u8 list \<Rightarrow> cw_edges_packet wire" where
  "cw_edges_deserialize buf =
     expect buf {packet_type.CwEdges} (HEADER_SIZE + 2) (\<lambda>h.
       wbind (byte_at buf 4) (\<lambda>target.
       wbind (byte_at buf 5) (\<lambda>count.
         ensure (unat count \<noteq> 0 \<and> unat count \<le> MAX_EDGES) (BadEdgeCount (unat count))
           (let pos = HEADER_SIZE + 2 + unat count * EDGE_SIZE
            in ensure (pos \<le> length buf) (Truncated (length buf))
                 (wbind (edges_at buf 6 (unat count)) (\<lambda>edges.
                    let hang_ms = (if pos + 1 < length buf then u16_be (buf ! pos) (buf ! (pos + 1)) else 0)
                    in Ok \<lparr> ck_target = target, ck_edges = edges, ck_hang_ms = hang_ms \<rparr>))))))"

definition cw_edges_carried :: "cw_edges_packet \<Rightarrow> bool" where
  "cw_edges_carried p \<longleftrightarrow> ck_edges p \<noteq> [] \<and> length (ck_edges p) \<le> MAX_EDGES"

lemma edge_flags_read [simp]:
  "edge_flags e AND 1 \<noteq> 0 \<longleftrightarrow> ce_down e" "edge_flags e AND 2 \<noteq> 0 \<longleftrightarrow> ce_run_start e"
  by (cases "ce_down e"; cases "ce_run_start e"; simp add: edge_flags_def bool_byte_def)+

lemma length_edge_bytes [simp]: "length (edge_bytes e) = EDGE_SIZE"
  by (simp add: edge_bytes_def EDGE_SIZE_def)

lemma length_edges [simp]: "length (concat (map edge_bytes es)) = length es * EDGE_SIZE"
  by (induction es) simp_all

lemma edges_past: "length xs \<le> pos \<Longrightarrow> edges_at (xs @ ys) pos n = edges_at ys (pos - length xs) n"
proof (induction n arbitrary: pos)
  case (Suc n)
  have "edges_at (xs @ ys) (pos + EDGE_SIZE) n = edges_at ys (pos - length xs + EDGE_SIZE) n"
    using Suc.IH [of "pos + EDGE_SIZE"] Suc.prems by simp
  then show ?case using Suc.prems by (simp del: read_ok_iff)
qed simp

lemma edges_roundtrip: "edges_at (concat (map edge_bytes es) @ rest) 0 (length es) = Ok es"
proof (induction es)
  case (Cons e es)
  have "edges_at (edge_bytes e @ concat (map edge_bytes es) @ rest) EDGE_SIZE (length es) = Ok es"
    using Cons.IH by (simp add: edges_past)
  moreover have "u32_at (edge_bytes e @ ys) 0 = Ok (ce_seq e)" "byte_at (edge_bytes e @ ys) 4 = Ok (edge_flags e)"
      "u16_at (edge_bytes e @ ys) 5 = Ok (ce_prev_len_ms e)" for ys
    by (simp_all add: edge_bytes_def)
  ultimately show ?case by (simp del: read_ok_iff)
qed simp

lemma edges_no_panic: "pos + n * EDGE_SIZE \<le> length buf \<Longrightarrow> edges_at buf pos n \<noteq> Panic"
proof (induction n arbitrary: pos)
  case (Suc n)
  then have "edges_at buf (pos + EDGE_SIZE) n \<noteq> Panic" by simp
  moreover have "pos + 7 \<le> length buf" using Suc.prems by (simp add: EDGE_SIZE_def)
  ultimately show ?case by (auto simp: wbind_panic_iff byte_at_def u16_at_def u32_at_def)
qed simp

text \<open>With the hang time, and with anything shorter than a hang time after the edges.\<close>

lemma cw_edges_over_the_wire:
  assumes "cw_edges_carried p"
  shows "cw_edges_deserialize (cw_edges_before_hang p @ rest) =
    Ok (p\<lparr> ck_hang_ms := (if length rest < 2 then 0 else u16_be (rest ! 0) (rest ! 1)) \<rparr>)"
proof -
  let ?n = "length (ck_edges p)"
  let ?buf = "cw_edges_before_hang p @ rest"
  have n: "0 < ?n" "?n \<le> 4" using assms by (auto simp: cw_edges_carried_def MAX_EDGES_def)
  then have len: "unat (of_nat ?n :: u8) = ?n" by simp
  have "edges_at ?buf 6 ?n = Ok (ck_edges p)"
    using edges_roundtrip [of "ck_edges p" rest]
      edges_past [of "header_bytes packet_type.CwEdges NO_FLAGS @ [ck_target p, of_nat ?n]" 6]
    by (simp add: cw_edges_before_hang_def)
  moreover have "?buf ! (6 + ?n * EDGE_SIZE + k) = rest ! k" for k
    by (simp add: cw_edges_before_hang_def nth_append)
  moreover have "length ?buf = 6 + ?n * EDGE_SIZE + length rest" by (simp add: cw_edges_before_hang_def)
  moreover have "byte_at ?buf 4 = Ok (ck_target p)" "byte_at ?buf 5 = Ok (of_nat ?n)"
    by (simp_all add: cw_edges_before_hang_def)
  moreover have "expect ?buf {packet_type.CwEdges} (HEADER_SIZE + 2) k = k \<lparr> hd_type = packet_type.CwEdges, hd_flags = NO_FLAGS \<rparr>"
    for k :: "header \<Rightarrow> cw_edges_packet wire"
    by (simp add: cw_edges_before_hang_def HEADER_SIZE_def)
  ultimately show ?thesis
    using n len \<open>\<And>k. ?buf ! (6 + ?n * EDGE_SIZE + k) = rest ! k\<close> [of 0]
      \<open>\<And>k. ?buf ! (6 + ?n * EDGE_SIZE + k) = rest ! k\<close> [of 1]
    by (auto simp: cw_edges_deserialize_def Let_def HEADER_SIZE_def MAX_EDGES_def add.assoc simp del: read_ok_iff)
qed

interpretation cw_edges: open_codec "\<lambda>p. cw_edges_before_hang p @ u16_to_be (ck_hang_ms p)" cw_edges_deserialize cw_edges_carried
proof (rule open_codecI)
  show "cw_edges_deserialize ((cw_edges_before_hang p @ u16_to_be (ck_hang_ms p)) @ rest) = Ok p"
    if "cw_edges_carried p" for p rest
    using cw_edges_over_the_wire [OF that, of "u16_to_be (ck_hang_ms p) @ rest"] by (simp add: nth_append)
  show "cw_edges_deserialize buf \<noteq> Panic" for buf
    unfolding cw_edges_deserialize_def Let_def
    by (intro parse_intros edges_no_panic) (auto simp: HEADER_SIZE_def)
qed

end
