(* ===== verification/CwPlayout.thy ===== *)
theory CwPlayout
  imports CwEdges
begin

text \<open>
  The CW playout of the server (\<^verbatim>\<open>sdr-remote-server/src/cw_playout.rs\<close>, \<^verbatim>\<open>CwPlayout\<close>; the packet is
  \<^verbatim>\<open>CwEdgesPacket\<close> of \<^verbatim>\<open>sdr-remote-core/src/protocol.rs\<close>): key edges in, with the length of the state
  each one ends; key commands out, at exact moments. The queue of pending edges is a list with its
  front first, \<^verbatim>\<open>seen\<close> a map; the run number and the counters are natural numbers. Not modelled: the
  thread that sleeps towards the next moment.
\<close>

section \<open>Constants and data\<close>

definition PLAYOUT_DELAY :: duration where "PLAYOUT_DELAY = ms 80"
definition MOX_RISE :: duration where "MOX_RISE = ms 250"
definition WATCHDOG :: duration where "WATCHDOG = ms 3000"
definition MAX_CONTINUE_GAP :: duration where "MAX_CONTINUE_GAP = ms 3000"
definition IDLE_RELEASE :: duration where "IDLE_RELEASE = ms 500"
definition HANG_MIN :: duration where "HANG_MIN = ms 200"
definition HANG_MAX :: duration where "HANG_MAX = ms 3000"
definition HOLD_GRACE :: duration where "HOLD_GRACE = ms 1000"

record due_edge =
  de_seq :: u32
  de_down :: bool
  de_len_ms :: u16
  de_planned :: instant
  de_run :: nat
  de_target :: u8

record ingest_result =
  ig_accepted :: nat
  ig_duplicates :: nat
  ig_late :: "(u32 \<times> nat) list"
  ig_refused_other_owner :: bool
  ig_refused_other_target :: bool
  ig_stale :: nat

definition ingest_default :: ingest_result where
  "ingest_default =
     \<lparr> ig_accepted = 0, ig_duplicates = 0, ig_late = [], ig_refused_other_owner = False,
       ig_refused_other_target = False, ig_stale = 0 \<rparr>"

definition newer :: "u32 \<Rightarrow> u32 option \<Rightarrow> bool" where
  "newer seq prev = (case prev of None \<Rightarrow> True | Some l \<Rightarrow> 0 <s (seq - l))"

record cw_playout =
  cp_delay :: duration
  cp_hang :: duration
  cp_owner :: "socket_addr option"
  cp_target :: "u8 option"
  cp_seen :: "socket_addr \<Rightarrow> u32 option"
  cp_last_play_at :: "instant option"
  cp_pending :: "due_edge list"
  cp_key_down :: bool
  cp_key_down_since :: "instant option"
  cp_last_up_at :: "instant option"
  cp_run :: nat
  cp_played :: nat
  cp_late_count :: nat
  cp_last_deviation_us :: nat
  cp_max_deviation_us :: nat

definition cw_playout_new :: "duration \<Rightarrow> cw_playout" where
  "cw_playout_new delay =
     \<lparr> cp_delay = delay, cp_hang = IDLE_RELEASE, cp_owner = None, cp_target = None,
       cp_seen = Map.empty, cp_last_play_at = None, cp_pending = [], cp_key_down = False,
       cp_key_down_since = None, cp_last_up_at = None, cp_run = 0, cp_played = 0,
       cp_late_count = 0, cp_last_deviation_us = 0, cp_max_deviation_us = 0 \<rparr>"

section \<open>Operations\<close>

definition busy_for :: "cw_playout \<Rightarrow> socket_addr \<Rightarrow> u8 \<Rightarrow> bool" where
  "busy_for p addr target =
     (case cp_owner p of Some o' \<Rightarrow> o' \<noteq> addr \<or> cp_target p \<noteq> Some target | None \<Rightarrow> False)"

definition set_hang :: "cw_playout \<Rightarrow> u16 \<Rightarrow> cw_playout" where
  "set_hang p hang_ms =
     (if hang_ms \<noteq> 0 then p\<lparr> cp_hang := clamp HANG_MIN HANG_MAX (ms (unat hang_ms)) \<rparr> else p)"

definition has_news :: "cw_playout \<Rightarrow> socket_addr \<Rightarrow> cw_edges_packet \<Rightarrow> bool" where
  "has_news p addr pkt =
     (let seen = cp_seen p addr in list_ex (\<lambda>e. newer (ce_seq e) seen) (ck_edges pkt))"

definition discard :: "cw_playout \<Rightarrow> socket_addr \<Rightarrow> cw_edges_packet \<Rightarrow> cw_playout" where
  "discard p addr pkt =
     (let l = fold (\<lambda>e l. if newer (ce_seq e) l then Some (ce_seq e) else l) (ck_edges pkt) (cp_seen p addr)
      in case l of None \<Rightarrow> p | Some n \<Rightarrow> p\<lparr> cp_seen := (cp_seen p)(addr \<mapsto> n) \<rparr>)"

definition holds_transmitter :: "cw_playout \<Rightarrow> instant \<Rightarrow> bool" where
  "holds_transmitter p now =
     (if cp_owner p = None then False
      else
        let u0 = map_option (\<lambda>t. t + cp_hang p) (cp_last_up_at p);
            u1 = (if cp_key_down p
                  then opt_max u0 (map_option (\<lambda>t. t + WATCHDOG + cp_hang p) (cp_key_down_since p))
                  else u0);
            u2 = (if cp_pending p = [] then u1
                  else opt_max u1 (Some (de_planned (last (cp_pending p)) + WATCHDOG + cp_hang p)))
        in case u2 of None \<Rightarrow> False | Some u \<Rightarrow> now < u + HOLD_GRACE)"

text \<open>\<^verbatim>\<open>iter().rposition\<close>: the last index whose element satisfies the predicate.\<close>

fun rposition :: "('a \<Rightarrow> bool) \<Rightarrow> 'a list \<Rightarrow> nat option" where
  "rposition P [] = None"
| "rposition P (x # xs) =
     (case rposition P xs of Some i \<Rightarrow> Some (Suc i) | None \<Rightarrow> if P x then Some 0 else None)"

text \<open>
  Where an edge is anchored: on the edge before it, when it continues a run over a gap a keyer can
  make; otherwise on its arrival and the delay; after the rise of MOX; never before the edge that
  was planned last.
\<close>

definition anchor :: "cw_playout \<Rightarrow> cw_edge \<Rightarrow> instant \<Rightarrow> bool \<Rightarrow> instant" where
  "anchor p e now mox_rise =
     (let gap = ms (unat (ce_prev_len_ms e));
          a0 = (case cp_last_play_at p of
                  Some prev \<Rightarrow> if \<not> ce_run_start e \<and> gap \<le> MAX_CONTINUE_GAP then prev + gap
                               else now + cp_delay p
                | None \<Rightarrow> now + cp_delay p);
          a1 = (if mox_rise then max a0 (now + MOX_RISE) else a0)
      in case cp_last_play_at p of None \<Rightarrow> a1 | Some prev \<Rightarrow> max a1 prev)"

text \<open>One iteration of the loop of \<^verbatim>\<open>ingest\<close>, over the edge at index \<open>i\<close>.\<close>

definition ingest_edge ::
    "socket_addr \<Rightarrow> u8 \<Rightarrow> instant \<Rightarrow> bool \<Rightarrow> nat option \<Rightarrow> nat \<times> cw_edge \<Rightarrow>
     cw_playout \<times> ingest_result \<Rightarrow> cw_playout \<times> ingest_result" where
  "ingest_edge addr target now mox_rise run_start_at = (\<lambda>(i, e) (p, out).
     if \<not> newer (ce_seq e) (cp_seen p addr) then
       (p, out\<lparr> ig_duplicates := ig_duplicates out + 1 \<rparr>)
     else
       let p = p\<lparr> cp_seen := (cp_seen p)(addr \<mapsto> ce_seq e) \<rparr>;
           before_start = (case run_start_at of None \<Rightarrow> False | Some r \<Rightarrow> i < r);
           key_will_be_down =
             (if cp_pending p = [] then cp_key_down p else de_down (last (cp_pending p)))
       in if before_start \<and> (ce_down e \<or> \<not> key_will_be_down) then
            (p, out\<lparr> ig_stale := ig_stale out + 1 \<rparr>)
          else
            let anchored = anchor p e now mox_rise;
                late = (anchored < now);
                planned = (if late then now else anchored)
            in (p\<lparr> cp_late_count := (if late then cp_late_count p + 1 else cp_late_count p),
                    cp_last_play_at := Some planned,
                    cp_pending := cp_pending p @
                      [\<lparr> de_seq = ce_seq e, de_down = ce_down e, de_len_ms = ce_prev_len_ms e,
                         de_planned = planned, de_run = cp_run p, de_target = target \<rparr>] \<rparr>,
                out\<lparr> ig_accepted := ig_accepted out + 1,
                     ig_late := (if late then ig_late out @ [(ce_seq e, as_millis (now - anchored))]
                                 else ig_late out) \<rparr>))"

definition ingest ::
    "cw_playout \<Rightarrow> socket_addr \<Rightarrow> cw_edges_packet \<Rightarrow> instant \<Rightarrow> bool \<Rightarrow> cw_playout \<times> ingest_result" where
  "ingest p addr pkt now mox_rise =
     (if (case cp_owner p of Some o' \<Rightarrow> o' \<noteq> addr | None \<Rightarrow> False) then
        (discard p addr pkt, ingest_default\<lparr> ig_refused_other_owner := True \<rparr>)
      else if (case cp_target p of Some t \<Rightarrow> t \<noteq> ck_target pkt | None \<Rightarrow> False) then
        (discard p addr pkt, ingest_default\<lparr> ig_refused_other_target := True \<rparr>)
      else if \<not> has_news p addr pkt then
        (p, ingest_default\<lparr> ig_duplicates := length (ck_edges pkt) \<rparr>)
      else
        fold (ingest_edge addr (ck_target pkt) now mox_rise (rposition ce_run_start (ck_edges pkt)))
          (enumerate 0 (ck_edges pkt))
          (p\<lparr> cp_owner := Some addr, cp_target := Some (ck_target pkt) \<rparr>, ingest_default))"

definition next_deadline :: "cw_playout \<Rightarrow> instant option" where
  "next_deadline p =
     (let edge = (case cp_pending p of [] \<Rightarrow> None | e # _ \<Rightarrow> Some (de_planned e));
          dog = (if cp_key_down p then map_option (\<lambda>t. t + WATCHDOG) (cp_key_down_since p) else None)
      in case (edge, dog) of
           (Some a, Some b) \<Rightarrow> Some (min a b)
         | (Some a, None) \<Rightarrow> Some a
         | (None, b) \<Rightarrow> b)"

definition apply_key :: "cw_playout \<Rightarrow> bool \<Rightarrow> instant \<Rightarrow> cw_playout" where
  "apply_key p down now =
     (let p1 = (if down \<and> \<not> cp_key_down p then p\<lparr> cp_key_down_since := Some now \<rparr> else p);
          p2 = (if \<not> down then p1\<lparr> cp_last_up_at := Some now \<rparr> else p1)
      in p2\<lparr> cp_key_down := down \<rparr>)"

definition take_one :: "cw_playout \<Rightarrow> due_edge \<Rightarrow> instant \<Rightarrow> cw_playout" where
  "take_one p e now =
     (let dev = as_micros (now - de_planned e);
          p1 = p\<lparr> cp_last_deviation_us := dev, cp_max_deviation_us := max (cp_max_deviation_us p) dev \<rparr>;
          p2 = apply_key p1 (de_down e) (de_planned e)
      in p2\<lparr> cp_played := cp_played p2 + 1 \<rparr>)"

text \<open>The \<^verbatim>\<open>while let\<close> of \<^verbatim>\<open>take_due\<close>, over the queue.\<close>

fun take_loop :: "instant \<Rightarrow> due_edge list \<Rightarrow> cw_playout \<Rightarrow> cw_playout \<times> due_edge list" where
  "take_loop now [] p = (p\<lparr> cp_pending := [] \<rparr>, [])"
| "take_loop now (e # es) p =
     (if de_planned e > now then (p\<lparr> cp_pending := e # es \<rparr>, [])
      else (let (p', due) = take_loop now es (take_one p e now) in (p', e # due)))"

definition take_due :: "cw_playout \<Rightarrow> instant \<Rightarrow> cw_playout \<times> due_edge list" where
  "take_due p now = take_loop now (cp_pending p) p"

definition watchdog :: "cw_playout \<Rightarrow> instant \<Rightarrow> cw_playout \<times> due_edge option" where
  "watchdog p now =
     (case cp_key_down_since p of
        None \<Rightarrow> (p, None)
      | Some since \<Rightarrow>
          if \<not> cp_key_down p \<or> now < since + WATCHDOG then (p, None)
          else
            let p1 = apply_key (p\<lparr> cp_pending := [], cp_last_play_at := None, cp_run := cp_run p + 1 \<rparr>) False now
            in (p1, Some \<lparr> de_seq = 0, de_down = False, de_len_ms = of_nat (as_millis WATCHDOG),
                           de_planned = now, de_run = cp_run p1,
                           de_target = (case cp_target p1 of None \<Rightarrow> 0 | Some t \<Rightarrow> t) \<rparr>))"

definition cw_release :: "cw_playout \<Rightarrow> socket_addr \<Rightarrow> instant \<Rightarrow> cw_playout \<times> due_edge option" where
  "cw_release p addr now =
     (if cp_owner p \<noteq> Some addr then (p, None)
      else
        let target = (case cp_target p of None \<Rightarrow> 0 | Some t \<Rightarrow> t);
            p1 = p\<lparr> cp_owner := None, cp_target := None, cp_seen := (cp_seen p)(addr := None),
                    cp_last_play_at := None, cp_pending := [], cp_run := cp_run p + 1 \<rparr>
        in if cp_key_down p1 then
             (let p2 = apply_key p1 False now
              in (p2, Some \<lparr> de_seq = 0, de_down = False, de_len_ms = 0, de_planned = now,
                             de_run = cp_run p2, de_target = target \<rparr>))
           else (p1, None))"

definition release_owner :: "cw_playout \<Rightarrow> instant \<Rightarrow> cw_playout \<times> due_edge option" where
  "release_owner p now = (case cp_owner p of None \<Rightarrow> (p, None) | Some o' \<Rightarrow> cw_release p o' now)"

definition idle_owner :: "cw_playout \<Rightarrow> instant \<Rightarrow> socket_addr option" where
  "idle_owner p now =
     (case cp_owner p of
        None \<Rightarrow> None
      | Some o' \<Rightarrow>
          if cp_key_down p \<or> cp_pending p \<noteq> [] then None
          else case cp_last_up_at p of
                 None \<Rightarrow> None
               | Some quiet_since \<Rightarrow> if now \<ge> quiet_since + cp_hang p then Some o' else None)"

definition forget_owner :: "cw_playout \<Rightarrow> cw_playout" where
  "forget_owner p =
     p\<lparr> cp_owner := None, cp_target := None, cp_last_play_at := None, cp_last_up_at := None,
        cp_run := cp_run p + 1 \<rparr>"

section \<open>The timeline\<close>

interpretation cw_order: serial_order "\<lambda>a b. newer a (Some b)"
  by unfold_locales (simp add: newer_def word_sless_alt)

definition playout_inv :: "cw_playout \<Rightarrow> bool" where
  "playout_inv p \<longleftrightarrow>
     sorted (map de_planned (cp_pending p)) \<and>
     (cp_pending p \<noteq> [] \<longrightarrow> cp_last_play_at p = Some (de_planned (last (cp_pending p)))) \<and>
     (cp_key_down p \<longrightarrow> cp_key_down_since p \<noteq> None) \<and>
     (cp_owner p = None \<longrightarrow> cp_target p = None \<and> cp_pending p = [] \<and> \<not> cp_key_down p) \<and>
     (\<forall>e \<in> set (cp_pending p). de_run e = cp_run p \<and> cp_target p = Some (de_target e)) \<and>
     HANG_MIN \<le> cp_hang p \<and> cp_hang p \<le> HANG_MAX"

lemma playout_inv_new [keep_inv]: "playout_inv (cw_playout_new delay)"
  by (simp add: playout_inv_def cw_playout_new_def IDLE_RELEASE_def HANG_MIN_def HANG_MAX_def)

lemma anchor_after: "cp_last_play_at p = Some prev \<Longrightarrow> prev \<le> anchor p e now rise"
  by (simp add: anchor_def Let_def)

lemma anchor_seen [simp]: "anchor (p\<lparr> cp_seen := f \<rparr>) e now rise = anchor p e now rise"
  by (cases "cp_last_play_at p") (simp_all add: anchor_def Let_def)

text \<open>The edge that is queued, and the state with it at the end of the queue.\<close>

definition queued_edge :: "cw_playout \<Rightarrow> u8 \<Rightarrow> cw_edge \<Rightarrow> instant \<Rightarrow> bool \<Rightarrow> due_edge" where
  "queued_edge p t e now rise =
     \<lparr> de_seq = ce_seq e, de_down = ce_down e, de_len_ms = ce_prev_len_ms e,
       de_planned = max now (anchor p e now rise), de_run = cp_run p, de_target = t \<rparr>"

lemma ingest_edge_result:
  "ingest_edge addr t now rise rs (i, e) (p, out) =
     (if \<not> newer (ce_seq e) (cp_seen p addr) then (p, out\<lparr> ig_duplicates := ig_duplicates out + 1 \<rparr>)
      else if (\<exists>r. rs = Some r \<and> i < r) \<and>
              (ce_down e \<or> \<not> (if cp_pending p = [] then cp_key_down p else de_down (last (cp_pending p))))
      then (p\<lparr> cp_seen := (cp_seen p)(addr \<mapsto> ce_seq e) \<rparr>, out\<lparr> ig_stale := ig_stale out + 1 \<rparr>)
      else
        (p\<lparr> cp_seen := (cp_seen p)(addr \<mapsto> ce_seq e),
            cp_late_count := cp_late_count p + (if anchor p e now rise < now then 1 else 0),
            cp_last_play_at := Some (de_planned (queued_edge p t e now rise)),
            cp_pending := cp_pending p @ [queued_edge p t e now rise] \<rparr>,
         out\<lparr> ig_accepted := ig_accepted out + 1,
              ig_late := (if anchor p e now rise < now
                          then ig_late out @ [(ce_seq e, as_millis (now - anchor p e now rise))]
                          else ig_late out) \<rparr>))"
  by (auto simp: ingest_edge_def queued_edge_def Let_def max_def split: option.splits)

text \<open>The loop over a packet, with what it needs of the state it starts from.\<close>

definition mid_inv :: "socket_addr \<Rightarrow> u8 \<Rightarrow> cw_playout \<Rightarrow> bool" where
  "mid_inv addr t p \<longleftrightarrow> playout_inv p \<and> cp_owner p = Some addr \<and> cp_target p = Some t"

lemma mid_inv_edge:
  assumes "mid_inv addr t p"
  shows "mid_inv addr t (fst (ingest_edge addr t now rise rs ie (p, out)))"
proof -
  obtain i e where ie: "ie = (i, e)" by fastforce
  have "\<forall>x \<in> set (cp_pending p). de_planned x \<le> de_planned (queued_edge p t e now rise)"
  proof
    fix x assume x: "x \<in> set (cp_pending p)"
    then have "cp_last_play_at p = Some (de_planned (last (cp_pending p)))"
      using assms by (auto simp: mid_inv_def playout_inv_def)
    then have "de_planned (last (cp_pending p)) \<le> anchor p e now rise" by (rule anchor_after)
    moreover have "de_planned x \<le> de_planned (last (cp_pending p))"
      using x assms
      by (cases "cp_pending p" rule: rev_cases) (auto simp: mid_inv_def playout_inv_def sorted_append)
    ultimately show "de_planned x \<le> de_planned (queued_edge p t e now rise)"
      by (simp add: queued_edge_def)
  qed
  moreover have "de_run (queued_edge p t e now rise) = cp_run p" "de_target (queued_edge p t e now rise) = t"
    by (simp_all add: queued_edge_def)
  ultimately show ?thesis
    using assms unfolding ie ingest_edge_result
    by (auto simp: mid_inv_def playout_inv_def sorted_append)
qed

lemma mid_inv_fold:
  "mid_inv addr t p \<Longrightarrow> mid_inv addr t (fst (fold (ingest_edge addr t now rise rs) ies (p, out)))"
proof (induction ies arbitrary: p out)
  case Nil
  then show ?case by simp
next
  case (Cons ie ies)
  show ?case
    using Cons.IH [OF mid_inv_edge [OF Cons.prems]] by (simp, metis prod.collapse)
qed

lemma discard_fields [simp]:
  "cp_pending (discard p a pkt) = cp_pending p" "cp_owner (discard p a pkt) = cp_owner p"
  "cp_target (discard p a pkt) = cp_target p" "cp_run (discard p a pkt) = cp_run p"
  "cp_key_down (discard p a pkt) = cp_key_down p" "cp_hang (discard p a pkt) = cp_hang p"
  "cp_key_down_since (discard p a pkt) = cp_key_down_since p"
  "cp_last_play_at (discard p a pkt) = cp_last_play_at p"
  "cp_last_up_at (discard p a pkt) = cp_last_up_at p"
  "cp_delay (discard p a pkt) = cp_delay p"
  by (simp_all add: discard_def Let_def split: option.splits)

lemma discard_inv [keep_inv]: "playout_inv p \<Longrightarrow> playout_inv (discard p a pkt)"
  by (simp add: playout_inv_def)

lemma ingest_inv [keep_inv]:
  assumes "playout_inv p"
  shows "playout_inv (fst (ingest p a pkt now rise))"
proof -
  have "mid_inv a (ck_target pkt) (p\<lparr> cp_owner := Some a, cp_target := Some (ck_target pkt) \<rparr>)"
    if "\<not> (case cp_owner p of Some o' \<Rightarrow> o' \<noteq> a | None \<Rightarrow> False)"
       "\<not> (case cp_target p of Some t \<Rightarrow> t \<noteq> ck_target pkt | None \<Rightarrow> False)"
    using that assms by (auto simp: mid_inv_def playout_inv_def split: option.splits)
  from mid_inv_fold [OF this] show ?thesis
    using assms by (auto simp: ingest_def keep_inv mid_inv_def)
qed

lemma set_hang_inv [keep_inv]: "playout_inv p \<Longrightarrow> playout_inv (set_hang p h)"
  using clamp_bounds [of HANG_MIN HANG_MAX "ms (unat h)"]
  by (auto simp: playout_inv_def set_hang_def HANG_MIN_def HANG_MAX_def)

text \<open>\<open>take_due\<close> splits the queue at the present moment.\<close>

lemma take_loop_split:
  "snd (take_loop now es p) = takeWhile (\<lambda>e. de_planned e \<le> now) es \<and>
   cp_pending (fst (take_loop now es p)) = dropWhile (\<lambda>e. de_planned e \<le> now) es"
  by (induction es arbitrary: p) (auto simp: Let_def case_prod_beta)

lemma take_one_fields [simp]:
  "cp_owner (take_one p e now) = cp_owner p" "cp_target (take_one p e now) = cp_target p"
  "cp_run (take_one p e now) = cp_run p" "cp_hang (take_one p e now) = cp_hang p"
  "cp_last_play_at (take_one p e now) = cp_last_play_at p" "cp_seen (take_one p e now) = cp_seen p"
  "cp_key_down (take_one p e now) = de_down e" "cp_delay (take_one p e now) = cp_delay p"
  "cp_played (take_one p e now) = cp_played p + 1"
  by (simp_all add: take_one_def apply_key_def Let_def)

lemma take_loop_fields [simp]:
  "cp_owner (fst (take_loop now es p)) = cp_owner p" "cp_target (fst (take_loop now es p)) = cp_target p"
  "cp_run (fst (take_loop now es p)) = cp_run p" "cp_hang (fst (take_loop now es p)) = cp_hang p"
  "cp_last_play_at (fst (take_loop now es p)) = cp_last_play_at p"
  "cp_seen (fst (take_loop now es p)) = cp_seen p" "cp_delay (fst (take_loop now es p)) = cp_delay p"
  by (induction es arbitrary: p) (auto simp: Let_def case_prod_beta)

lemma take_due_split:
  "snd (take_due p now) = takeWhile (\<lambda>e. de_planned e \<le> now) (cp_pending p)"
  "cp_pending (fst (take_due p now)) = dropWhile (\<lambda>e. de_planned e \<le> now) (cp_pending p)"
  by (simp_all add: take_due_def take_loop_split)

lemma take_loop_key:
  assumes "cp_key_down p \<longrightarrow> cp_key_down_since p \<noteq> None"
  shows "cp_key_down (fst (take_loop now es p)) \<longrightarrow> cp_key_down_since (fst (take_loop now es p)) \<noteq> None"
  using assms
proof (induction es arbitrary: p)
  case (Cons e es)
  have "cp_key_down (take_one p e now) \<longrightarrow> cp_key_down_since (take_one p e now) \<noteq> None"
    using Cons.prems by (auto simp: take_one_def apply_key_def Let_def)
  then show ?case using Cons by (auto simp: Let_def case_prod_beta)
qed simp

lemma take_due_inv [keep_inv]:
  assumes "playout_inv p"
  shows "playout_inv (fst (take_due p now))"
proof -
  have "cp_pending p = [] \<Longrightarrow> fst (take_due p now) = p" by (simp add: take_due_def)
  moreover have "sorted (map de_planned (dropWhile (\<lambda>e. de_planned e \<le> now) (cp_pending p)))"
    using assms by (metis dropWhile_eq_drop drop_map playout_inv_def sorted_wrt_drop)
  moreover have "dropWhile (\<lambda>e. de_planned e \<le> now) (cp_pending p) \<noteq> [] \<Longrightarrow>
      last (dropWhile (\<lambda>e. de_planned e \<le> now) (cp_pending p)) = last (cp_pending p)"
    by (metis last_append takeWhile_dropWhile_id)
  ultimately show ?thesis
    using assms take_loop_key [of p now "cp_pending p"] set_dropWhileD
    unfolding playout_inv_def take_due_split
    by (cases "cp_pending p = []") (auto simp: take_due_def dest: set_dropWhileD)
qed

lemma watchdog_inv [keep_inv]: "playout_inv p \<Longrightarrow> playout_inv (fst (watchdog p now))"
  by (auto simp: playout_inv_def watchdog_def apply_key_def Let_def split: option.splits)

lemma release_inv [keep_inv]: "playout_inv p \<Longrightarrow> playout_inv (fst (cw_release p a now))"
  by (auto simp: playout_inv_def cw_release_def apply_key_def Let_def)

lemma forget_inv [keep_inv]:
  "playout_inv p \<Longrightarrow> idle_owner p now \<noteq> None \<Longrightarrow> playout_inv (forget_owner p)"
  by (auto simp: playout_inv_def idle_owner_def forget_owner_def split: option.splits if_splits)

section \<open>Numbers within half the range\<close>

text \<open>Distance of a number from a base; within half the range the serial order is the order of distances.\<close>

definition off :: "u32 \<Rightarrow> u32 \<Rightarrow> nat" where
  "off base x = unat (x - base)"

lemma newer_off:
  assumes "off base x < 2 ^ 31" "off base y < 2 ^ 31"
  shows "newer x (Some y) \<longleftrightarrow> off base y < off base x"
proof -
  have x: "x = base + of_nat (off base x)" and y: "y = base + of_nat (off base y)"
    by (simp_all add: off_def)
  show ?thesis
  proof (cases "off base y < off base x")
    case True
    then have "x = y + of_nat (off base x - off base y)"
      by (subst x, subst y) (simp add: of_nat_diff)
    moreover have "newer (y + of_nat (off base x - off base y)) (Some y)"
      by (rule cw_order.ahead) (use True assms in simp_all)
    ultimately show ?thesis using True by metis
  next
    case False
    then have "y = x + of_nat (off base y - off base x)"
      by (subst x, subst y) (simp add: of_nat_diff)
    moreover have "\<not> newer x (Some (x + of_nat (off base y - off base x)))"
      by (rule cw_order.behind) (use assms in simp)
    ultimately show ?thesis using False by metis
  qed
qed

definition in_range :: "u32 \<Rightarrow> cw_edges_packet \<Rightarrow> bool" where
  "in_range base pkt \<longleftrightarrow> (\<forall>e \<in> set (ck_edges pkt). off base (ce_seq e) < 2 ^ 31)"

text \<open>
  The edges queued from one client so far, against the newest number seen of it: distances strictly
  increase and none is past what was seen.
\<close>

definition queued_upto :: "u32 \<Rightarrow> u32 option \<Rightarrow> due_edge list \<Rightarrow> bool" where
  "queued_upto base seen qs \<longleftrightarrow>
     sorted_wrt (<) (map (\<lambda>e. off base (de_seq e)) qs) \<and>
     (case seen of None \<Rightarrow> qs = []
      | Some l \<Rightarrow> off base l < 2 ^ 31 \<and> (\<forall>e \<in> set qs. off base (de_seq e) \<le> off base l))"

lemma queued_upto_advance:
  assumes "queued_upto base seen qs" "newer n seen" "off base n < 2 ^ 31"
  shows "queued_upto base (Some n) qs"
  using assms newer_off [of base n] by (fastforce simp: queued_upto_def split: option.splits)

lemma queued_upto_add:
  assumes "queued_upto base seen qs" "newer (de_seq d) seen" "off base (de_seq d) < 2 ^ 31"
  shows "queued_upto base (Some (de_seq d)) (qs @ [d])"
  using assms newer_off [of base "de_seq d"]
  by (fastforce simp: queued_upto_def sorted_wrt_append split: option.splits)

lemma ingest_edge_queues:
  assumes "queued_upto base (cp_seen p a) (qs @ drop n (cp_pending p))" "n \<le> length (cp_pending p)"
    and "off base (ce_seq (snd ie)) < 2 ^ 31"
  shows "queued_upto base (cp_seen (fst (ingest_edge a t now rise rs ie (p, out))) a)
           (qs @ drop n (cp_pending (fst (ingest_edge a t now rise rs ie (p, out))))) \<and>
         n \<le> length (cp_pending (fst (ingest_edge a t now rise rs ie (p, out))))"
proof -
  obtain i e where ie: "ie = (i, e)" by fastforce
  show ?thesis
    using assms queued_upto_advance [of base "cp_seen p a" _ "ce_seq e"]
      queued_upto_add [of base "cp_seen p a" "qs @ drop n (cp_pending p)" "queued_edge p t e now rise"]
    unfolding ie ingest_edge_result by (auto simp: queued_edge_def)
qed

lemma ingest_fold_queues:
  assumes "queued_upto base (cp_seen p a) (qs @ drop n (cp_pending p))" "n \<le> length (cp_pending p)"
    and "\<forall>ie \<in> set ies. off base (ce_seq (snd ie)) < 2 ^ 31"
  shows "queued_upto base (cp_seen (fst (fold (ingest_edge a t now rise rs) ies (p, out))) a)
           (qs @ drop n (cp_pending (fst (fold (ingest_edge a t now rise rs) ies (p, out)))))"
  using assms
proof (induction ies arbitrary: p out)
  case Nil
  then show ?case by simp
next
  case (Cons ie ies)
  obtain p' out' where s: "ingest_edge a t now rise rs ie (p, out) = (p', out')" by fastforce
  have "queued_upto base (cp_seen p' a) (qs @ drop n (cp_pending p')) \<and> n \<le> length (cp_pending p')"
    using ingest_edge_queues [OF Cons.prems(1,2), of ie t now rise rs out] Cons.prems(3) s by simp
  then show ?case using Cons.IH Cons.prems(3) s by simp
qed

lemma discard_seen:
  assumes "queued_upto base (cp_seen p a) qs" "in_range base pkt"
  shows "queued_upto base (cp_seen (discard p a pkt) a) qs"
proof -
  have "queued_upto base (fold (\<lambda>e l. if newer (ce_seq e) l then Some (ce_seq e) else l) es s) qs"
    if "queued_upto base s qs" "\<forall>e \<in> set es. off base (ce_seq e) < 2 ^ 31" for es s
    using that by (induction es arbitrary: s) (auto simp: queued_upto_advance)
  from this [OF assms(1), of "ck_edges pkt"] show ?thesis
    using assms by (auto simp: discard_def in_range_def Let_def split: option.splits)
qed

lemma discard_seen_other: "b \<noteq> a \<Longrightarrow> cp_seen (discard p b pkt) a = cp_seen p a"
  by (simp add: discard_def Let_def split: option.splits)

text \<open>The edges a call adds to the queue.\<close>

definition queued_by :: "cw_playout \<Rightarrow> cw_playout \<Rightarrow> due_edge list" where
  "queued_by p p' = drop (length (cp_pending p)) (cp_pending p')"

lemma ingest_queues:
  assumes "queued_upto base (cp_seen p a) qs" "in_range base pkt"
  shows "queued_upto base (cp_seen (fst (ingest p a pkt now rise)) a)
           (qs @ queued_by p (fst (ingest p a pkt now rise)))"
proof -
  have enum: "\<forall>ie \<in> set (enumerate 0 (ck_edges pkt)). off base (ce_seq (snd ie)) < 2 ^ 31"
    using assms(2) nth_mem by (fastforce simp: in_range_def in_set_enumerate_eq)
  have main: "queued_upto base (cp_seen (fst (fold (ingest_edge a (ck_target pkt) now rise rs)
        (enumerate 0 (ck_edges pkt)) (p', out))) a)
      (qs @ drop (length (cp_pending p)) (cp_pending (fst (fold (ingest_edge a (ck_target pkt) now rise rs)
        (enumerate 0 (ck_edges pkt)) (p', out)))))"
    if "p' = p\<lparr> cp_owner := Some a, cp_target := Some (ck_target pkt) \<rparr>" for p' rs out
    by (rule ingest_fold_queues) (use that assms(1) enum in simp_all)
  show ?thesis
    using assms discard_seen main [OF refl]
    by (auto simp: ingest_def queued_by_def)
qed

lemma ingest_edge_seen_other:
  "b \<noteq> a \<Longrightarrow> cp_seen (fst (fold (ingest_edge b t now rise rs) ies (p, out))) a = cp_seen p a"
proof (induction ies arbitrary: p out)
  case (Cons ie ies)
  obtain i e where ie: "ie = (i, e)" by fastforce
  obtain p' out' where s: "ingest_edge b t now rise rs ie (p, out) = (p', out')" by fastforce
  then have "cp_seen p' a = cp_seen p a"
    using Cons.prems unfolding ie ingest_edge_result by (auto split: if_splits)
  then show ?case using Cons s by simp
qed simp

lemma ingest_seen_other:
  "b \<noteq> a \<Longrightarrow> cp_seen (fst (ingest p b pkt now rise)) a = cp_seen p a"
  by (simp add: ingest_def discard_seen_other ingest_edge_seen_other)

section \<open>Runs\<close>

datatype cw_event =
    CwPacket socket_addr cw_edges_packet instant bool
  | CwRefused socket_addr cw_edges_packet
  | CwHang u16
  | CwTake instant
  | CwDog instant
  | CwGone socket_addr instant
  | CwIdle instant

text \<open>
  The calls of the server: a packet that passed the gates, one that was refused, a hang time, the
  playout thread's turn, the watchdog, a client that is gone, and the tick that hands an idle run
  back (only when \<open>idle_owner\<close> names one).
\<close>

fun cw_step :: "cw_playout \<Rightarrow> cw_event \<Rightarrow> cw_playout" where
  "cw_step p (CwPacket a pkt now rise) = fst (ingest p a pkt now rise)"
| "cw_step p (CwRefused a pkt) = discard p a pkt"
| "cw_step p (CwHang h) = set_hang p h"
| "cw_step p (CwTake now) = fst (take_due p now)"
| "cw_step p (CwDog now) = fst (watchdog p now)"
| "cw_step p (CwGone a now) = fst (cw_release p a now)"
| "cw_step p (CwIdle now) = (if idle_owner p now \<noteq> None then forget_owner p else p)"

fun cw_run :: "cw_playout \<Rightarrow> cw_event list \<Rightarrow> cw_playout" where
  "cw_run p [] = p"
| "cw_run p (ev # evs) = cw_run (cw_step p ev) evs"

text \<open>Every edge of client \<open>a\<close> that a run ever puts in the queue, in order.\<close>

fun queued_of :: "socket_addr \<Rightarrow> cw_playout \<Rightarrow> cw_event list \<Rightarrow> due_edge list" where
  "queued_of a p [] = []"
| "queued_of a p (ev # evs) =
     (case ev of CwPacket b pkt now rise \<Rightarrow> if b = a then queued_by p (cw_step p ev) else [] | _ \<Rightarrow> []) @
     queued_of a (cw_step p ev) evs"

lemma cw_step_inv [keep_inv]: "playout_inv p \<Longrightarrow> playout_inv (cw_step p ev)"
  by (cases ev) (auto simp: keep_inv)

lemma cw_run_inv [keep_inv]: "playout_inv p \<Longrightarrow> playout_inv (cw_run p evs)"
  by (induction evs arbitrary: p) (auto simp: keep_inv)

definition events_ok :: "u32 \<Rightarrow> socket_addr \<Rightarrow> cw_event list \<Rightarrow> bool" where
  "events_ok base a evs \<longleftrightarrow>
     (\<forall>ev \<in> set evs. case ev of
        CwPacket b pkt now rise \<Rightarrow> b = a \<longrightarrow> in_range base pkt
      | CwRefused b pkt \<Rightarrow> b = a \<longrightarrow> in_range base pkt
      | CwGone b now \<Rightarrow> b \<noteq> a
      | _ \<Rightarrow> True)"

lemma seen_step_other:
  "(case ev of CwPacket b pkt now rise \<Rightarrow> b \<noteq> a | CwRefused b pkt \<Rightarrow> b \<noteq> a | CwGone b now \<Rightarrow> b \<noteq> a | _ \<Rightarrow> True) \<Longrightarrow>
   cp_seen (cw_step p ev) a = cp_seen p a"
  by (auto simp: ingest_seen_other discard_seen_other set_hang_def take_due_def watchdog_def
      cw_release_def apply_key_def forget_owner_def Let_def split: cw_event.splits option.splits)

lemma run_queued_upto:
  assumes "queued_upto base (cp_seen p a) qs" "events_ok base a evs"
  shows "queued_upto base (cp_seen (cw_run p evs) a) (qs @ queued_of a p evs)"
  using assms
proof (induction evs arbitrary: p qs)
  case Nil
  then show ?case by simp
next
  case (Cons ev evs)
  have ok: "events_ok base a evs" using Cons.prems(2) by (simp add: events_ok_def)
  let ?new = "case ev of CwPacket b pkt now rise \<Rightarrow> if b = a then queued_by p (cw_step p ev) else [] | _ \<Rightarrow> []"
  have "queued_upto base (cp_seen (cw_step p ev) a) (qs @ ?new)"
  proof (cases "\<exists>pkt now rise. ev = CwPacket a pkt now rise \<or> ev = CwRefused a pkt")
    case True
    then show ?thesis using Cons.prems ingest_queues discard_seen by (auto simp: events_ok_def)
  next
    case False
    then have "?new = []" by (auto split: cw_event.splits)
    moreover have "cp_seen (cw_step p ev) a = cp_seen p a"
      by (rule seen_step_other) (use False Cons.prems(2) in \<open>auto simp: events_ok_def split: cw_event.splits\<close>)
    ultimately show ?thesis using Cons.prems(1) by simp
  qed
  from Cons.IH [OF this ok] show ?case by simp
qed

section \<open>Every run has an end\<close>

text \<open>
  What a client's packets look like: at least one edge, numbers that go up from one edge to the
  next, all within half the range of the client's first number.
\<close>

definition client_packet :: "u32 \<Rightarrow> cw_edges_packet \<Rightarrow> bool" where
  "client_packet base pkt \<longleftrightarrow>
     ck_edges pkt \<noteq> [] \<and> in_range base pkt \<and>
     sorted_wrt (<) (map (\<lambda>e. off base (ce_seq e)) (ck_edges pkt))"

text \<open>Something of a run is still to come, or a key-up is behind it: what \<open>idle_owner\<close> needs.\<close>

definition has_end :: "cw_playout \<Rightarrow> bool" where
  "has_end p \<longleftrightarrow> cp_pending p \<noteq> [] \<or> cp_key_down p \<or> cp_last_up_at p \<noteq> None"

lemma rposition_less: "rposition P xs = Some i \<Longrightarrow> i < length xs"
  by (induction xs arbitrary: i) (auto split: option.splits if_splits)

lemma seen_after_fold:
  "cp_seen (fst (fold (ingest_edge a t now rise rs) ies (p, out))) a = cp_seen p a \<or>
   (\<exists>ie \<in> set ies. cp_seen (fst (fold (ingest_edge a t now rise rs) ies (p, out))) a = Some (ce_seq (snd ie)))"
proof (induction ies arbitrary: p out)
  case (Cons ie ies)
  obtain i e where ie: "ie = (i, e)" by fastforce
  obtain p' out' where s: "ingest_edge a t now rise rs ie (p, out) = (p', out')" by fastforce
  then have "cp_seen p' a = cp_seen p a \<or> cp_seen p' a = Some (ce_seq e)"
    unfolding ie ingest_edge_result by (auto split: if_splits)
  then show ?case using Cons.IH [of p' out'] s ie by auto
qed simp

lemma last_edge_queued:
  assumes "client_packet base pkt" "has_news p a pkt" "\<And>l. cp_seen p a = Some l \<Longrightarrow> off base l < 2 ^ 31"
    and that: "cp_seen p' a = cp_seen p a"
  shows "cp_pending (fst (fold (ingest_edge a t now rise (rposition ce_run_start (ck_edges pkt)))
           (enumerate 0 (ck_edges pkt)) (p', out))) \<noteq> []"
proof -
  obtain es e where es: "ck_edges pkt = es @ [e]"
    using assms(1) by (auto simp: client_packet_def intro: rev_exhaust)
  obtain q out' where q: "fold (ingest_edge a t now rise (rposition ce_run_start (ck_edges pkt)))
      (enumerate 0 es) (p', out) = (q, out')" by fastforce
  have incr: "\<forall>x \<in> set es. off base (ce_seq x) < off base (ce_seq e)"
    and range: "\<forall>x \<in> set es. off base (ce_seq x) < 2 ^ 31" "off base (ce_seq e) < 2 ^ 31"
    using assms(1) es by (auto simp: client_packet_def in_range_def sorted_wrt_append)
  have first: "newer (ce_seq e) (cp_seen p a)"
  proof -
    obtain x where x: "x \<in> set (ck_edges pkt)" "newer (ce_seq x) (cp_seen p a)"
      using assms(2) by (auto simp: has_news_def list_ex_iff)
    then have "off base (ce_seq x) \<le> off base (ce_seq e)" "off base (ce_seq x) < 2 ^ 31"
      using incr range es by auto
    then show ?thesis using x(2) assms(3) range(2)
      by (cases "cp_seen p a") (auto simp: newer_off [of base] newer_def [of _ None])
  qed
  have "newer (ce_seq e) (cp_seen q a)"
    using seen_after_fold [of a t now rise "rposition ce_run_start (ck_edges pkt)" "enumerate 0 es" p' out]
      q that first incr range newer_off [of base]
    by (fastforce simp: in_set_enumerate_eq)
  moreover have "\<not> (\<exists>r. rposition ce_run_start (ck_edges pkt) = Some r \<and> length es < r)"
    using rposition_less [of ce_run_start "ck_edges pkt"] es by fastforce
  ultimately have "cp_pending (fst (ingest_edge a t now rise (rposition ce_run_start (ck_edges pkt))
      (length es, e) (q, out'))) \<noteq> []"
    unfolding ingest_edge_result by simp
  then show ?thesis using q unfolding es enumerate_append_eq by (simp add: es)
qed

lemma fold_keeps_key:
  "cp_key_down (fst (fold (ingest_edge a t now rise rs) ies (p, out))) = cp_key_down p \<and>
   cp_last_up_at (fst (fold (ingest_edge a t now rise rs) ies (p, out))) = cp_last_up_at p"
proof (induction ies arbitrary: p out)
  case (Cons ie ies)
  obtain i e where ie: "ie = (i, e)" by fastforce
  obtain p' out' where s: "ingest_edge a t now rise rs ie (p, out) = (p', out')" by fastforce
  then have "cp_key_down p' = cp_key_down p" "cp_last_up_at p' = cp_last_up_at p"
    unfolding ie ingest_edge_result by (auto split: if_splits)
  then show ?case using Cons.IH [of p' out'] s by simp
qed simp

definition run_inv :: "(socket_addr \<Rightarrow> u32) \<Rightarrow> cw_playout \<Rightarrow> bool" where
  "run_inv base p \<longleftrightarrow> playout_inv p \<and> (cp_owner p \<noteq> None \<longrightarrow> has_end p) \<and>
     (\<forall>a. queued_upto (base a) (cp_seen p a) [])"

definition event_fine :: "(socket_addr \<Rightarrow> u32) \<Rightarrow> cw_event \<Rightarrow> bool" where
  "event_fine base ev \<longleftrightarrow>
     (case ev of CwPacket b pkt now rise \<Rightarrow> client_packet (base b) pkt
               | CwRefused b pkt \<Rightarrow> client_packet (base b) pkt | _ \<Rightarrow> True)"

lemma run_inv_new: "run_inv base (cw_playout_new delay)"
  by (simp add: run_inv_def playout_inv_new) (simp add: cw_playout_new_def queued_upto_def)

lemma take_loop_end:
  "has_end (p\<lparr> cp_pending := es \<rparr>) \<Longrightarrow> has_end (fst (take_loop now es p))"
proof (induction es arbitrary: p)
  case (Cons e es)
  have "has_end ((take_one p e now)\<lparr> cp_pending := es \<rparr>)"
    by (auto simp: has_end_def take_one_def apply_key_def Let_def)
  then show ?case using Cons by (auto simp: Let_def case_prod_beta)
qed simp

lemma seen_nil_step:
  assumes "queued_upto (base a) (cp_seen p a) []" "event_fine base ev"
  shows "queued_upto (base a) (cp_seen (cw_step p ev) a) []"
proof (cases "\<exists>now. ev = CwGone a now")
  case True
  then show ?thesis using assms(1)
    by (auto simp: cw_release_def apply_key_def Let_def queued_upto_def)
next
  case False
  then have "events_ok (base a) a [ev]"
    using assms(2) by (auto simp: events_ok_def event_fine_def client_packet_def split: cw_event.splits)
  from run_queued_upto [OF assms(1) this] show ?thesis
    by (auto simp: queued_upto_def split: option.splits)
qed

lemma ingest_has_end:
  assumes "run_inv base p" "client_packet (base a) pkt"
  shows "cp_owner (fst (ingest p a pkt now rise)) \<noteq> None \<longrightarrow> has_end (fst (ingest p a pkt now rise))"
proof (cases "(case cp_owner p of Some o' \<Rightarrow> o' \<noteq> a | None \<Rightarrow> False) \<or>
      (case cp_target p of Some t \<Rightarrow> t \<noteq> ck_target pkt | None \<Rightarrow> False) \<or> \<not> has_news p a pkt")
  case True
  then show ?thesis using assms(1)
    by (auto simp: ingest_def run_inv_def has_end_def)
next
  case False
  have "cp_seen p a = Some l \<Longrightarrow> off (base a) l < 2 ^ 31" for l
    using assms(1) by (auto simp: run_inv_def queued_upto_def split: option.splits)
  then show ?thesis
    using False last_edge_queued [OF assms(2)]
    by (auto simp: ingest_def has_end_def)
qed

lemma run_inv_step [keep_inv]:
  assumes "run_inv base p" "event_fine base ev"
  shows "run_inv base (cw_step p ev)"
proof -
  have "cp_owner (cw_step p ev) \<noteq> None \<longrightarrow> has_end (cw_step p ev)"
  proof (cases ev)
    case (CwPacket a pkt now rise)
    then show ?thesis using ingest_has_end assms by (auto simp: event_fine_def)
  next
    case (CwTake now)
    then show ?thesis using assms(1) take_loop_end [where p = p and es = "cp_pending p" and now = now]
      by (simp add: run_inv_def take_due_def)
  qed (use assms(1) in \<open>auto simp: run_inv_def has_end_def set_hang_def watchdog_def cw_release_def
        apply_key_def forget_owner_def Let_def split: option.splits\<close>)
  then show ?thesis
    using assms seen_nil_step by (auto simp: run_inv_def keep_inv)
qed

lemma run_inv_run [keep_inv]:
  "run_inv base p \<Longrightarrow> \<forall>ev \<in> set evs. event_fine base ev \<Longrightarrow> run_inv base (cw_run p evs)"
  by (induction evs arbitrary: p) (auto simp: keep_inv)

definition times_before :: "cw_playout \<Rightarrow> instant \<Rightarrow> bool" where
  "times_before p T \<longleftrightarrow>
     (\<forall>e \<in> set (cp_pending p). de_planned e \<le> T) \<and>
     (\<forall>t. cp_key_down_since p = Some t \<longrightarrow> t \<le> T) \<and> (\<forall>t. cp_last_up_at p = Some t \<longrightarrow> t \<le> T)"

lemma take_loop_times:
  assumes "times_before (p\<lparr> cp_pending := es \<rparr>) T"
  shows "times_before (fst (take_loop now es p)) T"
  using assms
proof (induction es arbitrary: p)
  case (Cons e es)
  have "times_before ((take_one p e now)\<lparr> cp_pending := es \<rparr>) T"
    using Cons.prems by (auto simp: times_before_def take_one_def apply_key_def Let_def)
  then show ?case using Cons by (auto simp: Let_def case_prod_beta)
qed simp

lemma take_all:
  assumes "times_before p T"
  shows "cp_pending (fst (take_due p T)) = [] \<and> times_before (fst (take_due p T)) T"
  using assms take_loop_times [where p = p and es = "cp_pending p" and T = T and now = T]
  by (simp add: take_due_split dropWhile_eq_Nil_conv) (simp add: times_before_def take_due_def)

section \<open>The operator's timing\<close>










lemma after_dropWhile:
  "sorted (map f xs) \<Longrightarrow> x \<in> set (dropWhile (\<lambda>x. f x \<le> t) xs) \<Longrightarrow> (t :: nat) < f x"
  by (induction xs) (auto split: if_splits)

section \<open>Properties\<close>


definition piece :: "u8 \<Rightarrow> cw_edge list \<Rightarrow> nat \<Rightarrow> nat \<Rightarrow> u16 \<Rightarrow> cw_edges_packet" where
  "piece tgt line m n hang = \<lparr> ck_target = tgt, ck_edges = take n (drop m line), ck_hang_ms = hang \<rparr>"

lemma piece_target [simp]: "ck_target (piece tgt line m n hang) = tgt"
  by (simp add: piece_def)

















definition demo_packet :: cw_edges_packet where
  "demo_packet = \<lparr> ck_target = 0,
     ck_edges = [\<lparr> ce_seq = 7, ce_down = True, ce_prev_len_ms = 0, ce_run_start = True \<rparr>,
                 \<lparr> ce_seq = 8, ce_down = False, ce_prev_len_ms = 48, ce_run_start = False \<rparr>],
     ck_hang_ms = 500 \<rparr>"



text \<open>
  No edge goes on the air twice: over any run of packets - repeated, refused, reordered or of old
  news - watchdogs and other clients' comings and goings, the edges of one client that are ever
  queued have strictly increasing numbers, as long as the client counts within half the range and is
  not itself released.
\<close>

theorem no_edge_plays_twice:
  assumes "events_ok base a evs"
  shows "sorted_wrt (<) (map (\<lambda>d. off base (de_seq d)) (queued_of a (cw_playout_new delay) evs))"
proof -
  have "queued_upto base (cp_seen (cw_playout_new delay) a) []"
    by (simp add: queued_upto_def cw_playout_new_def)
  from run_queued_upto [OF this assms] show ?thesis by (simp add: queued_upto_def)
qed

theorem no_edge_plays_twice_witness:
  "sorted_wrt (<) (map (\<lambda>d. off 0 (de_seq d))
     (queued_of (SocketAddr 10 1) (cw_playout_new PLAYOUT_DELAY)
        [CwPacket (SocketAddr 10 1) demo_packet 0 False, CwTake (ms 100), CwPacket (SocketAddr 10 1) demo_packet (ms 120) False]))"
  by (rule no_edge_plays_twice)
    (simp add: events_ok_def in_range_def demo_packet_def off_def)

text \<open>
  Nothing leaves early or out of order: in every reachable state the playout thread takes exactly
  the queued edges whose moment has come, in the order of their moments, and leaves the rest; all of
  them belong to the run that is playing and to its radio.
\<close>

theorem playout_takes_what_is_due:
  assumes "p = cw_run (cw_playout_new delay) evs"
  shows "snd (take_due p now) @ cp_pending (fst (take_due p now)) = cp_pending p \<and>
         (\<forall>e \<in> set (snd (take_due p now)).
            de_planned e \<le> now \<and> de_run e = cp_run p \<and> cp_target p = Some (de_target e)) \<and>
         (\<forall>e \<in> set (cp_pending (fst (take_due p now))). now < de_planned e) \<and>
         sorted (map de_planned (snd (take_due p now)))"
proof -
  have inv: "playout_inv p" unfolding assms by (intro keep_inv)
  then have sorted: "sorted (map de_planned (cp_pending p))" by (simp add: playout_inv_def)
  have "now < de_planned e" if e: "e \<in> set (dropWhile (\<lambda>e. de_planned e \<le> now) (cp_pending p))" for e
    using sorted e by (rule after_dropWhile)
  moreover have "sorted (map de_planned (takeWhile (\<lambda>e. de_planned e \<le> now) (cp_pending p)))"
    using sorted by (metis takeWhile_eq_take take_map sorted_wrt_take)
  ultimately show ?thesis
    using inv by (auto simp: take_due_split playout_inv_def dest: set_takeWhileD)
qed

theorem playout_takes_what_is_due_witness:
  "map de_planned (snd (take_due (cw_run (cw_playout_new PLAYOUT_DELAY) [CwPacket (SocketAddr 10 1) demo_packet 0 False]) (ms 100))) = [ms 80]"
proof -
  let ?p = "cw_run (cw_playout_new PLAYOUT_DELAY) [CwPacket (SocketAddr 10 1) demo_packet 0 False]"
  have "map de_planned (cp_pending ?p) = [ms 80, ms 128]"
    by (simp add: ingest_def demo_packet_def cw_playout_new_def has_news_def newer_def word_sless_alt
        ingest_edge_result queued_edge_def anchor_def PLAYOUT_DELAY_def MAX_CONTINUE_GAP_def)
  then obtain x y where xy: "cp_pending ?p = [x, y]" "de_planned x = ms 80" "de_planned y = ms 128"
    by auto
  then show ?thesis
    using playout_takes_what_is_due [of ?p PLAYOUT_DELAY "[CwPacket (SocketAddr 10 1) demo_packet 0 False]" "ms 100"]
    by (cases "snd (take_due ?p (ms 100))") (auto simp: take_due_split Cons_eq_append_conv)
qed

text \<open>
  The key cannot stay down: in every reachable state with the key down, the thread's next deadline
  is at most the watchdog after the key went down; at that moment the watchdog lifts the key, empties
  the queue and ends the run; and a client that is gone leaves no edge behind and its key up, with a
  key-up command exactly when the key was down. Every edge still on its way is then of an older run.
\<close>

theorem key_cannot_stay_down:
  assumes "p = cw_run (cw_playout_new delay) evs" "cp_key_down p"
  shows "\<exists>since a d e. cp_key_down_since p = Some since \<and> cp_owner p = Some a \<and>
     next_deadline p = Some d \<and> d \<le> since + WATCHDOG \<and>
     (\<forall>now \<ge> since + WATCHDOG.
        snd (watchdog p now) \<noteq> None \<and> \<not> cp_key_down (fst (watchdog p now)) \<and>
        cp_pending (fst (watchdog p now)) = [] \<and> cp_run p < cp_run (fst (watchdog p now))) \<and>
     snd (cw_release p a now) = Some e \<and> \<not> de_down e \<and> cp_run p < de_run e \<and>
     \<not> cp_key_down (fst (cw_release p a now)) \<and> cp_pending (fst (cw_release p a now)) = []"
proof -
  have inv: "playout_inv p" unfolding assms(1) by (intro keep_inv)
  then obtain since a where "cp_key_down_since p = Some since" "cp_owner p = Some a"
    using assms(2) by (auto simp: playout_inv_def)
  then show ?thesis
    using assms(2)
    by (auto simp: next_deadline_def watchdog_def cw_release_def apply_key_def Let_def split: list.splits)
qed

theorem key_cannot_stay_down_witness:
  "cp_pending (fst (cw_release (cw_run (cw_playout_new PLAYOUT_DELAY)
     [CwPacket (SocketAddr 10 1) demo_packet 0 False, CwTake (ms 100)]) (SocketAddr 10 1) 5)) = []"
proof -
  let ?evs = "[CwPacket (SocketAddr 10 1) demo_packet 0 False, CwTake (ms 100)]"
  let ?p = "cw_run (cw_playout_new PLAYOUT_DELAY) ?evs"
  have "cp_key_down ?p" "cp_owner ?p = Some (SocketAddr 10 1)"
    by (simp_all add: ingest_def demo_packet_def cw_playout_new_def has_news_def newer_def word_sless_alt
        ingest_edge_result queued_edge_def anchor_def PLAYOUT_DELAY_def MAX_CONTINUE_GAP_def take_due_def Let_def)
  then show ?thesis using key_cannot_stay_down [OF refl, of PLAYOUT_DELAY ?evs 5]
    by (metis option.inject)
qed

text \<open>
  Every run ends: in every state that packets of the keyer's form can reach, a run that gets no
  more packets is over once its edges have played and the watchdog had its turn - its owner is found
  idle after the hang time, and the transmitter goes back.
\<close>

theorem every_run_ends:
  assumes "\<forall>ev \<in> set evs. event_fine base ev" "p = cw_run (cw_playout_new delay) evs"
    and "cp_owner p = Some a" "times_before p T"
  shows "idle_owner (cw_step (cw_step p (CwTake T)) (CwDog (T + WATCHDOG))) (T + WATCHDOG + HANG_MAX) = Some a"
proof -
  have "run_inv base p" unfolding assms(2) by (intro run_inv_run run_inv_new assms(1))
  then have inv: "run_inv base (cw_step p (CwTake T))" by (rule run_inv_step) (simp add: event_fine_def)
  let ?q = "fst (take_due p T)"
  have q: "cp_pending ?q = []" "times_before ?q T" using take_all [OF assms(4)] by auto
  have "cp_owner ?q = Some a" using assms(3) by (simp add: take_due_def)
  then have "cp_key_down ?q \<or> cp_last_up_at ?q \<noteq> None" "cp_hang ?q \<le> HANG_MAX"
      "cp_key_down ?q \<longrightarrow> cp_key_down_since ?q \<noteq> None"
    using inv q(1) by (auto simp: run_inv_def has_end_def playout_inv_def)
  then show ?thesis
    using q \<open>cp_owner ?q = Some a\<close>
    by (cases "cp_key_down ?q")
      (auto simp: idle_owner_def watchdog_def apply_key_def times_before_def Let_def split: option.splits)
qed

theorem every_run_ends_witness:
  "idle_owner (cw_step (cw_step (cw_run (cw_playout_new PLAYOUT_DELAY) [CwPacket (SocketAddr 10 1) demo_packet 0 False])
      (CwTake (ms 200))) (CwDog (ms 200 + WATCHDOG))) (ms 200 + WATCHDOG + HANG_MAX) = Some (SocketAddr 10 1)"
  by (rule every_run_ends [of _ "\<lambda>_. 0", OF _ refl])
    (simp_all add: event_fine_def client_packet_def in_range_def off_def times_before_def
      ingest_def demo_packet_def cw_playout_new_def has_news_def newer_def word_sless_alt
        ingest_edge_result queued_edge_def anchor_def PLAYOUT_DELAY_def MAX_CONTINUE_GAP_def)

text \<open>
  Only the keyer's own packets end that way: a packet whose numbers do not go up - two edges with
  one number, the second a run start - takes the run without queueing anything, and that run is never
  found idle, so every other client is refused CW until the owner's session ends.
\<close>

theorem unordered_packet_strands_the_run:
  "\<exists>pkt. let p = fst (ingest (cw_playout_new PLAYOUT_DELAY) a pkt now False)
         in cp_owner p = Some a \<and> cp_pending p = [] \<and> (\<forall>later. idle_owner p later = None) \<and>
            next_deadline p = None \<and> (\<forall>b t. busy_for p b t \<longleftrightarrow> \<not> (b = a \<and> t = 0))"
  by (rule exI [of _ "\<lparr> ck_target = 0,
       ck_edges = [\<lparr> ce_seq = 5, ce_down = True, ce_prev_len_ms = 0, ce_run_start = False \<rparr>,
                   \<lparr> ce_seq = 5, ce_down = False, ce_prev_len_ms = 0, ce_run_start = True \<rparr>],
       ck_hang_ms = 0 \<rparr>"])
    (auto simp: ingest_def cw_playout_new_def has_news_def newer_def word_sless_alt ingest_edge_result
      idle_owner_def next_deadline_def busy_for_def Let_def)

end
