(* ===== verification/TciLink.thy ===== *)
theory TciLink
  imports Prelude
begin

text \<open>
  The part of the TCI connection to Thetis that the PTT controller works through
  (\<^verbatim>\<open>sdr-remote-server/src/tci.rs\<close>, \<^verbatim>\<open>tci_commands.rs\<close>): a command sent, the flags kept beside it,
  and the drop of the link when its channel does not take the command. Commands are ASCII text, a
  \<open>string\<close>; what was handed to the writer is the list \<open>tl_outbox\<close>, and whether the channel takes the
  next command is the environment's \<open>tl_room\<close>. Of what Thetis reports: TRX, TUNE, READY and the end
  of the connection, with what the link answers, and everything else a poll sends (\<open>poll_act\<close>). Not
  modelled: the web socket and its tasks, the wire text of the reports, the other reports and the
  sensor values.
\<close>

section \<open>Text\<close>

definition ascii_lower :: "char \<Rightarrow> char" where
  "ascii_lower c = (let n = of_char c :: nat in if 65 \<le> n \<and> n \<le> 90 then char_of (n + 32) else c)"

definition eq_ignore_ascii_case :: "string \<Rightarrow> string \<Rightarrow> bool" where
  "eq_ignore_ascii_case a b \<longleftrightarrow> map ascii_lower a = map ascii_lower b"

definition is_space :: "char \<Rightarrow> bool" where
  "is_space c \<longleftrightarrow> (let n = of_char c :: nat in n = 32 \<or> 9 \<le> n \<and> n \<le> 13)"

definition trim_start :: "string \<Rightarrow> string" where
  "trim_start s = dropWhile is_space s"

definition trim_text :: "string \<Rightarrow> string" where
  "trim_text s = rev (dropWhile is_space (rev (trim_start s)))"

definition trim_semis :: "string \<Rightarrow> string" where
  "trim_semis s = rev (dropWhile (\<lambda>c. c = CHR '';'') (rev s))"

definition split_once :: "char \<Rightarrow> string \<Rightarrow> (string \<times> string) option" where
  "split_once c s =
     (if c \<in> set s then Some (takeWhile (\<lambda>x. x \<noteq> c) s, tl (dropWhile (\<lambda>x. x \<noteq> c) s)) else None)"

definition starts_with :: "string \<Rightarrow> string \<Rightarrow> bool" where
  "starts_with p s \<longleftrightarrow> take (length p) s = p"

definition digit_value :: "char \<Rightarrow> nat option" where
  "digit_value c = (let n = of_char c :: nat in if 48 \<le> n \<and> n \<le> 57 then Some (n - 48) else None)"

fun parse_digits :: "nat \<Rightarrow> string \<Rightarrow> nat option" where
  "parse_digits acc [] = Some acc"
| "parse_digits acc (c # cs) =
     (case digit_value c of None \<Rightarrow> None | Some d \<Rightarrow> parse_digits (acc * 10 + d) cs)"

text \<open>\<^verbatim>\<open>str::parse\<close> to an unsigned integer below \<open>bound\<close>: digits, with an optional plus sign in front.\<close>

definition parse_uint :: "nat \<Rightarrow> string \<Rightarrow> nat option" where
  "parse_uint bound s =
     (let ds = (case s of c # cs \<Rightarrow> if c = CHR ''+'' then cs else s | [] \<Rightarrow> s)
      in if ds = [] then None
         else case parse_digits 0 ds of None \<Rightarrow> None | Some n \<Rightarrow> if n < bound then Some n else None)"

definition digit_char :: "nat \<Rightarrow> char" where
  "digit_char d = char_of (48 + d)"

text \<open>\<^verbatim>\<open>format!("{}", n)\<close>.\<close>

fun decimal :: "nat \<Rightarrow> string" where
  "decimal n = (if n < 10 then [digit_char n] else decimal (n div 10) @ [digit_char (n mod 10)])"

declare decimal.simps [simp del]

section \<open>Commands\<close>

definition is_trx_off :: "string \<Rightarrow> bool" where
  "is_trx_off cmd \<longleftrightarrow>
     4 \<le> length cmd \<and> eq_ignore_ascii_case (take 4 cmd) ''TRX:'' \<and>
     (case split_once CHR '','' (trim_semis cmd) of
        None \<Rightarrow> False
      | Some (_, rest) \<Rightarrow> eq_ignore_ascii_case (takeWhile (\<lambda>c. c \<noteq> CHR '','') rest) ''false'')"

definition tune_command :: "string \<Rightarrow> (nat \<times> bool) option" where
  "tune_command cmd =
     (case split_once CHR '':'' (trim_semis (trim_text cmd)) of
        None \<Rightarrow> None
      | Some (head, args) \<Rightarrow>
          if \<not> eq_ignore_ascii_case head ''tune'' then None
          else case split_once CHR '','' args of
                 None \<Rightarrow> None
               | Some (receiver, state) \<Rightarrow>
                   (case parse_uint (2 ^ 64) (trim_text receiver) of
                      None \<Rightarrow> None
                    | Some r \<Rightarrow>
                        if \<not> r < 2 then None
                        else if map ascii_lower (trim_text state) = ''true'' then Some (r, True)
                        else if map ascii_lower (trim_text state) = ''false'' then Some (r, False)
                        else None))"

section \<open>The link\<close>

text \<open>The first report of a transmitter state for each receiver on one connection.\<close>

record first_report =
  fr_seen :: "bool list"
  fr_first_on :: bool

definition first_report_default :: first_report where
  "first_report_default = \<lparr> fr_seen = [False, False], fr_first_on = False \<rparr>"

definition seen_on :: "first_report \<Rightarrow> nat \<Rightarrow> bool" where
  "seen_on f receiver \<longleftrightarrow> receiver < length (fr_seen f) \<and> fr_seen f ! receiver"

definition left_behind :: "first_report \<Rightarrow> nat \<Rightarrow> bool \<Rightarrow> bool \<Rightarrow> first_report \<times> bool" where
  "left_behind f receiver active we_transmit =
     (if receiver < length (fr_seen f) then
        (let first = \<not> fr_seen f ! receiver
         in (\<lparr> fr_seen = (fr_seen f)[receiver := True], fr_first_on = fr_first_on f \<or> first \<and> active \<rparr>,
             first \<and> active \<and> \<not> we_transmit))
      else (f, False))"

text \<open>One TUNE report: the reports on this connection, what we want, and whether it was left behind.\<close>

definition tune_report :: "first_report \<Rightarrow> bool \<Rightarrow> nat \<Rightarrow> bool \<Rightarrow> first_report \<times> bool \<times> bool" where
  "tune_report f intent receiver active =
     (let was_first = \<not> seen_on f receiver;
          intent1 = (if \<not> active \<and> \<not> was_first then False else intent);
          (f', left) = left_behind f receiver active intent1;
          intent2 = (if was_first \<and> seen_on f' 0 \<and> seen_on f' 1 \<and> \<not> fr_first_on f' then False else intent1)
      in (f', intent2, left))"

record tci_link =
  tl_connected :: bool
  tl_room :: bool
  tl_outbox :: "string list"
  tl_tx_off_count :: nat
  tl_we_tune :: bool
  tl_tx_active :: bool
  tl_thetis_tx_active :: bool
  tl_tune_rx :: "bool list"
  tl_tune_active :: bool
  tl_power_on :: bool
  tl_first_trx :: first_report
  tl_first_tune :: first_report
  tl_tx_receiver :: nat

definition handle_disconnect :: "tci_link \<Rightarrow> tci_link" where
  "handle_disconnect l =
     l\<lparr> tl_connected := False, tl_power_on := False, tl_thetis_tx_active := False,
        tl_tune_active := False, tl_tune_rx := [False, False],
        tl_first_trx := first_report_default, tl_first_tune := first_report_default \<rparr>"

text \<open>A connection made in the background is taken over; its channel is new and empty.\<close>

definition accept_stream :: "tci_link \<Rightarrow> tci_link" where
  "accept_stream l = l\<lparr> tl_connected := True, tl_room := True \<rparr>"

definition tune_intent_sent :: "tci_link \<Rightarrow> string \<Rightarrow> tci_link" where
  "tune_intent_sent l cmd =
     (case tune_command cmd of None \<Rightarrow> l | Some (_, on) \<Rightarrow> l\<lparr> tl_we_tune := on \<rparr>)"

definition tci_send :: "tci_link \<Rightarrow> string \<Rightarrow> tci_link" where
  "tci_send l cmd =
     (let l1 = (if is_trx_off cmd then l\<lparr> tl_tx_off_count := tl_tx_off_count l + 1 \<rparr> else l);
          l2 = tune_intent_sent l1 cmd
      in if \<not> tl_connected l2 then l2
         else if tl_room l2 then l2\<lparr> tl_outbox := tl_outbox l2 @ [cmd] \<rparr>
         else handle_disconnect l2)"

definition set_tx_active :: "tci_link \<Rightarrow> bool \<Rightarrow> tci_link" where
  "set_tx_active l active = (if active \<noteq> tl_tx_active l then l\<lparr> tl_tx_active := active \<rparr> else l)"

definition merge_tune :: "bool list \<Rightarrow> nat \<Rightarrow> bool \<Rightarrow> bool list \<times> bool" where
  "merge_tune rx receiver active =
     (let rx' = (if receiver < 2 then rx[receiver := active] else rx) in (rx', rx' ! 0 \<or> rx' ! 1))"

definition tune_from_us :: "tci_link \<Rightarrow> nat \<Rightarrow> bool \<Rightarrow> tci_link" where
  "tune_from_us l receiver on =
     (let (rx, any) = merge_tune (tl_tune_rx l) receiver on
      in l\<lparr> tl_tune_rx := rx, tl_tune_active := any \<rparr>)"

definition thetis_on_the_air :: "tci_link \<Rightarrow> bool" where
  "thetis_on_the_air l \<longleftrightarrow> tl_thetis_tx_active l \<or> tl_tune_active l"

definition tci_set_power :: "tci_link \<Rightarrow> bool \<Rightarrow> tci_link" where
  "tci_set_power l on = tci_send l (if on then ''START;'' else ''STOP;'')"

definition tci_set_tune :: "tci_link \<Rightarrow> bool \<Rightarrow> tci_link" where
  "tci_set_tune l on =
     tune_from_us (tci_send l (''tune:0,'' @ (if on then ''true'' else ''false'') @ '';'')) 0 on"

definition run_cat :: "tci_link \<Rightarrow> string \<Rightarrow> tci_link" where
  "run_cat l zz_cmd =
     (let stripped = trim_semis (trim_text zz_cmd)
      in if stripped = [] then l else tci_send l (''run_cat_ex:'' @ stripped @ '';''))"

section \<open>What Thetis says, and what the link answers\<close>

text \<open>The commands with a fixed text that polling sends, the CAT commands the server relays, and the questions after READY.\<close>

definition POLL_QUERIES :: "string list" where
  "POLL_QUERIES = [''dds:0;'', ''dds:1;'', ''auto_recenter_owner_ex:true;'', ''AUDIO_START:1;'', ''IQ_START:1;'']"

definition RUN_CATS :: "string list" where
  "RUN_CATS = [''ZZFI'', ''ZZFJ'', ''ZZCN0'', ''ZZCN1'', ''ZZCO0'', ''ZZCO1'', ''ZZET'', ''ZZET0'', ''ZZET1'', ''ZZTI0'', ''ZZTI1'']"

record link_caps =
  lc_binaural :: bool
  lc_calibration :: bool
  lc_diversity :: bool
  lc_gain_multi :: bool
  lc_rx_only :: bool

definition init_commands :: "link_caps \<Rightarrow> string list" where
  "init_commands c =
     [''AUDIO_SAMPLERATE:48000;'', ''AUDIO_STREAM_SAMPLE_TYPE:float32;'',
      (if lc_binaural c then ''AUDIO_STREAM_CHANNELS:2;'' else ''AUDIO_STREAM_CHANNELS:1;''),
      ''AUDIO_STREAM_SAMPLES:960;'', ''AUDIO_START:0;'', ''AUDIO_START:1;'', ''IQ_START:0;'', ''IQ_START:1;'',
      ''RX_SENSORS_ENABLE:true,100;'', ''TX_SENSORS_ENABLE:true,100;'', ''VFO:0,0;'', ''VFO:0,1;'', ''VFO:1,0;'',
      ''MODULATION:0;'', ''MODULATION:1;'', ''DDS:0;'', ''DDS:1;'',
      ''agc_mode:0;'', ''agc_gain:0;'', ''rit_enable:0;'', ''rit_offset:0;'', ''xit_enable:0;'', ''xit_offset:0;'',
      ''sql_enable:0;'', ''sql_level:0;'', ''rx_nb_enable:0;'', ''cw_keyer_speed;'', ''vfo_lock:0,0;'', ''vfo_lock:1,0;'',
      ''rx_bin_enable:0;'', ''rx_apf_enable:0;'', ''rx_nf_enable:0;'', ''rx_balance:0,0;'', ''tune_drive:0;'',
      ''mon_volume;'', ''rx_nr_enable:0;'', ''rx_anf_enable:0;'', ''rx_volume:0,0;'',
      ''agc_mode:1;'', ''agc_gain:1;'', ''sql_enable:1;'', ''sql_level:1;'', ''rx_nb_enable:1;'', ''rx_bin_enable:1;'',
      ''rx_apf_enable:1;'', ''rx_nf_enable:1;'', ''tx_profiles_ex;'']
     @ (if lc_calibration c then [''calibration_ex:0;'', ''calibration_ex:1;''] else [])
     @ [''rx_ctun_ex:0;'', ''rx_ctun_ex:1;'', ''agc_auto_ex;'', ''vfo_sync_ex;'', ''tx_filter_band_ex;'']
     @ (if lc_diversity c then [''diversity_enable_ex;'', ''diversity_ref_ex;'', ''diversity_source_ex;'',
          ''diversity_gain_ex:0;'', ''diversity_gain_ex:1;'', ''diversity_phase_ex;''] else [])
     @ (if lc_gain_multi c then [''diversity_gain_multi_ex;''] else [])
     @ (if lc_rx_only c then [''rx_only_ex;''] else [])"

text \<open>A TRX report. \<open>blocked\<close> is the receive-only gate, which the link shares with the PTT controller.\<close>

definition trx_off_on :: "nat \<Rightarrow> string" where
  "trx_off_on receiver = ''TRX:'' @ decimal receiver @ '',false;''"

definition tune_off_on :: "nat \<Rightarrow> string" where
  "tune_off_on receiver = ''tune:'' @ decimal receiver @ '',false;''"

definition hear_trx :: "bool \<Rightarrow> nat \<Rightarrow> bool \<Rightarrow> tci_link \<Rightarrow> tci_link" where
  "hear_trx blocked receiver active l =
     (let (f, left) = left_behind (tl_first_trx l) receiver active (tl_tx_active l \<or> tl_we_tune l);
          l1 = l\<lparr> tl_first_trx := f \<rparr>;
          l2 = (if left then tci_send l1 (trx_off_on receiver) else l1);
          l3 = (if active then l2\<lparr> tl_tx_receiver := receiver \<rparr> else l2)
      in if active \<and> blocked then tci_send l3 (trx_off_on receiver)
         else l3\<lparr> tl_thetis_tx_active := active \<rparr>)"

definition hear_tune :: "nat \<Rightarrow> bool \<Rightarrow> tci_link \<Rightarrow> tci_link" where
  "hear_tune receiver active l =
     (if receiver < 2 then
        let (f, intent, left) = tune_report (tl_first_tune l) (tl_we_tune l) receiver active;
            l1 = l\<lparr> tl_first_tune := f, tl_we_tune := intent \<rparr>;
            l2 = (if left then tci_send l1 (tune_off_on receiver) else l1);
            (rx, any) = merge_tune (tl_tune_rx l2) receiver active
        in l2\<lparr> tl_tune_rx := rx, tl_tune_active := any \<rparr>
      else l)"

definition hear_ready :: "link_caps \<Rightarrow> tci_link \<Rightarrow> tci_link" where
  "hear_ready c l = fold (\<lambda>cmd l. tci_send l cmd) (init_commands c) (l\<lparr> tl_power_on := True \<rparr>)"

text \<open>
  What can happen in one poll: a report of Thetis, one of the timed questions and answers, the end of the
  connection. Which of them do, and in which order, is Thetis's and the clock's.
\<close>

datatype poll_act =
    HearTrx nat bool
  | HearTune nat bool
  | HearReady link_caps
  | PollQuery string
  | PollCat string
  | HearDisconnected

fun poll_one :: "bool \<Rightarrow> poll_act \<Rightarrow> tci_link \<Rightarrow> tci_link" where
  "poll_one blocked (HearTrx r active) l = hear_trx blocked r active l"
| "poll_one blocked (HearTune r active) l = hear_tune r active l"
| "poll_one blocked (HearReady c) l = hear_ready c l"
| "poll_one blocked (PollQuery q) l = (if q \<in> set POLL_QUERIES then tci_send l q else l)"
| "poll_one blocked (PollCat zz) l = (if zz \<in> set RUN_CATS then run_cat l zz else l)"
| "poll_one blocked HearDisconnected l = handle_disconnect l"

definition poll_and_parse :: "bool \<Rightarrow> poll_act list \<Rightarrow> tci_link \<Rightarrow> tci_link" where
  "poll_and_parse blocked acts l = (if tl_connected l then fold (poll_one blocked) acts l else l)"

text \<open>Stopping what Thetis was doing when the position became receive-only.\<close>

definition rx_only_stop_commands :: "nat \<Rightarrow> bool list \<Rightarrow> string list" where
  "rx_only_stop_commands trx_receiver tune_rx =
     trx_off_on trx_receiver # map (\<lambda>(rx, on). tune_off_on rx) (filter snd (enumerate 0 tune_rx))"

definition force_thetis_tx_off :: "tci_link \<Rightarrow> tci_link" where
  "force_thetis_tx_off l = fold (\<lambda>cmd l. tci_send l cmd) (rx_only_stop_commands (tl_tx_receiver l) (tl_tune_rx l)) l"

text \<open>
  The settings: every other command the server writes is one of these heads with arguments, which hold no
  semicolon (numbers, flags, keywords, and texts cleaned of it).
\<close>

definition SETTING_HEADS :: "string list" where
  "SETTING_HEADS =
     [''VFO'', ''MODULATION'', ''tx_profile_ex'', ''rx_nr_enable_ex'', ''RX_ANF_ENABLE'', ''DRIVE'', ''RX_FILTER_BAND'',
      ''vfo_swap_ex'', ''rx_volume'', ''MON_ENABLE'', ''agc_mode'', ''agc_gain'', ''rit_enable'', ''rit_offset'',
      ''xit_enable'', ''xit_offset'', ''sql_enable'', ''sql_level'', ''rx_nb_enable'', ''rx_nb_enable_ex'',
      ''cw_keyer_speed'', ''keyer'', ''cw_macros_stop'', ''vfo_lock'', ''rx_bin_enable'', ''AUDIO_STREAM_CHANNELS'',
      ''rx_apf_enable'', ''mute'', ''rx_mute'', ''rx_nf_enable'', ''rx_balance'', ''tune_drive'', ''mon_volume'',
      ''SPOT'', ''SPOT_CLEAR'', ''diversity_autonull_ex'', ''diversity_sweep_ex'', ''diversity_smartnull_ex'',
      ''diversity_ultranull_ex'', ''diversity_fastsweep_ex'', ''rx_ctun_ex'', ''vfo_sync_ex'', ''fm_deviation_ex'',
      ''diversity_enable_ex'', ''rx_only_ex'', ''diversity_ref_ex'', ''diversity_source_ex'', ''diversity_gain_ex'',
      ''diversity_phase_ex'', ''diversity_gain_multi_ex'', ''ddc_sample_rate_ex'', ''rx_step_att_ex'',
      ''rx_step_att_enabled_ex'', ''rx_preamp_att_ex'', ''tx_filter_band_ex'', ''agc_auto_ex'', ''tx_frequency_ex'']"

definition send_setting :: "tci_link \<Rightarrow> string \<Rightarrow> string option \<Rightarrow> tci_link" where
  "send_setting l head args =
     (if head \<in> set SETTING_HEADS
      then tci_send l (head @ (case args of None \<Rightarrow> [] | Some a \<Rightarrow> CHR '':'' # filter (\<lambda>c. c \<noteq> CHR '';'') a) @ '';'')
      else l)"

section \<open>What the link promises\<close>

text \<open>
  A command goes out exactly when the link is up and has room, and then it is the last thing that
  went out; a link without room is dropped, and nothing more goes out on it.
\<close>

lemma tci_send_outbox:
  "tl_outbox (tci_send l cmd) =
     (if tl_connected l \<and> tl_room l then tl_outbox l @ [cmd] else tl_outbox l)"
  by (auto simp: tci_send_def tune_intent_sent_def handle_disconnect_def Let_def split: option.splits)

lemma tci_send_fields [simp]:
  "tl_tx_active (tci_send l cmd) = tl_tx_active l"
  "tl_room (tci_send l cmd) = tl_room l"
  by (auto simp: tci_send_def tune_intent_sent_def handle_disconnect_def Let_def split: option.splits)

lemma tci_send_connected [simp]:
  "tl_connected (tci_send l cmd) \<longleftrightarrow> tl_connected l \<and> tl_room l"
  by (auto simp: tci_send_def tune_intent_sent_def handle_disconnect_def Let_def split: option.splits)

lemma set_tx_active_fields [simp]:
  "tl_tx_active (set_tx_active l a) = a" "tl_outbox (set_tx_active l a) = tl_outbox l"
  "tl_connected (set_tx_active l a) = tl_connected l" "tl_room (set_tx_active l a) = tl_room l"
  by (auto simp: set_tx_active_def)

text \<open>Numbers survive being written and read.\<close>

lemma digit_char_value [simp]: "d < 10 \<Longrightarrow> digit_value (digit_char d) = Some d"
  by (simp add: digit_value_def digit_char_def)

lemma parse_digits_append:
  "parse_digits acc (xs @ ys) = (case parse_digits acc xs of None \<Rightarrow> None | Some a \<Rightarrow> parse_digits a ys)"
  by (induction xs arbitrary: acc) (auto split: option.splits)

lemma parse_digits_decimal: "parse_digits 0 (decimal n) = Some n"
proof (induction n rule: decimal.induct)
  case (1 n)
  then show ?case
    by (subst decimal.simps) (auto simp: parse_digits_append)
qed

lemma decimal_digits: "c \<in> set (decimal n) \<Longrightarrow> digit_value c \<noteq> None"
proof (induction n rule: decimal.induct)
  case (1 n)
  then show ?case by (subst (asm) (2) decimal.simps) (auto split: if_splits)
qed

lemma decimal_nonempty [simp]: "decimal n \<noteq> []"
  by (subst decimal.simps) simp

lemma parse_uint_decimal:
  assumes "n < bound"
  shows "parse_uint bound (decimal n) = Some n"
proof (cases "decimal n")
  case Nil
  then show ?thesis by simp
next
  case (Cons c cs)
  then have "digit_value c \<noteq> None" using decimal_digits [of c n] by simp
  then have "c \<noteq> CHR ''+''" by (auto simp: digit_value_def)
  then show ?thesis using assms Cons parse_digits_decimal [of n] by (simp add: parse_uint_def)
qed

end
