(* ===== verification/PttController.thy ===== *)
theory PttController
  imports TciLink PttSafety
begin

text \<open>
  The PTT controller of the server (\<^verbatim>\<open>sdr-remote-server/src/ptt.rs\<close>, \<^verbatim>\<open>PttController\<close>) and the
  decision on a power-on (\<^verbatim>\<open>sdr-remote-core/src/thetis_power.rs\<close>): keying and unkeying Thetis, the
  prefill and the tail, the two safety time-outs, the receive-only gate, the translation of CAT
  commands, and starting Thetis. Each call reads the clock once, \<open>now\<close>. What the operating system
  and the radio answer is the argument \<open>env\<close>: whether Thetis.exe runs at the two places
  \<^verbatim>\<open>check_safety\<close> asks, whether the launch worked, and what polling does to the link (any function here;
  \<^verbatim>\<open>TxGate\<close> puts the polling of \<^verbatim>\<open>TciLink\<close> in its place). A launch is
  recorded in \<open>pc_launches\<close>. The turnaround watch counts milliseconds on \<^verbatim>\<open>turnaround_clock\<close>. Not
  modelled: the percentiles that are logged, and the accessors that only hand on a field of the
  link.
\<close>

section \<open>Power-on\<close>

datatype power_on_step =
    SendPowerOn | Launch | WaitForConnection | WaitForExitThenLaunch | Ignore

record power_on_inputs =
  po_connected :: bool
  po_have_path :: bool
  po_launch_pending :: bool
  po_process_running :: bool
  po_shutdown_pending :: bool

definition power_on_step :: "power_on_inputs \<Rightarrow> power_on_step" where
  "power_on_step i =
     (if po_connected i then SendPowerOn
      else if \<not> po_have_path i then SendPowerOn
      else if po_launch_pending i then Ignore
      else if po_process_running i then
        (if po_shutdown_pending i then WaitForExitThenLaunch else WaitForConnection)
      else Launch)"

definition forget_shutdown :: "bool \<Rightarrow> nat \<Rightarrow> nat \<Rightarrow> bool" where
  "forget_shutdown process_running waited_secs patience_secs \<longleftrightarrow>
     \<not> process_running \<or> waited_secs > patience_secs"

section \<open>State\<close>

definition THETIS_LAUNCH_TIMEOUT_S :: nat where "THETIS_LAUNCH_TIMEOUT_S = 60"
definition PTT_TAIL_MIN_MS_TCI :: nat where "PTT_TAIL_MIN_MS_TCI = 25"
definition PTT_TAIL_MARGIN_MS_TCI :: nat where "PTT_TAIL_MARGIN_MS_TCI = 10"
definition PTT_PREFILL_MS_TCI :: nat where "PTT_PREFILL_MS_TCI = 10"

record ptt_controller =
  pc_state :: ptt_state
  pc_last_ptt_packet :: "instant option"
  pc_last_heartbeat :: "instant option"
  pc_pending_activate :: "instant option"
  pc_pending_release :: "instant option"
  pc_tail_delay_ms :: nat
  pc_ptt_active :: bool
  pc_tci :: tci_link
  pc_thetis_path :: "string option"
  pc_pending_power_on :: bool
  pc_thetis_launch_time :: "instant option"
  pc_thetis_shutdown_time :: "instant option"
  pc_thetis_relaunch_when_gone :: bool
  pc_tx_blocked :: bool
  pc_last_blocked_log :: "instant option"
  pc_prefill_start :: "instant option"
  pc_release_start :: "instant option"
  pc_prefill_latencies :: "nat list"
  pc_tail_latencies :: "nat list"
  pc_rx_back_off_at :: nat
  pc_launches :: "string list"

definition new_tci :: "tci_link \<Rightarrow> string option \<Rightarrow> ptt_controller" where
  "new_tci link thetis_path =
     \<lparr> pc_state = Rx, pc_last_ptt_packet = None, pc_last_heartbeat = None,
       pc_pending_activate = None, pc_pending_release = None,
       pc_tail_delay_ms = PTT_TAIL_MIN_MS_TCI, pc_ptt_active = False, pc_tci = link,
       pc_thetis_path = thetis_path, pc_pending_power_on = False, pc_thetis_launch_time = None,
       pc_thetis_shutdown_time = None, pc_thetis_relaunch_when_gone = False, pc_tx_blocked = False,
       pc_last_blocked_log = None, pc_prefill_start = None, pc_release_start = None,
       pc_prefill_latencies = [], pc_tail_latencies = [], pc_rx_back_off_at = 0, pc_launches = [] \<rparr>"

record ptt_env =
  pe_poll :: "tci_link \<Rightarrow> tci_link"
  pe_running :: bool
  pe_running_later :: bool
  pe_launch_works :: bool

section \<open>The turnaround watch\<close>

text \<open>Milliseconds since the start of the server, plus one: never the zero that means "not waiting".\<close>

definition turnaround_clock :: "instant \<Rightarrow> nat" where
  "turnaround_clock now = as_millis now + 1"

section \<open>Keying\<close>

definition TRX_ON :: string where "TRX_ON = ''TRX:0,true,tci;''"
definition TRX_OFF :: string where "TRX_OFF = ''TRX:0,false;''"

definition note_latency :: "ptt_controller \<Rightarrow> bool \<Rightarrow> instant \<Rightarrow> ptt_controller" where
  "note_latency p is_tx now =
     (if is_tx then
        (case pc_prefill_start p of
           None \<Rightarrow> p
         | Some start \<Rightarrow>
             p\<lparr> pc_prefill_start := None,
                pc_prefill_latencies := pc_prefill_latencies p @ [as_millis (now - start)] \<rparr>)
      else
        (case pc_release_start p of
           None \<Rightarrow> p
         | Some start \<Rightarrow>
             (let tl = pc_tail_latencies p @ [as_millis (now - start)]
              in if length tl \<ge> 10
                 then p\<lparr> pc_release_start := None, pc_prefill_latencies := [], pc_tail_latencies := [] \<rparr>
                 else p\<lparr> pc_release_start := None, pc_tail_latencies := tl \<rparr>)))"

definition set_state :: "ptt_controller \<Rightarrow> ptt_state \<Rightarrow> instant \<Rightarrow> ptt_controller" where
  "set_state p new_state now =
     (if new_state = Tx \<and> pc_tx_blocked p then
        (if pc_state p = Tx
         then p\<lparr> pc_state := Rx, pc_ptt_active := False,
                 pc_tci := tci_send (set_tx_active (pc_tci p) False) TRX_OFF \<rparr>
         else p)
      else
        let old = pc_state p;
            is_tx = (new_state = Tx);
            p1 = p\<lparr> pc_state := new_state, pc_ptt_active := is_tx \<rparr>;
            p2 = note_latency p1 is_tx now;
            p3 = p2\<lparr> pc_tci := tci_send (set_tx_active (pc_tci p2) is_tx)
                                 (if is_tx then TRX_ON else TRX_OFF) \<rparr>
        in if is_tx then p3\<lparr> pc_rx_back_off_at := 0 \<rparr>
           else if old = Tx then p3\<lparr> pc_rx_back_off_at := turnaround_clock now \<rparr>
           else p3)"

definition packet_silence :: "ptt_controller \<Rightarrow> instant \<Rightarrow> duration option" where
  "packet_silence p now = map_option (\<lambda>t. now - t) (pc_last_ptt_packet p)"

definition record_ptt_packet :: "ptt_controller \<Rightarrow> instant \<Rightarrow> ptt_controller" where
  "record_ptt_packet p now = p\<lparr> pc_last_ptt_packet := Some now, pc_last_heartbeat := Some now \<rparr>"

definition record_cw_activity :: "ptt_controller \<Rightarrow> instant \<Rightarrow> ptt_controller" where
  "record_cw_activity p now = p\<lparr> pc_last_ptt_packet := Some now \<rparr>"

definition heartbeat_received :: "ptt_controller \<Rightarrow> instant \<Rightarrow> ptt_controller" where
  "heartbeat_received p now = p\<lparr> pc_last_heartbeat := Some now \<rparr>"

definition activate_from_playout :: "ptt_controller \<Rightarrow> instant \<Rightarrow> ptt_controller" where
  "activate_from_playout p now =
     (if pc_tx_blocked p then
        (if (case pc_last_blocked_log p of None \<Rightarrow> True | Some t \<Rightarrow> now - t \<ge> secs 2)
         then p\<lparr> pc_last_blocked_log := Some now \<rparr> else p)
      else
        let p1 = p\<lparr> pc_last_blocked_log := None, pc_pending_release := None \<rparr>
        in if pc_state p1 \<noteq> Tx \<and> pc_pending_activate p1 = None
           then p1\<lparr> pc_pending_activate := Some now, pc_prefill_start := Some now \<rparr>
           else p1)"

definition activate_for_cw :: "ptt_controller \<Rightarrow> instant \<Rightarrow> ptt_controller \<times> bool" where
  "activate_for_cw p now =
     (if pc_tx_blocked p then (p, False)
      else
        let p1 = record_ptt_packet (p\<lparr> pc_pending_release := None, pc_pending_activate := None \<rparr>) now;
            p2 = (if pc_state p1 \<noteq> Tx then set_state p1 Tx now else p1)
        in (p2, pc_state p2 = Tx))"

definition check_prefill :: "ptt_controller \<Rightarrow> instant \<Rightarrow> ptt_controller" where
  "check_prefill p now =
     (case pc_pending_activate p of
        None \<Rightarrow> p
      | Some start \<Rightarrow>
          if as_millis (now - start) \<ge> PTT_PREFILL_MS_TCI
          then set_state (p\<lparr> pc_pending_activate := None \<rparr>) Tx now else p)"

definition is_tx_or_prefill :: "ptt_controller \<Rightarrow> bool" where
  "is_tx_or_prefill p \<longleftrightarrow> pc_state p = Tx \<or> pc_pending_activate p \<noteq> None"

definition cancel_prefill :: "ptt_controller \<Rightarrow> ptt_controller" where
  "cancel_prefill p = p\<lparr> pc_pending_activate := None \<rparr>"

definition release_from_playout :: "ptt_controller \<Rightarrow> nat \<Rightarrow> instant \<Rightarrow> ptt_controller \<times> bool" where
  "release_from_playout p jitter_depth now =
     (if pc_state p = Tx \<and> pc_pending_release p = None
      then (p\<lparr> pc_tail_delay_ms := max (jitter_depth * 20 + PTT_TAIL_MARGIN_MS_TCI) PTT_TAIL_MIN_MS_TCI,
               pc_pending_release := Some now, pc_release_start := Some now \<rparr>, True)
      else (p, False))"

definition tail_delay :: "ptt_controller \<Rightarrow> duration" where
  "tail_delay p = ms (pc_tail_delay_ms p)"

definition tail_due :: "ptt_controller \<Rightarrow> instant \<Rightarrow> bool" where
  "tail_due p now \<longleftrightarrow>
     pc_state p = Tx \<and>
     (case pc_pending_release p of None \<Rightarrow> False | Some t \<Rightarrow> as_millis (now - t) \<ge> pc_tail_delay_ms p)"

definition finish_tail_if_due :: "ptt_controller \<Rightarrow> instant \<Rightarrow> ptt_controller" where
  "finish_tail_if_due p now =
     (if tail_due p now then set_state (p\<lparr> pc_pending_release := None \<rparr>) Rx now else p)"

definition force_release :: "ptt_controller \<Rightarrow> instant \<Rightarrow> ptt_controller" where
  "force_release p now = set_state (p\<lparr> pc_pending_activate := None \<rparr>) Rx now"

definition ptt_release :: "ptt_controller \<Rightarrow> instant \<Rightarrow> ptt_controller" where
  "ptt_release p now =
     (let p1 = p\<lparr> pc_pending_activate := None, pc_pending_release := None \<rparr>
      in if pc_state p1 = Tx then set_state p1 Rx now else p1)"

section \<open>CAT\<close>

fun cat_mode_to_tci :: "nat \<Rightarrow> string" where
  "cat_mode_to_tci mode =
     (if mode < 12
      then [''lsb'', ''usb'', ''dsb'', ''cwl'', ''cwu'', ''fm'', ''am'', ''digu'', ''spec'', ''digl'',
            ''sam'', ''drm''] ! mode
      else ''usb'')"

definition slice :: "nat \<Rightarrow> nat \<Rightarrow> string \<Rightarrow> string" where
  "slice a b s = take (b - a) (drop a s)"

definition or_else :: "'a option \<Rightarrow> 'a option \<Rightarrow> 'a option" where
  "or_else x y = (case x of Some a \<Rightarrow> Some a | None \<Rightarrow> y)"

text \<open>One arm of the translation: the prefix and the length, a number, and what it becomes.\<close>

definition cat_arm :: "string \<Rightarrow> nat \<Rightarrow> nat \<Rightarrow> (nat \<Rightarrow> string) \<Rightarrow> string \<Rightarrow> string option" where
  "cat_arm prefix len bound out cmd =
     (if starts_with prefix cmd \<and> length cmd \<ge> len
      then map_option out (parse_uint bound (slice 4 len cmd)) else None)"

definition cat_to_tci :: "string \<Rightarrow> string option" where
  "cat_to_tci cmd0 =
     (let cmd = trim_semis cmd0
      in or_else (cat_arm ''ZZFA'' 15 (2 ^ 64) (\<lambda>hz. ''vfo:0,0,'' @ decimal hz @ '';'') cmd)
        (or_else (cat_arm ''ZZFB'' 15 (2 ^ 64) (\<lambda>hz. ''vfo:1,0,'' @ decimal hz @ '';'') cmd)
        (or_else (cat_arm ''ZZMD'' 6 256 (\<lambda>n. ''modulation:0,'' @ cat_mode_to_tci n @ '';'') cmd)
        (or_else (cat_arm ''ZZME'' 6 256 (\<lambda>n. ''modulation:1,'' @ cat_mode_to_tci n @ '';'') cmd)
          (if cmd = ''ZZTU1'' then Some ''tune:0,true;''
           else if cmd = ''ZZTU0'' then Some ''tune:0,false;''
           else if cmd = ''ZZTX1'' then Some ''trx:0,true,tci;''
           else if cmd = ''ZZTX0'' then Some ''trx:0,false;''
           else None)))))"

definition send_cat :: "ptt_controller \<Rightarrow> string \<Rightarrow> ptt_controller" where
  "send_cat p cmd =
     (let trimmed = trim_semis cmd
      in if (eq_ignore_ascii_case trimmed ''ZZTX1'' \<or> eq_ignore_ascii_case trimmed ''ZZTU1'') \<and> pc_tx_blocked p
         then p
         else if starts_with ''ZZ'' cmd then
           (case cat_to_tci cmd of
              Some tci_cmd \<Rightarrow> p\<lparr> pc_tci := tci_send (pc_tci p) tci_cmd \<rparr>
            | None \<Rightarrow> p\<lparr> pc_tci := run_cat (pc_tci p) (trim_semis cmd) \<rparr>)
         else p\<lparr> pc_tci := tci_send (pc_tci p) cmd \<rparr>)"

text \<open>The texts the server itself passes to \<^verbatim>\<open>send_cat\<close>, besides the shutdown.\<close>

definition signed_text :: "int \<Rightarrow> string" where
  "signed_text n = (if n < 0 then CHR ''-'' # decimal (nat (- n)) else decimal (nat n))"

definition padded :: "nat \<Rightarrow> nat \<Rightarrow> string" where
  "padded width n = replicate (width - length (decimal n)) (CHR ''0'') @ decimal n"

definition rx_volume_text :: "nat \<Rightarrow> string" where
  "rx_volume_text percent = ''rx_volume:0,0,'' @ signed_text (- int ((100 - min percent 100) * 60 div 100)) @ '';''"

datatype server_cat =
    CatRxVolume nat
  | CatTxOff
  | CatTuner bool
  | CatDiversityEnable bool
  | CatDiversityRef bool
  | CatDiversitySource nat
  | CatDiversityGain nat nat
  | CatDiversityPhase int

text \<open>The tuner's command, as the equipment loop translates it before \<^verbatim>\<open>send_cat\<close> (\<^verbatim>\<open>network.rs\<close>).\<close>

fun contains :: "string \<Rightarrow> string \<Rightarrow> bool" where
  "contains needle [] \<longleftrightarrow> needle = []"
| "contains needle (c # cs) \<longleftrightarrow> starts_with needle (c # cs) \<or> contains needle cs"

definition tuner_command :: "string \<Rightarrow> string" where
  "tuner_command cmd =
     (if contains ''ZZTU1'' cmd then ''TUNE:0,true;''
      else if contains ''ZZTU0'' cmd then ''TUNE:0,false;''
      else cmd)"

fun server_cat_text :: "server_cat \<Rightarrow> string" where
  "server_cat_text (CatRxVolume percent) = rx_volume_text percent"
| "server_cat_text CatTxOff = ''ZZTX0''"
| "server_cat_text (CatTuner carrier) = tuner_command (if carrier then ''ZZTU1;'' else ''ZZTU0;'')"
| "server_cat_text (CatDiversityEnable enabled) = (if enabled then ''ZZDE1;'' else ''ZZDE0;'')"
| "server_cat_text (CatDiversityRef rx1_ref) = (if rx1_ref then ''ZZDB0;'' else ''ZZDB1;'')"
| "server_cat_text (CatDiversitySource source) = ''ZZDH'' @ decimal source @ '';''"
| "server_cat_text (CatDiversityGain rx gain) =
     (if rx = 0 then ''ZZDG'' else ''ZZDC'') @ padded 4 (min gain 9999) @ '';''"
| "server_cat_text (CatDiversityPhase phase) =
     ''ZZDD'' @ (if phase \<ge> 0 then ''+'' else ''-'') @ padded 5 (nat \<bar>phase\<bar>) @ '';''"

definition ptt_set_tune :: "ptt_controller \<Rightarrow> bool \<Rightarrow> ptt_controller" where
  "ptt_set_tune p on = p\<lparr> pc_tci := tci_set_tune (pc_tci p) on \<rparr>"

section \<open>Thetis on and off\<close>

definition set_power :: "ptt_controller \<Rightarrow> bool \<Rightarrow> bool \<Rightarrow> bool \<Rightarrow> instant \<Rightarrow> ptt_controller" where
  "set_power p on running launch_works now =
     (if \<not> on then
        let p1 = p\<lparr> pc_pending_power_on := False, pc_thetis_launch_time := None,
                    pc_thetis_relaunch_when_gone := False \<rparr>
        in if tl_connected (pc_tci p1) then p1\<lparr> pc_tci := tci_set_power (pc_tci p1) False \<rparr> else p1
      else
        let step = power_on_step
              \<lparr> po_connected = tl_connected (pc_tci p), po_have_path = pc_thetis_path p \<noteq> None,
                po_launch_pending = pc_pending_power_on p, po_process_running = running,
                po_shutdown_pending = pc_thetis_shutdown_time p \<noteq> None \<rparr>;
            wait = (\<lambda>q. q\<lparr> pc_pending_power_on := True, pc_thetis_launch_time := Some now \<rparr>)
        in case step of
             SendPowerOn \<Rightarrow> p\<lparr> pc_tci := tci_set_power (pc_tci p) True \<rparr>
           | Ignore \<Rightarrow> p
           | Launch \<Rightarrow>
               (let p1 = p\<lparr> pc_launches := pc_launches p @ [the (pc_thetis_path p)] \<rparr>
                in if launch_works then wait p1 else p1)
           | WaitForConnection \<Rightarrow> wait p
           | WaitForExitThenLaunch \<Rightarrow> wait (p\<lparr> pc_thetis_relaunch_when_gone := True \<rparr>))"

definition request_thetis_shutdown :: "ptt_controller \<Rightarrow> instant \<Rightarrow> ptt_controller" where
  "request_thetis_shutdown p now =
     send_cat (p\<lparr> pc_thetis_shutdown_time := Some now, pc_thetis_relaunch_when_gone := False \<rparr>)
       ''shutdown_ex;''"

section \<open>The safety tick\<close>

definition clocks_of :: "ptt_controller \<Rightarrow> instant \<Rightarrow> safety_clocks" where
  "clocks_of p now =
     \<lparr> sc_state = pc_state p, sc_since_heartbeat = map_option (\<lambda>t. now - t) (pc_last_heartbeat p),
       sc_since_packet = map_option (\<lambda>t. now - t) (pc_last_ptt_packet p),
       sc_heartbeat_timeout = ms HEARTBEAT_TIMEOUT_MS, sc_packet_timeout = ms PTT_PACKET_TIMEOUT_MS \<rparr>"

text \<open>The four parts of the tick behind the safety decision, in their order.\<close>

definition auto_power_on :: "ptt_controller \<Rightarrow> ptt_controller" where
  "auto_power_on p =
     (if pc_pending_power_on p \<and> tl_connected (pc_tci p)
      then p\<lparr> pc_tci := tci_set_power (pc_tci p) True, pc_pending_power_on := False,
              pc_thetis_launch_time := None, pc_thetis_relaunch_when_gone := False,
              pc_thetis_shutdown_time := None \<rparr>
      else p)"

definition relaunch_when_gone :: "ptt_env \<Rightarrow> ptt_controller \<Rightarrow> ptt_controller" where
  "relaunch_when_gone env p =
     (if pc_thetis_relaunch_when_gone p \<and> \<not> pe_running env then
        let p1 = p\<lparr> pc_thetis_relaunch_when_gone := False, pc_thetis_shutdown_time := None \<rparr>
        in case pc_thetis_path p1 of
             None \<Rightarrow> p1
           | Some path \<Rightarrow>
               (let p2 = p1\<lparr> pc_launches := pc_launches p1 @ [path] \<rparr>
                in if pe_launch_works env then p2
                   else p2\<lparr> pc_pending_power_on := False, pc_thetis_launch_time := None \<rparr>)
      else p)"

definition launch_timeout :: "instant \<Rightarrow> ptt_controller \<Rightarrow> ptt_controller" where
  "launch_timeout now p =
     (if pc_pending_power_on p then
        (case pc_thetis_launch_time p of
           None \<Rightarrow> p
         | Some launch_time \<Rightarrow>
             if as_secs (now - launch_time) > THETIS_LAUNCH_TIMEOUT_S
             then p\<lparr> pc_pending_power_on := False, pc_thetis_launch_time := None,
                     pc_thetis_relaunch_when_gone := False \<rparr>
             else p)
      else p)"

definition shutdown_over :: "ptt_env \<Rightarrow> instant \<Rightarrow> ptt_controller \<Rightarrow> ptt_controller" where
  "shutdown_over env now p =
     (case pc_thetis_shutdown_time p of
        None \<Rightarrow> p
      | Some asked \<Rightarrow>
          if forget_shutdown (pe_running_later env) (as_secs (now - asked)) THETIS_LAUNCH_TIMEOUT_S
          then p\<lparr> pc_thetis_shutdown_time := None \<rparr> else p)"

definition check_safety :: "ptt_env \<Rightarrow> ptt_controller \<Rightarrow> instant \<Rightarrow> ptt_controller \<times> bool" where
  "check_safety env p now =
     (if safety_action (clocks_of p now) \<noteq> NoSafetyAction
      then (force_release (p\<lparr> pc_pending_release := None \<rparr>) now, True)
      else
        let p1 = finish_tail_if_due p now;
            p2 = p1\<lparr> pc_tci := pe_poll env (pc_tci p1) \<rparr>
        in (shutdown_over env now (launch_timeout now (relaunch_when_gone env (auto_power_on p2))), False))"

section \<open>Keying, one command at a time\<close>

lemma note_latency_fields [simp]:
  "pc_state (note_latency p b now) = pc_state p" "pc_tci (note_latency p b now) = pc_tci p"
  "pc_ptt_active (note_latency p b now) = pc_ptt_active p"
  "pc_tx_blocked (note_latency p b now) = pc_tx_blocked p"
  "pc_pending_activate (note_latency p b now) = pc_pending_activate p"
  "pc_pending_release (note_latency p b now) = pc_pending_release p"
  "pc_pending_power_on (note_latency p b now) = pc_pending_power_on p"
  "pc_thetis_path (note_latency p b now) = pc_thetis_path p"
  "pc_thetis_relaunch_when_gone (note_latency p b now) = pc_thetis_relaunch_when_gone p"
  "pc_launches (note_latency p b now) = pc_launches p"
  by (auto simp: note_latency_def Let_def split: option.splits)

lemma set_state_fields [simp]:
  "pc_tx_blocked (set_state p s now) = pc_tx_blocked p"
  "pc_pending_activate (set_state p s now) = pc_pending_activate p"
  "pc_pending_release (set_state p s now) = pc_pending_release p"
  "pc_launches (set_state p s now) = pc_launches p"
  by (auto simp: set_state_def Let_def)

lemma set_state_state:
  "pc_state (set_state p s now) = (if s = Tx \<and> pc_tx_blocked p then Rx else s)"
  by (cases "pc_state p") (auto simp: set_state_def Let_def)

lemma set_state_rx:
  "pc_state (set_state p Rx now) = Rx" "\<not> pc_ptt_active (set_state p Rx now)"
  "tl_outbox (pc_tci (set_state p Rx now)) =
     (if tl_connected (pc_tci p) \<and> tl_room (pc_tci p) then tl_outbox (pc_tci p) @ [TRX_OFF]
      else tl_outbox (pc_tci p))"
  by (auto simp: set_state_def Let_def tci_send_outbox)

lemma set_state_tx:
  "\<not> pc_tx_blocked p \<Longrightarrow> pc_state (set_state p Tx now) = Tx \<and> pc_ptt_active (set_state p Tx now) \<and>
     tl_outbox (pc_tci (set_state p Tx now)) =
       (if tl_connected (pc_tci p) \<and> tl_room (pc_tci p) then tl_outbox (pc_tci p) @ [TRX_ON]
        else tl_outbox (pc_tci p))"
  by (auto simp: set_state_def Let_def tci_send_outbox)

lemma tick_parts_keep:
  "pc_state (auto_power_on p) = pc_state p" "pc_state (relaunch_when_gone env p) = pc_state p"
  "pc_state (launch_timeout now p) = pc_state p" "pc_state (shutdown_over env now p) = pc_state p"
  "pc_tci (relaunch_when_gone env p) = pc_tci p" "pc_tci (launch_timeout now p) = pc_tci p"
  "pc_tci (shutdown_over env now p) = pc_tci p"
  by (auto simp: auto_power_on_def relaunch_when_gone_def launch_timeout_def shutdown_over_def Let_def
      split: option.splits)

lemma send_cat_fields [simp]: "pc_tx_blocked (send_cat p cmd) = pc_tx_blocked p"
  by (simp add: send_cat_def Let_def split: option.splits)

lemma finish_tail_fields [simp]: "pc_tx_blocked (finish_tail_if_due p now) = pc_tx_blocked p"
  by (simp add: finish_tail_if_due_def)

lemma tick_parts_blocked:
  "pc_tx_blocked (auto_power_on p) = pc_tx_blocked p" "pc_tx_blocked (relaunch_when_gone env p) = pc_tx_blocked p"
  "pc_tx_blocked (launch_timeout now p) = pc_tx_blocked p" "pc_tx_blocked (shutdown_over env now p) = pc_tx_blocked p"
  by (auto simp: auto_power_on_def relaunch_when_gone_def launch_timeout_def shutdown_over_def Let_def
      split: option.splits)

section \<open>The gate on commands\<close>

lemma cat_to_tci_keying:
  assumes "cat_to_tci cmd = Some t" "t = ''trx:0,true,tci;'' \<or> t = ''tune:0,true;''"
  shows "trim_semis cmd = ''ZZTX1'' \<or> trim_semis cmd = ''ZZTU1''"
  using assms
  by (auto simp: cat_to_tci_def or_else_def cat_arm_def Let_def split: option.splits if_splits)

section \<open>Properties\<close>

definition demo_link :: tci_link where
  "demo_link = \<lparr> tl_connected = True, tl_room = True, tl_outbox = [], tl_tx_off_count = 0,
     tl_we_tune = False, tl_tx_active = False, tl_thetis_tx_active = False,
     tl_tune_rx = [False, False], tl_tune_active = False, tl_power_on = True,
     tl_first_trx = first_report_default, tl_first_tune = first_report_default, tl_tx_receiver = 0 \<rparr>"

text \<open>
  C5. The transmitter is let go when the client falls silent: after a safety tick the state is transmit
  only if a packet and a heartbeat were both heard within the last two seconds; when the tick lets go,
  both pending clocks are cleared and the last command on a working link is TRX off.
\<close>

theorem keyed_only_within_both_windows:
  "(pc_state (fst (check_safety env p now)) = Tx \<longrightarrow>
      (\<exists>h k. pc_last_heartbeat p = Some h \<and> now - h \<le> ms 2000 \<and>
             pc_last_ptt_packet p = Some k \<and> now - k \<le> ms 2000)) \<and>
   (snd (check_safety env p now) \<longrightarrow>
      pc_state p = Tx \<and> pc_state (fst (check_safety env p now)) = Rx \<and>
      \<not> pc_ptt_active (fst (check_safety env p now)) \<and>
      pc_pending_activate (fst (check_safety env p now)) = None \<and>
      pc_pending_release (fst (check_safety env p now)) = None \<and>
      (tl_connected (pc_tci p) \<and> tl_room (pc_tci p) \<longrightarrow>
         last (tl_outbox (pc_tci (fst (check_safety env p now)))) = TRX_OFF))"
proof (cases "safety_action (clocks_of p now) = NoSafetyAction")
  case False
  then have "pc_state p = Tx" by (auto simp: safety_action_def clocks_of_def split: if_splits)
  then show ?thesis using False by (simp add: check_safety_def force_release_def set_state_rx)
next
  case True
  have tail: "pc_state (finish_tail_if_due p now) = Tx \<longrightarrow> pc_state p = Tx"
    by (auto simp: finish_tail_if_due_def tail_due_def)
  from True show ?thesis
    using tail unfolding safety_action_none_iff
    by (auto simp: check_safety_def tick_parts_keep clocks_of_def Let_def PTT_PACKET_TIMEOUT_MS_def
        HEARTBEAT_TIMEOUT_MS_def safety_action_none_iff)
qed

definition demo_ptt_env :: ptt_env where
  "demo_ptt_env = \<lparr> pe_poll = (\<lambda>l. l), pe_running = False, pe_running_later = False, pe_launch_works = True \<rparr>"

theorem keyed_only_within_both_windows_witness:
  "let p = (new_tci demo_link None)\<lparr> pc_state := Tx, pc_last_ptt_packet := Some 0, pc_last_heartbeat := Some (ms 2500) \<rparr>
   in snd (check_safety demo_ptt_env p (ms 2501)) \<and> pc_state (fst (check_safety demo_ptt_env p (ms 2501))) = Rx"
proof -
  let ?p = "(new_tci demo_link None)\<lparr> pc_state := Tx, pc_last_ptt_packet := Some 0, pc_last_heartbeat := Some (ms 2500) \<rparr>"
  have "snd (check_safety demo_ptt_env ?p (ms 2501))"
    by (simp add: check_safety_def clocks_of_def safety_action_def new_tci_def HEARTBEAT_TIMEOUT_MS_def PTT_PACKET_TIMEOUT_MS_def)
  then show ?thesis using keyed_only_within_both_windows [of demo_ptt_env ?p "ms 2501"] by (simp add: Let_def)
qed

text \<open>
  The tail: a release from playout while transmitting starts one tail, of twenty milliseconds per
  buffered frame and ten more, never under twenty-five; further release frames do not restart it;
  it ends the transmission exactly when that time has passed, and a press before that cancels it.
\<close>

theorem tail_lasts_its_time:
  assumes "pc_state p = Tx" "pc_pending_release p = None" "\<not> pc_tx_blocked p"
    and "release_from_playout p depth t0 = (q, started)"
  shows "started \<and> release_from_playout q depth' t1 = (q, False) \<and>
         (pc_state (finish_tail_if_due q now) = Rx \<longleftrightarrow> max 25 (20 * depth + 10) \<le> as_millis (now - t0)) \<and>
         (pc_state (finish_tail_if_due q now) = Tx \<longrightarrow> finish_tail_if_due q now = q) \<and>
         finish_tail_if_due (activate_from_playout q t1) now = activate_from_playout q t1 \<and>
         pc_state (activate_from_playout q t1) = Tx"
proof -
  have q: "q = p\<lparr> pc_tail_delay_ms := max (depth * 20 + 10) 25, pc_pending_release := Some t0, pc_release_start := Some t0 \<rparr>" "started"
    using assms by (auto simp: release_from_playout_def PTT_TAIL_MARGIN_MS_TCI_def PTT_TAIL_MIN_MS_TCI_def)
  then show ?thesis using assms
    by (auto simp: release_from_playout_def finish_tail_if_due_def tail_due_def set_state_state
        activate_from_playout_def Let_def max_def split: if_splits)
qed

theorem tail_lasts_its_time_witness:
  "pc_state (finish_tail_if_due (fst (release_from_playout ((new_tci demo_link None)\<lparr> pc_state := Tx \<rparr>) 2 0)) (ms 50)) = Rx"
  using tail_lasts_its_time [of "(new_tci demo_link None)\<lparr> pc_state := Tx \<rparr>" 2 0 _ _ 0 0 "ms 50"]
  by (cases "release_from_playout ((new_tci demo_link None)\<lparr> pc_state := Tx \<rparr>) 2 0")
    (simp add: new_tci_def as_millis_def)

text \<open>
  A power-on while Thetis is closing starts it once, when it is gone: with a shutdown outstanding
  and the process still there, the request launches nothing and is remembered; a tick that still finds
  the process launches nothing; the first tick that finds it gone launches it once, and the next tick
  does not launch it again.
\<close>

theorem power_on_while_closing_launches_once:
  assumes "\<not> tl_connected (pc_tci p)" "pc_thetis_path p = Some path" "\<not> pc_pending_power_on p"
    and "pc_thetis_shutdown_time p \<noteq> None" "pc_state p = Rx"
    and "q = set_power p True True works t0"
    and "\<And>l. \<not> tl_connected l \<Longrightarrow> \<not> tl_connected (pe_poll env l)"
    and "pe_launch_works env"
  shows "pc_launches q = pc_launches p \<and>
         (pe_running env \<longrightarrow> pc_launches (fst (check_safety env q t1)) = pc_launches p) \<and>
         (\<not> pe_running env \<longrightarrow>
            pc_launches (fst (check_safety env q t1)) = pc_launches p @ [path] \<and>
            pc_launches (fst (check_safety env (fst (check_safety env q t1)) t2)) = pc_launches p @ [path])"
proof -
  have q: "q = p\<lparr> pc_thetis_relaunch_when_gone := True, pc_pending_power_on := True, pc_thetis_launch_time := Some t0 \<rparr>"
    using assms(1-6) by (simp add: set_power_def power_on_step_def)
  have tick: "fst (check_safety env r t) = shutdown_over env t (launch_timeout t (relaunch_when_gone env r'))"
    if "pc_state r = Rx" "\<not> tl_connected (pc_tci r)" "r' = r\<lparr> pc_tci := pe_poll env (pc_tci r) \<rparr>" for r r' t
    using that assms(7)
    by (simp add: check_safety_def clocks_of_def finish_tail_if_due_def tail_due_def auto_power_on_def Let_def)
  have qf: "pc_state q = Rx" "\<not> tl_connected (pc_tci q)" "pc_thetis_relaunch_when_gone q"
      "pc_thetis_path q = Some path" "pc_launches q = pc_launches p"
    using q assms(1,2,5) by simp_all
  have parts: "pc_launches (shutdown_over env t r) = pc_launches r" "pc_launches (launch_timeout t r) = pc_launches r"
      "pc_thetis_relaunch_when_gone (shutdown_over env t r) = pc_thetis_relaunch_when_gone r"
      "pc_thetis_relaunch_when_gone (launch_timeout t r) \<longrightarrow> pc_thetis_relaunch_when_gone r" for t r
    by (simp_all add: shutdown_over_def launch_timeout_def split: option.splits)
  let ?r = "fst (check_safety env q t1)"
  let ?g = "relaunch_when_gone env (q\<lparr> pc_tci := pe_poll env (pc_tci q) \<rparr>)"
  have r: "?r = shutdown_over env t1 (launch_timeout t1 ?g)"
    by (rule tick [OF qf(1,2) refl])
  have g: "pc_launches ?g = pc_launches p @ (if pe_running env then [] else [path])"
      "pc_state ?g = Rx" "\<not> tl_connected (pc_tci ?g)" "\<not> pe_running env \<longrightarrow> \<not> pc_thetis_relaunch_when_gone ?g"
    using qf assms(7,8) by (simp_all add: relaunch_when_gone_def)
  have rf: "pc_launches ?r = pc_launches ?g" "pc_state ?r = Rx" "\<not> tl_connected (pc_tci ?r)"
      "\<not> pe_running env \<longrightarrow> \<not> pc_thetis_relaunch_when_gone ?r"
    using g parts unfolding r by (simp_all add: tick_parts_keep) blast
  have "\<not> pe_running env \<Longrightarrow> pc_launches (fst (check_safety env ?r t2)) = pc_launches ?r"
    using rf(4) by (simp add: tick [OF rf(2,3) refl] parts relaunch_when_gone_def)
  then show ?thesis using rf(1) g(1) qf(5) by simp
qed

theorem power_on_while_closing_launches_once_witness:
  "let p = request_thetis_shutdown ((new_tci demo_link (Some ''Thetis.exe''))\<lparr> pc_tci := handle_disconnect demo_link \<rparr>) 0
   in pc_launches (fst (check_safety demo_ptt_env (set_power p True True True 5) (secs 2))) = [''Thetis.exe'']"
proof -
  let ?p = "request_thetis_shutdown ((new_tci demo_link (Some ''Thetis.exe''))\<lparr> pc_tci := handle_disconnect demo_link \<rparr>) 0"
  have p: "\<not> tl_connected (pc_tci ?p)" "pc_thetis_path ?p = Some ''Thetis.exe''" "\<not> pc_pending_power_on ?p"
      "pc_thetis_shutdown_time ?p \<noteq> None" "pc_state ?p = Rx" "pc_launches ?p = []"
    by (simp_all add: request_thetis_shutdown_def send_cat_def new_tci_def handle_disconnect_def
        starts_with_def trim_semis_def eq_ignore_ascii_case_def Let_def)
  show ?thesis
    using power_on_while_closing_launches_once [OF p(1-5) refl, where works = True and env = demo_ptt_env and ?t1.0 = "secs 2" and ?t0.0 = 5] p(6)
    by (simp add: demo_ptt_env_def Let_def)
qed

text \<open>
  The gate on CAT commands holds for what it names and for nothing else: with the gate shut, a
  command whose text is ZZTX1 or ZZTU1 is dropped, and no ZZ command is translated to a TRX or TUNE
  on; but the tuner's own ZZTU1, which the equipment loop rewrites to a TUNE before it reaches the
  gate, and the client's TUNE control both go out on a working link.
\<close>

theorem tune_passes_the_shut_gate:
  assumes "pc_tx_blocked p" "tl_connected (pc_tci p)" "tl_room (pc_tci p)"
  shows "send_cat p ''ZZTX1;'' = p \<and> send_cat p ''ZZTU1;'' = p \<and>
         (starts_with ''ZZ'' cmd \<longrightarrow>
            ''trx:0,true,tci;'' \<notin> set (drop (length (tl_outbox (pc_tci p))) (tl_outbox (pc_tci (send_cat p cmd)))) \<and>
            ''tune:0,true;'' \<notin> set (drop (length (tl_outbox (pc_tci p))) (tl_outbox (pc_tci (send_cat p cmd))))) \<and>
         tl_outbox (pc_tci (send_cat p (tuner_command ''ZZTU1;''))) = tl_outbox (pc_tci p) @ [''TUNE:0,true;''] \<and>
         tl_outbox (pc_tci (ptt_set_tune p True)) = tl_outbox (pc_tci p) @ [''tune:0,true;'']"
proof -
  have gate: "send_cat p cmd' = p" if "trim_semis cmd' = ''ZZTX1'' \<or> trim_semis cmd' = ''ZZTU1''" for cmd'
    using that assms(1) by (auto simp: send_cat_def eq_ignore_ascii_case_def)
  have named: "trim_semis ''ZZTX1;'' = ''ZZTX1''" "trim_semis ''ZZTU1;'' = ''ZZTU1''"
    by (simp_all add: trim_semis_def)
  have zz: "t \<notin> set (drop (length (tl_outbox (pc_tci p))) (tl_outbox (pc_tci (send_cat p cmd))))"
    if "starts_with ''ZZ'' cmd" "t = ''trx:0,true,tci;'' \<or> t = ''tune:0,true;''" for t
  proof (cases "trim_semis cmd = ''ZZTX1'' \<or> trim_semis cmd = ''ZZTU1''")
    case True
    then show ?thesis using gate by simp
  next
    case False
    then have "cat_to_tci cmd \<noteq> Some t" using cat_to_tci_keying that(2) by blast
    then show ?thesis using that
      by (auto simp: send_cat_def run_cat_def tci_send_outbox Let_def split: option.splits)
  qed
  have "tl_outbox (pc_tci (send_cat p (tuner_command ''ZZTU1;''))) = tl_outbox (pc_tci p) @ [''TUNE:0,true;'']"
    using assms(2,3) by (simp add: send_cat_def tuner_command_def starts_with_def tci_send_outbox trim_semis_def
        eq_ignore_ascii_case_def ascii_lower_def Let_def)
  moreover have "tl_outbox (pc_tci (ptt_set_tune p True)) = tl_outbox (pc_tci p) @ [''tune:0,true;'']"
    using assms(2,3) by (simp add: ptt_set_tune_def tci_set_tune_def tune_from_us_def tci_send_outbox case_prod_beta)
  ultimately show ?thesis using gate named zz by blast
qed

theorem tune_passes_the_shut_gate_witness:
  "tl_outbox (pc_tci (send_cat ((new_tci demo_link None)\<lparr> pc_tx_blocked := True \<rparr>) (tuner_command ''ZZTU1;''))) = [''TUNE:0,true;'']"
  using tune_passes_the_shut_gate [of "(new_tci demo_link None)\<lparr> pc_tx_blocked := True \<rparr>"]
  by (simp add: new_tci_def demo_link_def)

text \<open>
  A frequency survives the translation: eleven digits after ZZFA become the VFO command with the
  same number, written without leading zeros.
\<close>

theorem frequency_survives_translation:
  assumes "length ds = 11" "parse_digits 0 ds = Some hz" "hz < 2 ^ 64" "hd ds \<noteq> CHR ''+''" "CHR '';'' \<notin> set ds"
  shows "cat_to_tci (''ZZFA'' @ ds @ '';'') = Some (''vfo:0,0,'' @ decimal hz @ '';'') \<and>
         parse_uint (2 ^ 64) (decimal hz) = Some hz"
proof -
  have "trim_semis (''ZZFA'' @ ds @ '';'') = ''ZZFA'' @ ds"
  proof -
    obtain es c where ds: "ds = es @ [c]" using assms(1) by (cases ds rule: rev_cases) auto
    then have "c \<noteq> CHR '';''" using assms(5) by auto
    then show ?thesis unfolding ds by (simp add: trim_semis_def)
  qed
  moreover have "parse_uint (2 ^ 64) ds = Some hz"
    using assms by (cases ds) (auto simp: parse_uint_def)
  ultimately show ?thesis
    using assms(1,3) parse_uint_decimal
    by (simp add: cat_to_tci_def or_else_def cat_arm_def starts_with_def slice_def Let_def)
qed

theorem frequency_survives_translation_witness:
  "cat_to_tci ''ZZFA00007073000;'' = Some ''vfo:0,0,7073000;''"
proof -
  have "parse_digits 0 ''00007073000'' = Some 7073000" by (simp add: digit_value_def)
  moreover have "digit_char 0 = CHR ''0''" "digit_char 3 = CHR ''3''" "digit_char 7 = CHR ''7''"
    by (simp_all add: digit_char_def char_of_def bit_Suc_0_iff)
  then have "decimal 7073000 = ''7073000''" by (simp add: decimal.simps)
  ultimately show ?thesis using frequency_survives_translation [of "''00007073000''" 7073000] by simp
qed

end
