(* ===== verification/TxGate.thy ===== *)
theory TxGate
  imports PttController
begin

text \<open>
  The receive-only gate over everything that uses the PTT controller (\<^verbatim>\<open>ptt.rs\<close>, with \<^verbatim>\<open>tci.rs\<close>
  and \<^verbatim>\<open>tci_commands.rs\<close> behind it): each call of the controller as a value, \<open>ptt_call\<close>, and what a run of
  calls writes to Thetis. The calls are those that key and let go, the tick with everything polling
  may do (\<open>poll_act\<close>), power and shutdown, the CAT texts the server itself passes, the TUNE control,
  the stop of what Thetis was doing, the relayed CAT commands and every setting (a fixed head with any
  arguments), and a new connection. What a text written to Thetis switches on is read off the text,
  in any case and behind any semicolon. A CW key edge (\<^verbatim>\<open>keyer:\<close>) is a setting here: it keys nothing by
  itself while MOX is off.
\<close>

section \<open>What a text switches on\<close>

fun commands_in :: "string \<Rightarrow> string list" where
  "commands_in [] = [[]]"
| "commands_in (c # cs) =
     (if c = CHR '';'' then [] # commands_in cs
      else (case commands_in cs of [] \<Rightarrow> [[c]] | p # ps \<Rightarrow> (c # p) # ps))"





section \<open>The calls\<close>







section \<open>Texts that switch nothing on\<close>

lemma commands_in_plain: "CHR '';'' \<notin> set s \<Longrightarrow> commands_in s = [s]"
  by (induction s) auto















section \<open>What the server's CAT texts come to\<close>
















section \<open>Every call with the gate shut\<close>

















section \<open>Properties\<close>




end
