(* ===== verification/CwKeyer.thy ===== *)
theory CwKeyer
  imports Prelude
begin

text \<open>
  The iambic keyer of the client (\<^verbatim>\<open>sdr-remote-logic/src/cw_keyer.rs\<close>): paddle contacts in,
  key edges out. Times are milliseconds of the caller's clock, as in the code; they are natural
  numbers here, since a \<^verbatim>\<open>u64\<close> of milliseconds does not wrap. Each operation that emits takes the
  edges of the sample so far and returns them extended, as the code does through \<^verbatim>\<open>&mut edges\<close>.
\<close>

section \<open>Settings, contacts, edges\<close>

datatype paddle_mode = IambicA | IambicB

definition DEBOUNCE_MS :: u32 where "DEBOUNCE_MS = 3"

record keyer_settings =
  ks_mode :: paddle_mode
  ks_reversed :: bool
  ks_wpm :: u8
  ks_paddle_enabled :: bool
  ks_straight_enabled :: bool
  ks_debounce_ms :: u32

definition keyer_settings_default :: keyer_settings where
  "keyer_settings_default =
     \<lparr> ks_mode = IambicB, ks_reversed = False, ks_wpm = 25, ks_paddle_enabled = True,
       ks_straight_enabled = False, ks_debounce_ms = DEBOUNCE_MS \<rparr>"

record contacts =
  ct_a :: bool
  ct_b :: bool
  ct_straight :: bool

definition OPEN_contacts :: contacts where
  "OPEN_contacts = \<lparr> ct_a = False, ct_b = False, ct_straight = False \<rparr>"

definition SQUEEZE_contacts :: contacts where
  "SQUEEZE_contacts = \<lparr> ct_a = True, ct_b = True, ct_straight = False \<rparr>"

record key_edge =
  eg_down :: bool
  eg_at_ms :: nat

datatype cw_element = Dot | Dash

fun opposite :: "cw_element \<Rightarrow> cw_element" where
  "opposite Dot = Dash"
| "opposite Dash = Dot"

fun len_dots :: "cw_element \<Rightarrow> nat" where
  "len_dots Dot = 1"
| "len_dots Dash = 3"

datatype keyer_phase = Idle | Element cw_element nat | Gap cw_element nat

section \<open>One contact, debounced\<close>

record debounced =
  db_stable :: bool
  db_candidate :: bool
  db_since_ms :: nat

definition debounced_default :: debounced where
  "debounced_default = \<lparr> db_stable = False, db_candidate = False, db_since_ms = 0 \<rparr>"

definition feed :: "debounced \<Rightarrow> bool \<Rightarrow> nat \<Rightarrow> nat \<Rightarrow> debounced" where
  "feed d raw now hold =
     (let d1 = (if raw \<noteq> db_candidate d then d\<lparr> db_candidate := raw, db_since_ms := now \<rparr> else d)
      in if db_candidate d1 \<noteq> db_stable d1 \<and> now - db_since_ms d1 \<ge> hold
         then d1\<lparr> db_stable := db_candidate d1 \<rparr> else d1)"

section \<open>The keyer\<close>

record keyer =
  ky_settings :: keyer_settings
  ky_a :: debounced
  ky_b :: debounced
  ky_straight :: debounced
  ky_phase :: keyer_phase
  ky_mem_dot :: bool
  ky_mem_dash :: bool
  ky_prev_dot :: bool
  ky_prev_dash :: bool
  ky_keyer_down :: bool
  ky_straight_down :: bool
  ky_out_down :: bool
  ky_last_edge_ms :: "nat option"

definition keyer_new :: "keyer_settings \<Rightarrow> keyer" where
  "keyer_new s =
     \<lparr> ky_settings = s, ky_a = debounced_default, ky_b = debounced_default,
       ky_straight = debounced_default, ky_phase = Idle, ky_mem_dot = False, ky_mem_dash = False,
       ky_prev_dot = False, ky_prev_dash = False, ky_keyer_down = False,
       ky_straight_down = False, ky_out_down = False, ky_last_edge_ms = None \<rparr>"

definition set_settings :: "keyer \<Rightarrow> keyer_settings \<Rightarrow> keyer" where
  "set_settings k s =
     (let k1 = (if ks_reversed s \<noteq> ks_reversed (ky_settings k)
                then k\<lparr> ky_prev_dot := ky_prev_dash k, ky_prev_dash := ky_prev_dot k \<rparr> else k)
      in k1\<lparr> ky_settings := s \<rparr>)"

definition dot_ms :: "keyer \<Rightarrow> nat" where
  "dot_ms k = 1200 div clamp 4 60 (unat (ks_wpm (ky_settings k)))"

definition edge_after :: "nat option \<Rightarrow> nat \<Rightarrow> nat" where
  "edge_after prev at_ms =
     (case prev of Some l \<Rightarrow> (if at_ms \<le> l then l + 1 else at_ms) | None \<Rightarrow> at_ms)"

definition keyer_reset :: "keyer \<Rightarrow> nat \<Rightarrow> keyer \<times> key_edge option" where
  "keyer_reset k now =
     (let k' = keyer_new (ky_settings k)
      in if ky_out_down k then
           (let at_ms = edge_after (ky_last_edge_ms k) now
            in (k'\<lparr> ky_last_edge_ms := Some at_ms \<rparr>, Some \<lparr> eg_down = False, eg_at_ms = at_ms \<rparr>))
         else (k'\<lparr> ky_last_edge_ms := ky_last_edge_ms k \<rparr>, None))"

definition emit :: "keyer \<Rightarrow> nat \<Rightarrow> key_edge list \<Rightarrow> keyer \<times> key_edge list" where
  "emit k at_ms edges =
     (let down = (ky_keyer_down k \<or> ky_straight_down k)
      in if down = ky_out_down k then (k, edges)
         else if edges \<noteq> [] \<and> eg_at_ms (last edges) = at_ms then
           (let rest = butlast edges
            in (k\<lparr> ky_out_down := down,
                   ky_last_edge_ms := (if rest = [] then ky_last_edge_ms k else Some (eg_at_ms (last rest))) \<rparr>,
                rest))
         else
           (let t = edge_after (ky_last_edge_ms k) at_ms
            in (k\<lparr> ky_out_down := down, ky_last_edge_ms := Some t \<rparr>,
                edges @ [\<lparr> eg_down = down, eg_at_ms = t \<rparr>])))"

definition set_keyer :: "keyer \<Rightarrow> bool \<Rightarrow> nat \<Rightarrow> key_edge list \<Rightarrow> keyer \<times> key_edge list" where
  "set_keyer k down at_ms edges = emit (k\<lparr> ky_keyer_down := down \<rparr>) at_ms edges"

definition start_element :: "keyer \<Rightarrow> cw_element \<Rightarrow> nat \<Rightarrow> key_edge list \<Rightarrow> keyer \<times> key_edge list" where
  "start_element k kind at_ms edges =
     set_keyer (k\<lparr> ky_mem_dot := False, ky_mem_dash := False,
                  ky_phase := Element kind (at_ms + len_dots kind * dot_ms k) \<rparr>) True at_ms edges"

definition next_after :: "keyer \<Rightarrow> cw_element \<Rightarrow> bool \<Rightarrow> bool \<Rightarrow> keyer \<times> cw_element option" where
  "next_after k prev dot_paddle dash_paddle =
     (let remembered = (if ky_mem_dot k \<and> prev = Dash then Some Dot
                        else if ky_mem_dash k \<and> prev = Dot then Some Dash else None);
          nxt = (if remembered \<noteq> None then remembered
                 else if dot_paddle \<and> dash_paddle then Some (opposite prev)
                 else if dot_paddle then Some Dot
                 else if dash_paddle then Some Dash
                 else None)
      in (if nxt = None then k\<lparr> ky_mem_dot := False, ky_mem_dash := False \<rparr> else k, nxt))"

section \<open>A sample\<close>

text \<open>
  The loop that plays out what ended. An element or gap that is due ends at its planned moment and
  plans the next one a dot or more later, so the distance from the sample back to the phase's end
  shrinks: a dot is twenty milliseconds at least.
\<close>

lemma dot_ms_bounds: "20 \<le> dot_ms k \<and> dot_ms k \<le> 300"
proof -
  define w where "w = clamp 4 60 (unat (ks_wpm (ky_settings k)))"
  have w: "4 \<le> w" "w \<le> 60" using clamp_bounds [of "4::nat" 60] by (auto simp: w_def)
  have "1200 div 60 \<le> 1200 div w" by (rule div_le_mono2) (use w in simp_all)
  moreover have "1200 div w \<le> 1200 div 4" by (rule div_le_mono2) (use w in simp_all)
  ultimately show ?thesis by (simp add: dot_ms_def w_def)
qed

lemma dot_ms_pos [simp]: "0 < dot_ms k"
  using dot_ms_bounds [of k] by simp

definition end_element :: "keyer \<Rightarrow> cw_element \<Rightarrow> nat \<Rightarrow> key_edge list \<Rightarrow> keyer \<times> key_edge list" where
  "end_element k kind ends_at edges =
     (let (k1, es) = set_keyer k False ends_at edges
      in (k1\<lparr> ky_phase := Gap kind (ends_at + dot_ms k1) \<rparr>, es))"

definition end_gap :: "keyer \<Rightarrow> cw_element \<Rightarrow> nat \<Rightarrow> bool \<Rightarrow> bool \<Rightarrow> key_edge list \<Rightarrow> keyer \<times> key_edge list" where
  "end_gap k prev ends_at dot dash edges =
     (case next_after k prev dot dash of
        (k1, Some kind) \<Rightarrow> start_element k1 kind ends_at edges
      | (k1, None) \<Rightarrow> (k1\<lparr> ky_phase := Idle \<rparr>, edges))"

fun due_in :: "nat \<Rightarrow> keyer_phase \<Rightarrow> nat" where
  "due_in now Idle = 0"
| "due_in now (Element _ e) = Suc now - e"
| "due_in now (Gap _ e) = Suc now - e"

lemma planned_later: "e \<le> now \<Longrightarrow> 0 < d \<Longrightarrow> Suc now - (e + d) < Suc now - e"
  by arith

lemma emit_keeps [simp]:
  "ky_phase (fst (emit k t es)) = ky_phase k" "ky_settings (fst (emit k t es)) = ky_settings k"
  "ky_mem_dot (fst (emit k t es)) = ky_mem_dot k" "ky_mem_dash (fst (emit k t es)) = ky_mem_dash k"
  "ky_keyer_down (fst (emit k t es)) = ky_keyer_down k"
  "ky_straight_down (fst (emit k t es)) = ky_straight_down k"
  "ky_straight (fst (emit k t es)) = ky_straight k"
  by (simp_all add: emit_def Let_def)

lemma dot_ms_emit [simp]: "dot_ms (fst (emit k t es)) = dot_ms k"
  by (simp add: dot_ms_def)

lemma end_element_phase [simp]: "ky_phase (fst (end_element k kind e es)) = Gap kind (e + dot_ms k)"
  by (simp add: end_element_def set_keyer_def case_prod_beta dot_ms_def)

lemma start_element_phase [simp]:
  "ky_phase (fst (start_element k kind e es)) = Element kind (e + len_dots kind * dot_ms k)"
  by (simp add: start_element_def set_keyer_def)

lemma end_gap_phase:
  "ky_phase (fst (end_gap k prev e dot dash es)) = Idle \<or>
   (\<exists>kind. ky_phase (fst (end_gap k prev e dot dash es)) = Element kind (e + len_dots kind * dot_ms k))"
  by (auto simp: end_gap_def next_after_def Let_def dot_ms_def)

function catch_up :: "nat \<Rightarrow> bool \<Rightarrow> bool \<Rightarrow> keyer \<Rightarrow> key_edge list \<Rightarrow> keyer \<times> key_edge list" where
  "catch_up now dot dash k es =
     (case ky_phase k of
        Element kind e \<Rightarrow>
          if e \<le> now then (let (k', es') = end_element k kind e es in catch_up now dot dash k' es') else (k, es)
      | Gap prev e \<Rightarrow>
          if e \<le> now then (let (k', es') = end_gap k prev e dot dash es in catch_up now dot dash k' es') else (k, es)
      | Idle \<Rightarrow> (k, es))"
  by pat_completeness auto

termination
proof (relation "measure (\<lambda>(now, _, _, k, _). due_in now (ky_phase k))")
  fix now dot dash k es kind e p k' es'
  assume a: "ky_phase k = Element kind e" "e \<le> now" "p = end_element k kind e es" "(k', es') = p"
  then have "ky_phase k' = Gap kind (e + dot_ms k)" using end_element_phase [of k kind e es] by (metis fst_conv)
  then show "((now, dot, dash, k', es'), now, dot, dash, k, es) \<in> measure (\<lambda>(now, _, _, k, _). due_in now (ky_phase k))"
    using a(1,2) planned_later [of e now "dot_ms k"] by simp
next
  fix now dot dash k es prev e p k' es'
  assume a: "ky_phase k = Gap prev e" "e \<le> now" "p = end_gap k prev e dot dash es" "(k', es') = p"
  then have "k' = fst (end_gap k prev e dot dash es)" by (metis fst_conv)
  then have "ky_phase k' = Idle \<or> (\<exists>kind. ky_phase k' = Element kind (e + len_dots kind * dot_ms k))"
    using end_gap_phase by simp
  then have "due_in now (ky_phase k') < Suc now - e"
  proof
    assume "\<exists>kind. ky_phase k' = Element kind (e + len_dots kind * dot_ms k)"
    then obtain kind where q: "ky_phase k' = Element kind (e + len_dots kind * dot_ms k)" by blast
    have "0 < len_dots kind * dot_ms k" by (cases kind) simp_all
    from planned_later [OF a(2) this] q show ?thesis by simp
  qed (use a(2) in simp)
  then show "((now, dot, dash, k', es'), now, dot, dash, k, es) \<in> measure (\<lambda>(now, _, _, k, _). due_in now (ky_phase k))"
    using a(1,2) by simp
qed simp

declare catch_up.simps [simp del]

text \<open>
  The contacts as this sample reads them: disabled inputs count as open, every contact is debounced,
  and the paddles may be swapped. The levels are the dot paddle, the dash paddle, the straight key.
\<close>

definition read_levels :: "keyer \<Rightarrow> contacts \<Rightarrow> nat \<Rightarrow> keyer \<times> bool \<times> bool \<times> bool" where
  "read_levels k c now =
     (let s = ky_settings k;
          hold = unat (ks_debounce_ms s);
          raw_a = (ks_paddle_enabled s \<and> ct_a c);
          raw_b = (ks_paddle_enabled s \<and> ct_b c);
          raw_s = (ks_straight_enabled s \<and> ct_straight c);
          k1 = k\<lparr> ky_a := feed (ky_a k) raw_a now hold, ky_b := feed (ky_b k) raw_b now hold,
                  ky_straight := feed (ky_straight k) raw_s now hold \<rparr>;
          a = db_stable (ky_a k1);
          b = db_stable (ky_b k1)
      in (k1, (if ks_reversed s then b else a), (if ks_reversed s then a else b), db_stable (ky_straight k1)))"

definition seen_in_mode :: "keyer \<Rightarrow> bool \<Rightarrow> bool \<Rightarrow> bool \<times> bool" where
  "seen_in_mode k dot dash =
     (case ks_mode (ky_settings k) of
        IambicA \<Rightarrow> (dot \<and> \<not> ky_prev_dot k, dash \<and> \<not> ky_prev_dash k)
      | IambicB \<Rightarrow> (dot, dash))"

definition remember_paddles :: "keyer \<Rightarrow> bool \<Rightarrow> bool \<Rightarrow> keyer" where
  "remember_paddles k dot_seen dash_seen =
     (case (case ky_phase k of Element kind _ \<Rightarrow> Some kind | Gap prev _ \<Rightarrow> Some prev | Idle \<Rightarrow> None) of
        None \<Rightarrow> k
      | Some current \<Rightarrow>
          k\<lparr> ky_mem_dot := ky_mem_dot k \<or> (dot_seen \<and> current = Dash),
             ky_mem_dash := ky_mem_dash k \<or> (dash_seen \<and> current = Dot) \<rparr>)"

definition start_from_rest :: "keyer \<Rightarrow> bool \<Rightarrow> bool \<Rightarrow> nat \<Rightarrow> key_edge list \<Rightarrow> keyer \<times> key_edge list" where
  "start_from_rest k dot dash now es =
     (if ky_phase k = Idle then
        (if dot then start_element k Dot now es
         else if dash then start_element k Dash now es else (k, es))
      else (k, es))"

definition straight_key :: "keyer \<Rightarrow> bool \<Rightarrow> nat \<Rightarrow> key_edge list \<Rightarrow> keyer \<times> key_edge list" where
  "straight_key k straight now es =
     (if straight \<noteq> ky_straight_down k then emit (k\<lparr> ky_straight_down := straight \<rparr>) now es else (k, es))"

definition sample :: "keyer \<Rightarrow> contacts \<Rightarrow> nat \<Rightarrow> keyer \<times> key_edge list" where
  "sample k c now =
     (let (k1, dot, dash, straight) = read_levels k c now;
          (dot_seen, dash_seen) = seen_in_mode k1 dot dash;
          k2 = k1\<lparr> ky_prev_dot := dot, ky_prev_dash := dash \<rparr>;
          (k3, es) = catch_up now dot dash k2 [];
          k4 = remember_paddles k3 dot_seen dash_seen;
          (k5, es) = start_from_rest k4 dot dash now es
      in straight_key k5 straight now es)"

section \<open>A life of the keyer\<close>

datatype keyer_event = Sample contacts nat | Settings keyer_settings | Reset nat

fun keyer_step :: "keyer \<Rightarrow> keyer_event \<Rightarrow> keyer \<times> key_edge list" where
  "keyer_step k (Sample c now) = sample k c now"
| "keyer_step k (Settings s) = (set_settings k s, [])"
| "keyer_step k (Reset now) =
     (case keyer_reset k now of (k', None) \<Rightarrow> (k', []) | (k', Some e) \<Rightarrow> (k', [e]))"

fun keyer_run :: "keyer \<Rightarrow> keyer_event list \<Rightarrow> keyer \<times> key_edge list" where
  "keyer_run k [] = (k, [])"
| "keyer_run k (e # evs) =
     (let (k', es) = keyer_step k e; (k'', es') = keyer_run k' evs in (k'', es @ es'))"

section \<open>Edges alternate in time\<close>

fun alternates :: "bool \<Rightarrow> key_edge list \<Rightarrow> bool" where
  "alternates up [] \<longleftrightarrow> True"
| "alternates up (e # es) \<longleftrightarrow> eg_down e \<noteq> up \<and> alternates (eg_down e) es"

definition key_after :: "key_edge list \<Rightarrow> bool" where
  "key_after es = (if es = [] then False else eg_down (last es))"

lemma key_after_snoc [simp]: "key_after (es @ [e]) = eg_down e" "key_after [] = False"
  by (simp_all add: key_after_def)

lemma alternates_snoc [simp]:
  "alternates up (es @ [e]) \<longleftrightarrow> alternates up es \<and> eg_down e \<noteq> (if es = [] then up else eg_down (last es))"
  by (induction es arbitrary: up) auto

text \<open>
  The invariant of everything handed out so far, \<open>G\<close>: the edges alternate and go up in time, the
  keyer's output is where the last one put it, and no edge is later than the last millisecond taken.
\<close>

definition edges_ok :: "keyer \<Rightarrow> key_edge list \<Rightarrow> bool" where
  "edges_ok k G \<longleftrightarrow>
     alternates False G \<and> key_after G = ky_out_down k \<and> sorted_wrt (<) (map eg_at_ms G) \<and>
     (\<forall>e \<in> set G. \<exists>l. ky_last_edge_ms k = Some l \<and> eg_at_ms e \<le> l)"

lemma edges_ok_new: "edges_ok (keyer_new s) []"
  by (simp add: edges_ok_def keyer_new_def)

lemma edges_ok_other [simp]:
  "edges_ok (k\<lparr> ky_keyer_down := d \<rparr>) G = edges_ok k G" "edges_ok (k\<lparr> ky_straight_down := d \<rparr>) G = edges_ok k G"
  "edges_ok (k\<lparr> ky_phase := p \<rparr>) G = edges_ok k G" "edges_ok (k\<lparr> ky_settings := s \<rparr>) G = edges_ok k G"
  "edges_ok (k\<lparr> ky_mem_dot := d \<rparr>) G = edges_ok k G" "edges_ok (k\<lparr> ky_mem_dash := d \<rparr>) G = edges_ok k G"
  "edges_ok (k\<lparr> ky_prev_dot := d \<rparr>) G = edges_ok k G" "edges_ok (k\<lparr> ky_prev_dash := d \<rparr>) G = edges_ok k G"
  "edges_ok (k\<lparr> ky_a := b \<rparr>) G = edges_ok k G" "edges_ok (k\<lparr> ky_b := b \<rparr>) G = edges_ok k G"
  "edges_ok (k\<lparr> ky_straight := b \<rparr>) G = edges_ok k G"
  by (simp_all add: edges_ok_def)

lemma edge_after_later: "prev = Some l \<Longrightarrow> l < edge_after prev t"
  by (simp add: edge_after_def)

lemma edges_ok_push:
  assumes "edges_ok k G" "down \<noteq> ky_out_down k" "t = edge_after (ky_last_edge_ms k) at_ms"
  shows "edges_ok (k\<lparr> ky_out_down := down, ky_last_edge_ms := Some t \<rparr>) (G @ [\<lparr> eg_down = down, eg_at_ms = t \<rparr>])"
proof -
  have later: "eg_at_ms e < t" if "e \<in> set G" for e
  proof -
    have "\<exists>l. ky_last_edge_ms k = Some l \<and> eg_at_ms e \<le> l" using assms(1) that by (simp add: edges_ok_def)
    then show ?thesis using assms(3) by (auto simp: edge_after_def)
  qed
  then show ?thesis using assms(1,2)
    by (auto simp: edges_ok_def sorted_wrt_append key_after_def intro: less_imp_le)
qed

lemma edges_ok_pop:
  assumes "edges_ok k (G @ [e])" "down \<noteq> ky_out_down k"
    and "last' = (if G = [] then ky_last_edge_ms k else Some (eg_at_ms (last G))) \<or> last' = ky_last_edge_ms k"
  shows "edges_ok (k\<lparr> ky_out_down := down, ky_last_edge_ms := last' \<rparr>) G"
proof -
  have srt: "sorted_wrt (<) (map eg_at_ms G)" and alt: "alternates False G" "eg_down e \<noteq> key_after G"
    using assms(1) by (auto simp: edges_ok_def sorted_wrt_append key_after_def)
  have "\<forall>x \<in> set G. eg_at_ms x \<le> eg_at_ms (last G)"
    using srt by (induction G) (auto simp: less_imp_le)
  moreover have "\<forall>x \<in> set G. \<exists>l. ky_last_edge_ms k = Some l \<and> eg_at_ms x \<le> l"
    using assms(1) by (simp add: edges_ok_def)
  ultimately have "\<forall>x \<in> set G. \<exists>l. last' = Some l \<and> eg_at_ms x \<le> l"
    using assms(3) by (cases "G = []") auto
  moreover have "key_after G = down" using assms(1,2) alt by (auto simp: edges_ok_def)
  ultimately show ?thesis using srt alt by (simp add: edges_ok_def)
qed

lemma edges_ok_emit:
  assumes "edges_ok k (H @ es)" "emit k t es = (k', es')"
  shows "edges_ok k' (H @ es')"
proof (cases "(ky_keyer_down k \<or> ky_straight_down k) = ky_out_down k")
  case True
  then show ?thesis using assms by (simp add: emit_def Let_def)
next
  case False
  show ?thesis
  proof (cases "es \<noteq> [] \<and> eg_at_ms (last es) = t")
    case True
    then have es: "es = butlast es @ [last es]" by simp
    have "k' = k\<lparr> ky_out_down := (ky_keyer_down k \<or> ky_straight_down k),
            ky_last_edge_ms := (if butlast es = [] then ky_last_edge_ms k else Some (eg_at_ms (last (butlast es)))) \<rparr>"
      "es' = butlast es"
      using assms(2) False True by (auto simp: emit_def Let_def)
    then show ?thesis
      using edges_ok_pop [of k "H @ butlast es" "last es"] assms(1) es False
      by (auto simp: last_append)
  next
    case no: False
    have "k' = k\<lparr> ky_out_down := (ky_keyer_down k \<or> ky_straight_down k),
            ky_last_edge_ms := Some (edge_after (ky_last_edge_ms k) t) \<rparr>"
      "es' = es @ [\<lparr> eg_down = (ky_keyer_down k \<or> ky_straight_down k), eg_at_ms = edge_after (ky_last_edge_ms k) t \<rparr>]"
      using assms(2) False no by (auto simp: emit_def Let_def)
    then show ?thesis
      using edges_ok_push [OF assms(1) False refl] by simp
  qed
qed

lemma edges_ok_set_keyer:
  assumes "edges_ok k (H @ es)" "set_keyer k down t es = (k', es')"
  shows "edges_ok k' (H @ es')"
  using edges_ok_emit [of "k\<lparr> ky_keyer_down := down \<rparr>"] assms by (simp add: set_keyer_def)

lemma edges_ok_start:
  assumes "edges_ok k (H @ es)" "start_element k kind t es = (k', es')"
  shows "edges_ok k' (H @ es')"
  using edges_ok_set_keyer [OF _ assms(2) [unfolded start_element_def]] assms(1) by simp

lemma edges_ok_end_element:
  assumes "edges_ok k (H @ es)" "end_element k kind t es = (k', es')"
  shows "edges_ok k' (H @ es')"
proof -
  obtain k1 where s: "set_keyer k False t es = (k1, es')" "k' = k1\<lparr> ky_phase := Gap kind (t + dot_ms k1) \<rparr>"
    using assms(2) by (auto simp: end_element_def split: prod.splits)
  then show ?thesis using edges_ok_set_keyer [OF assms(1) s(1)] by simp
qed

lemma edges_ok_end_gap:
  assumes "edges_ok k (H @ es)" "end_gap k prev t dot dash es = (k', es')"
  shows "edges_ok k' (H @ es')"
proof -
  obtain k1 nx where nx: "next_after k prev dot dash = (k1, nx)" by fastforce
  then have "k1 = k \<or> k1 = k\<lparr> ky_mem_dot := False, ky_mem_dash := False \<rparr>"
    by (simp add: next_after_def Let_def split: if_splits)
  then have k1: "edges_ok k1 (H @ es)" using assms(1) by auto
  show ?thesis
  proof (cases nx)
    case None
    then show ?thesis using assms(2) nx k1 by (auto simp: end_gap_def)
  next
    case (Some kind)
    then show ?thesis using assms(2) nx edges_ok_start [OF k1] by (simp add: end_gap_def)
  qed
qed

lemma edges_ok_catch_up:
  assumes "edges_ok k (H @ es)" "catch_up now dot dash k es = (k', es')"
  shows "edges_ok k' (H @ es')"
  using assms
proof (induction now dot dash k es rule: catch_up.induct)
  case (1 now dot dash k es)
  show ?case
  proof (cases "due_in now (ky_phase k) = 0")
    case True
    then show ?thesis using 1(3,4)
      by (subst (asm) catch_up.simps) (auto split: keyer_phase.splits)
  next
    case False
    then show ?thesis
    proof (cases "ky_phase k")
      case (Element kind e)
      obtain k1 es1 where s: "end_element k kind e es = (k1, es1)" by fastforce
      show ?thesis
        using 1(1) [OF Element _ s [symmetric] refl] edges_ok_end_element [OF 1(3) s] 1(4) False Element s
        by (subst (asm) (2) catch_up.simps) auto
    next
      case (Gap prev e)
      obtain k1 es1 where s: "end_gap k prev e dot dash es = (k1, es1)" by fastforce
      show ?thesis
        using 1(2) [OF Gap _ s [symmetric] refl] edges_ok_end_gap [OF 1(3) s] 1(4) False Gap s
        by (subst (asm) (2) catch_up.simps) auto
    qed simp
  qed
qed

lemma edges_ok_remember [simp]: "edges_ok (remember_paddles k d1 d2) G = edges_ok k G"
  by (simp add: remember_paddles_def split: keyer_phase.splits option.splits)

lemma edges_ok_read [simp]: "read_levels k c now = (k1, l) \<Longrightarrow> edges_ok k1 G = edges_ok k G"
  by (auto simp: read_levels_def Let_def)

lemma edges_ok_rest:
  assumes "edges_ok k (H @ es)" "start_from_rest k dot dash now es = (k', es')"
  shows "edges_ok k' (H @ es')"
  using assms edges_ok_start [OF assms(1)] by (auto simp: start_from_rest_def split: if_splits)

lemma edges_ok_straight:
  assumes "edges_ok k (H @ es)" "straight_key k straight now es = (k', es')"
  shows "edges_ok k' (H @ es')"
  using assms edges_ok_emit [of "k\<lparr> ky_straight_down := straight \<rparr>"]
  by (auto simp: straight_key_def split: if_splits)

lemma edges_ok_sample:
  assumes "edges_ok k H" "sample k c now = (k', es)"
  shows "edges_ok k' (H @ es)"
proof -
  obtain k1 dot dash straight where l: "read_levels k c now = (k1, dot, dash, straight)" by (metis prod_cases4)
  obtain ds hs where m: "seen_in_mode k1 dot dash = (ds, hs)" by fastforce
  obtain k3 es3 where u: "catch_up now dot dash (k1\<lparr> ky_prev_dot := dot, ky_prev_dash := dash \<rparr>) [] = (k3, es3)" by fastforce
  obtain k5 es5 where r: "start_from_rest (remember_paddles k3 ds hs) dot dash now es3 = (k5, es5)" by fastforce
  have "straight_key k5 straight now es5 = (k', es)" using assms(2) l m u r by (simp add: sample_def)
  moreover have "edges_ok k3 (H @ es3)"
    using edges_ok_catch_up [OF _ u, of H] edges_ok_read [OF l] assms(1) by simp
  then have "edges_ok k5 (H @ es5)" using edges_ok_rest [OF _ r] by simp
  ultimately show ?thesis using edges_ok_straight by blast
qed

lemma edges_ok_step:
  assumes "edges_ok k H" "keyer_step k ev = (k', es)"
  shows "edges_ok k' (H @ es)"
proof (cases ev)
  case (Sample c now)
  then show ?thesis using assms edges_ok_sample by simp
next
  case (Settings s)
  then show ?thesis using assms by (auto simp: set_settings_def Let_def)
next
  case (Reset now)
  let ?n = "keyer_new (ky_settings k)"
  show ?thesis
  proof (cases "ky_out_down k")
    case True
    have "edges_ok (k\<lparr> ky_out_down := False, ky_last_edge_ms := Some (edge_after (ky_last_edge_ms k) now) \<rparr>)
        (H @ [\<lparr> eg_down = False, eg_at_ms = edge_after (ky_last_edge_ms k) now \<rparr>])"
      by (rule edges_ok_push [OF assms(1)]) (simp_all add: True)
    then show ?thesis using assms(2) Reset True
      by (auto simp: keyer_reset_def Let_def edges_ok_def keyer_new_def)
  next
    case False
    then show ?thesis using assms Reset
      by (auto simp: keyer_reset_def Let_def edges_ok_def keyer_new_def)
  qed
qed

lemma edges_ok_run:
  "edges_ok k H \<Longrightarrow> keyer_run k evs = (k', es) \<Longrightarrow> edges_ok k' (H @ es)"
proof (induction evs arbitrary: k k' H es)
  case (Cons ev evs)
  obtain k1 es1 where s: "keyer_step k ev = (k1, es1)" by fastforce
  obtain k2 es2 where r: "keyer_run k1 evs = (k2, es2)" by fastforce
  have "k' = k2" "es = es1 @ es2" using Cons.prems(2) s r by simp_all
  then show ?case using Cons.IH [OF edges_ok_step [OF Cons.prems(1) s] r] by simp
qed simp

text \<open>
  C38. The key never gets two ups or two downs in a row and no edge shares a millisecond or goes back
  in time: whatever contacts are sampled at whatever times, with the settings changed and the keyer
  reset in between, the edges handed out alternate beginning with a key-down, their times strictly
  increase, and the keyer's output is where the last edge put it.
\<close>

theorem edges_alternate_in_time:
  "alternates False (snd (keyer_run (keyer_new s) evs)) \<and>
   sorted_wrt (<) (map eg_at_ms (snd (keyer_run (keyer_new s) evs))) \<and>
   ky_out_down (fst (keyer_run (keyer_new s) evs)) = key_after (snd (keyer_run (keyer_new s) evs))"
  using edges_ok_run [OF edges_ok_new, of s evs]
  by (cases "keyer_run (keyer_new s) evs") (simp add: edges_ok_def)

section \<open>Elements keep their length\<close>

fun paris :: "nat \<Rightarrow> key_edge list \<Rightarrow> bool" where
  "paris d (x # y # es) \<longleftrightarrow>
     (if eg_down x then eg_at_ms y = eg_at_ms x + d \<or> eg_at_ms y = eg_at_ms x + 3 * d
      else eg_at_ms x + d \<le> eg_at_ms y) \<and> paris d (y # es)"
| "paris d _ \<longleftrightarrow> True"

lemma paris_snoc:
  "paris d (G @ [y]) \<longleftrightarrow> paris d G \<and>
     (G \<noteq> [] \<longrightarrow> (if eg_down (last G) then eg_at_ms y = eg_at_ms (last G) + d \<or> eg_at_ms y = eg_at_ms (last G) + 3 * d
                  else eg_at_ms (last G) + d \<le> eg_at_ms y))"
  by (induction d G rule: paris.induct) auto

text \<open>
  The invariant of a keyer without a straight key: \<open>G\<close> is everything handed out, and the phase says
  when its last edge was.
\<close>

definition phase_ok :: "nat \<Rightarrow> nat \<Rightarrow> keyer \<Rightarrow> key_edge list \<Rightarrow> bool" where
  "phase_ok d now k G \<longleftrightarrow>
     dot_ms k = d \<and> \<not> ky_straight_down k \<and> ky_out_down k = ky_keyer_down k \<and>
     ky_last_edge_ms k = (if G = [] then None else Some (eg_at_ms (last G))) \<and> paris d G \<and>
     (case ky_phase k of
        Idle \<Rightarrow> \<not> ky_keyer_down k \<and> (G \<noteq> [] \<longrightarrow> \<not> eg_down (last G) \<and> eg_at_ms (last G) + d \<le> now)
      | Element kind e \<Rightarrow> ky_keyer_down k \<and> G \<noteq> [] \<and> eg_down (last G) \<and> e = eg_at_ms (last G) + len_dots kind * d
      | Gap _ e \<Rightarrow> \<not> ky_keyer_down k \<and> G \<noteq> [] \<and> \<not> eg_down (last G) \<and> e = eg_at_ms (last G) + d)"

lemma phase_ok_push:
  assumes "ky_last_edge_ms k = (if H @ es = [] then None else Some (eg_at_ms (last (H @ es))))"
    and "\<not> ky_straight_down k" "ky_out_down k \<noteq> down" "H @ es \<noteq> [] \<longrightarrow> eg_at_ms (last (H @ es)) < t"
  shows "set_keyer k down t es =
     (k\<lparr> ky_keyer_down := down, ky_out_down := down, ky_last_edge_ms := Some t \<rparr>, es @ [\<lparr> eg_down = down, eg_at_ms = t \<rparr>])"
proof -
  have "\<not> (es \<noteq> [] \<and> eg_at_ms (last es) = t)" using assms(4) by auto
  moreover have "edge_after (ky_last_edge_ms k) t = t"
    using assms(1,4) by (auto simp: edge_after_def)
  ultimately show ?thesis using assms(2,3) by (auto simp: set_keyer_def emit_def Let_def)
qed

lemma dot_ms_upd [simp]:
  "dot_ms (k\<lparr> ky_keyer_down := a \<rparr>) = dot_ms k" "dot_ms (k\<lparr> ky_out_down := a \<rparr>) = dot_ms k"
  "dot_ms (k\<lparr> ky_last_edge_ms := t \<rparr>) = dot_ms k" "dot_ms (k\<lparr> ky_phase := p \<rparr>) = dot_ms k"
  "dot_ms (k\<lparr> ky_mem_dot := a \<rparr>) = dot_ms k" "dot_ms (k\<lparr> ky_mem_dash := a \<rparr>) = dot_ms k"
  "dot_ms (k\<lparr> ky_prev_dot := a \<rparr>) = dot_ms k" "dot_ms (k\<lparr> ky_prev_dash := a \<rparr>) = dot_ms k"
  "dot_ms (k\<lparr> ky_a := b \<rparr>) = dot_ms k" "dot_ms (k\<lparr> ky_b := b \<rparr>) = dot_ms k"
  "dot_ms (k\<lparr> ky_straight := b \<rparr>) = dot_ms k" "dot_ms (k\<lparr> ky_straight_down := a \<rparr>) = dot_ms k"
  by (simp_all add: dot_ms_def)

lemma phase_ok_end_element:
  assumes "phase_ok d now k (H @ es)" "ky_phase k = Element kind e" "end_element k kind e es = (k', es')"
  shows "phase_ok d now k' (H @ es')"
proof -
  have d: "dot_ms k = d" "d \<noteq> 0" using assms(1) dot_ms_pos [of k] by (auto simp: phase_ok_def simp del: dot_ms_pos)
  have e: "e = eg_at_ms (last (H @ es)) + len_dots kind * d" "eg_down (last (H @ es))" "H @ es \<noteq> []"
    using assms(1,2) by (auto simp: phase_ok_def)
  have "set_keyer k False e es =
     (k\<lparr> ky_keyer_down := False, ky_out_down := False, ky_last_edge_ms := Some e \<rparr>, es @ [\<lparr> eg_down = False, eg_at_ms = e \<rparr>])"
    by (rule phase_ok_push [where H = H])
      (use assms(1,2) e d in \<open>cases kind; auto simp: phase_ok_def\<close>)+
  then have "k' = k\<lparr> ky_keyer_down := False, ky_out_down := False, ky_last_edge_ms := Some e, ky_phase := Gap kind (e + d) \<rparr>"
    "es' = es @ [\<lparr> eg_down = False, eg_at_ms = e \<rparr>]"
    using assms(3) d(1) by (auto simp: end_element_def)
  moreover have "paris d ((H @ es) @ [\<lparr> eg_down = False, eg_at_ms = e \<rparr>])"
    using assms(1) e by (subst paris_snoc) (cases kind; simp add: phase_ok_def)
  ultimately show ?thesis using assms(1) d(1) by (simp add: phase_ok_def)
qed

lemma phase_ok_start:
  assumes "ky_phase k = Idle \<or> (\<exists>prev. ky_phase k = Gap prev t)" "phase_ok d t k (H @ es)"
    and "start_element k kind t es = (k', es')"
  shows "phase_ok d now k' (H @ es')"
proof -
  have d: "dot_ms k = d" "d \<noteq> 0" using assms(2) dot_ms_pos [of k] by (auto simp: phase_ok_def simp del: dot_ms_pos)
  have g: "\<not> ky_keyer_down k" "H @ es \<noteq> [] \<Longrightarrow> \<not> eg_down (last (H @ es)) \<and> eg_at_ms (last (H @ es)) + d \<le> t"
    using assms(1,2) by (auto simp: phase_ok_def)
  have lt: "H @ es \<noteq> [] \<longrightarrow> eg_at_ms (last (H @ es)) < t" using g(2) d(2) by fastforce
  let ?k = "k\<lparr> ky_mem_dot := False, ky_mem_dash := False, ky_phase := Element kind (t + len_dots kind * d) \<rparr>"
  have "set_keyer ?k True t es =
     (?k\<lparr> ky_keyer_down := True, ky_out_down := True, ky_last_edge_ms := Some t \<rparr>, es @ [\<lparr> eg_down = True, eg_at_ms = t \<rparr>])"
    by (rule phase_ok_push [where H = H, OF _ _ _ lt]) (use assms(2) g(1) in \<open>simp_all add: phase_ok_def\<close>)
  then have "k' = ?k\<lparr> ky_keyer_down := True, ky_out_down := True, ky_last_edge_ms := Some t \<rparr>"
    "es' = es @ [\<lparr> eg_down = True, eg_at_ms = t \<rparr>]"
    using assms(3) d(1) by (auto simp: start_element_def)
  moreover have "paris d ((H @ es) @ [\<lparr> eg_down = True, eg_at_ms = t \<rparr>])"
    using assms(2) g by (subst paris_snoc) (auto simp: phase_ok_def)
  ultimately show ?thesis using assms(2) d(1) by (simp add: phase_ok_def)
qed

lemma phase_ok_later:
  assumes "phase_ok d t k G" "ky_phase k = Idle \<Longrightarrow> t \<le> now"
  shows "phase_ok d now k G"
  using assms by (auto simp: phase_ok_def split: keyer_phase.splits)

lemma phase_ok_other [simp]:
  "phase_ok d now (k\<lparr> ky_mem_dot := b \<rparr>) G = phase_ok d now k G" "phase_ok d now (k\<lparr> ky_mem_dash := b \<rparr>) G = phase_ok d now k G"
  "phase_ok d now (k\<lparr> ky_prev_dot := b \<rparr>) G = phase_ok d now k G" "phase_ok d now (k\<lparr> ky_prev_dash := b \<rparr>) G = phase_ok d now k G"
  "phase_ok d now (k\<lparr> ky_a := c \<rparr>) G = phase_ok d now k G" "phase_ok d now (k\<lparr> ky_b := c \<rparr>) G = phase_ok d now k G"
  "phase_ok d now (k\<lparr> ky_straight := c \<rparr>) G = phase_ok d now k G"
  by (simp_all add: phase_ok_def cong: keyer_phase.case_cong)

lemma phase_ok_end_gap:
  assumes "phase_ok d now k (H @ es)" "ky_phase k = Gap prev e" "e \<le> now" "end_gap k prev e dot dash es = (k', es')"
  shows "phase_ok d now k' (H @ es')"
proof -
  obtain k1 nx where nx: "next_after k prev dot dash = (k1, nx)" by fastforce
  then have c: "k1 = k \<or> k1 = k\<lparr> ky_mem_dot := False, ky_mem_dash := False \<rparr>"
    by (simp add: next_after_def Let_def split: if_splits)
  then have k1: "phase_ok d e k1 (H @ es)" "ky_phase k1 = Gap prev e"
    using phase_ok_later [OF assms(1), of e] assms(2) by auto
  show ?thesis
  proof (cases nx)
    case None
    then have "k' = k1\<lparr> ky_phase := Idle \<rparr>" "es' = es" using assms(4) nx by (simp_all add: end_gap_def)
    then show ?thesis using k1 assms(3) by (auto simp: phase_ok_def)
  next
    case (Some kind)
    then have "start_element k1 kind e es = (k', es')" using assms(4) nx by (simp add: end_gap_def)
    then show ?thesis using phase_ok_start [of k1 e d H es] k1 by blast
  qed
qed

lemma phase_ok_catch_up:
  assumes "phase_ok d now k (H @ es)" "catch_up now dot dash k es = (k', es')"
  shows "phase_ok d now k' (H @ es')"
  using assms
proof (induction now dot dash k es rule: catch_up.induct)
  case (1 now dot dash k es)
  show ?case
  proof (cases "due_in now (ky_phase k) = 0")
    case True
    then show ?thesis using 1(3,4)
      by (subst (asm) catch_up.simps) (auto split: keyer_phase.splits)
  next
    case False
    then show ?thesis
    proof (cases "ky_phase k")
      case (Element kind e)
      obtain k1 es1 where s: "end_element k kind e es = (k1, es1)" by fastforce
      show ?thesis
        using 1(1) [OF Element _ s [symmetric] refl] phase_ok_end_element [OF 1(3) Element s] 1(4) False Element s
        by (subst (asm) (2) catch_up.simps) auto
    next
      case (Gap prev e)
      obtain k1 es1 where s: "end_gap k prev e dot dash es = (k1, es1)" by fastforce
      show ?thesis
        using 1(2) [OF Gap _ s [symmetric] refl] phase_ok_end_gap [OF 1(3) Gap _ s] 1(4) False Gap s
        by (subst (asm) (2) catch_up.simps) auto
    qed simp
  qed
qed

text \<open>What a sample leaves alone: the settings, and the straight contact's debouncer after it was read.\<close>

lemma set_keyer_keeps [simp]:
  "ky_settings (fst (set_keyer k d t es)) = ky_settings k" "ky_straight (fst (set_keyer k d t es)) = ky_straight k"
  by (simp_all add: set_keyer_def)

lemma start_element_keeps [simp]:
  "ky_settings (fst (start_element k kind t es)) = ky_settings k" "ky_straight (fst (start_element k kind t es)) = ky_straight k"
  by (simp_all add: start_element_def)

lemma end_element_keeps [simp]:
  "ky_settings (fst (end_element k kind t es)) = ky_settings k" "ky_straight (fst (end_element k kind t es)) = ky_straight k"
  by (simp_all add: end_element_def case_prod_beta)

lemma end_gap_keeps [simp]:
  "ky_settings (fst (end_gap k prev t dot dash es)) = ky_settings k" "ky_straight (fst (end_gap k prev t dot dash es)) = ky_straight k"
  by (auto simp: end_gap_def next_after_def Let_def)

lemma catch_up_keeps [simp]:
  "ky_settings (fst (catch_up now dot dash k es)) = ky_settings k \<and> ky_straight (fst (catch_up now dot dash k es)) = ky_straight k"
proof (induction now dot dash k es rule: catch_up.induct)
  case (1 now dot dash k es)
  show ?case
  proof (cases "ky_phase k")
    case Idle
    then show ?thesis by (simp add: catch_up.simps)
  next
    case (Element kind e)
    obtain k1 es1 where s: "end_element k kind e es = (k1, es1)" by fastforce
    then show ?thesis
      using 1(1) [OF Element _ s [symmetric] refl] Element end_element_keeps [of k kind e es]
      by (subst (1 2) catch_up.simps) simp
  next
    case (Gap prev e)
    obtain k1 es1 where s: "end_gap k prev e dot dash es = (k1, es1)" by fastforce
    then show ?thesis
      using 1(2) [OF Gap _ s [symmetric] refl] Gap end_gap_keeps [of k prev e dot dash es]
      by (subst (1 2) catch_up.simps) simp
  qed
qed

lemma remember_keeps [simp]:
  "ky_settings (remember_paddles k d1 d2) = ky_settings k" "ky_straight (remember_paddles k d1 d2) = ky_straight k"
  "phase_ok d now (remember_paddles k d1 d2) G = phase_ok d now k G" "ky_phase (remember_paddles k d1 d2) = ky_phase k"
  by (simp_all add: remember_paddles_def split: keyer_phase.splits option.splits)

definition straight_quiet :: "keyer \<Rightarrow> bool" where
  "straight_quiet k \<longleftrightarrow> \<not> db_stable (ky_straight k) \<and> \<not> db_candidate (ky_straight k)"

lemma paddle_sample:
  assumes "phase_ok d t k H" "t \<le> now" "straight_quiet k" "\<not> (ks_straight_enabled (ky_settings k) \<and> ct_straight c)"
    and "sample k c now = (k', es)"
  shows "phase_ok d now k' (H @ es) \<and> straight_quiet k' \<and> ky_settings k' = ky_settings k"
proof -
  obtain k1 dot dash straight where l: "read_levels k c now = (k1, dot, dash, straight)" by (metis prod_cases4)
  obtain ds hs where m: "seen_in_mode k1 dot dash = (ds, hs)" by fastforce
  let ?k2 = "k1\<lparr> ky_prev_dot := dot, ky_prev_dash := dash \<rparr>"
  obtain k3 es3 where u: "catch_up now dot dash ?k2 [] = (k3, es3)" by fastforce
  obtain k5 es5 where r: "start_from_rest (remember_paddles k3 ds hs) dot dash now es3 = (k5, es5)" by fastforce
  have k1: "phase_ok d now k1 H" "straight_quiet k1" "\<not> straight" "ky_settings k1 = ky_settings k"
    using l assms(3,4) phase_ok_later [OF assms(1)] assms(2)
    by (auto simp: read_levels_def Let_def straight_quiet_def feed_def)
  have k3: "phase_ok d now k3 (H @ es3)" "ky_settings k3 = ky_settings k1" "ky_straight k3 = ky_straight k1"
    using phase_ok_catch_up [OF _ u, of d H] k1(1) catch_up_keeps [of now dot dash ?k2 "[]"] u by simp_all
  have k5: "phase_ok d now k5 (H @ es5) \<and> ky_settings k5 = ky_settings k1 \<and> ky_straight k5 = ky_straight k1"
  proof (cases "ky_phase k3 = Idle \<and> (dot \<or> dash)")
    case True
    then have s: "start_element (remember_paddles k3 ds hs) (if dot then Dot else Dash) now es3 = (k5, es5)"
      using r by (auto simp: start_from_rest_def split: if_splits)
    from phase_ok_start [OF _ _ s, of d H now] start_element_keeps [of "remember_paddles k3 ds hs" "if dot then Dot else Dash" now es3]
    show ?thesis using True k3 s by simp
  next
    case False
    then show ?thesis using r k3 by (auto simp: start_from_rest_def split: if_splits)
  qed
  have "straight_key k5 straight now es5 = (k', es)" using assms(5) l m u r by (simp add: sample_def)
  moreover have "straight_key k5 straight now es5 = (k5, es5)"
    using k5 k1(3) by (simp add: straight_key_def phase_ok_def)
  ultimately show ?thesis using k5 k1 by (simp add: straight_quiet_def)
qed

lemma paddle_run:
  "phase_ok d t k H \<Longrightarrow> straight_quiet k \<Longrightarrow> sorted (t # map snd samples) \<Longrightarrow>
   \<forall>(c, _) \<in> set samples. \<not> (ks_straight_enabled (ky_settings k) \<and> ct_straight c) \<Longrightarrow>
   paris d (H @ snd (keyer_run k (map (\<lambda>(c, now). Sample c now) samples)))"
proof (induction samples arbitrary: t k H)
  case Nil
  then show ?case by (simp add: phase_ok_def)
next
  case (Cons cn samples)
  obtain c now where cn: "cn = (c, now)" by fastforce
  obtain k1 es1 where s: "sample k c now = (k1, es1)" by fastforce
  have "phase_ok d now k1 (H @ es1) \<and> straight_quiet k1 \<and> ky_settings k1 = ky_settings k"
    by (rule paddle_sample [OF Cons.prems(1) _ Cons.prems(2) _ s]) (use Cons.prems(3,4) cn in auto)
  then show ?case
    using Cons.IH [of now k1 "H @ es1"] Cons.prems(3,4) cn s by (simp add: case_prod_beta)
qed

text \<open>
  C37. An element has the length the speed asks for, however late it is sampled: with the straight
  key open, over any samples whose times do not go back, every key-down is followed by its key-up
  exactly one dot or three dots later, and every key-up by the next key-down at least one dot later,
  where a dot is 1200 ms divided by the words per minute, taken between 4 and 60.
\<close>

theorem elements_keep_their_length:
  assumes "sorted (map snd samples)"
    and "\<forall>(c, _) \<in> set samples. \<not> (ks_straight_enabled s \<and> ct_straight c)"
  shows "paris (1200 div clamp 4 60 (unat (ks_wpm s)))
           (snd (keyer_run (keyer_new s) (map (\<lambda>(c, now). Sample c now) samples)))"
proof -
  have "phase_ok (1200 div clamp 4 60 (unat (ks_wpm s))) 0 (keyer_new s) []"
    by (simp add: phase_ok_def keyer_new_def dot_ms_def)
  from paddle_run [OF this, of samples] assms show ?thesis
    by (simp add: straight_quiet_def keyer_new_def debounced_default_def)
qed

definition demo_keyer :: keyer_settings where
  "demo_keyer = keyer_settings_default\<lparr> ks_debounce_ms := 0 \<rparr>"

theorem elements_keep_their_length_witness:
  "paris 48 (snd (keyer_run (keyer_new demo_keyer)
     [Sample SQUEEZE_contacts 10, Sample SQUEEZE_contacts 61, Sample OPEN_contacts 400]))"
  using elements_keep_their_length
    [of "[(SQUEEZE_contacts, 10), (SQUEEZE_contacts, 61), (OPEN_contacts, 400)]" demo_keyer]
  by (simp add: demo_keyer_def keyer_settings_default_def clamp_def)

text \<open>The first edges of that run, as the definitions compute them.\<close>

lemma demo_keyer_edges:
  "map eg_at_ms (snd (keyer_run (keyer_new demo_keyer)
     [Sample SQUEEZE_contacts 10, Sample SQUEEZE_contacts 61])) = [10, 58]"
  by (simp add: sample_def read_levels_def seen_in_mode_def feed_def keyer_new_def demo_keyer_def
      keyer_settings_default_def debounced_default_def SQUEEZE_contacts_def Let_def catch_up.simps
      remember_paddles_def start_from_rest_def start_element_def set_keyer_def emit_def edge_after_def
      straight_key_def dot_ms_def clamp_def end_element_def)

section \<open>Iambic A and B\<close>

lemma catch_up_idle: "ky_phase k = Idle \<Longrightarrow> catch_up now dot dash k es = (k, es)"
  by (simp add: catch_up.simps)

lemma catch_up_later:
  "ky_phase k = Element kind e \<or> ky_phase k = Gap kind e \<Longrightarrow> now < e \<Longrightarrow> catch_up now dot dash k es = (k, es)"
  by (subst catch_up.simps) auto

lemma catch_up_element:
  "ky_phase k = Element kind e \<Longrightarrow> e \<le> now \<Longrightarrow> end_element k kind e es = (k', es') \<Longrightarrow>
   catch_up now dot dash k es = catch_up now dot dash k' es'"
  by (subst catch_up.simps) simp

lemma catch_up_gap:
  "ky_phase k = Gap prev e \<Longrightarrow> e \<le> now \<Longrightarrow> end_gap k prev e dot dash es = (k', es') \<Longrightarrow>
   catch_up now dot dash k es = catch_up now dot dash k' es'"
  by (subst catch_up.simps) simp

definition memory_of :: "keyer \<Rightarrow> cw_element \<Rightarrow> bool" where
  "memory_of k kind = (case kind of Dot \<Rightarrow> ky_mem_dot k | Dash \<Rightarrow> ky_mem_dash k)"

definition level_of :: "bool \<Rightarrow> bool \<Rightarrow> cw_element \<Rightarrow> bool" where
  "level_of dot dash kind = (case kind of Dot \<Rightarrow> dot | Dash \<Rightarrow> dash)"

lemma read_levels_keeps:
  assumes "read_levels k c now = (k1, l)"
  shows "ky_phase k1 = ky_phase k \<and> ky_settings k1 = ky_settings k \<and> ky_prev_dot k1 = ky_prev_dot k \<and>
         ky_prev_dash k1 = ky_prev_dash k \<and> ky_mem_dot k1 = ky_mem_dot k \<and> ky_mem_dash k1 = ky_mem_dash k \<and>
         ky_keyer_down k1 = ky_keyer_down k \<and> ky_straight_down k1 = ky_straight_down k \<and>
         ky_out_down k1 = ky_out_down k \<and> ky_last_edge_ms k1 = ky_last_edge_ms k"
  using assms by (auto simp: read_levels_def Let_def)

text \<open>A sample inside an element only remembers.\<close>

lemma sample_inside:
  assumes "ky_phase k = Element kind e" "now < e" "\<not> ky_straight_down k"
    and "read_levels k c now = (k1, dot, dash, False)" "level_of dot dash (opposite kind)"
    and "sample k c now = (k', es)"
  shows "es = [] \<and> ky_phase k' = Element kind e \<and> ky_settings k' = ky_settings k \<and>
         ky_keyer_down k' = ky_keyer_down k \<and> ky_out_down k' = ky_out_down k \<and> \<not> ky_straight_down k' \<and>
         ky_last_edge_ms k' = ky_last_edge_ms k \<and>
         memory_of k' (opposite kind) =
           (memory_of k (opposite kind) \<or> ks_mode (ky_settings k) = IambicB \<or>
            \<not> level_of (ky_prev_dot k) (ky_prev_dash k) (opposite kind))"
proof -
  let ?k2 = "k1\<lparr> ky_prev_dot := dot, ky_prev_dash := dash \<rparr>"
  note k1 = read_levels_keeps [OF assms(4)]
  obtain ds hs where m: "seen_in_mode k1 dot dash = (ds, hs)" by fastforce
  have "catch_up now dot dash ?k2 [] = (?k2, [])"
    by (rule catch_up_later [where kind = kind and e = e]) (use assms(1,2) k1 in simp_all)
  then have k': "k' = remember_paddles ?k2 ds hs" "es = []"
    using assms(1,3,4,6) m k1
    by (auto simp: sample_def start_from_rest_def straight_key_def remember_paddles_def)
  have "ds = (dot \<and> (ks_mode (ky_settings k) = IambicB \<or> \<not> ky_prev_dot k))"
    "hs = (dash \<and> (ks_mode (ky_settings k) = IambicB \<or> \<not> ky_prev_dash k))"
    using m k1 by (auto simp: seen_in_mode_def split: paddle_mode.splits)
  then show ?thesis using k' k1 assms(1,3,5)
    by (cases kind) (auto simp: remember_paddles_def memory_of_def level_of_def)
qed

text \<open>What follows an element whose gap ended with both paddles open: the remembered one, or rest.\<close>

lemma sample_past_the_gap:
  assumes "ky_phase k = Element kind e" "ky_keyer_down k" "ky_out_down k" "\<not> ky_straight_down k"
    and "ky_last_edge_ms k = Some l" "l < e" "dot_ms k = d" "e + d \<le> now" "now < e + 2 * d"
    and "read_levels k c now = (k1, False, False, False)" "sample k c now = (k', es)"
  shows "if memory_of k (opposite kind)
         then es = [\<lparr> eg_down = False, eg_at_ms = e \<rparr>, \<lparr> eg_down = True, eg_at_ms = e + d \<rparr>] \<and>
              ky_phase k' = Element (opposite kind) (e + d + len_dots (opposite kind) * d)
         else es = [\<lparr> eg_down = False, eg_at_ms = e \<rparr>] \<and> ky_phase k' = Idle"
proof -
  let ?k2 = "k1\<lparr> ky_prev_dot := False, ky_prev_dash := False \<rparr>"
  note k1 = read_levels_keeps [OF assms(10)]
  have d: "dot_ms k1 = d" "0 < d" using assms(7) k1 dot_ms_pos [of k] by (auto simp: dot_ms_def simp del: dot_ms_pos)
  let ?k3 = "?k2\<lparr> ky_keyer_down := False, ky_out_down := False, ky_last_edge_ms := Some e, ky_phase := Gap kind (e + d) \<rparr>"
  have "end_element ?k2 kind e [] = (?k3, [\<lparr> eg_down = False, eg_at_ms = e \<rparr>])"
    using k1 assms(3-6) d(1) by (simp add: end_element_def set_keyer_def emit_def edge_after_def)
  then have u1: "catch_up now False False ?k2 [] = catch_up now False False ?k3 [\<lparr> eg_down = False, eg_at_ms = e \<rparr>]"
    by (rule catch_up_element [rotated 2]) (use k1 assms(1,8) in simp_all)
  obtain ds hs where m: "seen_in_mode k1 False False = (ds, hs)" by fastforce
  then have q: "\<not> ds" "\<not> hs" by (auto simp: seen_in_mode_def split: paddle_mode.splits)
  show ?thesis
  proof (cases "memory_of k (opposite kind)")
    case True
    let ?k4 = "?k3\<lparr> ky_mem_dot := False, ky_mem_dash := False,
        ky_phase := Element (opposite kind) (e + d + len_dots (opposite kind) * d),
        ky_keyer_down := True, ky_out_down := True, ky_last_edge_ms := Some (e + d) \<rparr>"
    let ?es = "[\<lparr> eg_down = False, eg_at_ms = e \<rparr>, \<lparr> eg_down = True, eg_at_ms = e + d \<rparr>]"
    have "end_gap ?k3 kind (e + d) False False [\<lparr> eg_down = False, eg_at_ms = e \<rparr>] = (?k4, ?es)"
      using True k1 d assms(4) by (cases kind)
        (simp_all add: end_gap_def next_after_def memory_of_def start_element_def set_keyer_def emit_def edge_after_def Let_def)
    then have "catch_up now False False ?k3 [\<lparr> eg_down = False, eg_at_ms = e \<rparr>] = catch_up now False False ?k4 ?es"
      by (rule catch_up_gap [rotated 2]) (use assms(8) in simp_all)
    also have "\<dots> = (?k4, ?es)"
      by (rule catch_up_later [where kind = "opposite kind" and e = "e + d + len_dots (opposite kind) * d"])
        (use assms(9) d in \<open>cases kind; simp\<close>)+
    finally show ?thesis using True u1 assms(4,10,11) m q k1
      by (auto simp: sample_def remember_paddles_def start_from_rest_def straight_key_def)
  next
    case False
    let ?k4 = "?k3\<lparr> ky_mem_dot := False, ky_mem_dash := False, ky_phase := Idle \<rparr>"
    have "end_gap ?k3 kind (e + d) False False [\<lparr> eg_down = False, eg_at_ms = e \<rparr>] = (?k4, [\<lparr> eg_down = False, eg_at_ms = e \<rparr>])"
      using False k1 by (cases kind) (simp_all add: end_gap_def next_after_def memory_of_def)
    then have "catch_up now False False ?k3 [\<lparr> eg_down = False, eg_at_ms = e \<rparr>] =
        catch_up now False False ?k4 [\<lparr> eg_down = False, eg_at_ms = e \<rparr>]"
      by (rule catch_up_gap [rotated 2]) (use assms(8) in simp_all)
    also have "\<dots> = (?k4, [\<lparr> eg_down = False, eg_at_ms = e \<rparr>])" by (rule catch_up_idle) simp
    finally show ?thesis using False u1 assms(4,10,11) m q k1
      by (auto simp: sample_def remember_paddles_def start_from_rest_def straight_key_def)
  qed
qed

text \<open>
  The two modes differ in what they remember and in nothing else: when the other paddle is closed
  at a sample inside an element and both are open again once the gap is over, iambic B plays one more
  element, of the opposite kind, one dot after this one ended; iambic A plays it just when that paddle
  had been open at the sample before, and rests otherwise.
\<close>

theorem modes_differ_in_memory:
  assumes "ky_phase k = Element kind e" "ky_keyer_down k" "ky_out_down k" "\<not> ky_straight_down k"
    and "ky_last_edge_ms k = Some l" "l < e" "\<not> memory_of k (opposite kind)" "t1 < e"
    and "read_levels k c1 t1 = (r1, dot, dash, False)" "level_of dot dash (opposite kind)"
    and "sample k c1 t1 = (k1, es1)"
    and "read_levels k1 c2 t2 = (r2, False, False, False)" "e + dot_ms k \<le> t2" "t2 < e + 2 * dot_ms k"
    and "sample k1 c2 t2 = (k2, es2)"
  shows "es1 = [] \<and>
    (if ks_mode (ky_settings k) = IambicA \<and> level_of (ky_prev_dot k) (ky_prev_dash k) (opposite kind)
     then es2 = [\<lparr> eg_down = False, eg_at_ms = e \<rparr>] \<and> ky_phase k2 = Idle
     else es2 = [\<lparr> eg_down = False, eg_at_ms = e \<rparr>, \<lparr> eg_down = True, eg_at_ms = e + dot_ms k \<rparr>] \<and>
          ky_phase k2 = Element (opposite kind) (e + dot_ms k + len_dots (opposite kind) * dot_ms k))"
proof -
  note s1 = sample_inside [OF assms(1,8,4,9,10,11)]
  have "dot_ms k1 = dot_ms k" using s1 by (simp add: dot_ms_def)
  from sample_past_the_gap [OF _ _ _ _ _ assms(6) this assms(13,14,12,15), of kind] s1 assms(2,3,5,7)
  show ?thesis by (cases "ks_mode (ky_settings k)") (auto split: if_splits)
qed

theorem modes_differ_in_memory_witness:
  "let k = fst (keyer_run (keyer_new (demo_keyer\<lparr> ks_mode := IambicA \<rparr>))
                 [Sample SQUEEZE_contacts 10, Sample SQUEEZE_contacts 20])
   in snd (sample k OPEN_contacts 110) = [\<lparr> eg_down = False, eg_at_ms = 58 \<rparr>]"
proof -
  let ?k0 = "keyer_new (demo_keyer\<lparr> ks_mode := IambicA \<rparr>)"
  let ?k = "fst (sample ?k0 SQUEEZE_contacts 10)"
  note defs = sample_def read_levels_def seen_in_mode_def feed_def keyer_new_def demo_keyer_def
      keyer_settings_default_def debounced_default_def SQUEEZE_contacts_def OPEN_contacts_def Let_def catch_up.simps
      remember_paddles_def start_from_rest_def start_element_def set_keyer_def emit_def edge_after_def
      straight_key_def dot_ms_def clamp_def memory_of_def level_of_def
  obtain k1 es1 where s1: "sample ?k SQUEEZE_contacts 20 = (k1, es1)" by fastforce
  then have k1: "ky_a k1 = \<lparr> db_stable = True, db_candidate = True, db_since_ms = 10 \<rparr>"
      "ky_b k1 = \<lparr> db_stable = True, db_candidate = True, db_since_ms = 10 \<rparr>"
      "ky_straight k1 = debounced_default" "ky_settings k1 = demo_keyer\<lparr> ks_mode := IambicA \<rparr>"
    by (auto simp: defs)
  obtain k2 es2 where s2: "sample k1 OPEN_contacts 110 = (k2, es2)" by fastforce
  obtain r2 where r2: "read_levels k1 OPEN_contacts 110 = (r2, False, False, False)"
    using k1 by (simp add: OPEN_contacts_def read_levels_def feed_def demo_keyer_def keyer_settings_default_def debounced_default_def Let_def)
  obtain r1 where r1: "read_levels ?k SQUEEZE_contacts 20 = (r1, True, True, False)"
    by (simp add: defs)
  have k: "ky_phase ?k = Element Dot 58" "ky_keyer_down ?k" "ky_out_down ?k" "\<not> ky_straight_down ?k"
      "ky_last_edge_ms ?k = Some 10" "\<not> memory_of ?k (opposite Dot)" "dot_ms ?k = 48"
      "ky_prev_dash ?k" "ks_mode (ky_settings ?k) = IambicA"
    by (simp_all add: defs)
  have "es1 = [] \<and> es2 = [\<lparr> eg_down = False, eg_at_ms = 58 \<rparr>]"
    using modes_differ_in_memory [OF k(1-5) _ k(6) _ r1 _ s1 r2 _ _ s2, simplified k(7-9)] by - (simp add: level_of_def)
  then show ?thesis using s1 s2 by (simp add: case_prod_beta)
qed

end
