(* ===== verification/SortedMap.thy ===== *)
theory SortedMap
  imports Prelude
begin

text \<open>
  \<^verbatim>\<open>std::collections::BTreeMap\<close> as the sources use it: an association list in strictly ascending
  key order. \<open>bt_insert\<close> replaces the value of a key that is there, \<open>tl\<close> is \<^verbatim>\<open>pop_first\<close>, the head is
  \<^verbatim>\<open>first_key_value\<close>, \<open>length\<close> is \<^verbatim>\<open>len\<close> and \<open>map snd\<close> is \<^verbatim>\<open>values\<close>.
\<close>

type_synonym ('k, 'v) btree = "('k \<times> 'v) list"

abbreviation bt_ok :: "('k::linorder, 'v) btree \<Rightarrow> bool" where
  "bt_ok t \<equiv> sorted_wrt (<) (map fst t)"

fun bt_insert :: "'k::linorder \<Rightarrow> 'v \<Rightarrow> ('k, 'v) btree \<Rightarrow> ('k, 'v) btree" where
  "bt_insert k v [] = [(k, v)]"
| "bt_insert k v ((a, b) # t) =
     (if k < a then (k, v) # (a, b) # t
      else if k = a then (k, v) # t
      else (a, b) # bt_insert k v t)"

definition bt_remove :: "'k \<Rightarrow> ('k, 'v) btree \<Rightarrow> ('k, 'v) btree" where
  "bt_remove k t = filter (\<lambda>(a, _). a \<noteq> k) t"

lemma bt_distinct: "bt_ok t \<Longrightarrow> distinct (map fst t)"
  by (induction t) auto

lemma keys_bt_insert [simp]: "fst ` set (bt_insert k v t) = insert k (fst ` set t)"
  by (induction k v t rule: bt_insert.induct) auto

lemma bt_ok_insert [simp]: "bt_ok t \<Longrightarrow> bt_ok (bt_insert k v t)"
proof (induction k v t rule: bt_insert.induct)
  case (2 k v a b t)
  then have "bt_ok (bt_insert k v t)" if "\<not> k < a" "k \<noteq> a" using that by simp
  moreover have "a < x" if "\<not> k < a" "k \<noteq> a" "x \<in> fst ` set (bt_insert k v t)" for x
    using that 2(2) by auto
  ultimately show ?case using 2(2) by auto
qed simp

lemma map_of_bt_insert [simp]: "bt_ok t \<Longrightarrow> map_of (bt_insert k v t) = (map_of t)(k \<mapsto> v)"
proof (induction k v t rule: bt_insert.induct)
  case (2 k v a b t)
  have "k \<notin> fst ` set t" if "k < a" using 2(2) that by fastforce
  then show ?case using 2 by (auto simp: fun_eq_iff map_of_eq_None_iff)
qed (simp add: fun_eq_iff)

lemma set_bt_insert:
  "bt_ok t \<Longrightarrow> set (bt_insert k v t) = insert (k, v) {p \<in> set t. fst p \<noteq> k}"
proof (induction k v t rule: bt_insert.induct)
  case (2 k v a b t)
  have "k \<notin> fst ` set t" if "k \<le> a" using 2(2) that by fastforce
  then show ?case using 2 by (auto simp: image_iff)
qed simp

lemma length_keys: "bt_ok t \<Longrightarrow> length t = card (fst ` set t)"
  using distinct_card [OF bt_distinct, of t] by simp

lemma length_bt_insert:
  "bt_ok t \<Longrightarrow> length (bt_insert k v t) = (if k \<in> fst ` set t then length t else Suc (length t))"
  using length_keys [of t] length_keys [of "bt_insert k v t"] by (simp add: card_insert_if)

lemma bt_ok_remove [simp]: "bt_ok t \<Longrightarrow> bt_ok (bt_remove k t)"
  by (induction t) (auto simp: bt_remove_def)

lemma set_bt_remove: "set (bt_remove k t) = {p \<in> set t. fst p \<noteq> k}"
  by (auto simp: bt_remove_def)

lemma bt_remove_absent: "map_of t k = None \<Longrightarrow> bt_remove k t = t"
  by (induction t) (auto simp: bt_remove_def split: if_splits)

lemma length_bt_remove: "bt_ok t \<Longrightarrow> map_of t k = Some v \<Longrightarrow> Suc (length (bt_remove k t)) = length t"
proof (induction t)
  case (Cons p t)
  obtain a b where p: "p = (a, b)" by fastforce
  show ?case
  proof (cases "a = k")
    case True
    then have "map_of t k = None" using Cons.prems(1) p by (auto simp: map_of_eq_None_iff)
    then have "bt_remove k t = t" by (rule bt_remove_absent)
    then show ?thesis using True p by (simp add: bt_remove_def)
  next
    case False
    then show ?thesis using Cons p by (simp add: bt_remove_def)
  qed
qed simp

lemma bt_ok_tl [simp]: "bt_ok t \<Longrightarrow> bt_ok (tl t)"
  by (cases t) auto

lemma bt_subset_length: "bt_ok t \<Longrightarrow> bt_ok t' \<Longrightarrow> set t' \<subseteq> set t \<Longrightarrow> length t' \<le> length t"
  by (simp add: length_keys card_mono image_mono)

end
