(* ===== verification/JitterBuffer.thy ===== *)
theory JitterBuffer
  imports SortedMap
begin

text \<open>
  The adaptive jitter buffer (\<^verbatim>\<open>sdr-remote-core/src/jitter.rs\<close>). The buffer is a sorted map from
  sequence numbers to frames, depths and sequence numbers are \<^verbatim>\<open>u32\<close> words, statistics are natural
  numbers. The single-precision arithmetic of the jitter estimate is the argument \<open>fo\<close>: the type
  \<open>'f\<close> stands for \<^verbatim>\<open>f32\<close>, and every operation the code uses on it is a field. It only decides the
  target depth, and no result here depends on what it computes.
\<close>

section \<open>Data\<close>

record buffered_frame =
  bf_sequence :: u32
  bf_timestamp :: u32
  bf_opus_data :: "u8 list"
  bf_ptt :: bool
  bf_wideband :: bool

datatype jitter_result = Frame buffered_frame | Missing | NotReady

text \<open>\<open>fo_deviation\<close> is a whole number of milliseconds as \<^verbatim>\<open>f32\<close>; \<open>fo_to_u32\<close> is the cast back, which saturates.\<close>

record 'f f32_ops =
  fo_zero :: 'f
  fo_one :: 'f
  fo_quarter :: 'f
  fo_sixteenth :: 'f
  fo_deviation :: "nat \<Rightarrow> 'f"
  fo_less :: "'f \<Rightarrow> 'f \<Rightarrow> bool"
  fo_max :: "'f \<Rightarrow> 'f \<Rightarrow> 'f"
  fo_add :: "'f \<Rightarrow> 'f \<Rightarrow> 'f"
  fo_sub :: "'f \<Rightarrow> 'f \<Rightarrow> 'f"
  fo_mul :: "'f \<Rightarrow> 'f \<Rightarrow> 'f"
  fo_div :: "'f \<Rightarrow> 'f \<Rightarrow> 'f"
  fo_to_u32 :: "'f \<Rightarrow> u32"
  fo_of_nat :: "nat \<Rightarrow> 'f"

definition TARGET_ADD :: u32 where "TARGET_ADD = 2"
definition CAP_ABOVE_MAX :: u32 where "CAP_ABOVE_MAX = 10"
definition TRIM_ABOVE_TARGET :: int where "TRIM_ABOVE_TARGET = 2"
definition TRIM_EVERY_PULLS :: nat where "TRIM_EVERY_PULLS = 12"
definition FAST_TRIM_ABOVE :: int where "FAST_TRIM_ABOVE = 6"
definition TARGET_MS_PER_FRAME :: nat where "TARGET_MS_PER_FRAME = 15"
definition SPIKE_DECAY_PACKETS :: nat where "SPIKE_DECAY_PACKETS = 230"
definition TX_TARGET_MS_PER_FRAME :: nat where "TX_TARGET_MS_PER_FRAME = 30"
definition TX_SPIKE_DECAY_PACKETS :: nat where "TX_SPIKE_DECAY_PACKETS = 115"
definition STREAM_RESTART_BACKJUMP :: u32 where "STREAM_RESTART_BACKJUMP = 64"

record 'f tuning =
  tn_ms_per_frame :: 'f
  tn_target_add :: u32
  tn_spike_decay_packets :: 'f
  tn_cap_above_max :: u32
  tn_trim_above_target :: int
  tn_trim_every_pulls :: nat
  tn_fast_trim_above :: int

definition tuning_default :: "'f f32_ops \<Rightarrow> 'f tuning" where
  "tuning_default fo =
     \<lparr> tn_ms_per_frame = fo_of_nat fo TARGET_MS_PER_FRAME, tn_target_add = TARGET_ADD,
       tn_spike_decay_packets = fo_of_nat fo SPIKE_DECAY_PACKETS, tn_cap_above_max = CAP_ABOVE_MAX,
       tn_trim_above_target = TRIM_ABOVE_TARGET, tn_trim_every_pulls = TRIM_EVERY_PULLS,
       tn_fast_trim_above = FAST_TRIM_ABOVE \<rparr>"

definition tuning_transmit :: "'f f32_ops \<Rightarrow> 'f tuning" where
  "tuning_transmit fo =
     (tuning_default fo)\<lparr> tn_ms_per_frame := fo_of_nat fo TX_TARGET_MS_PER_FRAME,
       tn_spike_decay_packets := fo_of_nat fo TX_SPIKE_DECAY_PACKETS,
       tn_trim_every_pulls := 2 ^ 32 - 1 \<rparr>"

record 'f jitter_buffer =
  jb_buffer :: "(u32, buffered_frame) btree"
  jb_next_seq :: "u32 option"
  jb_target_depth :: u32
  jb_min_depth :: u32
  jb_max_depth :: u32
  jb_jitter_estimate_ms :: 'f
  jb_spike_peak_ms :: 'f
  jb_last_arrival_ms :: "nat option"
  jb_last_packet_ts :: "u32 option"
  jb_received :: nat
  jb_lost :: nat
  jb_late :: nat
  jb_capped :: nat
  jb_trimmed :: nat
  jb_skipped :: nat
  jb_cleared :: nat
  jb_initial_fill_remaining :: nat
  jb_refilling :: bool
  jb_pulls_since_trim :: nat
  jb_ends_with_release :: bool
  jb_tuning :: "'f tuning"

definition jitter_new :: "'f f32_ops \<Rightarrow> u32 \<Rightarrow> u32 \<Rightarrow> 'f jitter_buffer" where
  "jitter_new fo min_depth max_depth =
     \<lparr> jb_buffer = [], jb_next_seq = None, jb_target_depth = min_depth, jb_min_depth = min_depth,
       jb_max_depth = max_depth, jb_jitter_estimate_ms = fo_zero fo, jb_spike_peak_ms = fo_zero fo,
       jb_last_arrival_ms = None, jb_last_packet_ts = None, jb_received = 0, jb_lost = 0,
       jb_late = 0, jb_capped = 0, jb_trimmed = 0, jb_skipped = 0, jb_cleared = 0,
       jb_initial_fill_remaining = 25, jb_refilling = False, jb_pulls_since_trim = 0,
       jb_ends_with_release = False, jb_tuning = tuning_default fo \<rparr>"

definition with_tuning :: "'f jitter_buffer \<Rightarrow> 'f tuning \<Rightarrow> 'f jitter_buffer" where
  "with_tuning jb t = jb\<lparr> jb_tuning := t \<rparr>"

definition for_transmit :: "'f f32_ops \<Rightarrow> u32 \<Rightarrow> u32 \<Rightarrow> 'f jitter_buffer" where
  "for_transmit fo min_depth max_depth =
     (jitter_new fo min_depth max_depth)\<lparr> jb_ends_with_release := True, jb_tuning := tuning_transmit fo \<rparr>"

definition is_seq_before :: "u32 \<Rightarrow> u32 \<Rightarrow> bool" where
  "is_seq_before a b \<longleftrightarrow> a - b > 0x80000000"

section \<open>Pushing\<close>

definition jb_estimate :: "'f f32_ops \<Rightarrow> 'f jitter_buffer \<Rightarrow> buffered_frame \<Rightarrow> nat \<Rightarrow> 'f jitter_buffer" where
  "jb_estimate fo jb frame arrival_ms =
     (case (jb_last_arrival_ms jb, jb_last_packet_ts jb) of
        (Some last_arrival, Some last_ts) \<Rightarrow>
          (let ts_diff = unat (bf_timestamp frame - last_ts)
           in if ts_diff > 0 \<and> ts_diff < 1000 then
                (let deviation = fo_deviation fo (nat \<bar>int arrival_ms - int last_arrival - int ts_diff\<bar>);
                     est = jb_jitter_estimate_ms jb;
                     alpha = (if fo_less fo est deviation then fo_quarter fo else fo_sixteenth fo);
                     est' = fo_add fo est (fo_mul fo (fo_sub fo deviation est) alpha);
                     peak = jb_spike_peak_ms jb;
                     peak' = (if fo_less fo peak deviation then deviation
                              else fo_mul fo peak (fo_sub fo (fo_one fo)
                                     (fo_div fo (fo_one fo) (tn_spike_decay_packets (jb_tuning jb)))));
                     desired = fo_to_u32 fo (fo_div fo (fo_max fo est' peak') (tn_ms_per_frame (jb_tuning jb)))
                               + tn_target_add (jb_tuning jb)
                 in jb\<lparr> jb_jitter_estimate_ms := est', jb_spike_peak_ms := peak',
                       jb_target_depth := clamp (jb_min_depth jb) (jb_max_depth jb) desired \<rparr>)
              else jb)
      | _ \<Rightarrow> jb)"

definition step_past :: "'f jitter_buffer \<Rightarrow> u32 \<Rightarrow> 'f jitter_buffer" where
  "step_past jb taken =
     (case jb_next_seq jb of
        None \<Rightarrow> jb
      | Some nxt \<Rightarrow>
          if \<not> is_seq_before taken nxt
          then jb\<lparr> jb_skipped := jb_skipped jb + unat (taken - nxt), jb_next_seq := Some (taken + 1) \<rparr>
          else jb)"

definition hard_limit :: "'f jitter_buffer \<Rightarrow> nat" where
  "hard_limit jb = unat (jb_max_depth jb) + unat (tn_cap_above_max (jb_tuning jb))"

definition pop_capped :: "'f jitter_buffer \<Rightarrow> 'f jitter_buffer" where
  "pop_capped jb =
     (case jb_buffer jb of
        [] \<Rightarrow> jb
      | (oldest, _) # rest \<Rightarrow>
          step_past (jb\<lparr> jb_buffer := rest, jb_capped := jb_capped jb + 1 \<rparr>) oldest)"

lemma step_past_keeps [simp]:
  "jb_buffer (step_past jb t) = jb_buffer jb" "jb_max_depth (step_past jb t) = jb_max_depth jb"
  "jb_tuning (step_past jb t) = jb_tuning jb" "jb_received (step_past jb t) = jb_received jb"
  "jb_late (step_past jb t) = jb_late jb" "jb_capped (step_past jb t) = jb_capped jb"
  "jb_trimmed (step_past jb t) = jb_trimmed jb" "jb_cleared (step_past jb t) = jb_cleared jb"
  "jb_refilling (step_past jb t) = jb_refilling jb" "jb_target_depth (step_past jb t) = jb_target_depth jb"
  "jb_ends_with_release (step_past jb t) = jb_ends_with_release jb"
  by (simp_all add: step_past_def split: option.splits)

function cap_buffer :: "'f jitter_buffer \<Rightarrow> 'f jitter_buffer" where
  "cap_buffer jb = (if length (jb_buffer jb) > hard_limit jb then cap_buffer (pop_capped jb) else jb)"
  by pat_completeness auto

termination
  by (relation "measure (\<lambda>jb. length (jb_buffer jb))") (auto simp: pop_capped_def split: list.splits)

declare cap_buffer.simps [simp del]

definition restarts :: "'f jitter_buffer \<Rightarrow> u32 \<Rightarrow> bool" where
  "restarts jb s \<longleftrightarrow>
     (case jb_next_seq jb of None \<Rightarrow> False
      | Some nxt \<Rightarrow> is_seq_before s nxt \<and> nxt - s > STREAM_RESTART_BACKJUMP)"

definition too_late :: "'f jitter_buffer \<Rightarrow> u32 \<Rightarrow> bool" where
  "too_late jb s \<longleftrightarrow>
     (case jb_next_seq jb of None \<Rightarrow> False
      | Some nxt \<Rightarrow> is_seq_before s nxt \<and> \<not> nxt - s > STREAM_RESTART_BACKJUMP)"

definition rebaseline :: "'f jitter_buffer \<Rightarrow> u32 \<Rightarrow> 'f jitter_buffer" where
  "rebaseline jb s =
     (if restarts jb s
      then jb\<lparr> jb_cleared := jb_cleared jb + length (jb_buffer jb), jb_buffer := [],
              jb_next_seq := None, jb_refilling := False \<rparr>
      else jb)"

definition push :: "'f f32_ops \<Rightarrow> 'f jitter_buffer \<Rightarrow> buffered_frame \<Rightarrow> nat \<Rightarrow> 'f jitter_buffer" where
  "push fo jb frame arrival_ms =
     (let jb1 = (jb_estimate fo (jb\<lparr> jb_received := jb_received jb + 1 \<rparr>) frame arrival_ms)
                  \<lparr> jb_last_arrival_ms := Some arrival_ms, jb_last_packet_ts := Some (bf_timestamp frame) \<rparr>
      in if too_late jb1 (bf_sequence frame) then jb1\<lparr> jb_late := jb_late jb1 + 1 \<rparr>
         else (let jb2 = rebaseline jb1 (bf_sequence frame)
               in cap_buffer (jb2\<lparr> jb_buffer := bt_insert (bf_sequence frame) frame (jb_buffer jb2) \<rparr>)))"

section \<open>Pulling\<close>

definition short_of_target :: "'f jitter_buffer \<Rightarrow> bool" where
  "short_of_target jb \<longleftrightarrow>
     length (jb_buffer jb) < unat (jb_target_depth jb) \<and>
     \<not> (jb_ends_with_release jb \<and> list_ex (\<lambda>(_, f). \<not> bf_ptt f) (jb_buffer jb))"

definition pull_start :: "'f jitter_buffer \<Rightarrow> 'f jitter_buffer option" where
  "pull_start jb =
     (if jb_next_seq jb = None then
        (if short_of_target jb then None
         else case jb_buffer jb of
                [] \<Rightarrow> None
              | (first_seq, _) # _ \<Rightarrow> Some (jb\<lparr> jb_next_seq := Some first_seq \<rparr>))
      else Some jb)"

definition trim_drops :: "'f jitter_buffer \<Rightarrow> bool" where
  "trim_drops jb \<longleftrightarrow>
     jb_initial_fill_remaining jb = 0 \<and>
     (let excess = int (length (jb_buffer jb)) - int (unat (jb_target_depth jb)) - tn_trim_above_target (jb_tuning jb)
      in excess > tn_fast_trim_above (jb_tuning jb) \<or>
         (excess > 0 \<and> jb_pulls_since_trim jb \<ge> tn_trim_every_pulls (jb_tuning jb)))"

definition trim_buffer :: "'f jitter_buffer \<Rightarrow> 'f jitter_buffer" where
  "trim_buffer jb0 =
     (let jb = jb0\<lparr> jb_pulls_since_trim := min (jb_pulls_since_trim jb0 + 1) (2 ^ 32 - 1) \<rparr>
      in if trim_drops jb then
           (case jb_buffer jb of
              [] \<Rightarrow> jb\<lparr> jb_pulls_since_trim := 0 \<rparr>
            | (oldest, _) # rest \<Rightarrow>
                step_past (jb\<lparr> jb_pulls_since_trim := 0, jb_buffer := rest, jb_trimmed := jb_trimmed jb + 1 \<rparr>) oldest)
         else jb)"

definition take_next :: "'f jitter_buffer \<Rightarrow> 'f jitter_buffer \<times> jitter_result" where
  "take_next jb0 =
     (let s = the (jb_next_seq jb0); jb = jb0\<lparr> jb_next_seq := Some (s + 1) \<rparr>
      in case map_of (jb_buffer jb) s of
           Some frame \<Rightarrow> (jb\<lparr> jb_buffer := bt_remove s (jb_buffer jb) \<rparr>, Frame frame)
         | None \<Rightarrow>
             (case jb_buffer jb of
                (first_buffered, _) # _ \<Rightarrow>
                  if first_buffered - s > jb_max_depth jb
                  then (jb\<lparr> jb_skipped := jb_skipped jb + unat (first_buffered - s),
                           jb_next_seq := Some first_buffered \<rparr>, NotReady)
                  else (jb\<lparr> jb_lost := jb_lost jb + 1 \<rparr>, Missing)
              | [] \<Rightarrow> (jb\<lparr> jb_lost := jb_lost jb + 1 \<rparr>, Missing)))"

definition pull :: "'f jitter_buffer \<Rightarrow> 'f jitter_buffer \<times> jitter_result" where
  "pull jb =
     (case pull_start jb of
        None \<Rightarrow> (jb, NotReady)
      | Some jb1 \<Rightarrow>
          if jb_buffer jb1 = [] then (jb1\<lparr> jb_refilling := True \<rparr>, NotReady)
          else if jb_refilling jb1 \<and> short_of_target jb1 then (jb1, NotReady)
          else take_next (trim_buffer
                 (jb1\<lparr> jb_refilling := False,
                      jb_initial_fill_remaining := jb_initial_fill_remaining jb1 - 1 \<rparr>)))"

section \<open>The rest\<close>

definition peek_opus_data :: "'f jitter_buffer \<Rightarrow> u32 \<Rightarrow> u8 list option" where
  "peek_opus_data jb s = map_option bf_opus_data (map_of (jb_buffer jb) s)"

definition peek_frame :: "'f jitter_buffer \<Rightarrow> u32 \<Rightarrow> (u8 list \<times> bool) option" where
  "peek_frame jb s = map_option (\<lambda>f. (bf_opus_data f, bf_wideband f)) (map_of (jb_buffer jb) s)"

definition holds_a_press :: "'f jitter_buffer \<Rightarrow> bool" where
  "holds_a_press jb \<longleftrightarrow> list_ex (\<lambda>(_, f). bf_ptt f) (jb_buffer jb)"

definition jitter_discard :: "'f jitter_buffer \<Rightarrow> 'f jitter_buffer" where
  "jitter_discard jb =
     jb\<lparr> jb_cleared := jb_cleared jb + length (jb_buffer jb), jb_buffer := [], jb_next_seq := None \<rparr>"

definition drain_all :: "'f jitter_buffer \<Rightarrow> 'f jitter_buffer \<times> buffered_frame list" where
  "drain_all jb = (jb\<lparr> jb_buffer := [], jb_next_seq := None \<rparr>, map snd (jb_buffer jb))"

definition jitter_reset :: "'f f32_ops \<Rightarrow> 'f jitter_buffer \<Rightarrow> 'f jitter_buffer" where
  "jitter_reset fo jb =
     jb\<lparr> jb_cleared := jb_cleared jb + length (jb_buffer jb), jb_buffer := [], jb_next_seq := None,
        jb_jitter_estimate_ms := fo_zero fo, jb_spike_peak_ms := fo_zero fo,
        jb_last_arrival_ms := None, jb_last_packet_ts := None, jb_initial_fill_remaining := 25,
        jb_refilling := False, jb_pulls_since_trim := 0 \<rparr>"

section \<open>A life of the buffer\<close>

datatype jitter_event = PushFrame buffered_frame nat | PullFrame | DiscardAll | DrainAll | ResetAll

fun jitter_step :: "'f f32_ops \<Rightarrow> 'f jitter_buffer \<Rightarrow> jitter_event \<Rightarrow> 'f jitter_buffer \<times> buffered_frame list" where
  "jitter_step fo jb (PushFrame f arrival) = (push fo jb f arrival, [])"
| "jitter_step fo jb PullFrame =
     (case pull jb of (jb', Frame f) \<Rightarrow> (jb', [f]) | (jb', _) \<Rightarrow> (jb', []))"
| "jitter_step fo jb DiscardAll = (jitter_discard jb, [])"
| "jitter_step fo jb DrainAll = drain_all jb"
| "jitter_step fo jb ResetAll = (jitter_reset fo jb, [])"

fun jitter_run :: "'f f32_ops \<Rightarrow> 'f jitter_buffer \<Rightarrow> jitter_event list \<Rightarrow> 'f jitter_buffer \<times> buffered_frame list" where
  "jitter_run fo jb [] = (jb, [])"
| "jitter_run fo jb (ev # evs) =
     (let (jb', fs) = jitter_step fo jb ev; (jb'', fs') = jitter_run fo jb' evs in (jb'', fs @ fs'))"

section \<open>Every frame is accounted for\<close>

text \<open>
  A frame that arrives under a number the buffer holds already takes the other's place; the code
  does not count it, so the account does.
\<close>

definition replaces :: "'f jitter_buffer \<Rightarrow> u32 \<Rightarrow> bool" where
  "replaces jb s \<longleftrightarrow> \<not> too_late jb s \<and> \<not> restarts jb s \<and> s \<in> fst ` set (jb_buffer jb)"

fun replaced_in :: "'f f32_ops \<Rightarrow> 'f jitter_buffer \<Rightarrow> jitter_event list \<Rightarrow> nat" where
  "replaced_in fo jb [] = 0"
| "replaced_in fo jb (ev # evs) =
     (case ev of PushFrame f _ \<Rightarrow> if replaces jb (bf_sequence f) then 1 else 0 | _ \<Rightarrow> 0) +
     replaced_in fo (fst (jitter_step fo jb ev)) evs"

definition gone :: "'f jitter_buffer \<Rightarrow> nat" where
  "gone jb = jb_late jb + jb_capped jb + jb_trimmed jb + jb_cleared jb"

definition jitter_inv :: "'f jitter_buffer \<Rightarrow> bool" where
  "jitter_inv jb \<longleftrightarrow>
     bt_ok (jb_buffer jb) \<and> (\<forall>(k, f) \<in> set (jb_buffer jb). bf_sequence f = k) \<and>
     length (jb_buffer jb) \<le> hard_limit jb"

lemma estimate_keeps [simp]:
  "jb_buffer (jb_estimate fo jb f t) = jb_buffer jb" "jb_next_seq (jb_estimate fo jb f t) = jb_next_seq jb"
  "jb_max_depth (jb_estimate fo jb f t) = jb_max_depth jb" "jb_tuning (jb_estimate fo jb f t) = jb_tuning jb"
  "jb_received (jb_estimate fo jb f t) = jb_received jb" "jb_late (jb_estimate fo jb f t) = jb_late jb"
  "jb_capped (jb_estimate fo jb f t) = jb_capped jb" "jb_trimmed (jb_estimate fo jb f t) = jb_trimmed jb"
  "jb_cleared (jb_estimate fo jb f t) = jb_cleared jb"
  "jb_ends_with_release (jb_estimate fo jb f t) = jb_ends_with_release jb"
  by (simp_all add: jb_estimate_def Let_def split: option.splits)

lemma restarts_cong: "jb_next_seq jb = jb_next_seq jb' \<Longrightarrow> restarts jb s = restarts jb' s"
  by (simp add: restarts_def)

lemma too_late_cong: "jb_next_seq jb = jb_next_seq jb' \<Longrightarrow> too_late jb s = too_late jb' s"
  by (simp add: too_late_def)

lemma hard_limit_step_past [simp]: "hard_limit (step_past jb t) = hard_limit jb"
  by (simp add: hard_limit_def)

lemma pop_capped_account:
  assumes "jb_buffer jb \<noteq> []"
  shows "length (jb_buffer (pop_capped jb)) + gone (pop_capped jb) = length (jb_buffer jb) + gone jb"
    and "jb_buffer (pop_capped jb) = tl (jb_buffer jb)"
    and "hard_limit (pop_capped jb) = hard_limit jb" "jb_received (pop_capped jb) = jb_received jb"
  using assms by (auto simp: pop_capped_def gone_def hard_limit_def neq_Nil_conv)

lemma cap_buffer_account:
  "length (jb_buffer (cap_buffer jb)) + gone (cap_buffer jb) = length (jb_buffer jb) + gone jb \<and>
   length (jb_buffer (cap_buffer jb)) \<le> hard_limit (cap_buffer jb) \<and>
   hard_limit (cap_buffer jb) = hard_limit jb \<and> jb_received (cap_buffer jb) = jb_received jb"
proof (induction jb rule: cap_buffer.induct)
  case (1 jb)
  show ?case
  proof (cases "length (jb_buffer jb) > hard_limit jb")
    case True
    then have ne: "jb_buffer jb \<noteq> []" by auto
    have "cap_buffer jb = cap_buffer (pop_capped jb)" using True by (subst cap_buffer.simps) simp
    then show ?thesis using 1 [OF True] pop_capped_account [OF ne] by simp
  next
    case False
    then have "cap_buffer jb = jb" by (subst cap_buffer.simps) simp
    then show ?thesis using False by simp
  qed
qed

lemma cap_buffer_drops: "\<exists>n. jb_buffer (cap_buffer jb) = drop n (jb_buffer jb)"
proof (induction jb rule: cap_buffer.induct)
  case (1 jb)
  show ?case
  proof (cases "length (jb_buffer jb) > hard_limit jb")
    case True
    then have ne: "jb_buffer jb \<noteq> []" by auto
    have "cap_buffer jb = cap_buffer (pop_capped jb)" using True by (subst cap_buffer.simps) simp
    moreover obtain n where "jb_buffer (cap_buffer (pop_capped jb)) = drop n (jb_buffer (pop_capped jb))"
      using 1 [OF True] by blast
    ultimately have "jb_buffer (cap_buffer jb) = drop (Suc n) (jb_buffer jb)"
      using pop_capped_account(2) [OF ne] by (simp add: drop_Suc)
    then show ?thesis by blast
  next
    case False
    then have "cap_buffer jb = jb" by (subst cap_buffer.simps) simp
    then have "jb_buffer (cap_buffer jb) = drop 0 (jb_buffer jb)" by simp
    then show ?thesis by blast
  qed
qed

lemma bt_ok_drop: "bt_ok t \<Longrightarrow> bt_ok (drop n t)"
  by (simp add: sorted_wrt_drop flip: drop_map)

lemma keyed_insert:
  assumes "\<forall>(k, f) \<in> set t. bf_sequence f = k"
  shows "\<forall>(k, f) \<in> set (bt_insert (bf_sequence g) g t). bf_sequence f = k"
  using assms by (induction "bf_sequence g" g t rule: bt_insert.induct) auto

lemma push_account:
  assumes "jitter_inv jb"
  shows "jitter_inv (push fo jb f t)"
    and "length (jb_buffer (push fo jb f t)) + gone (push fo jb f t) +
           (if replaces jb (bf_sequence f) then 1 else 0) = Suc (length (jb_buffer jb) + gone jb)"
    and "jb_received (push fo jb f t) = Suc (jb_received jb)"
    and "hard_limit (push fo jb f t) = hard_limit jb"
proof -
  let ?s = "bf_sequence f"
  define j1 where "j1 = (jb_estimate fo (jb\<lparr> jb_received := jb_received jb + 1 \<rparr>) f t)
                  \<lparr> jb_last_arrival_ms := Some t, jb_last_packet_ts := Some (bf_timestamp f) \<rparr>"
  have j1: "jb_buffer j1 = jb_buffer jb" "jb_next_seq j1 = jb_next_seq jb" "hard_limit j1 = hard_limit jb"
      "gone j1 = gone jb" "jb_received j1 = Suc (jb_received jb)"
    by (simp_all add: j1_def hard_limit_def gone_def)
  have same: "too_late j1 ?s = too_late jb ?s" "restarts j1 ?s = restarts jb ?s"
    using too_late_cong restarts_cong j1(2) by blast+
  define j2 where "j2 = rebaseline j1 ?s"
  have j2: "jb_buffer j2 = (if restarts jb ?s then [] else jb_buffer jb)" "hard_limit j2 = hard_limit jb"
      "length (jb_buffer j2) + gone j2 = length (jb_buffer jb) + gone jb" "jb_received j2 = Suc (jb_received jb)"
    using j1 same by (auto simp: j2_def rebaseline_def hard_limit_def gone_def)
  define j3 where "j3 = j2\<lparr> jb_buffer := bt_insert ?s f (jb_buffer j2) \<rparr>"
  have ok2: "bt_ok (jb_buffer j2)" "\<forall>(k, f) \<in> set (jb_buffer j2). bf_sequence f = k"
    using assms j2(1) by (auto simp: jitter_inv_def)
  have j3: "bt_ok (jb_buffer j3)" "\<forall>(k, f) \<in> set (jb_buffer j3). bf_sequence f = k" "gone j3 = gone j2"
      "hard_limit j3 = hard_limit jb" "jb_received j3 = Suc (jb_received jb)"
      "length (jb_buffer j3) = (if ?s \<in> fst ` set (jb_buffer j2) then length (jb_buffer j2) else Suc (length (jb_buffer j2)))"
    using ok2 keyed_insert j2(2,4) length_bt_insert [OF ok2(1)]
    by (simp_all add: j3_def gone_def hard_limit_def)
  have p: "push fo jb f t = (if too_late jb ?s then j1\<lparr> jb_late := jb_late j1 + 1 \<rparr> else cap_buffer j3)"
    by (simp only: push_def Let_def j1_def [symmetric] same j2_def [symmetric] j3_def [symmetric])
  have sub: "set (jb_buffer (cap_buffer j3)) \<subseteq> set (jb_buffer j3)" "bt_ok (jb_buffer (cap_buffer j3))"
    using cap_buffer_drops [of j3] bt_ok_drop [OF j3(1)] set_drop_subset by fastforce+
  show "jitter_inv (push fo jb f t)"
    using p assms j1(1,3) j3(2) sub cap_buffer_account [of j3] by (auto simp: jitter_inv_def hard_limit_def)
  show "jb_received (push fo jb f t) = Suc (jb_received jb)" "hard_limit (push fo jb f t) = hard_limit jb"
    using p j1 j3 cap_buffer_account [of j3] by (auto simp: hard_limit_def)
  show "length (jb_buffer (push fo jb f t)) + gone (push fo jb f t) +
      (if replaces jb ?s then 1 else 0) = Suc (length (jb_buffer jb) + gone jb)"
    using p j1 j2 j3 cap_buffer_account [of j3] by (auto simp: replaces_def gone_def)
qed

lemma trim_buffer_account:
  assumes "bt_ok (jb_buffer jb)"
  shows "length (jb_buffer (trim_buffer jb)) + gone (trim_buffer jb) = length (jb_buffer jb) + gone jb"
    and "jb_received (trim_buffer jb) = jb_received jb" "hard_limit (trim_buffer jb) = hard_limit jb"
    and "bt_ok (jb_buffer (trim_buffer jb))" "set (jb_buffer (trim_buffer jb)) \<subseteq> set (jb_buffer jb)"
  using assms by (auto simp: trim_buffer_def Let_def gone_def hard_limit_def split: list.splits)

definition out_of :: "jitter_result \<Rightarrow> buffered_frame list" where
  "out_of r = (case r of Frame f \<Rightarrow> [f] | _ \<Rightarrow> [])"

lemma take_next_account:
  assumes "bt_ok (jb_buffer jb)" "take_next jb = (jb', r)"
  shows "length (jb_buffer jb') + gone jb' + length (out_of r) = length (jb_buffer jb) + gone jb"
    and "jb_received jb' = jb_received jb" "hard_limit jb' = hard_limit jb"
    and "bt_ok (jb_buffer jb')" "set (jb_buffer jb') \<subseteq> set (jb_buffer jb)"
  using assms length_bt_remove [OF assms(1)]
  by (auto simp: take_next_def Let_def out_of_def gone_def hard_limit_def set_bt_remove
      split: option.splits list.splits if_splits)

lemma pull_start_keeps:
  assumes "pull_start jb = Some jb1"
  shows "jb_buffer jb1 = jb_buffer jb" "gone jb1 = gone jb" "jb_received jb1 = jb_received jb" "hard_limit jb1 = hard_limit jb"
  using assms by (auto simp: pull_start_def gone_def hard_limit_def split: if_splits list.splits)

lemma pull_account:
  assumes "jitter_inv jb" "pull jb = (jb', r)"
  shows "jitter_inv jb'" "length (jb_buffer jb') + gone jb' + length (out_of r) = length (jb_buffer jb) + gone jb"
    and "jb_received jb' = jb_received jb" "hard_limit jb' = hard_limit jb"
proof -
  have "jitter_inv jb' \<and> length (jb_buffer jb') + gone jb' + length (out_of r) = length (jb_buffer jb) + gone jb \<and>
      jb_received jb' = jb_received jb \<and> hard_limit jb' = hard_limit jb"
  proof (cases "pull_start jb")
    case None
    then show ?thesis using assms by (auto simp: pull_def out_of_def)
  next
    case (Some jb1)
    note s = pull_start_keeps [OF Some]
    let ?j = "jb1\<lparr> jb_refilling := False, jb_initial_fill_remaining := jb_initial_fill_remaining jb1 - 1 \<rparr>"
    have j: "jb_buffer ?j = jb_buffer jb" "gone ?j = gone jb" "jb_received ?j = jb_received jb" "hard_limit ?j = hard_limit jb"
      using s by (simp_all add: gone_def hard_limit_def)
    show ?thesis
    proof (cases "jb_buffer jb1 = [] \<or> (jb_refilling jb1 \<and> short_of_target jb1)")
      case True
      then show ?thesis using assms Some s
        by (auto simp: pull_def out_of_def jitter_inv_def gone_def hard_limit_def split: if_splits)
    next
      case False
      have ok: "bt_ok (jb_buffer ?j)" using assms(1) j(1) by (simp add: jitter_inv_def)
      note t = trim_buffer_account [OF ok]
      have "take_next (trim_buffer ?j) = (jb', r)" using assms(2) Some False by (auto simp: pull_def)
      note n = take_next_account [OF t(4) this]
      have "length (jb_buffer jb') \<le> length (jb_buffer jb)"
        using bt_subset_length [of "jb_buffer jb" "jb_buffer jb'"] ok n(4,5) t(5) j(1) by auto
      then show ?thesis using n t j assms(1) unfolding jitter_inv_def by auto
    qed
  qed
  then show "jitter_inv jb'" "length (jb_buffer jb') + gone jb' + length (out_of r) = length (jb_buffer jb) + gone jb"
    "jb_received jb' = jb_received jb" "hard_limit jb' = hard_limit jb" by simp_all
qed

lemma step_account:
  assumes "jitter_inv jb" "jitter_step fo jb ev = (jb', fs)"
  shows "jitter_inv jb' \<and> hard_limit jb' = hard_limit jb \<and>
         jb_received jb' + length (jb_buffer jb) + gone jb =
         jb_received jb + length (jb_buffer jb') + gone jb' + length fs +
         (case ev of PushFrame f _ \<Rightarrow> if replaces jb (bf_sequence f) then 1 else 0 | _ \<Rightarrow> 0)"
proof (cases ev)
  case (PushFrame f t)
  then show ?thesis using push_account [OF assms(1), of fo f t] assms(2) by auto
next
  case PullFrame
  obtain r where p: "pull jb = (jb', r)" "fs = out_of r"
    using assms(2) PullFrame by (auto simp: out_of_def split: prod.splits jitter_result.splits)
  then show ?thesis using pull_account [OF assms(1) p(1)] PullFrame by simp
qed (use assms in \<open>auto simp: jitter_discard_def drain_all_def jitter_reset_def jitter_inv_def gone_def hard_limit_def\<close>)

lemma run_account:
  "jitter_inv jb \<Longrightarrow>
   jitter_inv (fst (jitter_run fo jb evs)) \<and> hard_limit (fst (jitter_run fo jb evs)) = hard_limit jb \<and>
   jb_received (fst (jitter_run fo jb evs)) + length (jb_buffer jb) + gone jb =
   jb_received jb + length (jb_buffer (fst (jitter_run fo jb evs))) + gone (fst (jitter_run fo jb evs)) +
     length (snd (jitter_run fo jb evs)) + replaced_in fo jb evs"
proof (induction evs arbitrary: jb)
  case (Cons ev evs)
  obtain jb1 fs where s: "jitter_step fo jb ev = (jb1, fs)" by fastforce
  from step_account [OF Cons.prems s] Cons.IH [of jb1] s show ?case by (simp add: case_prod_beta)
qed simp

lemma jitter_inv_new: "jitter_inv (jitter_new fo lo hi)" "jitter_inv (for_transmit fo lo hi)"
  by (simp_all add: jitter_inv_def jitter_new_def for_transmit_def)

text \<open>
  C39. No frame disappears and the buffer stays small: over any run of a buffer, the frames received are
  exactly those handed out, those still held, those counted as late, capped, trimmed or cleared, and
  those whose place a frame of the same number took; and it never holds more than its greatest depth
  and ten.
\<close>

theorem every_frame_is_accounted_for:
  "let jb0 = (if transmit then for_transmit fo lo hi else jitter_new fo lo hi);
       (jb, out) = jitter_run fo jb0 evs
   in jb_received jb = length out + length (jb_buffer jb) + (jb_late jb + jb_capped jb + jb_trimmed jb + jb_cleared jb)
        + replaced_in fo jb0 evs \<and>
      length (jb_buffer jb) \<le> unat hi + 10"
proof -
  let ?jb0 = "if transmit then for_transmit fo lo hi else jitter_new fo lo hi"
  have "jitter_inv ?jb0" by (cases transmit) (simp_all add: jitter_inv_new)
  moreover have "jb_received ?jb0 = 0" "jb_buffer ?jb0 = []" "gone ?jb0 = 0" "hard_limit ?jb0 = unat hi + 10"
    by (simp_all add: for_transmit_def jitter_new_def gone_def hard_limit_def tuning_default_def tuning_transmit_def CAP_ABOVE_MAX_def)
  ultimately show ?thesis using run_account [of ?jb0 fo evs]
    by (cases "jitter_run fo ?jb0 evs") (auto simp: gone_def jitter_inv_def Let_def simp del: if_split)
qed

section \<open>Frames play in order\<close>

text \<open>Below half the range the wrapped comparison is the plain one.\<close>

lemma is_seq_before_iff:
  assumes "unat a < 2 ^ 31" "unat b < 2 ^ 31"
  shows "is_seq_before a b \<longleftrightarrow> unat a < unat b"
proof -
  have d: "unat (a - b) = (if unat b \<le> unat a then unat a - unat b else unat a + 2 ^ 32 - unat b)"
    by (simp add: unat_sub_if')
  have "is_seq_before a b \<longleftrightarrow> 2 ^ 31 < unat (a - b)"
    by (simp add: is_seq_before_def word_less_nat_alt)
  then show ?thesis using assms d by auto
qed

lemma unat_suc: "unat (a :: u32) < 2 ^ 31 \<Longrightarrow> unat (a + 1) = unat a + 1"
  by (simp add: unat_word_ariths)

definition tuned :: "'f jitter_buffer \<Rightarrow> bool" where
  "tuned jb \<longleftrightarrow> tn_trim_above_target (jb_tuning jb) \<ge> 1 \<and> tn_fast_trim_above (jb_tuning jb) \<ge> 0"

text \<open>
  The invariant between pushes and pulls without a restart, \<open>h\<close> the highest number pushed so far:
  everything held is still to be played, and playout is at most one past \<open>h\<close>.
\<close>

definition order_inv :: "nat \<Rightarrow> 'f jitter_buffer \<Rightarrow> bool" where
  "order_inv h jb \<longleftrightarrow>
     h < 2 ^ 31 - 1 \<and> tuned jb \<and> bt_ok (jb_buffer jb) \<and>
     (\<forall>(k, f) \<in> set (jb_buffer jb). bf_sequence f = k \<and> unat k \<le> h) \<and>
     (\<forall>n. jb_next_seq jb = Some n \<longrightarrow> unat n \<le> h + 1 \<and> (\<forall>k \<in> fst ` set (jb_buffer jb). unat n \<le> unat k))"

definition onward :: "'f jitter_buffer \<Rightarrow> 'f jitter_buffer \<Rightarrow> bool" where
  "onward jb jb' \<longleftrightarrow> (\<forall>n. jb_next_seq jb = Some n \<longrightarrow> (\<exists>n'. jb_next_seq jb' = Some n' \<and> unat n \<le> unat n'))"

lemma order_invI:
  assumes "h < 2 ^ 31 - 1" "tuned jb" "bt_ok (jb_buffer jb)"
    and "\<And>k f. (k, f) \<in> set (jb_buffer jb) \<Longrightarrow> bf_sequence f = k \<and> unat k \<le> h"
    and "\<And>n. jb_next_seq jb = Some n \<Longrightarrow> unat n \<le> h + 1"
    and "\<And>n k. jb_next_seq jb = Some n \<Longrightarrow> k \<in> fst ` set (jb_buffer jb) \<Longrightarrow> unat n \<le> unat k"
  shows "order_inv h jb"
  using assms unfolding order_inv_def by blast

lemma order_inv_cong:
  "jb_buffer jb' = jb_buffer jb \<Longrightarrow> jb_next_seq jb' = jb_next_seq jb \<Longrightarrow> jb_tuning jb' = jb_tuning jb \<Longrightarrow>
   order_inv h jb' = order_inv h jb"
  by (simp add: order_inv_def tuned_def)

lemma onward_refl [simp]: "onward jb jb"
  by (simp add: onward_def)

lemma onward_trans: "onward a b \<Longrightarrow> onward b c \<Longrightarrow> onward a c"
  unfolding onward_def using order_trans by blast

lemma head_is_least:
  "bt_ok ((k, v) # t) \<Longrightarrow> k' \<in> fst ` set t \<Longrightarrow> unat (k :: u32) + 1 \<le> unat k'"
  by (auto simp: word_less_nat_alt)

lemma head_le: "bt_ok t \<Longrightarrow> t = (k, v) # r \<Longrightarrow> k' \<in> fst ` set t \<Longrightarrow> unat (k :: u32) \<le> unat k'"
  by (auto simp: word_less_nat_alt intro: less_imp_le)

text \<open>Taking the oldest away on purpose, by the cap or by the trim.\<close>

lemma drop_oldest:
  assumes "order_inv h jb" "jb_buffer jb = (oldest, f) # rest"
    and "jb_buffer j = rest" "jb_next_seq j = jb_next_seq jb" "tuned j"
  shows "order_inv h (step_past j oldest) \<and> onward jb (step_past j oldest)"
proof (cases "jb_next_seq jb")
  case None
  then show ?thesis using assms by (auto simp: order_inv_def onward_def step_past_def)
next
  case (Some n)
  have o: "unat oldest \<le> h" "unat n \<le> unat oldest" "h < 2 ^ 31 - 1"
    using assms(1,2) Some by (auto simp: order_inv_def)
  then have "\<not> is_seq_before oldest n" "unat (oldest + 1) = unat oldest + 1"
    using is_seq_before_iff [of oldest n] unat_suc [of oldest] by auto
  then have "jb_next_seq (step_past j oldest) = Some (oldest + 1)"
    using Some assms(4) by (simp add: step_past_def)
  moreover have "\<forall>k \<in> fst ` set rest. unat (oldest + 1) \<le> unat k"
    using head_is_least [of oldest f rest] assms(1,2) \<open>unat (oldest + 1) = unat oldest + 1\<close>
    by (auto simp: order_inv_def)
  ultimately show ?thesis using assms o Some \<open>unat (oldest + 1) = unat oldest + 1\<close>
    by (auto simp: order_inv_def onward_def tuned_def)
qed

lemma cap_buffer_order:
  "order_inv h jb \<Longrightarrow> order_inv h (cap_buffer jb) \<and> onward jb (cap_buffer jb)"
proof (induction jb rule: cap_buffer.induct)
  case (1 jb)
  show ?case
  proof (cases "length (jb_buffer jb) > hard_limit jb")
    case True
    then obtain k f rest where b: "jb_buffer jb = (k, f) # rest" by (cases "jb_buffer jb") auto
    let ?j = "jb\<lparr> jb_buffer := rest, jb_capped := jb_capped jb + 1 \<rparr>"
    have "pop_capped jb = step_past ?j k" using b by (simp add: pop_capped_def)
    moreover have "tuned ?j" using 1(2) by (simp add: order_inv_def tuned_def)
    ultimately have "order_inv h (pop_capped jb) \<and> onward jb (pop_capped jb)"
      using drop_oldest [OF 1(2) b, of ?j] by simp
    moreover have "cap_buffer jb = cap_buffer (pop_capped jb)" using True by (subst cap_buffer.simps) simp
    ultimately show ?thesis using 1(1) [OF True] onward_trans by metis
  next
    case False
    then have "cap_buffer jb = jb" by (subst cap_buffer.simps) simp
    then show ?thesis using 1(2) by simp
  qed
qed

lemma push_order:
  assumes "order_inv h jb" "unat (bf_sequence f) < 2 ^ 31 - 1" "h \<le> unat (bf_sequence f) + 63"
  shows "order_inv (max h (unat (bf_sequence f))) (push fo jb f t) \<and> onward jb (push fo jb f t)"
proof -
  let ?s = "bf_sequence f"
  define j1 where "j1 = (jb_estimate fo (jb\<lparr> jb_received := jb_received jb + 1 \<rparr>) f t)
                  \<lparr> jb_last_arrival_ms := Some t, jb_last_packet_ts := Some (bf_timestamp f) \<rparr>"
  have j1: "jb_buffer j1 = jb_buffer jb" "jb_next_seq j1 = jb_next_seq jb" "tuned j1 = tuned jb"
    by (simp_all add: j1_def tuned_def)
  have inv1: "order_inv (max h (unat ?s)) j1" "onward jb j1"
    using assms j1 by (fastforce simp: order_inv_def onward_def)+
  have near: "\<not> nxt - ?s > STREAM_RESTART_BACKJUMP" if "jb_next_seq jb = Some nxt" "is_seq_before ?s nxt" for nxt
  proof -
    have n: "unat nxt \<le> h + 1" "h < 2 ^ 31 - 1" using assms(1) that(1) by (auto simp: order_inv_def)
    then have "unat ?s < unat nxt" using is_seq_before_iff [of ?s nxt] that(2) assms(2) by simp
    then have "unat (nxt - ?s) = unat nxt - unat ?s" by (simp add: unat_sub_if')
    then show ?thesis using n assms(3) by (simp add: STREAM_RESTART_BACKJUMP_def word_less_nat_alt)
  qed
  have no: "\<not> restarts j1 ?s" using near j1(2) by (auto simp: restarts_def split: option.splits)
  show ?thesis
  proof (cases "too_late j1 ?s")
    case True
    then have "push fo jb f t = j1\<lparr> jb_late := jb_late j1 + 1 \<rparr>" by (simp add: push_def Let_def j1_def)
    then show ?thesis using inv1 by (simp add: order_inv_def onward_def tuned_def)
  next
    case False
    let ?j3 = "j1\<lparr> jb_buffer := bt_insert ?s f (jb_buffer j1) \<rparr>"
    have p: "push fo jb f t = cap_buffer ?j3"
      using False no by (simp add: push_def Let_def rebaseline_def j1_def)
    have ahead: "unat n \<le> unat ?s" if "jb_next_seq j1 = Some n" for n
    proof -
      have "\<not> is_seq_before ?s n" using False no that by (auto simp: too_late_def restarts_def)
      moreover have "unat n \<le> h + 1 \<and> h < 2 ^ 31 - 1" using assms(1) that unfolding j1(2) order_inv_def by blast
      then have "unat n < 2 ^ 31" by simp
      ultimately show ?thesis using is_seq_before_iff [of ?s n] assms(2) by simp
    qed
    have old: "bt_ok (jb_buffer j1)" "\<And>k g. (k, g) \<in> set (jb_buffer j1) \<Longrightarrow> bf_sequence g = k \<and> unat k \<le> max h (unat ?s)"
        "max h (unat ?s) < 2 ^ 31 - 1" "tuned j1"
        "\<And>n. jb_next_seq j1 = Some n \<Longrightarrow> unat n \<le> max h (unat ?s) + 1 \<and> (\<forall>k \<in> fst ` set (jb_buffer j1). unat n \<le> unat k)"
      using inv1(1) unfolding order_inv_def by blast+
    have "order_inv (max h (unat ?s)) ?j3"
    proof (rule order_invI)
      show "max h (unat ?s) < 2 ^ 31 - 1" "tuned ?j3" "bt_ok (jb_buffer ?j3)"
        using old(1,3,4) by (simp_all add: tuned_def)
    next
      fix k g assume "(k, g) \<in> set (jb_buffer ?j3)"
      then show "bf_sequence g = k \<and> unat k \<le> max h (unat ?s)" using old(1,2) by (auto simp: set_bt_insert)
    next
      fix n k assume "jb_next_seq ?j3 = Some n"
      then have n: "jb_next_seq j1 = Some n" by simp
      show "unat n \<le> max h (unat ?s) + 1" using old(5) [OF n] by simp
      assume "k \<in> fst ` set (jb_buffer ?j3)"
      then have "k = ?s \<or> k \<in> fst ` set (jb_buffer j1)" by simp
      then show "unat n \<le> unat k" using ahead [OF n] old(5) [OF n] by blast
    qed
    moreover have "onward jb ?j3" using inv1(2) by (simp add: onward_def)
    ultimately show ?thesis
      using cap_buffer_order [of "max h (unat ?s)" ?j3] onward_trans [of jb ?j3 "cap_buffer ?j3"] unfolding p by blast
  qed
qed

lemma tuned_new: "tuned (jitter_new fo lo hi)" "tuned (for_transmit fo lo hi)"
  by (simp_all add: tuned_def jitter_new_def for_transmit_def tuning_default_def tuning_transmit_def
      TRIM_ABOVE_TARGET_def FAST_TRIM_ABOVE_def)

lemma trim_buffer_order:
  assumes "order_inv h jb" "jb_buffer jb \<noteq> []"
  shows "order_inv h (trim_buffer jb) \<and> onward jb (trim_buffer jb) \<and> jb_buffer (trim_buffer jb) \<noteq> []"
proof -
  let ?j0 = "jb\<lparr> jb_pulls_since_trim := min (jb_pulls_since_trim jb + 1) (2 ^ 32 - 1) \<rparr>"
  show ?thesis
  proof (cases "trim_drops ?j0")
    case True
    obtain k f rest where b: "jb_buffer jb = (k, f) # rest" using assms(2) by (cases "jb_buffer jb") auto
    let ?j = "?j0\<lparr> jb_pulls_since_trim := 0, jb_buffer := rest, jb_trimmed := jb_trimmed ?j0 + 1 \<rparr>"
    have t: "trim_buffer jb = step_past ?j k" using True b by (simp add: trim_buffer_def Let_def)
    have "tuned jb" using assms(1) by (simp add: order_inv_def)
    then have "int (length (jb_buffer jb)) - int (unat (jb_target_depth jb)) - tn_trim_above_target (jb_tuning jb) > 0"
        "tn_trim_above_target (jb_tuning jb) \<ge> 1"
      using True by (auto simp: trim_drops_def tuned_def Let_def)
    then have "int (length (jb_buffer jb)) \<ge> 2" by linarith
    then have "rest \<noteq> []" using b by auto
    moreover have "order_inv h (step_past ?j k) \<and> onward jb (step_past ?j k)"
      by (rule drop_oldest [OF assms(1) b]) (use \<open>tuned jb\<close> in \<open>simp_all add: tuned_def\<close>)
    ultimately show ?thesis using t by simp
  next
    case False
    then have "trim_buffer jb = ?j0" by (simp add: trim_buffer_def Let_def)
    then show ?thesis using assms by (simp add: order_inv_def onward_def tuned_def)
  qed
qed

definition plays_at_next :: "'f jitter_buffer \<Rightarrow> 'f jitter_buffer \<Rightarrow> jitter_result \<Rightarrow> bool" where
  "plays_at_next jb jb' r \<longleftrightarrow>
     (\<forall>f \<in> set (out_of r). \<exists>n. jb_next_seq jb' = Some n \<and> unat (bf_sequence f) < unat n \<and>
        (\<forall>m. jb_next_seq jb = Some m \<longrightarrow> unat m \<le> unat (bf_sequence f)))"

lemma take_next_order:
  assumes "order_inv h jb" "jb_buffer jb \<noteq> []" "jb_next_seq jb = Some n" "take_next jb = (jb', r)"
  shows "order_inv h jb' \<and> onward jb jb' \<and> plays_at_next jb jb' r"
proof -
  obtain k f rest where b: "jb_buffer jb = (k, f) # rest" using assms(2) by (cases "jb_buffer jb") auto
  have o: "h < 2 ^ 31 - 1" "unat n \<le> unat k" "unat k \<le> h" "tuned jb"
      "\<And>k f. (k, f) \<in> set (jb_buffer jb) \<Longrightarrow> bf_sequence f = k \<and> unat k \<le> h \<and> unat n \<le> unat k" "bt_ok (jb_buffer jb)"
    using assms(1,3) b unfolding order_inv_def by fastforce+
  have n1: "unat (n + 1) = unat n + 1" using unat_suc o(1-3) by simp
  show ?thesis
  proof (cases "map_of (jb_buffer jb) n")
    case (Some g)
    then have g: "(n, g) \<in> set (jb_buffer jb)" by (rule map_of_SomeD)
    then have "bf_sequence g = n" "unat n \<le> h" using o(5) by auto
    have after: "unat (n + 1) \<le> unat k'" if "(k', f') \<in> set (jb_buffer jb)" "k' \<noteq> n" for k' f'
      using o(5) [OF that(1)] that(2) n1 by (metis Suc_eq_plus1 Suc_leI le_neq_implies_less word_unat_eq_iff)
    have "jb' = jb\<lparr> jb_next_seq := Some (n + 1), jb_buffer := bt_remove n (jb_buffer jb) \<rparr>" "r = Frame g"
      using assms(3,4) Some by (simp_all add: take_next_def Let_def)
    then show ?thesis using o n1 after \<open>bf_sequence g = n\<close> \<open>unat n \<le> h\<close> assms(3)
      by (auto simp: order_inv_def onward_def tuned_def plays_at_next_def out_of_def set_bt_remove)
  next
    case None
    then have "n \<noteq> k" using b by auto
    then have k: "unat (n + 1) \<le> unat k" using o(2) n1 by (metis Suc_eq_plus1 Suc_leI le_neq_implies_less word_unat_eq_iff)
    have all: "unat k \<le> unat k'" if "(k', f') \<in> set (jb_buffer jb)" for k' f'
      using o(6) b that by (auto simp: word_less_nat_alt intro: less_imp_le)
    have "r \<noteq> Frame g" for g using assms(3,4) None b by (auto simp: take_next_def Let_def split: if_splits)
    moreover have "jb_buffer jb' = jb_buffer jb" "tuned jb' = tuned jb"
        "\<exists>n'. jb_next_seq jb' = Some n' \<and> unat n \<le> unat n' \<and> unat n' \<le> unat k"
      using assms(3,4) None b k n1 o(2) by (auto simp: take_next_def Let_def tuned_def split: if_splits)
    ultimately show ?thesis using o all assms(3)
      by (auto simp: order_inv_def onward_def plays_at_next_def out_of_def split: jitter_result.splits)
        (meson order_trans)+
  qed
qed

lemma pull_order:
  assumes "order_inv h jb" "pull jb = (jb', r)"
  shows "order_inv h jb' \<and> onward jb jb' \<and> plays_at_next jb jb' r"
proof (cases "pull_start jb")
  case None
  then show ?thesis using assms by (auto simp: pull_def plays_at_next_def out_of_def)
next
  case (Some jb1)
  then obtain n where n: "jb_next_seq jb1 = Some n"
    by (auto simp: pull_start_def split: if_splits list.splits)
  have s1: "\<And>m. jb_next_seq jb = Some m \<Longrightarrow> jb1 = jb" "onward jb jb1"
    using Some by (auto simp: pull_start_def onward_def split: if_splits list.splits)
  have s: "order_inv h jb1"
  proof (cases "jb_next_seq jb")
    case None
    then obtain k f rest where b: "jb_buffer jb = (k, f) # rest" "jb1 = jb\<lparr> jb_next_seq := Some k \<rparr>"
      using Some by (auto simp: pull_start_def split: if_splits list.splits)
    have "bt_ok (jb_buffer jb)" "unat k \<le> h" using assms(1) b(1) by (auto simp: order_inv_def)
    then show ?thesis using assms(1) b(2) head_le [OF _ b(1)]
      unfolding order_inv_def tuned_def by simp
  qed (use s1(1) assms(1) in blast)
  let ?j = "jb1\<lparr> jb_refilling := False, jb_initial_fill_remaining := jb_initial_fill_remaining jb1 - 1 \<rparr>"
  show ?thesis
  proof (cases "jb_buffer jb1 = [] \<or> (jb_refilling jb1 \<and> short_of_target jb1)")
    case True
    then have "r = NotReady" "jb' = jb1 \<or> jb' = jb1\<lparr> jb_refilling := True \<rparr>"
      using assms(2) Some by (auto simp: pull_def split: if_splits)
    then show ?thesis using s s1(2) order_inv_cong [of jb' jb1 h]
      by (auto simp: onward_def plays_at_next_def out_of_def)
  next
    case False
    have t: "order_inv h (trim_buffer ?j) \<and> onward ?j (trim_buffer ?j) \<and> jb_buffer (trim_buffer ?j) \<noteq> []"
      by (rule trim_buffer_order) (use s False in \<open>auto simp: order_inv_def tuned_def\<close>)
    then obtain n' where n': "jb_next_seq (trim_buffer ?j) = Some n'" "unat n \<le> unat n'"
      using n by (auto simp: onward_def)
    have "take_next (trim_buffer ?j) = (jb', r)" using assms(2) Some False by (auto simp: pull_def)
    from take_next_order [OF conjunct1 [OF t] _ n'(1) this] t
    have *: "order_inv h jb'" "onward (trim_buffer ?j) jb'" "plays_at_next (trim_buffer ?j) jb' r" by auto
    have "onward jb ?j" using s1(2) by (simp add: onward_def)
    then have "onward jb jb'" using t *(2) onward_trans by blast
    moreover have "plays_at_next jb jb' r"
      using *(3) n' n s1(1) unfolding plays_at_next_def by fastforce
    ultimately show ?thesis using *(1) by simp
  qed
qed

text \<open>Only pushes and pulls, numbers below half the range, none more than 63 behind the highest before it.\<close>

fun in_window :: "nat \<Rightarrow> jitter_event list \<Rightarrow> bool" where
  "in_window h [] \<longleftrightarrow> True"
| "in_window h (PushFrame f _ # evs) \<longleftrightarrow>
     unat (bf_sequence f) < 2 ^ 31 - 1 \<and> h \<le> unat (bf_sequence f) + 63 \<and> in_window (max h (unat (bf_sequence f))) evs"
| "in_window h (PullFrame # evs) \<longleftrightarrow> in_window h evs"
| "in_window h (_ # evs) \<longleftrightarrow> False"

lemma run_order:
  "order_inv h jb \<Longrightarrow> in_window h evs \<Longrightarrow> (\<exists>n. jb_next_seq jb = Some n \<and> b \<le> unat n) \<or> b = 0 \<Longrightarrow>
   sorted_wrt (<) (map (\<lambda>f. unat (bf_sequence f)) (snd (jitter_run fo jb evs))) \<and>
   (\<forall>f \<in> set (snd (jitter_run fo jb evs)). b \<le> unat (bf_sequence f))"
proof (induction h evs arbitrary: jb b rule: in_window.induct)
  case (2 h f t evs)
  have p: "order_inv (max h (unat (bf_sequence f))) (push fo jb f t)" "onward jb (push fo jb f t)"
    using push_order [OF 2(2), of f fo t] 2(3) by simp_all
  then have "(\<exists>n. jb_next_seq (push fo jb f t) = Some n \<and> b \<le> unat n) \<or> b = 0"
    using 2(4) unfolding onward_def by (meson order_trans)
  from 2(1) [OF p(1) _ this] 2(3) show ?case by (simp add: case_prod_beta)
next
  case (3 h evs)
  obtain jb' r where r: "pull jb = (jb', r)" by fastforce
  then have s: "jitter_step fo jb PullFrame = (jb', out_of r)"
    by (simp add: out_of_def split: jitter_result.splits)
  note o = pull_order [OF 3(2) r]
  show ?case
  proof (cases "out_of r")
    case Nil
    have "(\<exists>n. jb_next_seq jb' = Some n \<and> b \<le> unat n) \<or> b = 0"
      using 3(4) o unfolding onward_def by (meson order_trans)
    from 3(1) [of jb' b] this o 3(3) Nil s show ?thesis by (simp add: case_prod_beta)
  next
    case (Cons f fs)
    then have one: "out_of r = [f]" by (auto simp: out_of_def split: jitter_result.splits)
    then obtain n where n: "jb_next_seq jb' = Some n" "unat (bf_sequence f) < unat n"
        "\<forall>m. jb_next_seq jb = Some m \<longrightarrow> unat m \<le> unat (bf_sequence f)"
      using o by (auto simp: plays_at_next_def)
    have "b \<le> unat (bf_sequence f)" using 3(4) n(3) by force
    moreover have "sorted_wrt (<) (map (\<lambda>f. unat (bf_sequence f)) (snd (jitter_run fo jb' evs))) \<and>
        (\<forall>g \<in> set (snd (jitter_run fo jb' evs)). unat n \<le> unat (bf_sequence g))"
      using 3(1) [of jb' "unat n"] o n(1) 3(3) by simp
    ultimately show ?thesis using n(2) one s by (fastforce simp: case_prod_beta)
  qed
qed auto

text \<open>
  Frames play in order and none plays twice: over any pushes and pulls, in any interleaving and
  with any reordering within 63 numbers, the frames handed out have strictly increasing sequence
  numbers, as long as the numbers stay below half of their range.
\<close>

theorem frames_play_in_order:
  assumes "in_window 0 evs"
  shows "sorted_wrt (<) (map (\<lambda>f. unat (bf_sequence f))
           (snd (jitter_run fo (if transmit then for_transmit fo lo hi else jitter_new fo lo hi) evs)))"
proof -
  have "order_inv 0 (if transmit then for_transmit fo lo hi else jitter_new fo lo hi)"
    using tuned_new [of fo lo hi] by (simp add: order_inv_def) (simp add: for_transmit_def jitter_new_def)
  from run_order [OF this assms, of 0] show ?thesis by simp
qed

definition demo_frame :: "u32 \<Rightarrow> bool \<Rightarrow> buffered_frame" where
  "demo_frame s p = \<lparr> bf_sequence = s, bf_timestamp = 0, bf_opus_data = [], bf_ptt = p, bf_wideband = False \<rparr>"

definition demo_f32 :: "nat f32_ops" where
  "demo_f32 = \<lparr> fo_zero = 0, fo_one = 1, fo_quarter = 0, fo_sixteenth = 0, fo_deviation = (\<lambda>n. n),
     fo_less = (<), fo_max = max, fo_add = (+), fo_sub = (-), fo_mul = (*), fo_div = (div),
     fo_to_u32 = of_nat, fo_of_nat = (\<lambda>n. n) \<rparr>"

theorem frames_play_in_order_witness:
  "sorted_wrt (<) (map (\<lambda>f. unat (bf_sequence f)) (snd (jitter_run demo_f32 (jitter_new demo_f32 1 10)
     [PushFrame (demo_frame 8 True) 0, PushFrame (demo_frame 7 True) 1, PullFrame, PushFrame (demo_frame 7 True) 2, PullFrame])))"
  using frames_play_in_order [of "[PushFrame (demo_frame 8 True) 0, PushFrame (demo_frame 7 True) 1, PullFrame,
      PushFrame (demo_frame 7 True) 2, PullFrame]" demo_f32 False 1 10]
  by (simp add: demo_frame_def)

section \<open>A release does not wait\<close>

lemma pull_ready:
  assumes "jb_buffer jb \<noteq> []" "\<not> short_of_target jb"
  shows "\<exists>jb1. pull_start jb = Some jb1 \<and> jb_buffer jb1 = jb_buffer jb \<and>
          pull jb = take_next (trim_buffer
            (jb1\<lparr> jb_refilling := False, jb_initial_fill_remaining := jb_initial_fill_remaining jb1 - 1 \<rparr>))"
proof -
  obtain k f rest where b: "jb_buffer jb = (k, f) # rest" using assms(1) by (cases "jb_buffer jb") auto
  then have "\<exists>jb1. pull_start jb = Some jb1 \<and> jb_buffer jb1 = jb_buffer jb \<and> short_of_target jb1 = short_of_target jb"
    using assms(2) by (auto simp: pull_start_def short_of_target_def)
  then show ?thesis using assms by (auto simp: pull_def)
qed

lemma take_next_advances:
  assumes "order_inv h jb" "jb_next_seq jb = Some n" "(s, f) \<in> set (jb_buffer jb)" "take_next jb = (jb', r)"
  shows "r = Frame f \<or> ((s, f) \<in> set (jb_buffer jb') \<and> (\<exists>n'. jb_next_seq jb' = Some n' \<and> unat n < unat n'))"
proof -
  obtain k g rest where b: "jb_buffer jb = (k, g) # rest" using assms(3) by (cases "jb_buffer jb") auto
  have o: "unat n \<le> unat k" "unat k < 2 ^ 31" "bt_ok (jb_buffer jb)"
    using assms(1,2) b unfolding order_inv_def by fastforce+
  have n1: "unat (n + 1) = unat n + 1" using unat_suc o(1,2) by simp
  show ?thesis
  proof (cases "map_of (jb_buffer jb) n")
    case None
    then have "n \<noteq> k" using b by auto
    then have "unat n < unat k" using o(1) by (metis le_neq_implies_less word_unat_eq_iff)
    then show ?thesis using assms(2-4) None b n1 by (auto simp: take_next_def Let_def split: if_splits)
  next
    case (Some f')
    then show ?thesis
      using assms(2-4) n1 map_of_is_SomeI [OF bt_distinct [OF o(3)] assms(3)]
      by (cases "n = s") (auto simp: take_next_def Let_def set_bt_remove)
  qed
qed

lemma trim_keeps_the_newest:
  assumes "tuned jb" "bt_ok (jb_buffer jb)" "(s, f) \<in> set (jb_buffer jb)" "\<forall>k \<in> fst ` set (jb_buffer jb). k \<le> s"
  shows "(s, f) \<in> set (jb_buffer (trim_buffer jb))"
proof -
  let ?j0 = "jb\<lparr> jb_pulls_since_trim := min (jb_pulls_since_trim jb + 1) (2 ^ 32 - 1) \<rparr>"
  obtain k g rest where b: "jb_buffer jb = (k, g) # rest" using assms(3) by (cases "jb_buffer jb") auto
  have "rest \<noteq> []" if "trim_drops ?j0"
  proof -
    have "int (length (jb_buffer jb)) - int (unat (jb_target_depth jb)) - tn_trim_above_target (jb_tuning jb) > 0"
        "tn_trim_above_target (jb_tuning jb) \<ge> 1"
      using that assms(1) by (auto simp: trim_drops_def tuned_def Let_def)
    then have "int (length (jb_buffer jb)) \<ge> 2" by linarith
    then show ?thesis using b by auto
  qed
  moreover have "s \<noteq> k" if ne: "rest \<noteq> []"
  proof -
    obtain k' g' where "(k', g') \<in> set rest" using ne by (metis list.set_intros(1) neq_Nil_conv surj_pair)
    then have "k < k'" "k' \<le> s" using assms(2,4) b by force+
    then show ?thesis by simp
  qed
  ultimately show ?thesis using assms(3) b by (auto simp: trim_buffer_def Let_def)
qed

definition first_due :: "'f jitter_buffer \<Rightarrow> nat" where
  "first_due jb = (case jb_next_seq jb of Some n \<Rightarrow> unat n | None \<Rightarrow> unat (fst (hd (jb_buffer jb))))"

definition release_in_hand :: "'f jitter_buffer \<Rightarrow> u32 \<Rightarrow> buffered_frame \<Rightarrow> bool" where
  "release_in_hand jb s f \<longleftrightarrow>
     jb_ends_with_release jb \<and> (s, f) \<in> set (jb_buffer jb) \<and> \<not> bf_ptt f \<and> (\<forall>k \<in> fst ` set (jb_buffer jb). k \<le> s)"

lemma trim_buffer_release [simp]: "jb_ends_with_release (trim_buffer jb) = jb_ends_with_release jb"
  by (simp add: trim_buffer_def Let_def split: list.splits)

lemma take_next_release: "take_next jb = (jb', r) \<Longrightarrow> jb_ends_with_release jb' = jb_ends_with_release jb"
  by (auto simp: take_next_def Let_def split: option.splits list.splits if_splits)

lemma pull_towards_release:
  assumes "order_inv h jb" "release_in_hand jb s f" "pull jb = (jb', r)"
  shows "r = Frame f \<or> (release_in_hand jb' s f \<and> first_due jb < first_due jb' \<and> jb_next_seq jb' \<noteq> None)"
proof -
  have r: "(s, f) \<in> set (jb_buffer jb)" "jb_buffer jb \<noteq> []" "\<not> short_of_target jb" "bt_ok (jb_buffer jb)"
      "\<forall>k \<in> fst ` set (jb_buffer jb). k \<le> s" "jb_ends_with_release jb"
    using assms(1,2) by (auto simp: release_in_hand_def short_of_target_def list_ex_iff order_inv_def)
  obtain jb1 where j: "pull_start jb = Some jb1" "jb_buffer jb1 = jb_buffer jb"
      "pull jb = take_next (trim_buffer
            (jb1\<lparr> jb_refilling := False, jb_initial_fill_remaining := jb_initial_fill_remaining jb1 - 1 \<rparr>))"
    using pull_ready [OF r(2,3)] by blast
  let ?j = "jb1\<lparr> jb_refilling := False, jb_initial_fill_remaining := jb_initial_fill_remaining jb1 - 1 \<rparr>"
  obtain n where n: "jb_next_seq jb1 = Some n" "unat n = first_due jb" "jb_tuning jb1 = jb_tuning jb"
      "jb_ends_with_release jb1 = jb_ends_with_release jb"
    using j(1) by (auto simp: pull_start_def first_due_def split: if_splits list.splits)
  have "order_inv h jb1"
  proof (cases "jb_next_seq jb")
    case None
    obtain k g rest where b: "jb_buffer jb = (k, g) # rest" using r(2) by (cases "jb_buffer jb") auto
    have "unat n = unat k" "unat k \<le> h" using None b n(2) assms(1) by (auto simp: first_due_def order_inv_def)
    then show ?thesis using assms(1) j(2) n head_le [OF r(4) b] unfolding order_inv_def tuned_def by simp
  next
    case (Some m)
    then show ?thesis using assms(1) j(1) by (simp add: pull_start_def)
  qed
  then have i: "order_inv h ?j" by (simp add: order_inv_def tuned_def)
  have t: "order_inv h (trim_buffer ?j)" "onward ?j (trim_buffer ?j)"
    using trim_buffer_order [OF i] r(2) j(2) by simp_all
  have "tuned ?j" "bt_ok (jb_buffer ?j)" using i by (simp_all add: order_inv_def)
  then have f: "(s, f) \<in> set (jb_buffer (trim_buffer ?j))"
      "set (jb_buffer (trim_buffer ?j)) \<subseteq> set (jb_buffer jb)"
    using trim_keeps_the_newest [of ?j s f] trim_buffer_account(5) [of ?j] r(1,5) j(2) by auto
  obtain n' where n': "jb_next_seq (trim_buffer ?j) = Some n'" "unat n \<le> unat n'"
    using t(2) n(1) by (auto simp: onward_def)
  have tk: "take_next (trim_buffer ?j) = (jb', r)" using assms(3) j(3) by simp
  have "set (jb_buffer jb') \<subseteq> set (jb_buffer jb)"
    using take_next_account(5) [OF _ tk] f(2) t(1) by (auto simp: order_inv_def)
  moreover have "jb_ends_with_release jb'" using take_next_release [OF tk] n(4) r(6) by simp
  ultimately show ?thesis
    using take_next_advances [OF t(1) n'(1) f(1) tk] n' n(2) assms(2)
    by (auto simp: release_in_hand_def first_due_def)
qed

lemma release_comes:
  "order_inv h jb \<Longrightarrow> release_in_hand jb s f \<Longrightarrow> unat s - first_due jb < k \<Longrightarrow>
   f \<in> set (snd (jitter_run fo jb (replicate k PullFrame)))"
proof (induction k arbitrary: jb)
  case (Suc k)
  obtain jb' r where p: "pull jb = (jb', r)" by fastforce
  then have st: "jitter_step fo jb PullFrame = (jb', out_of r)"
    by (simp add: out_of_def split: jitter_result.splits)
  show ?case
  proof (cases "r = Frame f")
    case True
    then show ?thesis using st by (simp add: case_prod_beta out_of_def)
  next
    case False
    have o: "order_inv h jb'" using pull_order [OF Suc.prems(1) p] by simp
    have d: "release_in_hand jb' s f" "first_due jb < first_due jb'" "jb_next_seq jb' \<noteq> None"
      using pull_towards_release [OF Suc.prems(1,2) p] False by simp_all
    have "first_due jb' \<le> unat s" using o d(1,3) by (force simp: order_inv_def release_in_hand_def first_due_def)
    then have "unat s - first_due jb' < k" using d(2) Suc.prems(3) by simp
    from Suc.IH [OF o d(1) this] st show ?thesis by (simp add: case_prod_beta)
  qed
qed simp

lemma run_keeps_order:
  "order_inv h jb \<Longrightarrow> in_window h evs \<Longrightarrow> \<exists>h'. order_inv h' (fst (jitter_run fo jb evs))"
proof (induction h evs arbitrary: jb rule: in_window.induct)
  case (2 h f t evs)
  have "order_inv (max h (unat (bf_sequence f))) (push fo jb f t)"
    using push_order [OF 2(2), of f fo t] 2(3) by simp
  from 2(1) [OF this] 2(3) show ?case by (simp add: case_prod_beta)
next
  case (3 h evs)
  obtain jb' r where r: "pull jb = (jb', r)" by fastforce
  then have "jitter_step fo jb PullFrame = (jb', out_of r)"
    by (simp add: out_of_def split: jitter_result.splits)
  then show ?case using 3(1) [of jb'] pull_order [OF 3(2) r] 3(3) by (simp add: case_prod_beta)
qed auto

lemma order_inv_start: "order_inv 0 (for_transmit fo lo hi)" "order_inv 0 (jitter_new fo lo hi)"
  using tuned_new [of fo lo hi] by (simp_all add: order_inv_def) (simp_all add: for_transmit_def jitter_new_def)

text \<open>A push before playout starts, with room.\<close>

lemma push_before_start:
  assumes "jb_next_seq jb = None" "length (bt_insert (bf_sequence f) f (jb_buffer jb)) \<le> hard_limit jb"
  shows "jb_buffer (push fo jb f t) = bt_insert (bf_sequence f) f (jb_buffer jb) \<and>
         jb_next_seq (push fo jb f t) = None \<and> hard_limit (push fo jb f t) = hard_limit jb \<and>
         jb_ends_with_release (push fo jb f t) = jb_ends_with_release jb"
proof -
  let ?j1 = "(jb_estimate fo (jb\<lparr> jb_received := jb_received jb + 1 \<rparr>) f t)
                  \<lparr> jb_last_arrival_ms := Some t, jb_last_packet_ts := Some (bf_timestamp f) \<rparr>"
  let ?j3 = "?j1\<lparr> jb_buffer := bt_insert (bf_sequence f) f (jb_buffer jb) \<rparr>"
  have "cap_buffer ?j3 = ?j3"
    using assms(2) by (subst cap_buffer.simps) (simp add: hard_limit_def)
  then have "push fo jb f t = ?j3"
    using assms(1) by (simp add: push_def Let_def too_late_def rebaseline_def restarts_def)
  then show ?thesis using assms(1) by (simp add: hard_limit_def)
qed

text \<open>
  A release does not lie in a transmit buffer: after any pushes and pulls with reordering within
  63 numbers, a frame without PTT that is the newest one held is handed out within as many pulls as
  there are numbers from the next one to play up to it, whatever the target depth, whether playout had
  started or was refilling, and however many frames in front of it are missing.
\<close>

theorem release_does_not_wait:
  assumes "in_window 0 evs" "jb = fst (jitter_run fo (for_transmit fo lo hi) evs)"
    and "release_in_hand jb s f"
  shows "f \<in> set (snd (jitter_run fo jb (replicate (Suc (unat s - first_due jb)) PullFrame)))"
  using release_comes [OF _ assms(3)] run_keeps_order [OF order_inv_start(1) assms(1)] assms(2) by blast

theorem release_does_not_wait_witness:
  "demo_frame 9 False \<in> set (snd (jitter_run demo_f32
     (fst (jitter_run demo_f32 (for_transmit demo_f32 5 10) [PushFrame (demo_frame 7 True) 0, PushFrame (demo_frame 9 False) 1]))
     (replicate 3 PullFrame)))"
proof -
  let ?evs = "[PushFrame (demo_frame 7 True) 0, PushFrame (demo_frame 9 False) 1]"
  let ?jb = "fst (jitter_run demo_f32 (for_transmit demo_f32 5 10) ?evs)"
  let ?j0 = "for_transmit demo_f32 5 10"
  have z: "jb_next_seq ?j0 = None" "jb_buffer ?j0 = []" "hard_limit ?j0 = 20" "jb_ends_with_release ?j0"
    by (simp_all add: for_transmit_def jitter_new_def hard_limit_def tuning_transmit_def tuning_default_def CAP_ABOVE_MAX_def)
  have q: "bf_sequence (demo_frame 7 True) = 7" "bf_sequence (demo_frame 9 False) = 9" by (simp_all add: demo_frame_def)
  let ?j1 = "push demo_f32 ?j0 (demo_frame 7 True) 0"
  have j1: "jb_next_seq ?j1 = None" "jb_buffer ?j1 = [(7, demo_frame 7 True)]" "hard_limit ?j1 = 20" "jb_ends_with_release ?j1"
    using push_before_start [of ?j0 "demo_frame 7 True" demo_f32 0] z q by simp_all
  have b: "jb_buffer ?jb = [(7, demo_frame 7 True), (9, demo_frame 9 False)]" "jb_next_seq ?jb = None" "jb_ends_with_release ?jb"
    using push_before_start [of ?j1 "demo_frame 9 False" demo_f32 1] j1 q by simp_all
  have r: "release_in_hand ?jb 9 (demo_frame 9 False)" and d: "first_due ?jb = 7"
    using b by (simp_all add: release_in_hand_def first_due_def demo_frame_def word_le_nat_alt)
  have "in_window 0 ?evs" by (simp add: demo_frame_def)
  from release_does_not_wait [OF this refl r] have
    "demo_frame 9 False \<in> set (snd (jitter_run demo_f32 ?jb (replicate (Suc (unat (9 :: u32) - first_due ?jb)) PullFrame)))" .
  moreover have "Suc (unat (9 :: u32) - first_due ?jb) = 3" unfolding d by simp
  ultimately show ?thesis by (simp only:)
qed

end
