(* ===== verification/WireLink.thy ===== *)
theory WireLink
  imports WireAudio Sessions
begin

text \<open>
  The packets that keep a link and an admission alive (\<^verbatim>\<open>protocol.rs\<close>): the version tag and the judgement
  about the other end's build, the heartbeat and its answer, the controls and their acknowledgement, the
  punch messages, disconnect and refusal, and the authentication exchange. A \<^verbatim>\<open>String\<close> is its UTF-8
  bytes; a fixed array is a list with its length stated where it matters. \<open>mine\<close> is what
  \<^verbatim>\<open>version_string()\<close> returns in this binary. An \<^verbatim>\<open>IpAddr\<close> is its octets.
\<close>

section \<open>The version tag\<close>

definition VERSION_TAG_LEN :: nat where "VERSION_TAG_LEN = 32"

type_synonym version_tag = "u8 list"

definition printable :: "u8 \<Rightarrow> bool" where
  "printable b \<longleftrightarrow> 0x20 \<le> b \<and> b \<le> 0x7E"

definition shown :: "u8 \<Rightarrow> u8" where
  "shown b = (if printable b then b else 0x3F)"

definition tag_from_text :: "u8 list \<Rightarrow> version_tag" where
  "tag_from_text s =
     (let t = map shown (take VERSION_TAG_LEN s) in t @ replicate (VERSION_TAG_LEN - length t) 0)"

definition tag_mine :: "u8 list \<Rightarrow> version_tag" where
  "tag_mine mine = tag_from_text mine"

definition tag_text :: "version_tag \<Rightarrow> u8 list" where
  "tag_text t = map shown (takeWhile (\<lambda>b. b \<noteq> 0) t)"

definition tag_is_mine :: "u8 list \<Rightarrow> version_tag \<Rightarrow> bool" where
  "tag_is_mine mine t \<longleftrightarrow>
     length mine \<le> VERSION_TAG_LEN \<and> take (length mine) t = mine \<and>
     list_all (\<lambda>b. b = 0) (drop (length mine) t)"

lemma length_tag_from_text [simp]: "length (tag_from_text s) = VERSION_TAG_LEN"
  by (simp add: tag_from_text_def Let_def)

lemma printable_shown [simp]: "printable (shown b)" "shown (shown b) = shown b" "shown b \<noteq> 0"
  by (auto simp: shown_def printable_def)

lemma shown_printable [simp]: "printable b \<Longrightarrow> shown b = b"
  by (simp add: shown_def)

lemma tag_text_printable: "list_all printable (tag_text t)"
  by (simp add: tag_text_def list_all_iff)

text \<open>The text that arrives is the text that was sent, as far as it fits and can be shown.\<close>

lemma tag_text_from_text: "tag_text (tag_from_text s) = map shown (take VERSION_TAG_LEN s)"
proof -
  have "takeWhile (\<lambda>b. b \<noteq> 0) (map shown xs @ replicate n 0) = map shown xs" for xs :: "u8 list" and n
    by (induction xs) (auto simp: takeWhile_replicate)
  then show ?thesis by (simp add: tag_text_def tag_from_text_def Let_def comp_def)
qed

lemma map_shown_printable: "list_all printable s \<Longrightarrow> map shown s = s"
  by (induction s) simp_all

lemma tag_is_mine_iff:
  assumes "length t = VERSION_TAG_LEN" "length mine \<le> VERSION_TAG_LEN" "list_all printable mine"
  shows "tag_is_mine mine t \<longleftrightarrow> t = tag_mine mine"
proof -
  have "list_all (\<lambda>b. b = 0) (drop (length mine) t) \<longleftrightarrow>
      drop (length mine) t = replicate (VERSION_TAG_LEN - length mine) 0"
    using assms(1) by (auto simp: list_all_iff intro: replicate_eqI)
  moreover have "t = tag_mine mine \<longleftrightarrow>
      take (length mine) t = mine \<and> drop (length mine) t = replicate (VERSION_TAG_LEN - length mine) 0"
    using append_eq_conv_conj [of mine "replicate (VERSION_TAG_LEN - length mine) 0" t] assms
    by (auto simp: tag_mine_def tag_from_text_def Let_def map_shown_printable)
  ultimately show ?thesis using assms by (auto simp: tag_is_mine_def)
qed

section \<open>The other end's build\<close>

definition build_of :: "u8 list \<Rightarrow> version_tag option \<Rightarrow> peer_build" where
  "build_of mine tag =
     (case tag of
        None \<Rightarrow> OlderBuild
      | Some t \<Rightarrow> (if tag_is_mine mine t then SameBuild else DifferentBuild (tag_text t)))"

definition build_is_trouble :: "peer_build \<Rightarrow> bool" where
  "build_is_trouble b = (case b of OlderBuild \<Rightarrow> True | DifferentBuild _ \<Rightarrow> True | _ \<Rightarrow> False)"

definition build_theirs :: "peer_build \<Rightarrow> u8 list option" where
  "build_theirs b = (case b of DifferentBuild t \<Rightarrow> Some t | _ \<Rightarrow> None)"

abbreviation (input) ascii :: "string \<Rightarrow> u8 list" where
  "ascii s \<equiv> map of_char s"

definition build_log_line :: "u8 list \<Rightarrow> peer_build \<Rightarrow> u8 list \<Rightarrow> u8 list option" where
  "build_log_line mine b peer =
     (case b of
        UnknownBuild \<Rightarrow> None
      | SameBuild \<Rightarrow> None
      | OlderBuild \<Rightarrow> Some (peer @ ascii '' runs a build older than this one ('' @ mine @
          ascii '') - too old to say which. All ThetisLink binaries should be the same build.'')
      | DifferentBuild theirs \<Rightarrow> Some (peer @ ascii '' runs '' @ theirs @ ascii '' and this is '' @ mine @
          ascii '': they should be the same build.''))"

definition build_change_line ::
    "u8 list \<Rightarrow> peer_build \<Rightarrow> peer_build \<Rightarrow> u8 list \<Rightarrow> (bool \<times> u8 list) option" where
  "build_change_line mine b was peer =
     (if b = was \<or> b = UnknownBuild then None
      else case build_log_line mine b peer of
             Some line \<Rightarrow> Some (True, line)
           | None \<Rightarrow>
               (if build_is_trouble was then Some (False, peer @ ascii '' now runs this same build'') else None))"

lemma build_log_line_iff: "build_log_line mine b peer \<noteq> None \<longleftrightarrow> build_is_trouble b"
  by (cases b) (simp_all add: build_log_line_def build_is_trouble_def)

lemma build_change_cases:
  "build_change_line mine b was peer = Some (True, line) \<longleftrightarrow>
     b \<noteq> was \<and> build_is_trouble b \<and> build_log_line mine b peer = Some line"
  "(\<exists>line. build_change_line mine b was peer = Some (False, line)) \<longleftrightarrow> b = SameBuild \<and> build_is_trouble was"
  using build_log_line_iff [of mine b peer]
  by (cases b; auto simp: build_change_line_def build_is_trouble_def split: option.splits)+

section \<open>Heartbeat\<close>

definition CAPABILITIES_NONE :: u32 where "CAPABILITIES_NONE = 0"

record heartbeat =
  hb_flags :: flags
  hb_sequence :: u32
  hb_local_time :: u32
  hb_rtt_ms :: u16
  hb_loss_percent :: u8
  hb_jitter_ms :: u8
  hb_capabilities :: u32
  hb_version :: "version_tag option"

definition heartbeat_serialize :: "heartbeat \<Rightarrow> u8 list" where
  "heartbeat_serialize p =
     header_bytes packet_type.Heartbeat (hb_flags p) @ u32_to_be (hb_sequence p) @ u32_to_be (hb_local_time p) @
     u16_to_be (hb_rtt_ms p) @ [hb_loss_percent p, hb_jitter_ms p] @ u32_to_be (hb_capabilities p)"

definition heartbeat_serialize_with_version :: "u8 list \<Rightarrow> heartbeat \<Rightarrow> u8 list" where
  "heartbeat_serialize_with_version mine p =
     heartbeat_serialize p @ (case hb_version p of None \<Rightarrow> tag_mine mine | Some t \<Rightarrow> t)"

definition heartbeat_deserialize :: "u8 list \<Rightarrow> heartbeat wire" where
  "heartbeat_deserialize buf =
     expect buf {packet_type.Heartbeat} 16 (\<lambda>h.
       wbind (if 20 \<le> length buf then u32_at buf 16 else Ok CAPABILITIES_NONE) (\<lambda>capabilities.
       wbind (if 20 + VERSION_TAG_LEN \<le> length buf
              then wbind (slice_at buf 20 (20 + VERSION_TAG_LEN)) (\<lambda>t. Ok (Some t)) else Ok None) (\<lambda>version.
       wbind (u32_at buf 4) (\<lambda>sequence.
       wbind (u32_at buf 8) (\<lambda>local_time.
       wbind (u16_at buf 12) (\<lambda>rtt_ms.
       wbind (byte_at buf 14) (\<lambda>loss_percent.
       wbind (byte_at buf 15) (\<lambda>jitter_ms.
         Ok \<lparr> hb_flags = hd_flags h, hb_sequence = sequence, hb_local_time = local_time, hb_rtt_ms = rtt_ms,
              hb_loss_percent = loss_percent, hb_jitter_ms = jitter_ms, hb_capabilities = capabilities,
              hb_version = version \<rparr>))))))))"

text \<open>What follows the twenty bytes counts as a version tag only when a whole tag is there.\<close>

lemma heartbeat_over_the_wire:
  "heartbeat_deserialize (heartbeat_serialize p @ rest) =
     Ok (p\<lparr> hb_version := (if VERSION_TAG_LEN \<le> length rest then Some (take VERSION_TAG_LEN rest) else None) \<rparr>)"
  by (simp add: heartbeat_deserialize_def heartbeat_serialize_def slice_at_def del: read_ok_iff)

lemma heartbeat_before_capabilities:
  "heartbeat_deserialize (take 16 (heartbeat_serialize p)) =
     Ok (p\<lparr> hb_capabilities := CAPABILITIES_NONE, hb_version := None \<rparr>)"
  by (simp add: heartbeat_deserialize_def heartbeat_serialize_def)

definition heartbeat_carried :: "heartbeat \<Rightarrow> bool" where
  "heartbeat_carried p \<longleftrightarrow> (\<exists>t. hb_version p = Some t \<and> length t = VERSION_TAG_LEN)"

interpretation heartbeat: open_codec "heartbeat_serialize_with_version mine" heartbeat_deserialize heartbeat_carried for mine
proof (rule open_codecI)
  show "heartbeat_deserialize (heartbeat_serialize_with_version mine p @ rest) = Ok p" if "heartbeat_carried p" for p rest
    using that by (auto simp: heartbeat_serialize_with_version_def heartbeat_over_the_wire heartbeat_carried_def)
  show "heartbeat_deserialize buf \<noteq> Panic" for buf
    unfolding heartbeat_deserialize_def by (intro parse_intros) (auto simp: no_panic no_panic_bind)
qed

section \<open>The answer to a heartbeat\<close>

record heartbeat_ack =
  ha_flags :: flags
  ha_echo_sequence :: u32
  ha_echo_time :: u32
  ha_capabilities :: u32
  ha_state_flags :: u32
  ha_subs :: "u16 option"
  ha_version :: "version_tag option"

definition ack_serialize :: "heartbeat_ack \<Rightarrow> u8 list" where
  "ack_serialize p =
     header_bytes packet_type.HeartbeatAck (ha_flags p) @ u32_to_be (ha_echo_sequence p) @
     u32_to_be (ha_echo_time p) @ u32_to_be (ha_capabilities p) @ u32_to_be (ha_state_flags p)"

definition ack_serialize_with_subs :: "heartbeat_ack \<Rightarrow> u8 list" where
  "ack_serialize_with_subs p =
     ack_serialize p @ u16_to_be (case ha_subs p of None \<Rightarrow> 0 | Some m \<Rightarrow> m)"

text \<open>The assertion that \<^verbatim>\<open>subs\<close> is there holds in debug builds only; without it an absent mask goes out empty.\<close>

definition ack_serialize_with_version :: "u8 list \<Rightarrow> heartbeat_ack \<Rightarrow> u8 list" where
  "ack_serialize_with_version mine p =
     ack_serialize_with_subs p @ (case ha_version p of None \<Rightarrow> tag_mine mine | Some t \<Rightarrow> t)"

definition ack_deserialize :: "u8 list \<Rightarrow> heartbeat_ack wire" where
  "ack_deserialize buf =
     expect buf {packet_type.HeartbeatAck} 12 (\<lambda>h.
       wbind (if 16 \<le> length buf then u32_at buf 12 else Ok CAPABILITIES_NONE) (\<lambda>capabilities.
       wbind (if 20 \<le> length buf then u32_at buf 16 else Ok 0) (\<lambda>state_flags.
       wbind (if 22 \<le> length buf then wbind (u16_at buf 20) (\<lambda>m. Ok (Some m)) else Ok None) (\<lambda>subs.
       wbind (if 22 + VERSION_TAG_LEN \<le> length buf
              then wbind (slice_at buf 22 (22 + VERSION_TAG_LEN)) (\<lambda>t. Ok (Some t)) else Ok None) (\<lambda>version.
       wbind (u32_at buf 4) (\<lambda>echo_sequence.
       wbind (u32_at buf 8) (\<lambda>echo_time.
         Ok \<lparr> ha_flags = hd_flags h, ha_echo_sequence = echo_sequence, ha_echo_time = echo_time,
              ha_capabilities = capabilities, ha_state_flags = state_flags, ha_subs = subs,
              ha_version = version \<rparr>)))))))"

text \<open>The four lengths the answer has had: every older one reads, with what it lacks absent.\<close>

lemma ack_over_the_wire:
  "ack_deserialize (take 12 (ack_serialize p)) =
     Ok (p\<lparr> ha_capabilities := CAPABILITIES_NONE, ha_state_flags := 0, ha_subs := None, ha_version := None \<rparr>)"
  "ack_deserialize (take 16 (ack_serialize p)) =
     Ok (p\<lparr> ha_state_flags := 0, ha_subs := None, ha_version := None \<rparr>)"
  "ack_deserialize (ack_serialize p) = Ok (p\<lparr> ha_subs := None, ha_version := None \<rparr>)"
  "ack_deserialize (ack_serialize_with_subs p @ rest) =
     Ok (p\<lparr> ha_subs := Some (case ha_subs p of None \<Rightarrow> 0 | Some m \<Rightarrow> m),
            ha_version := (if VERSION_TAG_LEN \<le> length rest then Some (take VERSION_TAG_LEN rest) else None) \<rparr>)"
  by (simp_all add: ack_deserialize_def ack_serialize_def ack_serialize_with_subs_def slice_at_def del: read_ok_iff)

definition ack_carried :: "heartbeat_ack \<Rightarrow> bool" where
  "ack_carried p \<longleftrightarrow> ha_subs p \<noteq> None \<and> (\<exists>t. ha_version p = Some t \<and> length t = VERSION_TAG_LEN)"

interpretation ack: open_codec "ack_serialize_with_version mine" ack_deserialize ack_carried for mine
proof (rule open_codecI)
  show "ack_deserialize (ack_serialize_with_version mine p @ rest) = Ok p" if "ack_carried p" for p rest
    using that by (auto simp: ack_serialize_with_version_def ack_over_the_wire ack_carried_def)
  show "ack_deserialize buf \<noteq> Panic" for buf
    unfolding ack_deserialize_def by (intro parse_intros) (auto simp: no_panic no_panic_bind)
qed

section \<open>Controls\<close>

record control_packet =
  cp_control_id :: u8
  cp_value :: u16

definition control_serialize :: "control_packet \<Rightarrow> u8 list" where
  "control_serialize p =
     header_bytes packet_type.Control NO_FLAGS @ [cp_control_id p] @ u16_to_be (cp_value p)"

definition control_deserialize :: "u8 list \<Rightarrow> control_packet wire" where
  "control_deserialize buf =
     expect buf {packet_type.Control} 7 (\<lambda>h.
       wbind (byte_at buf 4) (\<lambda>b.
         case control_id_from_u8 b of
           None \<Rightarrow> Err (UnknownControl b)
         | Some control_id \<Rightarrow>
             wbind (u16_at buf 5) (\<lambda>value. Ok \<lparr> cp_control_id = control_id, cp_value = value \<rparr>)))"

definition control_carried :: "control_packet \<Rightarrow> bool" where
  "control_carried p \<longleftrightarrow> cp_control_id p \<in> set CONTROL_CODES"

lemma control_id_known: "c \<in> set CONTROL_CODES \<Longrightarrow> control_id_from_u8 c = Some c"
  by (auto simp: control_id_from_u8_def list_ex_iff)

interpretation control: open_codec control_serialize control_deserialize control_carried
proof (rule open_codecI)
  show "control_deserialize (control_serialize p @ rest) = Ok p" if "control_carried p" for p rest
    using control_id_known [of "cp_control_id p"] that
    by (simp add: control_carried_def control_deserialize_def control_serialize_def)
  show "control_deserialize buf \<noteq> Panic" for buf
    unfolding control_deserialize_def by (intro parse_intros) (auto simp: no_panic no_panic_bind split: option.splits)
qed

definition control_ack_serialize :: "u32 \<Rightarrow> u8 list" where
  "control_ack_serialize seq = header_bytes packet_type.ControlAck NO_FLAGS @ u32_to_be seq"

section \<open>Punching\<close>

datatype ip_addr = IpV4 "u8 list" | IpV6 "u8 list"

record wire_addr =
  wa_ip :: ip_addr
  wa_port :: u16

definition ip_octets :: "ip_addr \<Rightarrow> u8 list" where
  "ip_octets ip = (case ip of IpV4 o4 \<Rightarrow> o4 | IpV6 o6 \<Rightarrow> o6)"

definition punch_serialize :: "packet_type \<Rightarrow> wire_addr \<Rightarrow> u8 list" where
  "punch_serialize kind addr =
     header_bytes kind NO_FLAGS @ [case wa_ip addr of IpV4 _ \<Rightarrow> 4 | IpV6 _ \<Rightarrow> 6] @
     ip_octets (wa_ip addr) @ u16_to_be (wa_port addr)"

definition punch_address :: "u8 list \<Rightarrow> wire_addr wire" where
  "punch_address buf =
     (case get_byte buf 4 of
        None \<Rightarrow> Err (TooShort (length buf))
      | Some f \<Rightarrow>
          (if f = 4 \<and> 5 + 4 + 2 \<le> length buf then
             wbind (slice_at buf 5 9) (\<lambda>o4. wbind (u16_at buf 9) (\<lambda>port.
               Ok \<lparr> wa_ip = IpV4 o4, wa_port = port \<rparr>))
           else if f = 6 \<and> 5 + 16 + 2 \<le> length buf then
             wbind (slice_at buf 5 21) (\<lambda>o6. wbind (u16_at buf 21) (\<lambda>port.
               Ok \<lparr> wa_ip = IpV6 o6, wa_port = port \<rparr>))
           else if f = 4 \<or> f = 6 then Err (TooShort (length buf))
           else Err (UnknownFamily f)))"

definition addr_carried :: "wire_addr \<Rightarrow> bool" where
  "addr_carried a \<longleftrightarrow> (case wa_ip a of IpV4 o4 \<Rightarrow> length o4 = 4 | IpV6 o6 \<Rightarrow> length o6 = 16)"

interpretation punch: open_codec "punch_serialize kind" punch_address addr_carried for kind
proof (rule open_codecI)
  show "punch_address (punch_serialize kind a @ rest) = Ok a" if "addr_carried a" for a rest
    using that
    by (cases "wa_ip a") (simp_all add: addr_carried_def punch_address_def punch_serialize_def get_byte_def
        nth_append ip_octets_def del: read_ok_iff)
  show "punch_address buf \<noteq> Panic" for buf
    by (auto simp: punch_address_def get_byte_def slice_at_def u16_at_def)
qed

section \<open>Disconnect and refusal\<close>

definition disconnect_serialize :: "u8 list" where
  "disconnect_serialize = header_bytes packet_type.Disconnect NO_FLAGS"

definition ptt_denied_serialize :: "denied_target \<Rightarrow> denial \<Rightarrow> u8 list" where
  "ptt_denied_serialize target denial =
     header_bytes packet_type.PttDenied
       (denied_bits target OR
        (case denial of Refused \<Rightarrow> 0 | ServerReleased \<Rightarrow> FLAG_SERVER_RELEASED
         | Closed \<Rightarrow> FLAG_SERVER_RELEASED OR FLAG_SERVER_CLOSED))"

lemma denial_flags:
  "flag_denied_target (denied_bits t OR (case d of Refused \<Rightarrow> 0 | ServerReleased \<Rightarrow> FLAG_SERVER_RELEASED
     | Closed \<Rightarrow> FLAG_SERVER_RELEASED OR FLAG_SERVER_CLOSED)) = t"
  "flag_server_released (denied_bits t OR (case d of Refused \<Rightarrow> 0 | ServerReleased \<Rightarrow> FLAG_SERVER_RELEASED
     | Closed \<Rightarrow> FLAG_SERVER_RELEASED OR FLAG_SERVER_CLOSED)) \<longleftrightarrow> d \<noteq> Refused"
  "flag_server_closed (denied_bits t OR (case d of Refused \<Rightarrow> 0 | ServerReleased \<Rightarrow> FLAG_SERVER_RELEASED
     | Closed \<Rightarrow> FLAG_SERVER_RELEASED OR FLAG_SERVER_CLOSED)) \<longleftrightarrow> d = Closed"
  by (cases t; cases d; simp add: denied_bits_def flag_denied_target_def flag_server_released_def
      flag_server_closed_def FLAG_SERVER_RELEASED_def FLAG_SERVER_CLOSED_def)+

section \<open>Authentication\<close>

definition auth_challenge_serialize :: "u8 list \<Rightarrow> u8 list" where
  "auth_challenge_serialize nonce = header_bytes packet_type.AuthChallenge NO_FLAGS @ nonce"

definition auth_response_serialize :: "u8 list \<Rightarrow> u8 list option \<Rightarrow> u8 list" where
  "auth_response_serialize hmac client_nonce =
     header_bytes packet_type.AuthResponse NO_FLAGS @ hmac @
     (case client_nonce of None \<Rightarrow> [] | Some n \<Rightarrow> n)"

definition auth_result_serialize :: "u8 \<Rightarrow> u8 list option \<Rightarrow> u8 list" where
  "auth_result_serialize code proof_tail =
     header_bytes packet_type.AuthResult NO_FLAGS @ [code] @ (case proof_tail of None \<Rightarrow> [] | Some p \<Rightarrow> p)"

end
