(* ===== verification/WireRadio.thy ===== *)
theory WireRadio
  imports WireAudio
begin

text \<open>
  What says where the receiver is and what it sees (\<^verbatim>\<open>protocol.rs\<close>): frequency, mode, S-meter, the VRX
  frequency, the transmit filter and the spectrum, and the packing of the VRX window into a control
  value.
\<close>

section \<open>Frequency and mode\<close>

record vrx_frequency_packet =
  vf_vrx_id :: u8
  vf_frequency_hz :: u64

definition vrx_frequency_serialize_as :: "packet_type \<Rightarrow> vrx_frequency_packet \<Rightarrow> u8 list" where
  "vrx_frequency_serialize_as t p = header_bytes t NO_FLAGS @ [vf_vrx_id p] @ u64_to_be (vf_frequency_hz p)"

definition vrx_frequency_deserialize :: "u8 list \<Rightarrow> vrx_frequency_packet wire" where
  "vrx_frequency_deserialize buf =
     expect buf {packet_type.FrequencyVrx, packet_type.FrequencyVrxActual} 13 (\<lambda>h.
       wbind (byte_at buf 4) (\<lambda>vrx_id.
       wbind (u64_at buf 5) (\<lambda>frequency_hz.
         Ok \<lparr> vf_vrx_id = vrx_id, vf_frequency_hz = frequency_hz \<rparr>)))"

interpretation vrx_frequency: open_codec "vrx_frequency_serialize_as t" vrx_frequency_deserialize
  "\<lambda>_. t \<in> {packet_type.FrequencyVrx, packet_type.FrequencyVrxActual}" for t
proof (rule open_codecI)
  show "vrx_frequency_deserialize (vrx_frequency_serialize_as t p @ rest) = Ok p"
    if "t \<in> {packet_type.FrequencyVrx, packet_type.FrequencyVrxActual}" for p rest
    using that by (auto simp: vrx_frequency_deserialize_def vrx_frequency_serialize_as_def)
  show "vrx_frequency_deserialize buf \<noteq> Panic" for buf
    unfolding vrx_frequency_deserialize_def by (intro parse_intros) auto
qed

record tx_filter_band_packet =
  tf_low_hz :: i32
  tf_high_hz :: i32

definition tx_filter_serialize :: "tx_filter_band_packet \<Rightarrow> u8 list" where
  "tx_filter_serialize p =
     header_bytes packet_type.TxFilterBand NO_FLAGS @ u32_to_be (tf_low_hz p) @ u32_to_be (tf_high_hz p)"

definition tx_filter_deserialize :: "u8 list \<Rightarrow> tx_filter_band_packet wire" where
  "tx_filter_deserialize buf =
     ensure (12 \<le> length buf) (TooShort (length buf))
       (wbind (u32_at buf 4) (\<lambda>low_hz.
        wbind (u32_at buf 8) (\<lambda>high_hz.
          Ok \<lparr> tf_low_hz = low_hz, tf_high_hz = high_hz \<rparr>)))"

interpretation tx_filter: open_codec tx_filter_serialize tx_filter_deserialize "\<lambda>_. True"
proof (rule open_codecI)
  show "tx_filter_deserialize (tx_filter_serialize p @ rest) = Ok p" for p rest
    by (simp add: tx_filter_deserialize_def tx_filter_serialize_def)
  show "tx_filter_deserialize buf \<noteq> Panic" for buf
    unfolding tx_filter_deserialize_def by (intro parse_intros) auto
qed

record frequency_packet =
  fp_frequency_hz :: u64

definition frequency_serialize_as :: "packet_type \<Rightarrow> frequency_packet \<Rightarrow> u8 list" where
  "frequency_serialize_as t p = header_bytes t NO_FLAGS @ u64_to_be (fp_frequency_hz p)"

definition frequency_deserialize :: "u8 list \<Rightarrow> frequency_packet wire" where
  "frequency_deserialize buf =
     expect buf {packet_type.Frequency, packet_type.FrequencyRx2, packet_type.FrequencyYaesu,
                 packet_type.FrequencyYaesu2} 12 (\<lambda>h.
       wbind (u64_at buf 4) (\<lambda>frequency_hz. Ok \<lparr> fp_frequency_hz = frequency_hz \<rparr>))"

interpretation frequency: open_codec "frequency_serialize_as t" frequency_deserialize
  "\<lambda>_. t \<in> {packet_type.Frequency, packet_type.FrequencyRx2, packet_type.FrequencyYaesu, packet_type.FrequencyYaesu2}" for t
proof (rule open_codecI)
  show "frequency_deserialize (frequency_serialize_as t p @ rest) = Ok p"
    if "t \<in> {packet_type.Frequency, packet_type.FrequencyRx2, packet_type.FrequencyYaesu, packet_type.FrequencyYaesu2}" for p rest
    using that by (auto simp: frequency_deserialize_def frequency_serialize_as_def)
  show "frequency_deserialize buf \<noteq> Panic" for buf
    unfolding frequency_deserialize_def by (intro parse_intros) auto
qed

record mode_packet =
  mo_mode :: u8

definition mode_serialize_as :: "packet_type \<Rightarrow> mode_packet \<Rightarrow> u8 list" where
  "mode_serialize_as t p = header_bytes t NO_FLAGS @ [mo_mode p]"

definition mode_deserialize :: "u8 list \<Rightarrow> mode_packet wire" where
  "mode_deserialize buf =
     expect buf {packet_type.Mode, packet_type.ModeRx2} 5 (\<lambda>h.
       wbind (byte_at buf 4) (\<lambda>m. Ok \<lparr> mo_mode = m \<rparr>))"

interpretation mode: open_codec "mode_serialize_as t" mode_deserialize
  "\<lambda>_. t \<in> {packet_type.Mode, packet_type.ModeRx2}" for t
proof (rule open_codecI)
  show "mode_deserialize (mode_serialize_as t p @ rest) = Ok p" if "t \<in> {packet_type.Mode, packet_type.ModeRx2}" for p rest
    using that by (auto simp: mode_deserialize_def mode_serialize_as_def)
  show "mode_deserialize buf \<noteq> Panic" for buf
    unfolding mode_deserialize_def by (intro parse_intros) auto
qed

section \<open>S-meter\<close>

record smeter_packet =
  sm_level :: i16
  sm_flags :: flags

definition SMETER_TYPES :: "packet_type set" where
  "SMETER_TYPES =
     {packet_type.Smeter, packet_type.SmeterRx2, packet_type.SmeterSig, packet_type.SmeterMaxBin,
      packet_type.SmeterRx2Sig, packet_type.SmeterRx2MaxBin}"

definition smeter_serialize_as :: "packet_type \<Rightarrow> smeter_packet \<Rightarrow> u8 list" where
  "smeter_serialize_as t p = header_bytes t (sm_flags p) @ u16_to_be (sm_level p)"

definition smeter_deserialize :: "u8 list \<Rightarrow> smeter_packet wire" where
  "smeter_deserialize buf =
     expect buf SMETER_TYPES 6 (\<lambda>h.
       wbind (u16_at buf 4) (\<lambda>level. Ok \<lparr> sm_level = level, sm_flags = hd_flags h \<rparr>))"

interpretation smeter: open_codec "smeter_serialize_as t" smeter_deserialize "\<lambda>_. t \<in> SMETER_TYPES" for t
proof (rule open_codecI)
  show "smeter_deserialize (smeter_serialize_as t p @ rest) = Ok p" if "t \<in> SMETER_TYPES" for p rest
    using that by (simp add: smeter_deserialize_def smeter_serialize_as_def)
  show "smeter_deserialize buf \<noteq> Panic" for buf
    unfolding smeter_deserialize_def by (intro parse_intros) auto
qed

section \<open>Spectrum\<close>

fun wire_map :: "('a \<Rightarrow> 'b wire) \<Rightarrow> 'a list \<Rightarrow> 'b list wire" where
  "wire_map f [] = Ok []"
| "wire_map f (x # xs) = wbind (f x) (\<lambda>y. wbind (wire_map f xs) (\<lambda>ys. Ok (y # ys)))"

lemma wire_map_ok: "(\<And>x. x \<in> set xs \<Longrightarrow> f x = Ok (g x)) \<Longrightarrow> wire_map f xs = Ok (map g xs)"
  by (induction xs) simp_all

lemma wire_map_no_panic: "(\<And>x. x \<in> set xs \<Longrightarrow> f x \<noteq> Panic) \<Longrightarrow> wire_map f xs \<noteq> Panic"
  by (induction xs) (auto simp: wbind_panic_iff)

record spectrum_packet =
  sp_sequence :: u16
  sp_num_bins :: u16
  sp_center_freq_hz :: u32
  sp_span_hz :: u32
  sp_ref_level :: i8
  sp_db_per_unit :: u8
  sp_bins :: "u16 list"

definition SPECTRUM_TYPES :: "packet_type set" where
  "SPECTRUM_TYPES =
     {packet_type.Spectrum, packet_type.FullSpectrum, packet_type.SpectrumRx2,
      packet_type.FullSpectrumRx2, packet_type.SpectrumVrx1, packet_type.SpectrumVrx2}"

definition SPECTRUM_HEADER_SIZE :: nat where "SPECTRUM_HEADER_SIZE = HEADER_SIZE + 2 + 2 + 4 + 4 + 1 + 1"

definition bin_bytes :: "u8 \<Rightarrow> u16 list \<Rightarrow> u8 list" where
  "bin_bytes db_per_unit bins =
     (if db_per_unit = 2 then concat (map u16_to_be bins) else map (\<lambda>v. ucast (drop_bit 8 v)) bins)"

definition spectrum_serialize_as :: "packet_type \<Rightarrow> spectrum_packet \<Rightarrow> u8 list" where
  "spectrum_serialize_as t p =
     header_bytes t NO_FLAGS @ u16_to_be (sp_sequence p) @ u16_to_be (sp_num_bins p) @
     u32_to_be (sp_center_freq_hz p) @ u32_to_be (sp_span_hz p) @ [sp_ref_level p, sp_db_per_unit p] @
     bin_bytes (sp_db_per_unit p) (sp_bins p)"

definition doubled :: "u8 \<Rightarrow> u16" where
  "doubled b = (let v = ucast b in v OR push_bit 8 v)"

definition spectrum_deserialize :: "u8 list \<Rightarrow> spectrum_packet wire" where
  "spectrum_deserialize buf =
     expect buf SPECTRUM_TYPES SPECTRUM_HEADER_SIZE (\<lambda>h.
       wbind (u16_at buf 4) (\<lambda>sequence.
       wbind (u16_at buf 6) (\<lambda>num_bins.
       wbind (u32_at buf 8) (\<lambda>center_freq_hz.
       wbind (u32_at buf 12) (\<lambda>span_hz.
       wbind (byte_at buf 16) (\<lambda>ref_level.
       wbind (byte_at buf 17) (\<lambda>db_per_unit.
         let bytes_per_bin = (if db_per_unit = 2 then 2 else 1);
             expected_len = SPECTRUM_HEADER_SIZE + unat num_bins * bytes_per_bin
         in ensure (expected_len \<le> length buf) (Truncated (length buf))
              (wbind
                (if db_per_unit = 2
                 then wire_map (\<lambda>i. u16_at buf (SPECTRUM_HEADER_SIZE + i * 2)) [0..<unat num_bins]
                 else wire_map (\<lambda>i. wbind (byte_at buf (SPECTRUM_HEADER_SIZE + i)) (\<lambda>b. Ok (doubled b)))
                        [0..<unat num_bins])
                (\<lambda>bins.
                  Ok \<lparr> sp_sequence = sequence, sp_num_bins = num_bins, sp_center_freq_hz = center_freq_hz,
                       sp_span_hz = span_hz, sp_ref_level = ref_level, sp_db_per_unit = db_per_unit,
                       sp_bins = bins \<rparr>)))))))))"

text \<open>What a bin is after the wire: itself with two bytes a bin, its high byte twice with one.\<close>

definition bin_on_the_wire :: "u8 \<Rightarrow> u16 \<Rightarrow> u16" where
  "bin_on_the_wire db_per_unit v = (if db_per_unit = 2 then v else doubled (ucast (drop_bit 8 v)))"

lemma bin_on_the_wire_idem [simp]: "bin_on_the_wire d (bin_on_the_wire d v) = bin_on_the_wire d v"
proof -
  have "ucast (drop_bit 8 (doubled b)) = b" for b
    by (rule bit_word_eqI) (auto simp: doubled_def Let_def bit_simps dest: bit_imp_le_length)
  then show ?thesis by (simp add: bin_on_the_wire_def)
qed

lemma u16_at_bins: "i < length bins \<Longrightarrow> u16_at (concat (map u16_to_be bins) @ rest) (i * 2) = Ok (bins ! i)"
proof (induction bins arbitrary: i)
  case (Cons b bins)
  then show ?case by (cases i) simp_all
qed simp

lemma length_bin_bytes: "length (bin_bytes d bins) = length bins * (if d = 2 then 2 else 1)"
  by (induction bins) (auto simp: bin_bytes_def)

lemma spectrum_over_the_wire:
  assumes "t \<in> SPECTRUM_TYPES" "length (sp_bins p) = unat (sp_num_bins p)"
  shows "spectrum_deserialize (spectrum_serialize_as t p @ rest) =
         Ok (p\<lparr> sp_bins := map (bin_on_the_wire (sp_db_per_unit p)) (sp_bins p) \<rparr>)"
proof -
  let ?n = "length (sp_bins p)"
  let ?buf = "spectrum_serialize_as t p @ rest"
  let ?d = "sp_db_per_unit p"
  have two: "wire_map (\<lambda>i. u16_at ?buf (SPECTRUM_HEADER_SIZE + i * 2)) [0..<?n] = Ok (sp_bins p)" if "?d = 2"
  proof -
    have "u16_at ?buf (SPECTRUM_HEADER_SIZE + i * 2) = Ok (sp_bins p ! i)" if "i \<in> set [0..<?n]" for i
      using that \<open>?d = 2\<close> u16_at_bins [of i "sp_bins p" rest]
      by (simp add: spectrum_serialize_as_def SPECTRUM_HEADER_SIZE_def HEADER_SIZE_def bin_bytes_def)
    then show ?thesis using wire_map_ok [of "[0..<?n]" _ "(!) (sp_bins p)"]
      by (metis (no_types, lifting) map_nth)
  qed
  have one: "wire_map (\<lambda>i. wbind (byte_at ?buf (SPECTRUM_HEADER_SIZE + i)) (\<lambda>b. Ok (doubled b))) [0..<?n] =
      Ok (map (bin_on_the_wire ?d) (sp_bins p))" if "?d \<noteq> 2"
  proof -
    have "wbind (byte_at ?buf (SPECTRUM_HEADER_SIZE + i)) (\<lambda>b. Ok (doubled b)) =
        Ok (map (bin_on_the_wire ?d) (sp_bins p) ! i)" if "i \<in> set [0..<?n]" for i
      using that \<open>?d \<noteq> 2\<close>
      by (simp add: spectrum_serialize_as_def SPECTRUM_HEADER_SIZE_def HEADER_SIZE_def bin_bytes_def
          byte_at_def nth_append bin_on_the_wire_def)
    then show ?thesis using wire_map_ok [of "[0..<?n]" _ "(!) (map (bin_on_the_wire ?d) (sp_bins p))"]
      by (metis (no_types, lifting) length_map map_nth)
  qed
  have len: "length ?buf = SPECTRUM_HEADER_SIZE + ?n * (if ?d = 2 then 2 else 1) + length rest"
    by (simp add: spectrum_serialize_as_def SPECTRUM_HEADER_SIZE_def HEADER_SIZE_def length_bin_bytes)
  have reads: "u16_at ?buf 4 = Ok (sp_sequence p)" "u16_at ?buf 6 = Ok (sp_num_bins p)"
      "u32_at ?buf 8 = Ok (sp_center_freq_hz p)" "u32_at ?buf 12 = Ok (sp_span_hz p)"
      "byte_at ?buf 16 = Ok (sp_ref_level p)" "byte_at ?buf 17 = Ok ?d"
    by (simp_all add: spectrum_serialize_as_def)
  have "expect ?buf SPECTRUM_TYPES SPECTRUM_HEADER_SIZE k = k \<lparr> hd_type = t, hd_flags = NO_FLAGS \<rparr>" for k :: "header \<Rightarrow> spectrum_packet wire"
    using assms(1) len by (simp add: spectrum_serialize_as_def SPECTRUM_HEADER_SIZE_def HEADER_SIZE_def)
  then show ?thesis using two one len assms(2)
    by (simp add: spectrum_deserialize_def reads Let_def) (simp add: bin_on_the_wire_def [abs_def])
qed

definition spectrum_carried :: "spectrum_packet \<Rightarrow> bool" where
  "spectrum_carried p \<longleftrightarrow>
     length (sp_bins p) = unat (sp_num_bins p) \<and>
     map (bin_on_the_wire (sp_db_per_unit p)) (sp_bins p) = sp_bins p"

interpretation spectrum: open_codec "spectrum_serialize_as t" spectrum_deserialize
  "\<lambda>p. t \<in> SPECTRUM_TYPES \<and> spectrum_carried p" for t
proof (rule open_codecI)
  show "spectrum_deserialize (spectrum_serialize_as t p @ rest) = Ok p"
    if "t \<in> SPECTRUM_TYPES \<and> spectrum_carried p" for p rest
    using that by (simp add: spectrum_over_the_wire spectrum_carried_def)
  show "spectrum_deserialize buf \<noteq> Panic" for buf
    unfolding spectrum_deserialize_def Let_def
    by (intro parse_intros) (auto simp: SPECTRUM_HEADER_SIZE_def HEADER_SIZE_def wbind_panic_iff byte_at_def
        intro!: wire_map_no_panic no_panic no_panic_bind)
qed

section \<open>The VRX window in a control value\<close>

text \<open>\<^verbatim>\<open>i32\<close> division truncates towards zero. The numbers stay small enough not to wrap.\<close>

definition VRX_PAN_STEP_HZ :: int where "VRX_PAN_STEP_HZ = 10"
definition VRX_SPAN_STEP_HZ :: nat where "VRX_SPAN_STEP_HZ = 25"

definition pack_vrx_pan :: "int \<Rightarrow> u16" where
  "pack_vrx_pan offset_hz =
     of_int (clamp (- (2 ^ 15)) (2 ^ 15 - 1) (sgn offset_hz * (\<bar>offset_hz\<bar> div VRX_PAN_STEP_HZ)))"

definition unpack_vrx_pan :: "u16 \<Rightarrow> int" where
  "unpack_vrx_pan value = sint value * VRX_PAN_STEP_HZ"

definition pack_vrx_span_fine :: "nat \<Rightarrow> u16" where
  "pack_vrx_span_fine span_hz =
     of_nat (clamp 1 (2 ^ 16 - 1) ((span_hz + VRX_SPAN_STEP_HZ div 2) div VRX_SPAN_STEP_HZ))"

definition unpack_vrx_span_fine :: "u16 \<Rightarrow> nat" where
  "unpack_vrx_span_fine value = max (unat value) 1 * VRX_SPAN_STEP_HZ"

definition vrx_span_khz :: "nat \<Rightarrow> u16" where
  "vrx_span_khz span_hz = of_nat (clamp 1 (2 ^ 16 - 1) (span_hz div 1000))"

definition vrx_span_on_the_wire :: "nat \<Rightarrow> bool \<Rightarrow> nat" where
  "vrx_span_on_the_wire span_hz fine =
     (if fine then unpack_vrx_span_fine (pack_vrx_span_fine span_hz) else unat (vrx_span_khz span_hz) * 1000)"

definition vrx_pan_on_the_wire :: "int \<Rightarrow> int" where
  "vrx_pan_on_the_wire offset_hz = unpack_vrx_pan (pack_vrx_pan offset_hz)"

definition ddc_centre_to_khz :: "nat \<Rightarrow> u16" where
  "ddc_centre_to_khz hz = of_nat (min ((hz + 500) div 1000) (2 ^ 16 - 1))"

definition ddc_centre_from_khz :: "u16 \<Rightarrow> nat" where
  "ddc_centre_from_khz khz = unat khz * 1000"

lemma ddc_centre_near:
  "hz \<le> 65535000 \<Longrightarrow> ddc_centre_from_khz (ddc_centre_to_khz hz) \<le> hz + 500 \<and> hz \<le> ddc_centre_from_khz (ddc_centre_to_khz hz) + 500"
proof -
  assume "hz \<le> 65535000"
  then have "(hz + 500) div 1000 \<le> 65535" by simp
  then have "ddc_centre_from_khz (ddc_centre_to_khz hz) = (hz + 500) div 1000 * 1000"
    by (simp add: ddc_centre_from_khz_def ddc_centre_to_khz_def)
  then show ?thesis by linarith
qed

lemma sint_of_int_u16: "- (2 ^ 15) \<le> i \<Longrightarrow> i < 2 ^ 15 \<Longrightarrow> sint (of_int i :: u16) = i"
  by (simp add: signed_of_int signed_take_bit_int_eq_self)

lemma vrx_pan_near:
  assumes "- 327680 \<le> offset" "offset \<le> 327670"
  shows "\<bar>vrx_pan_on_the_wire offset - offset\<bar> < 10 \<and> \<bar>vrx_pan_on_the_wire offset\<bar> \<le> \<bar>offset\<bar>"
proof -
  let ?q = "sgn offset * (\<bar>offset\<bar> div 10)"
  have q: "- 32768 \<le> ?q" "?q \<le> 32767" using assms by (cases "offset < 0"; cases "offset = 0"; simp add: sgn_if)+
  then have "vrx_pan_on_the_wire offset = ?q * 10"
    using sint_of_int_u16 [of ?q] by (simp add: vrx_pan_on_the_wire_def pack_vrx_pan_def unpack_vrx_pan_def VRX_PAN_STEP_HZ_def)
  then show ?thesis by (cases "offset < 0"; cases "offset = 0"; simp add: sgn_if; linarith)
qed

end
