(* ===== verification/WireDevices.thy ===== *)
theory WireDevices
  imports WireRadio
begin

text \<open>
  The packets about equipment and radios (\<^verbatim>\<open>protocol.rs\<close>): DX spots, equipment status and commands, the
  Amplitec power table, the Yaesu state, controls, features and presence, and the TX profiles. A
  \<^verbatim>\<open>String\<close> is its UTF-8 bytes. Packets grew at the end over the builds; a reader fills in what an older
  sender left out.
\<close>

section \<open>Texts\<close>

text \<open>A text behind a one-byte length: the text and the position behind it, or a refusal.\<close>

definition short_text_at :: "u8 list \<Rightarrow> nat \<Rightarrow> (u8 list \<Rightarrow> nat \<Rightarrow> 'a wire) \<Rightarrow> 'a wire" where
  "short_text_at buf pos k =
     ensure (pos < length buf) (Truncated (length buf))
       (wbind (byte_at buf pos) (\<lambda>len.
         ensure (pos + 1 + unat len \<le> length buf) (Truncated (length buf))
           (wbind (slice_at buf (pos + 1) (pos + 1 + unat len)) (\<lambda>s.
             k (utf8_lossy s) (pos + 1 + unat len)))))"

definition short_text :: "u8 list \<Rightarrow> u8 list" where
  "short_text s = of_nat (length s) # s"

definition short_ok :: "u8 list \<Rightarrow> bool" where
  "short_ok s \<longleftrightarrow> utf8_valid s \<and> length s < 256"

lemma length_short_text [simp]: "length (short_text s) = Suc (length s)"
  by (simp add: short_text_def)

lemma short_text_here:
  "short_ok s \<Longrightarrow> short_text_at (xs @ short_text s @ ys) (length xs) k = k s (length xs + 1 + length s)"
  by (simp add: short_text_at_def short_text_def short_ok_def byte_at_def slice_at_def nth_append del: read_ok_iff)

lemma no_panic_short_text: "(\<And>s i. i \<le> length buf \<Longrightarrow> k s i \<noteq> Panic) \<Longrightarrow> short_text_at buf pos k \<noteq> Panic"
  unfolding short_text_at_def by (intro no_panic_bind no_panic_ensure) (auto simp: no_panic)

section \<open>DX spots\<close>

record spot_packet =
  st_callsign :: "u8 list"
  st_frequency_hz :: u64
  st_mode :: "u8 list"
  st_spotter :: "u8 list"
  st_comment :: "u8 list"
  st_age_seconds :: u16
  st_expiry_seconds :: u16

definition spot_without_expiry :: "spot_packet \<Rightarrow> u8 list" where
  "spot_without_expiry p =
     header_bytes packet_type.Spot NO_FLAGS @ short_text (st_callsign p) @ u64_to_be (st_frequency_hz p) @
     short_text (st_mode p) @ short_text (st_spotter p) @ short_text (st_comment p) @ u16_to_be (st_age_seconds p)"

definition spot_serialize :: "spot_packet \<Rightarrow> u8 list" where
  "spot_serialize p = spot_without_expiry p @ u16_to_be (st_expiry_seconds p)"

definition spot_deserialize :: "u8 list \<Rightarrow> spot_packet wire" where
  "spot_deserialize buf =
     wbind (header_deserialize buf) (\<lambda>h.
     ensure (hd_type h = packet_type.Spot) (UnexpectedType (packet_code (hd_type h)))
      (short_text_at buf HEADER_SIZE (\<lambda>callsign pos.
       ensure (pos + 8 \<le> length buf) (Truncated (length buf)) (wbind (u64_at buf pos) (\<lambda>frequency_hz.
       short_text_at buf (pos + 8) (\<lambda>m pos.
       short_text_at buf pos (\<lambda>spotter pos.
       short_text_at buf pos (\<lambda>comment pos.
       ensure (pos + 2 \<le> length buf) (Truncated (length buf)) (wbind (u16_at buf pos) (\<lambda>age_seconds.
       wbind (if pos + 2 + 2 \<le> length buf then u16_at buf (pos + 2) else Ok 600) (\<lambda>expiry_seconds.
         Ok \<lparr> st_callsign = callsign, st_frequency_hz = frequency_hz, st_mode = m, st_spotter = spotter,
              st_comment = comment, st_age_seconds = age_seconds, st_expiry_seconds = expiry_seconds \<rparr>)))))))))))"

definition spot_carried :: "spot_packet \<Rightarrow> bool" where
  "spot_carried p \<longleftrightarrow>
     short_ok (st_callsign p) \<and> short_ok (st_mode p) \<and> short_ok (st_spotter p) \<and> short_ok (st_comment p)"

lemma spot_over_the_wire:
  assumes "spot_carried p"
  shows "spot_deserialize (spot_without_expiry p @ rest) =
    Ok (p\<lparr> st_expiry_seconds := (if length rest < 2 then 600 else u16_be (rest ! 0) (rest ! 1)) \<rparr>)"
proof -
  let ?buf = "spot_without_expiry p @ rest"
  let ?a = "length (st_callsign p)" and ?b = "length (st_mode p)"
  let ?c = "length (st_spotter p)" and ?d = "length (st_comment p)"
  let ?h = "header_bytes packet_type.Spot NO_FLAGS"
  let ?p1 = "?h @ short_text (st_callsign p)"
  let ?p2 = "?p1 @ u64_to_be (st_frequency_hz p)"
  let ?p3 = "?p2 @ short_text (st_mode p)"
  let ?p4 = "?p3 @ short_text (st_spotter p)"
  let ?p5 = "?p4 @ short_text (st_comment p)"
  note ok = assms [unfolded spot_carried_def]
  define n1 n2 n3 n4 where n: "n1 = 5 + ?a" "n2 = 14 + ?a + ?b" "n3 = 15 + ?a + ?b + ?c" "n4 = 16 + ?a + ?b + ?c + ?d"
  have t1: "short_text_at ?buf 4 k = k (st_callsign p) n1" for k :: "u8 list \<Rightarrow> nat \<Rightarrow> spot_packet wire"
    using short_text_here [of "st_callsign p" ?h _ k] ok by (simp add: spot_without_expiry_def n)
  have t2: "short_text_at ?buf (n1 + 8) k = k (st_mode p) n2" for k :: "u8 list \<Rightarrow> nat \<Rightarrow> spot_packet wire"
    using short_text_here [of "st_mode p" ?p2 _ k] ok by (simp add: spot_without_expiry_def n)
  have t3: "short_text_at ?buf n2 k = k (st_spotter p) n3" for k :: "u8 list \<Rightarrow> nat \<Rightarrow> spot_packet wire"
    using short_text_here [of "st_spotter p" ?p3 _ k] ok by (simp add: spot_without_expiry_def n add.assoc)
  have t4: "short_text_at ?buf n3 k = k (st_comment p) n4" for k :: "u8 list \<Rightarrow> nat \<Rightarrow> spot_packet wire"
    using short_text_here [of "st_comment p" ?p4 _ k] ok by (simp add: spot_without_expiry_def n add.assoc)
  have reads: "u64_at ?buf n1 = Ok (st_frequency_hz p)" "u16_at ?buf n4 = Ok (st_age_seconds p)"
    by (simp_all add: spot_without_expiry_def n)
  have last: "u16_at ?buf (n4 + 2) = u16_at rest 0"
    by (simp add: spot_without_expiry_def n)
  have len: "length ?buf = n4 + 2 + length rest" "n1 + 8 \<le> n4"
    by (simp_all add: spot_without_expiry_def n)
  have hdr: "header_deserialize ?buf = Ok \<lparr> hd_type = packet_type.Spot, hd_flags = NO_FLAGS \<rparr>"
    by (simp add: spot_without_expiry_def)
  show ?thesis
    using len(2) last
    by (simp add: spot_deserialize_def hdr t1 t2 t3 t4 reads len(1) HEADER_SIZE_def
          del: read_ok_iff length_append add_2_eq_Suc add_2_eq_Suc')
       (auto simp: u16_at_def len(1) simp del: length_append)
qed

interpretation spot: open_codec spot_serialize spot_deserialize spot_carried
proof (rule open_codecI)
  show "spot_deserialize (spot_serialize p @ rest) = Ok p" if "spot_carried p" for p rest
    using spot_over_the_wire [OF that, of "u16_to_be (st_expiry_seconds p) @ rest"]
    by (simp add: spot_serialize_def nth_append)
  show "spot_deserialize buf \<noteq> Panic" for buf
    unfolding spot_deserialize_def
    by (intro no_panic_bind no_panic_ensure no_panic_short_text) (auto simp: no_panic)
qed

section \<open>Equipment\<close>

definition EQUIPMENT_FLAG_HAS_LABELS :: u8 where "EQUIPMENT_FLAG_HAS_LABELS = 0x01"

record equipment_status_packet =
  es_device_type :: device_type
  es_switch_a :: u8
  es_switch_b :: u8
  es_connected :: bool
  es_labels :: "u8 list option"

definition equipment_status_serialize :: "equipment_status_packet \<Rightarrow> u8 list" where
  "equipment_status_serialize p =
     header_bytes packet_type.EquipmentStatus NO_FLAGS @
     [device_code (es_device_type p), if es_labels p = None then 0 else EQUIPMENT_FLAG_HAS_LABELS,
      es_switch_a p, es_switch_b p, bool_byte (es_connected p)] @
     (case es_labels p of None \<Rightarrow> [] | Some l \<Rightarrow> u16_to_be (of_nat (length l)) @ l)"

definition equipment_status_deserialize :: "u8 list \<Rightarrow> equipment_status_packet wire" where
  "equipment_status_deserialize buf =
     expect buf {packet_type.EquipmentStatus} 9 (\<lambda>h.
       wbind (byte_at buf 4) (\<lambda>b.
         case device_type_from_u8 b of
           None \<Rightarrow> Err (UnknownDevice b)
         | Some device \<Rightarrow>
             wbind (byte_at buf 5) (\<lambda>flags.
             wbind (byte_at buf 6) (\<lambda>switch_a.
             wbind (byte_at buf 7) (\<lambda>switch_b.
             wbind (byte_at buf 8) (\<lambda>connected.
             wbind (if flags AND EQUIPMENT_FLAG_HAS_LABELS \<noteq> 0 \<and> 9 + 2 \<le> length buf
                    then wbind (u16_at buf 9) (\<lambda>labels_len.
                           if 11 + unat labels_len \<le> length buf
                           then wbind (slice_at buf 11 (11 + unat labels_len)) (\<lambda>l. Ok (Some (utf8_lossy l)))
                           else Ok None)
                    else Ok None) (\<lambda>labels.
               Ok \<lparr> es_device_type = device, es_switch_a = switch_a, es_switch_b = switch_b,
                    es_connected = (connected \<noteq> 0), es_labels = labels \<rparr>)))))))"

definition equipment_status_carried :: "equipment_status_packet \<Rightarrow> bool" where
  "equipment_status_carried p \<longleftrightarrow>
     (case es_labels p of None \<Rightarrow> True | Some l \<Rightarrow> utf8_valid l \<and> length l < 2 ^ 16)"

interpretation equipment_status: open_codec equipment_status_serialize equipment_status_deserialize equipment_status_carried
proof (rule open_codecI)
  show "equipment_status_deserialize (equipment_status_serialize p @ rest) = Ok p"
    if "equipment_status_carried p" for p rest
    using that by (cases "es_labels p") (simp_all add: equipment_status_carried_def equipment_status_deserialize_def
        equipment_status_serialize_def EQUIPMENT_FLAG_HAS_LABELS_def del: read_ok_iff)
  show "equipment_status_deserialize buf \<noteq> Panic" for buf
    unfolding equipment_status_deserialize_def
    by (intro parse_intros) (auto simp: no_panic no_panic_bind split: option.splits intro!: no_panic_bind no_panic)
qed

record equipment_command_packet =
  ec_device_type :: device_type
  ec_command_id :: u8
  ec_data :: "u8 list"

definition equipment_command_serialize :: "equipment_command_packet \<Rightarrow> u8 list" where
  "equipment_command_serialize p =
     header_bytes packet_type.EquipmentCommand NO_FLAGS @
     [device_code (ec_device_type p), ec_command_id p] @ ec_data p"

definition equipment_command_deserialize :: "u8 list \<Rightarrow> equipment_command_packet wire" where
  "equipment_command_deserialize buf =
     expect buf {packet_type.EquipmentCommand} 6 (\<lambda>h.
       wbind (byte_at buf 4) (\<lambda>b.
         case device_type_from_u8 b of
           None \<Rightarrow> Err (UnknownDevice b)
         | Some device \<Rightarrow>
             wbind (byte_at buf 5) (\<lambda>command_id.
             wbind (slice_at buf 6 (length buf)) (\<lambda>data.
               Ok \<lparr> ec_device_type = device, ec_command_id = command_id, ec_data = data \<rparr>))))"

interpretation equipment_command: packet_codec equipment_command_serialize equipment_command_deserialize "\<lambda>_. True"
proof
  show "equipment_command_deserialize (equipment_command_serialize p) = Ok p" for p
    by (simp add: equipment_command_deserialize_def equipment_command_serialize_def del: read_ok_iff)
  show "equipment_command_deserialize buf \<noteq> Panic" for buf
    unfolding equipment_command_deserialize_def
    by (intro parse_intros) (auto simp: wbind_panic_iff byte_at_def slice_at_def split: option.splits)
qed

text \<open>The power table of the antenna switch: six positions, each a limit in watts and a receive-only mark.\<close>

record amplitec_power_table_packet =
  at_max_w :: "u16 list"
  at_tx_blocked :: "bool list"

definition amplitec_serialize :: "amplitec_power_table_packet \<Rightarrow> u8 list" where
  "amplitec_serialize p =
     header_bytes packet_type.AmplitecPowerTable NO_FLAGS @
     concat (map (\<lambda>i. u16_to_be (at_max_w p ! i) @ [bool_byte (at_tx_blocked p ! i)]) [0..<6])"

definition amplitec_deserialize :: "u8 list \<Rightarrow> amplitec_power_table_packet wire" where
  "amplitec_deserialize buf =
     ensure (HEADER_SIZE + 6 * 3 \<le> length buf) (TooShort (length buf))
      (wbind (header_deserialize buf) (\<lambda>h.
       ensure (hd_type h = packet_type.AmplitecPowerTable) (UnexpectedType (packet_code (hd_type h)))
        (wbind (wire_map (\<lambda>i. u16_at buf (HEADER_SIZE + i * 3)) [0..<6]) (\<lambda>max_w.
         wbind (wire_map (\<lambda>i. wbind (byte_at buf (HEADER_SIZE + i * 3 + 2)) (\<lambda>b. Ok (b \<noteq> 0))) [0..<6]) (\<lambda>tx_blocked.
           Ok \<lparr> at_max_w = max_w, at_tx_blocked = tx_blocked \<rparr>)))))"

definition amplitec_carried :: "amplitec_power_table_packet \<Rightarrow> bool" where
  "amplitec_carried p \<longleftrightarrow> length (at_max_w p) = 6 \<and> length (at_tx_blocked p) = 6"

lemma six: "length xs = 6 \<Longrightarrow> xs = [xs ! 0, xs ! 1, xs ! 2, xs ! 3, xs ! 4, xs ! 5]"
  by (rule nth_equalityI) (auto simp: less_Suc_eq numeral_eq_Suc)

lemma upto_six: "[0..<6] = [0, 1, 2, 3, 4, 5]"
  by (simp add: upt_rec)

interpretation amplitec: open_codec amplitec_serialize amplitec_deserialize amplitec_carried
proof (rule open_codecI)
  show "amplitec_deserialize (amplitec_serialize p @ rest) = Ok p" if "amplitec_carried p" for p rest
    using that six [of "at_max_w p"] six [of "at_tx_blocked p"]
    by (cases p) (simp add: amplitec_carried_def amplitec_deserialize_def amplitec_serialize_def HEADER_SIZE_def
        upto_six del: read_ok_iff)
  show "amplitec_deserialize buf \<noteq> Panic" for buf
    unfolding amplitec_deserialize_def
    by (intro no_panic_bind no_panic_ensure wire_map_no_panic) (auto simp: HEADER_SIZE_def intro!: no_panic no_panic_bind)
qed

section \<open>TX profiles\<close>

record tx_profiles_packet =
  tp_names :: "u8 list list"
  tp_active :: u8

text \<open>At most 255 names, each cut at 255 bytes - which may be inside a character.\<close>

definition tx_profiles_serialize :: "tx_profiles_packet \<Rightarrow> u8 list" where
  "tx_profiles_serialize p =
     (let count = min (length (tp_names p)) 255
      in header_bytes packet_type.TxProfiles NO_FLAGS @ [of_nat count, tp_active p] @
         concat (map (\<lambda>n. short_text (take 255 n)) (take count (tp_names p))))"

fun names_at :: "u8 list \<Rightarrow> nat \<Rightarrow> nat \<Rightarrow> u8 list list wire" where
  "names_at buf pos 0 = Ok []"
| "names_at buf pos (Suc n) =
     (if length buf \<le> pos then Ok []
      else wbind (byte_at buf pos) (\<lambda>len.
             if length buf < pos + 1 + unat len then Ok []
             else wbind (slice_at buf (pos + 1) (pos + 1 + unat len)) (\<lambda>s.
                    wbind (names_at buf (pos + 1 + unat len) n) (\<lambda>names. Ok (utf8_lossy s # names)))))"

definition tx_profiles_deserialize :: "u8 list \<Rightarrow> tx_profiles_packet wire" where
  "tx_profiles_deserialize buf =
     expect buf {packet_type.TxProfiles} (HEADER_SIZE + 2) (\<lambda>h.
       wbind (byte_at buf HEADER_SIZE) (\<lambda>count.
       wbind (byte_at buf (HEADER_SIZE + 1)) (\<lambda>active.
       wbind (names_at buf (HEADER_SIZE + 2) (unat count)) (\<lambda>names.
         Ok \<lparr> tp_names = names, tp_active = active \<rparr>))))"

definition tx_profiles_carried :: "tx_profiles_packet \<Rightarrow> bool" where
  "tx_profiles_carried p \<longleftrightarrow> length (tp_names p) < 256 \<and> list_all short_ok (tp_names p)"

lemma names_here:
  "list_all short_ok names \<Longrightarrow>
     names_at (xs @ concat (map short_text names) @ rest) (length xs) (length names) = Ok names"
proof (induction names arbitrary: xs)
  case (Cons s names)
  have "names_at ((xs @ short_text s) @ concat (map short_text names) @ rest) (length (xs @ short_text s)) (length names) = Ok names"
    using Cons by (intro Cons.IH) simp
  moreover have "byte_at (xs @ short_text s @ ys) (length xs) = Ok (of_nat (length s))"
      "slice_at (xs @ short_text s @ ys) (Suc (length xs)) (Suc (length xs + length s)) = Ok s" for ys
    by (simp_all add: short_text_def byte_at_def slice_at_def nth_append)
  ultimately show ?case using Cons.prems by (simp add: short_ok_def del: read_ok_iff)
qed simp

lemma names_no_panic: "names_at buf pos n \<noteq> Panic"
  by (induction n arbitrary: pos) (auto simp: wbind_panic_iff byte_at_def slice_at_def)

lemma cut_names: "list_all short_ok names \<Longrightarrow> map (\<lambda>n. short_text (take 255 n)) names = map short_text names"
  by (induction names) (auto simp: short_ok_def)

interpretation tx_profiles: open_codec tx_profiles_serialize tx_profiles_deserialize tx_profiles_carried
proof (rule open_codecI)
  show "tx_profiles_deserialize (tx_profiles_serialize p @ rest) = Ok p" if "tx_profiles_carried p" for p rest
    using that names_here [of "tp_names p" "header_bytes packet_type.TxProfiles NO_FLAGS @ [of_nat (length (tp_names p)), tp_active p]" rest]
    by (simp add: tx_profiles_carried_def tx_profiles_deserialize_def tx_profiles_serialize_def HEADER_SIZE_def
        Let_def min_def cut_names del: read_ok_iff)
  show "tx_profiles_deserialize buf \<noteq> Panic" for buf
    unfolding tx_profiles_deserialize_def
    by (intro parse_intros names_no_panic) (auto simp: HEADER_SIZE_def intro!: no_panic)
qed

end
