(* ===== verification/WireYaesu.thy ===== *)
theory WireYaesu
  imports WireRadio
begin

text \<open>
  The packets about the Yaesu radios (\<^verbatim>\<open>protocol.rs\<close>): state, controls, feature values and presence, and
  how a radio is named. The state grew by trailing bytes; the reader gives those an older server leaves
  out a default.
\<close>

section \<open>State\<close>

record yaesu_state_packet =
  ys_freq_a :: u64
  ys_freq_b :: u64
  ys_mode :: u8
  ys_smeter :: u16
  ys_tx_active :: bool
  ys_power_on :: bool
  ys_af_gain :: u8
  ys_tx_power :: u8
  ys_vfo_select :: u8
  ys_memory_channel :: u16
  ys_squelch :: u8
  ys_rf_gain :: u8
  ys_mic_gain :: u8
  ys_split :: bool
  ys_scan :: bool
  ys_tuner_state :: u8
  ys_hi_swr :: bool
  ys_held_by_other :: bool
  ys_tx_power_max :: u8
  ys_loading :: u8

definition YAESU_LOADING_MEMORIES :: u8 where "YAESU_LOADING_MEMORIES = 1"
definition YAESU_LOADING_TONES :: u8 where "YAESU_LOADING_TONES = 2"
definition YAESU_LOADING_MENUS :: u8 where "YAESU_LOADING_MENUS = 4"

definition yaesu_loading_blocks_tx :: "u8 \<Rightarrow> bool" where
  "yaesu_loading_blocks_tx loading \<longleftrightarrow> loading AND (YAESU_LOADING_MEMORIES OR YAESU_LOADING_TONES) \<noteq> 0"

definition YAESU_STATE_SIZE :: nat where
  "YAESU_STATE_SIZE = HEADER_SIZE + 8 + 8 + 1 + 2 + 1 + 1 + 1 + 1 + 1 + 2 + 1 + 1 + 1 + 1 + 1 + 1 + 1 + 1 + 1 + 1"

definition yaesu_state_serialize_as :: "packet_type \<Rightarrow> yaesu_state_packet \<Rightarrow> u8 list" where
  "yaesu_state_serialize_as t p =
     header_bytes t NO_FLAGS @ u64_to_be (ys_freq_a p) @ u64_to_be (ys_freq_b p) @ [ys_mode p] @
     u16_to_be (ys_smeter p) @
     [bool_byte (ys_tx_active p), bool_byte (ys_power_on p), ys_af_gain p, ys_tx_power p, ys_vfo_select p] @
     u16_to_be (ys_memory_channel p) @
     [ys_squelch p, ys_rf_gain p, ys_mic_gain p, bool_byte (ys_split p), bool_byte (ys_scan p),
      ys_tuner_state p, bool_byte (ys_hi_swr p), ys_tx_power_max p, bool_byte (ys_held_by_other p), ys_loading p]"

text \<open>A trailing byte, or 0 where the packet ends before it.\<close>

definition byte_or_0 :: "u8 list \<Rightarrow> nat \<Rightarrow> u8" where
  "byte_or_0 buf i = (if i < length buf then buf ! i else 0)"

definition yaesu_state_deserialize :: "u8 list \<Rightarrow> yaesu_state_packet wire" where
  "yaesu_state_deserialize buf =
     ensure (YAESU_STATE_SIZE - 3 \<le> length buf) (TooShort (length buf))
      (wbind (u64_at buf 4) (\<lambda>freq_a.
       wbind (u64_at buf 12) (\<lambda>freq_b.
       wbind (byte_at buf 20) (\<lambda>m.
       wbind (u16_at buf 21) (\<lambda>smeter.
       wbind (byte_at buf 23) (\<lambda>tx_active.
       wbind (byte_at buf 24) (\<lambda>power_on.
       wbind (byte_at buf 25) (\<lambda>af_gain.
       wbind (byte_at buf 26) (\<lambda>tx_power.
       wbind (byte_at buf 27) (\<lambda>vfo_select.
       wbind (u16_at buf 28) (\<lambda>memory_channel.
         Ok \<lparr> ys_freq_a = freq_a, ys_freq_b = freq_b, ys_mode = m, ys_smeter = smeter,
              ys_tx_active = (tx_active \<noteq> 0), ys_power_on = (power_on \<noteq> 0), ys_af_gain = af_gain,
              ys_tx_power = tx_power, ys_vfo_select = vfo_select, ys_memory_channel = memory_channel,
              ys_squelch = byte_or_0 buf 30, ys_rf_gain = byte_or_0 buf 31, ys_mic_gain = byte_or_0 buf 32,
              ys_split = (byte_or_0 buf 33 \<noteq> 0), ys_scan = (byte_or_0 buf 34 \<noteq> 0),
              ys_tuner_state = byte_or_0 buf 35, ys_hi_swr = (byte_or_0 buf 36 \<noteq> 0),
              ys_held_by_other = (byte_or_0 buf 38 \<noteq> 0), ys_tx_power_max = byte_or_0 buf 37,
              ys_loading = byte_or_0 buf 39 \<rparr>)))))))))))"

lemma byte_or_0_past [simp]:
  "length xs \<le> i \<Longrightarrow> byte_or_0 (xs @ ys) i = byte_or_0 ys (i - length xs)"
  "byte_or_0 (x # ys) (numeral k) = byte_or_0 ys (pred_numeral k)" "byte_or_0 (x # ys) (Suc n) = byte_or_0 ys n"
  "byte_or_0 (x # ys) 0 = x" "byte_or_0 [] n = 0"
  by (auto simp: byte_or_0_def nth_append numeral_eq_Suc)

interpretation yaesu_state: open_codec "yaesu_state_serialize_as t" yaesu_state_deserialize "\<lambda>_. True" for t
proof (rule open_codecI)
  show "yaesu_state_deserialize (yaesu_state_serialize_as t p @ rest) = Ok p" for p rest
    by (simp add: yaesu_state_deserialize_def yaesu_state_serialize_as_def YAESU_STATE_SIZE_def HEADER_SIZE_def del: read_ok_iff)
  show "yaesu_state_deserialize buf \<noteq> Panic" for buf
    unfolding yaesu_state_deserialize_def
    by (intro no_panic_bind no_panic_ensure) (auto simp: YAESU_STATE_SIZE_def HEADER_SIZE_def intro!: no_panic)
qed

text \<open>What an older server can leave out: the last three bytes and no more.\<close>

lemma yaesu_state_cut:
  "yaesu_state_deserialize (take 37 (yaesu_state_serialize_as t p)) =
     Ok (p\<lparr> ys_tx_power_max := 0, ys_held_by_other := False, ys_loading := 0 \<rparr>)"
  "n < 37 \<Longrightarrow> yaesu_state_deserialize (take n (yaesu_state_serialize_as t p)) = Err (TooShort n)"
  by (simp_all add: yaesu_state_deserialize_def yaesu_state_serialize_as_def YAESU_STATE_SIZE_def HEADER_SIZE_def
      min_def del: read_ok_iff)

section \<open>Controls and features\<close>

record yaesu_control_packet =
  yc_slot :: u8
  yc_control :: u8
  yc_value :: u16

definition yaesu_control_serialize :: "yaesu_control_packet \<Rightarrow> u8 list" where
  "yaesu_control_serialize p =
     header_bytes packet_type.YaesuControl NO_FLAGS @ [yc_slot p, yc_control p] @ u16_to_be (yc_value p)"

definition yaesu_control_deserialize :: "u8 list \<Rightarrow> yaesu_control_packet wire" where
  "yaesu_control_deserialize buf =
     expect buf {packet_type.YaesuControl} 8 (\<lambda>h.
       wbind (byte_at buf 4) (\<lambda>slot.
       wbind (byte_at buf 5) (\<lambda>control.
       wbind (u16_at buf 6) (\<lambda>value.
         Ok \<lparr> yc_slot = slot, yc_control = control, yc_value = value \<rparr>))))"

interpretation yaesu_control: open_codec yaesu_control_serialize yaesu_control_deserialize "\<lambda>_. True"
proof (rule open_codecI)
  show "yaesu_control_deserialize (yaesu_control_serialize p @ rest) = Ok p" for p rest
    by (simp add: yaesu_control_deserialize_def yaesu_control_serialize_def del: read_ok_iff)
  show "yaesu_control_deserialize buf \<noteq> Panic" for buf
    unfolding yaesu_control_deserialize_def by (intro parse_intros) auto
qed

record yaesu_feature_packet =
  yf_slot :: u8
  yf_toggles :: u32
  yf_levels :: "u8 list"
  yf_freqs :: "u16 list"

definition N_LEVELS :: nat where "N_LEVELS = 16"
definition N_FREQS :: nat where "N_FREQS = 4"

definition yaesu_feature_serialize :: "yaesu_feature_packet \<Rightarrow> u8 list" where
  "yaesu_feature_serialize p =
     header_bytes packet_type.YaesuFeature NO_FLAGS @ [yf_slot p] @ u32_to_be (yf_toggles p) @ yf_levels p @
     concat (map u16_to_be (yf_freqs p))"

definition yaesu_feature_deserialize :: "u8 list \<Rightarrow> yaesu_feature_packet wire" where
  "yaesu_feature_deserialize buf =
     expect buf {packet_type.YaesuFeature} 9 (\<lambda>h.
       wbind (byte_at buf 4) (\<lambda>slot.
       wbind (u32_at buf 5) (\<lambda>toggles.
         let levels = map (\<lambda>i. if 9 + i < length buf then buf ! (9 + i) else 0) [0..<N_LEVELS];
             fbase = 9 + N_LEVELS
         in wbind (wire_map (\<lambda>i. if fbase + i * 2 + 2 \<le> length buf then u16_at buf (fbase + i * 2) else Ok 0)
                     [0..<N_FREQS]) (\<lambda>freqs.
              Ok \<lparr> yf_slot = slot, yf_toggles = toggles, yf_levels = levels, yf_freqs = freqs \<rparr>))))"

definition yaesu_feature_carried :: "yaesu_feature_packet \<Rightarrow> bool" where
  "yaesu_feature_carried p \<longleftrightarrow> length (yf_levels p) = N_LEVELS \<and> length (yf_freqs p) = N_FREQS"

lemma u16_at_behind: "length xs = n \<Longrightarrow> u16_at (xs @ ys) (n + i) = u16_at ys i"
  by (simp del: read_ok_iff)

interpretation yaesu_feature: open_codec yaesu_feature_serialize yaesu_feature_deserialize yaesu_feature_carried
proof (rule open_codecI)
  show "yaesu_feature_deserialize (yaesu_feature_serialize p @ rest) = Ok p" if c: "yaesu_feature_carried p" for p rest
  proof -
    let ?buf = "yaesu_feature_serialize p @ rest"
    have len: "length (yf_levels p) = 16" "length (yf_freqs p) = 4"
      using c by (simp_all add: yaesu_feature_carried_def N_LEVELS_def N_FREQS_def)
    have total: "length (concat (map u16_to_be vs)) = 2 * length vs" for vs by (induction vs) simp_all
    have buf: "length ?buf = 33 + length rest" using len total [of "yf_freqs p"] by (simp add: yaesu_feature_serialize_def)
    have "map (\<lambda>i. if 9 + i < length ?buf then ?buf ! (9 + i) else 0) [0..<16] = yf_levels p"
      using len buf by (intro nth_equalityI) (simp_all add: yaesu_feature_serialize_def nth_append)
    moreover have "wire_map (\<lambda>i. if 25 + i * 2 + 2 \<le> length ?buf then u16_at ?buf (25 + i * 2) else Ok 0) [0..<4] = Ok (yf_freqs p)"
    proof -
      have "u16_at ?buf (25 + i * 2) = Ok (yf_freqs p ! i)" if "i < 4" for i
      proof -
        let ?pre = "header_bytes packet_type.YaesuFeature NO_FLAGS @ [yf_slot p] @ u32_to_be (yf_toggles p) @ yf_levels p"
        define tail where "tail = concat (map u16_to_be (yf_freqs p)) @ rest"
        have "?buf = ?pre @ tail" by (simp add: yaesu_feature_serialize_def tail_def)
        moreover have "u16_at (?pre @ tail) (25 + i * 2) = u16_at tail (i * 2)"
          by (rule u16_at_behind) (simp add: len)
        moreover have "u16_at tail (i * 2) = Ok (yf_freqs p ! i)"
          unfolding tail_def by (rule u16_at_bins) (use len that in simp)
        ultimately show ?thesis by (simp only:)
      qed
      then have "wire_map (\<lambda>i. if 25 + i * 2 + 2 \<le> length ?buf then u16_at ?buf (25 + i * 2) else Ok 0) [0..<4] =
          Ok (map ((!) (yf_freqs p)) [0..<4])"
        using buf by (intro wire_map_ok) simp
      then show ?thesis using map_nth [of "yf_freqs p"] len(2) by (simp only:)
    qed
    moreover have "byte_at ?buf 4 = Ok (yf_slot p)" "u32_at ?buf 5 = Ok (yf_toggles p)"
      by (simp_all add: yaesu_feature_serialize_def)
    moreover have "expect ?buf {packet_type.YaesuFeature} 9 k = k \<lparr> hd_type = packet_type.YaesuFeature, hd_flags = NO_FLAGS \<rparr>"
      for k :: "header \<Rightarrow> yaesu_feature_packet wire"
      using len by (simp add: yaesu_feature_serialize_def)
    ultimately show ?thesis
      by (simp add: yaesu_feature_deserialize_def Let_def N_LEVELS_def N_FREQS_def del: read_ok_iff)
  qed
  show "yaesu_feature_deserialize buf \<noteq> Panic" for buf
    unfolding yaesu_feature_deserialize_def Let_def
    by (intro parse_intros wire_map_no_panic) (auto intro!: no_panic)
qed

section \<open>How a radio is named\<close>

definition radio_model_name :: "u8 \<Rightarrow> string" where
  "radio_model_name code = (if code = 0 then ''991A'' else if code = 1 then ''FTX1'' else ''Radio'')"

definition RADIO_MODEL_UNKNOWN :: u8 where "RADIO_MODEL_UNKNOWN = 0xFF"

definition radio_model_known :: "u8 \<Rightarrow> bool" where
  "radio_model_known code \<longleftrightarrow> code \<noteq> RADIO_MODEL_UNKNOWN"

section \<open>Presence\<close>

definition PORT_TROUBLE_NONE :: u8 where "PORT_TROUBLE_NONE = 0"
definition PORT_TROUBLE_BUSY :: u8 where "PORT_TROUBLE_BUSY = 1"
definition PORT_TROUBLE_MISSING :: u8 where "PORT_TROUBLE_MISSING = 2"

record yaesu_presence_packet =
  yp_slot0_present :: bool
  yp_slot0_model :: u8
  yp_slot1_present :: bool
  yp_slot1_model :: u8
  yp_slot0_trouble :: u8
  yp_slot1_trouble :: u8
  yp_slot0_configured :: bool
  yp_slot1_configured :: bool
  yp_rx_levels_tuned :: bool

definition yaesu_presence_serialize :: "yaesu_presence_packet \<Rightarrow> u8 list" where
  "yaesu_presence_serialize p =
     header_bytes packet_type.YaesuPresence NO_FLAGS @
     [bool_byte (yp_slot0_present p), yp_slot0_model p, bool_byte (yp_slot1_present p), yp_slot1_model p,
      yp_slot0_trouble p, yp_slot1_trouble p,
      bool_byte (yp_slot0_configured p) OR push_bit 1 (bool_byte (yp_slot1_configured p)) OR
      push_bit 2 (bool_byte (yp_rx_levels_tuned p))]"

definition yaesu_presence_deserialize :: "u8 list \<Rightarrow> yaesu_presence_packet wire" where
  "yaesu_presence_deserialize buf =
     expect buf {packet_type.YaesuPresence} 8 (\<lambda>h.
       wbind (byte_at buf 4) (\<lambda>b4.
       wbind (byte_at buf 5) (\<lambda>b5.
       wbind (byte_at buf 6) (\<lambda>b6.
       wbind (byte_at buf 7) (\<lambda>b7.
         Ok \<lparr> yp_slot0_present = (b4 \<noteq> 0), yp_slot0_model = b5, yp_slot1_present = (b6 \<noteq> 0), yp_slot1_model = b7,
              yp_slot0_trouble = (case get_byte buf 8 of None \<Rightarrow> PORT_TROUBLE_NONE | Some b \<Rightarrow> b),
              yp_slot1_trouble = (case get_byte buf 9 of None \<Rightarrow> PORT_TROUBLE_NONE | Some b \<Rightarrow> b),
              yp_slot0_configured = (case get_byte buf 10 of None \<Rightarrow> b4 \<noteq> 0 | Some b \<Rightarrow> b AND 1 \<noteq> 0),
              yp_slot1_configured = (case get_byte buf 10 of None \<Rightarrow> b6 \<noteq> 0 | Some b \<Rightarrow> b AND 2 \<noteq> 0),
              yp_rx_levels_tuned = (case get_byte buf 10 of None \<Rightarrow> False | Some b \<Rightarrow> b AND 4 \<noteq> 0) \<rparr>)))))"

lemma three_flags [simp]:
  "(bool_byte a OR push_bit 1 (bool_byte b) OR push_bit 2 (bool_byte c)) AND 1 \<noteq> 0 \<longleftrightarrow> a"
  "(bool_byte a OR push_bit 1 (bool_byte b) OR push_bit 2 (bool_byte c)) AND 2 \<noteq> 0 \<longleftrightarrow> b"
  "(bool_byte a OR push_bit 1 (bool_byte b) OR push_bit 2 (bool_byte c)) AND 4 \<noteq> 0 \<longleftrightarrow> c"
  by (cases a; cases b; cases c; simp add: bool_byte_def)+

interpretation yaesu_presence: open_codec yaesu_presence_serialize yaesu_presence_deserialize "\<lambda>_. True"
proof (rule open_codecI)
  show "yaesu_presence_deserialize (yaesu_presence_serialize p @ rest) = Ok p" for p rest
    by (simp add: yaesu_presence_deserialize_def yaesu_presence_serialize_def get_byte_def nth_append
        three_flags [simplified] del: read_ok_iff)
  show "yaesu_presence_deserialize buf \<noteq> Panic" for buf
    unfolding yaesu_presence_deserialize_def by (intro parse_intros) auto
qed

text \<open>The two older shapes: without the configured byte, and without the trouble bytes as well.\<close>

lemma yaesu_presence_cut:
  "yaesu_presence_deserialize (take 10 (yaesu_presence_serialize p)) =
     Ok (p\<lparr> yp_slot0_configured := yp_slot0_present p, yp_slot1_configured := yp_slot1_present p,
            yp_rx_levels_tuned := False \<rparr>)"
  "yaesu_presence_deserialize (take 8 (yaesu_presence_serialize p)) =
     Ok (p\<lparr> yp_slot0_trouble := PORT_TROUBLE_NONE, yp_slot1_trouble := PORT_TROUBLE_NONE,
            yp_slot0_configured := yp_slot0_present p, yp_slot1_configured := yp_slot1_present p,
            yp_rx_levels_tuned := False \<rparr>)"
  by (simp_all add: yaesu_presence_deserialize_def yaesu_presence_serialize_def get_byte_def nth_append
      del: read_ok_iff)

end
