(* ===== verification/WirePacket.thy ===== *)
theory WirePacket
  imports WireLink WireDevices WireYaesu CwEdges
begin

text \<open>
  One datagram (\<^verbatim>\<open>Packet\<close> and \<^verbatim>\<open>Packet::deserialize\<close> of \<^verbatim>\<open>protocol.rs\<close>): the header says which parser
  reads the rest. \<open>packet_bytes\<close> gathers the writers of the code, one per packet; \<open>packet_carried\<close>
  says which packets fit their format.
\<close>

datatype (plugins only: size) packet =
    Audio audio_packet | Heartbeat heartbeat | HeartbeatAck heartbeat_ack | Control control_packet
    | Disconnect | PttDenied bool denied_target bool | Frequency frequency_packet | Mode mode_packet
    | Smeter smeter_packet | Spectrum spectrum_packet | FullSpectrum spectrum_packet
    | EquipmentStatus equipment_status_packet | EquipmentCommand equipment_command_packet
    | AmplitecPowerTable amplitec_power_table_packet | AudioRx2 audio_packet
    | FrequencyRx2 frequency_packet | ModeRx2 mode_packet | SmeterRx2 smeter_packet
    | SmeterSig smeter_packet | SmeterMaxBin smeter_packet | SmeterRx2Sig smeter_packet
    | SmeterRx2MaxBin smeter_packet | SpectrumRx2 spectrum_packet | FullSpectrumRx2 spectrum_packet
    | SpectrumVrx1 spectrum_packet | SpectrumVrx2 spectrum_packet | Spot spot_packet
    | TxProfiles tx_profiles_packet | AudioYaesu audio_packet | AudioBinR audio_packet
    | AudioMultiCh multi_channel_audio_packet | YaesuState yaesu_state_packet
    | FrequencyYaesu frequency_packet | YaesuMemoryData "u8 list" | ServerReportRequest
    | ServerReportPart u16 u16 "u8 list" | ControlAck u32 | PunchOffer wire_addr | PunchReady wire_addr
    | PunchLocal wire_addr | AudioYaesu2 audio_packet | YaesuState2 yaesu_state_packet
    | FrequencyYaesu2 frequency_packet | YaesuMemoryData2 "u8 list" | RadioInfo u8 u8
    | AuthChallenge "u8 list" | AuthResponse "u8 list" "u8 list option" | AuthResult u8 "u8 list option"
    | TotpChallenge | TotpResponse "u8 list" | AudioVrx vrx_audio_packet
    | FrequencyVrx vrx_frequency_packet | FrequencyVrxActual vrx_frequency_packet
    | TxFilterBand tx_filter_band_packet | YaesuControl yaesu_control_packet
    | YaesuFeature yaesu_feature_packet | YaesuPresence yaesu_presence_packet | CwEdges cw_edges_packet

text \<open>A text behind a two-byte length, as the memory list and the TOTP code travel.\<close>

definition long_text :: "u8 list \<Rightarrow> u8 list wire" where
  "long_text buf =
     ensure (6 \<le> length buf) (TooShort (length buf))
       (wbind (u16_at buf 4) (\<lambda>len.
          ensure (6 + unat len \<le> length buf) (Truncated (length buf))
            (wbind (slice_at buf 6 (6 + unat len)) (\<lambda>s. Ok (utf8_lossy s)))))"

definition AUTH_RESPONSE_SIZE :: nat where "AUTH_RESPONSE_SIZE = HEADER_SIZE + 32"
definition AUTH_RESPONSE_SIZE_WITH_NONCE :: nat where "AUTH_RESPONSE_SIZE_WITH_NONCE = AUTH_RESPONSE_SIZE + 16"
definition AUTH_RESULT_SIZE :: nat where "AUTH_RESULT_SIZE = HEADER_SIZE + 1"
definition AUTH_RESULT_SIZE_WITH_PROOF :: nat where "AUTH_RESULT_SIZE_WITH_PROOF = AUTH_RESULT_SIZE + 32"

text \<open>\<^verbatim>\<open>cond.then(|| buf[i..j])\<close>\<close>

definition tail_if :: "bool \<Rightarrow> u8 list \<Rightarrow> nat \<Rightarrow> nat \<Rightarrow> u8 list option wire" where
  "tail_if c buf i j = (if c then wbind (slice_at buf i j) (\<lambda>s. Ok (Some s)) else Ok None)"

definition packet_body :: "u8 list \<Rightarrow> header \<Rightarrow> packet wire" where
  "packet_body buf h = (case hd_type h of
       packet_type.Audio \<Rightarrow> wbind (audio_deserialize buf) (\<lambda>p. Ok (packet.Audio p))
     | packet_type.Heartbeat \<Rightarrow> wbind (heartbeat_deserialize buf) (\<lambda>p. Ok (packet.Heartbeat p))
     | packet_type.HeartbeatAck \<Rightarrow> wbind (ack_deserialize buf) (\<lambda>p. Ok (packet.HeartbeatAck p))
     | packet_type.Control \<Rightarrow> wbind (control_deserialize buf) (\<lambda>p. Ok (packet.Control p))
     | packet_type.Frequency \<Rightarrow> wbind (frequency_deserialize buf) (\<lambda>p. Ok (packet.Frequency p))
     | packet_type.Mode \<Rightarrow> wbind (mode_deserialize buf) (\<lambda>p. Ok (packet.Mode p))
     | packet_type.Smeter \<Rightarrow> wbind (smeter_deserialize buf) (\<lambda>p. Ok (packet.Smeter p))
     | packet_type.SmeterSig \<Rightarrow> wbind (smeter_deserialize buf) (\<lambda>p. Ok (packet.SmeterSig p))
     | packet_type.SmeterMaxBin \<Rightarrow> wbind (smeter_deserialize buf) (\<lambda>p. Ok (packet.SmeterMaxBin p))
     | packet_type.SmeterRx2Sig \<Rightarrow> wbind (smeter_deserialize buf) (\<lambda>p. Ok (packet.SmeterRx2Sig p))
     | packet_type.SmeterRx2MaxBin \<Rightarrow> wbind (smeter_deserialize buf) (\<lambda>p. Ok (packet.SmeterRx2MaxBin p))
     | packet_type.Spectrum \<Rightarrow> wbind (spectrum_deserialize buf) (\<lambda>p. Ok (packet.Spectrum p))
     | packet_type.FullSpectrum \<Rightarrow> wbind (spectrum_deserialize buf) (\<lambda>p. Ok (packet.FullSpectrum p))
     | packet_type.EquipmentStatus \<Rightarrow> wbind (equipment_status_deserialize buf) (\<lambda>p. Ok (packet.EquipmentStatus p))
     | packet_type.EquipmentCommand \<Rightarrow> wbind (equipment_command_deserialize buf) (\<lambda>p. Ok (packet.EquipmentCommand p))
     | packet_type.AmplitecPowerTable \<Rightarrow> wbind (amplitec_deserialize buf) (\<lambda>p. Ok (packet.AmplitecPowerTable p))
     | packet_type.AudioRx2 \<Rightarrow> wbind (audio_deserialize buf) (\<lambda>p. Ok (packet.AudioRx2 p))
     | packet_type.FrequencyRx2 \<Rightarrow> wbind (frequency_deserialize buf) (\<lambda>p. Ok (packet.FrequencyRx2 p))
     | packet_type.ModeRx2 \<Rightarrow> wbind (mode_deserialize buf) (\<lambda>p. Ok (packet.ModeRx2 p))
     | packet_type.SmeterRx2 \<Rightarrow> wbind (smeter_deserialize buf) (\<lambda>p. Ok (packet.SmeterRx2 p))
     | packet_type.SpectrumRx2 \<Rightarrow> wbind (spectrum_deserialize buf) (\<lambda>p. Ok (packet.SpectrumRx2 p))
     | packet_type.FullSpectrumRx2 \<Rightarrow> wbind (spectrum_deserialize buf) (\<lambda>p. Ok (packet.FullSpectrumRx2 p))
     | packet_type.SpectrumVrx1 \<Rightarrow> wbind (spectrum_deserialize buf) (\<lambda>p. Ok (packet.SpectrumVrx1 p))
     | packet_type.SpectrumVrx2 \<Rightarrow> wbind (spectrum_deserialize buf) (\<lambda>p. Ok (packet.SpectrumVrx2 p))
     | packet_type.Spot \<Rightarrow> wbind (spot_deserialize buf) (\<lambda>p. Ok (packet.Spot p))
     | packet_type.TxProfiles \<Rightarrow> wbind (tx_profiles_deserialize buf) (\<lambda>p. Ok (packet.TxProfiles p))
     | packet_type.AudioYaesu \<Rightarrow> wbind (audio_deserialize buf) (\<lambda>p. Ok (packet.AudioYaesu p))
     | packet_type.AudioBinR \<Rightarrow> wbind (audio_deserialize buf) (\<lambda>p. Ok (packet.AudioBinR p))
     | packet_type.AudioVrx \<Rightarrow> wbind (vrx_audio_deserialize buf) (\<lambda>p. Ok (packet.AudioVrx p))
     | packet_type.FrequencyVrx \<Rightarrow> wbind (vrx_frequency_deserialize buf) (\<lambda>p. Ok (packet.FrequencyVrx p))
     | packet_type.FrequencyVrxActual \<Rightarrow> wbind (vrx_frequency_deserialize buf) (\<lambda>p. Ok (packet.FrequencyVrxActual p))
     | packet_type.TxFilterBand \<Rightarrow> wbind (tx_filter_deserialize buf) (\<lambda>p. Ok (packet.TxFilterBand p))
     | packet_type.YaesuControl \<Rightarrow> wbind (yaesu_control_deserialize buf) (\<lambda>p. Ok (packet.YaesuControl p))
     | packet_type.YaesuFeature \<Rightarrow> wbind (yaesu_feature_deserialize buf) (\<lambda>p. Ok (packet.YaesuFeature p))
     | packet_type.YaesuPresence \<Rightarrow> wbind (yaesu_presence_deserialize buf) (\<lambda>p. Ok (packet.YaesuPresence p))
     | packet_type.CwEdges \<Rightarrow> wbind (cw_edges_deserialize buf) (\<lambda>p. Ok (packet.CwEdges p))
     | packet_type.AudioMultiCh \<Rightarrow> wbind (multi_deserialize buf) (\<lambda>p. Ok (packet.AudioMultiCh p))
     | packet_type.YaesuState \<Rightarrow> wbind (yaesu_state_deserialize buf) (\<lambda>p. Ok (packet.YaesuState p))
     | packet_type.FrequencyYaesu \<Rightarrow> wbind (frequency_deserialize buf) (\<lambda>p. Ok (packet.FrequencyYaesu p))
     | packet_type.AudioYaesu2 \<Rightarrow> wbind (audio_deserialize buf) (\<lambda>p. Ok (packet.AudioYaesu2 p))
     | packet_type.YaesuState2 \<Rightarrow> wbind (yaesu_state_deserialize buf) (\<lambda>p. Ok (packet.YaesuState2 p))
     | packet_type.FrequencyYaesu2 \<Rightarrow> wbind (frequency_deserialize buf) (\<lambda>p. Ok (packet.FrequencyYaesu2 p))
     | packet_type.PunchOffer \<Rightarrow> wbind (punch_address buf) (\<lambda>p. Ok (packet.PunchOffer p))
     | packet_type.PunchReady \<Rightarrow> wbind (punch_address buf) (\<lambda>p. Ok (packet.PunchReady p))
     | packet_type.PunchLocal \<Rightarrow> wbind (punch_address buf) (\<lambda>p. Ok (packet.PunchLocal p))
     | packet_type.Disconnect \<Rightarrow> Ok packet.Disconnect
     | packet_type.PttDenied \<Rightarrow>
         Ok (packet.PttDenied (flag_server_released (hd_flags h)) (flag_denied_target (hd_flags h))
              (flag_server_closed (hd_flags h)))
     | packet_type.YaesuMemoryData2 \<Rightarrow> wbind (long_text buf) (\<lambda>s. Ok (packet.YaesuMemoryData2 s))
     | packet_type.RadioInfo \<Rightarrow>
         ensure (HEADER_SIZE + 2 \<le> length buf) (TooShort (length buf))
           (wbind (byte_at buf HEADER_SIZE) (\<lambda>slot. wbind (byte_at buf (HEADER_SIZE + 1)) (\<lambda>model.
              Ok (packet.RadioInfo slot model))))
     | packet_type.AuthChallenge \<Rightarrow>
         ensure (20 \<le> length buf) (TooShort (length buf))
           (wbind (slice_at buf 4 20) (\<lambda>nonce. Ok (packet.AuthChallenge nonce)))
     | packet_type.AuthResponse \<Rightarrow>
         ensure (AUTH_RESPONSE_SIZE \<le> length buf) (TooShort (length buf))
           (wbind (slice_at buf HEADER_SIZE AUTH_RESPONSE_SIZE) (\<lambda>hmac.
            wbind (tail_if (AUTH_RESPONSE_SIZE_WITH_NONCE \<le> length buf) buf AUTH_RESPONSE_SIZE
                     AUTH_RESPONSE_SIZE_WITH_NONCE) (\<lambda>client_nonce.
              Ok (packet.AuthResponse hmac client_nonce))))
     | packet_type.AuthResult \<Rightarrow>
         ensure (AUTH_RESULT_SIZE \<le> length buf) (TooShort (length buf))
           (wbind (tail_if (AUTH_RESULT_SIZE_WITH_PROOF \<le> length buf) buf AUTH_RESULT_SIZE
                     AUTH_RESULT_SIZE_WITH_PROOF) (\<lambda>proof_tail.
            wbind (byte_at buf HEADER_SIZE) (\<lambda>code. Ok (packet.AuthResult code proof_tail))))
     | packet_type.TotpChallenge \<Rightarrow> Ok packet.TotpChallenge
     | packet_type.TotpResponse \<Rightarrow> wbind (long_text buf) (\<lambda>s. Ok (packet.TotpResponse s))
     | packet_type.ServerReportRequest \<Rightarrow> Ok packet.ServerReportRequest
     | packet_type.ControlAck \<Rightarrow>
         ensure (8 \<le> length buf) (TooShort (length buf))
           (wbind (u32_at buf 4) (\<lambda>seq. Ok (packet.ControlAck seq)))
     | packet_type.ServerReportPart \<Rightarrow>
         ensure (10 \<le> length buf) (TooShort (length buf))
           (wbind (u16_at buf 4) (\<lambda>part. wbind (u16_at buf 6) (\<lambda>parts. wbind (u16_at buf 8) (\<lambda>len.
              ensure (10 + unat len \<le> length buf) (Truncated (length buf))
                (wbind (slice_at buf 10 (10 + unat len)) (\<lambda>bs. Ok (packet.ServerReportPart part parts bs)))))))
     | packet_type.YaesuMemoryData \<Rightarrow> wbind (long_text buf) (\<lambda>s. Ok (packet.YaesuMemoryData s)))"

definition packet_deserialize :: "u8 list \<Rightarrow> packet wire" where
  "packet_deserialize buf = wbind (header_deserialize buf) (packet_body buf)"

section \<open>The type byte and the packet\<close>

definition packet_kind :: "packet \<Rightarrow> packet_type" where
  "packet_kind p = (case p of
       packet.Audio _ \<Rightarrow> packet_type.Audio | packet.Heartbeat _ \<Rightarrow> packet_type.Heartbeat
       | packet.HeartbeatAck _ \<Rightarrow> packet_type.HeartbeatAck | packet.Control _ \<Rightarrow> packet_type.Control
       | packet.Frequency _ \<Rightarrow> packet_type.Frequency | packet.Mode _ \<Rightarrow> packet_type.Mode
       | packet.Smeter _ \<Rightarrow> packet_type.Smeter | packet.SmeterSig _ \<Rightarrow> packet_type.SmeterSig
       | packet.SmeterMaxBin _ \<Rightarrow> packet_type.SmeterMaxBin
       | packet.SmeterRx2Sig _ \<Rightarrow> packet_type.SmeterRx2Sig
       | packet.SmeterRx2MaxBin _ \<Rightarrow> packet_type.SmeterRx2MaxBin
       | packet.Spectrum _ \<Rightarrow> packet_type.Spectrum | packet.FullSpectrum _ \<Rightarrow> packet_type.FullSpectrum
       | packet.EquipmentStatus _ \<Rightarrow> packet_type.EquipmentStatus
       | packet.EquipmentCommand _ \<Rightarrow> packet_type.EquipmentCommand
       | packet.AmplitecPowerTable _ \<Rightarrow> packet_type.AmplitecPowerTable
       | packet.AudioRx2 _ \<Rightarrow> packet_type.AudioRx2 | packet.FrequencyRx2 _ \<Rightarrow> packet_type.FrequencyRx2
       | packet.ModeRx2 _ \<Rightarrow> packet_type.ModeRx2 | packet.SmeterRx2 _ \<Rightarrow> packet_type.SmeterRx2
       | packet.SpectrumRx2 _ \<Rightarrow> packet_type.SpectrumRx2
       | packet.FullSpectrumRx2 _ \<Rightarrow> packet_type.FullSpectrumRx2
       | packet.SpectrumVrx1 _ \<Rightarrow> packet_type.SpectrumVrx1
       | packet.SpectrumVrx2 _ \<Rightarrow> packet_type.SpectrumVrx2 | packet.Spot _ \<Rightarrow> packet_type.Spot
       | packet.TxProfiles _ \<Rightarrow> packet_type.TxProfiles | packet.AudioYaesu _ \<Rightarrow> packet_type.AudioYaesu
       | packet.AudioBinR _ \<Rightarrow> packet_type.AudioBinR | packet.AudioVrx _ \<Rightarrow> packet_type.AudioVrx
       | packet.FrequencyVrx _ \<Rightarrow> packet_type.FrequencyVrx
       | packet.FrequencyVrxActual _ \<Rightarrow> packet_type.FrequencyVrxActual
       | packet.TxFilterBand _ \<Rightarrow> packet_type.TxFilterBand
       | packet.YaesuControl _ \<Rightarrow> packet_type.YaesuControl
       | packet.YaesuFeature _ \<Rightarrow> packet_type.YaesuFeature
       | packet.YaesuPresence _ \<Rightarrow> packet_type.YaesuPresence | packet.CwEdges _ \<Rightarrow> packet_type.CwEdges
       | packet.AudioMultiCh _ \<Rightarrow> packet_type.AudioMultiCh
       | packet.YaesuState _ \<Rightarrow> packet_type.YaesuState
       | packet.FrequencyYaesu _ \<Rightarrow> packet_type.FrequencyYaesu
       | packet.AudioYaesu2 _ \<Rightarrow> packet_type.AudioYaesu2
       | packet.YaesuState2 _ \<Rightarrow> packet_type.YaesuState2
       | packet.FrequencyYaesu2 _ \<Rightarrow> packet_type.FrequencyYaesu2
       | packet.PunchOffer _ \<Rightarrow> packet_type.PunchOffer | packet.PunchReady _ \<Rightarrow> packet_type.PunchReady
       | packet.PunchLocal _ \<Rightarrow> packet_type.PunchLocal | packet.Disconnect \<Rightarrow> packet_type.Disconnect
       | packet.PttDenied _ _ _ \<Rightarrow> packet_type.PttDenied
       | packet.YaesuMemoryData _ \<Rightarrow> packet_type.YaesuMemoryData
       | packet.ServerReportRequest \<Rightarrow> packet_type.ServerReportRequest
       | packet.ServerReportPart _ _ _ \<Rightarrow> packet_type.ServerReportPart
       | packet.ControlAck _ \<Rightarrow> packet_type.ControlAck
       | packet.YaesuMemoryData2 _ \<Rightarrow> packet_type.YaesuMemoryData2
       | packet.RadioInfo _ _ \<Rightarrow> packet_type.RadioInfo
       | packet.AuthChallenge _ \<Rightarrow> packet_type.AuthChallenge
       | packet.AuthResponse _ _ \<Rightarrow> packet_type.AuthResponse
       | packet.AuthResult _ _ \<Rightarrow> packet_type.AuthResult
       | packet.TotpChallenge \<Rightarrow> packet_type.TotpChallenge
       | packet.TotpResponse _ \<Rightarrow> packet_type.TotpResponse)"


lemmas body_totals =
  audio.total heartbeat.total ack.total control.total frequency.total mode.total smeter.total spectrum.total
  equipment_status.total equipment_command.total amplitec.total spot.total tx_profiles.total vrx_audio.total
  vrx_frequency.total tx_filter.total yaesu_control.total yaesu_feature.total yaesu_presence.total
  cw_edges.total multi.total yaesu_state.total punch.total

lemma long_text_no_panic: "long_text buf \<noteq> Panic"
  unfolding long_text_def by (intro no_panic_ensure no_panic_bind no_panic) (auto simp: slice_at_def)

lemma tail_if_no_panic: "(c \<Longrightarrow> i \<le> j \<and> j \<le> length buf) \<Longrightarrow> tail_if c buf i j \<noteq> Panic"
  by (auto simp: tail_if_def slice_at_def)

lemma packet_body_total: "4 \<le> length buf \<Longrightarrow> packet_body buf h \<noteq> Panic"
  by (cases "hd_type h") (simp_all add: packet_body_def wbind_panic_iff ensure_panic_iff body_totals
      long_text_no_panic tail_if_no_panic AUTH_RESPONSE_SIZE_def AUTH_RESPONSE_SIZE_WITH_NONCE_def
      AUTH_RESULT_SIZE_def AUTH_RESULT_SIZE_WITH_PROOF_def HEADER_SIZE_def byte_at_def u16_at_def u32_at_def slice_at_def)

lemma packet_body_kind: "packet_body buf h = Ok p \<Longrightarrow> packet_kind p = hd_type h"
  by (cases "hd_type h") (auto simp: packet_body_def packet_kind_def wbind_ok_iff ensure_ok_iff)

section \<open>What is written\<close>

text \<open>
  The writers outside \<^verbatim>\<open>protocol.rs\<close>: a text behind its length (\<^verbatim>\<open>push_blob\<close> of the server, the
  TOTP code and the menu texts of the client), one part of the server's report, and which radio sits in
  a slot.
\<close>

definition text_bytes :: "packet_type \<Rightarrow> u8 list \<Rightarrow> u8 list" where
  "text_bytes t s = header_bytes t NO_FLAGS @ u16_to_be (of_nat (length s)) @ s"

definition report_part_bytes :: "u16 \<Rightarrow> u16 \<Rightarrow> u8 list \<Rightarrow> u8 list" where
  "report_part_bytes part parts bs =
     header_bytes packet_type.ServerReportPart NO_FLAGS @ u16_to_be part @ u16_to_be parts @
     u16_to_be (of_nat (length bs)) @ bs"

definition radio_info_bytes :: "u8 \<Rightarrow> u8 \<Rightarrow> u8 list" where
  "radio_info_bytes slot model = header_bytes packet_type.RadioInfo NO_FLAGS @ [slot, model]"

definition packet_bytes :: "u8 list \<Rightarrow> packet \<Rightarrow> u8 list" where
  "packet_bytes mine q = (case q of
       packet.Audio p \<Rightarrow> audio_serialize_as packet_type.Audio p
     | packet.Heartbeat p \<Rightarrow> heartbeat_serialize_with_version mine p
     | packet.HeartbeatAck p \<Rightarrow> ack_serialize_with_version mine p
     | packet.Control p \<Rightarrow> control_serialize p
     | packet.Frequency p \<Rightarrow> frequency_serialize_as packet_type.Frequency p
     | packet.Mode p \<Rightarrow> mode_serialize_as packet_type.Mode p
     | packet.Smeter p \<Rightarrow> smeter_serialize_as packet_type.Smeter p
     | packet.SmeterSig p \<Rightarrow> smeter_serialize_as packet_type.SmeterSig p
     | packet.SmeterMaxBin p \<Rightarrow> smeter_serialize_as packet_type.SmeterMaxBin p
     | packet.SmeterRx2Sig p \<Rightarrow> smeter_serialize_as packet_type.SmeterRx2Sig p
     | packet.SmeterRx2MaxBin p \<Rightarrow> smeter_serialize_as packet_type.SmeterRx2MaxBin p
     | packet.Spectrum p \<Rightarrow> spectrum_serialize_as packet_type.Spectrum p
     | packet.FullSpectrum p \<Rightarrow> spectrum_serialize_as packet_type.FullSpectrum p
     | packet.EquipmentStatus p \<Rightarrow> equipment_status_serialize p
     | packet.EquipmentCommand p \<Rightarrow> equipment_command_serialize p
     | packet.AmplitecPowerTable p \<Rightarrow> amplitec_serialize p
     | packet.AudioRx2 p \<Rightarrow> audio_serialize_as packet_type.AudioRx2 p
     | packet.FrequencyRx2 p \<Rightarrow> frequency_serialize_as packet_type.FrequencyRx2 p
     | packet.ModeRx2 p \<Rightarrow> mode_serialize_as packet_type.ModeRx2 p
     | packet.SmeterRx2 p \<Rightarrow> smeter_serialize_as packet_type.SmeterRx2 p
     | packet.SpectrumRx2 p \<Rightarrow> spectrum_serialize_as packet_type.SpectrumRx2 p
     | packet.FullSpectrumRx2 p \<Rightarrow> spectrum_serialize_as packet_type.FullSpectrumRx2 p
     | packet.SpectrumVrx1 p \<Rightarrow> spectrum_serialize_as packet_type.SpectrumVrx1 p
     | packet.SpectrumVrx2 p \<Rightarrow> spectrum_serialize_as packet_type.SpectrumVrx2 p
     | packet.Spot p \<Rightarrow> spot_serialize p
     | packet.TxProfiles p \<Rightarrow> tx_profiles_serialize p
     | packet.AudioYaesu p \<Rightarrow> audio_serialize_as packet_type.AudioYaesu p
     | packet.AudioBinR p \<Rightarrow> audio_serialize_as packet_type.AudioBinR p
     | packet.AudioVrx p \<Rightarrow> vrx_audio_serialize p
     | packet.FrequencyVrx p \<Rightarrow> vrx_frequency_serialize_as packet_type.FrequencyVrx p
     | packet.FrequencyVrxActual p \<Rightarrow> vrx_frequency_serialize_as packet_type.FrequencyVrxActual p
     | packet.TxFilterBand p \<Rightarrow> tx_filter_serialize p
     | packet.YaesuControl p \<Rightarrow> yaesu_control_serialize p
     | packet.YaesuFeature p \<Rightarrow> yaesu_feature_serialize p
     | packet.YaesuPresence p \<Rightarrow> yaesu_presence_serialize p
     | packet.CwEdges p \<Rightarrow> cw_edges_before_hang p @ u16_to_be (ck_hang_ms p)
     | packet.AudioMultiCh p \<Rightarrow> multi_serialize p
     | packet.YaesuState p \<Rightarrow> yaesu_state_serialize_as packet_type.YaesuState p
     | packet.FrequencyYaesu p \<Rightarrow> frequency_serialize_as packet_type.FrequencyYaesu p
     | packet.AudioYaesu2 p \<Rightarrow> audio_serialize_as packet_type.AudioYaesu2 p
     | packet.YaesuState2 p \<Rightarrow> yaesu_state_serialize_as packet_type.YaesuState2 p
     | packet.FrequencyYaesu2 p \<Rightarrow> frequency_serialize_as packet_type.FrequencyYaesu2 p
     | packet.PunchOffer p \<Rightarrow> punch_serialize packet_type.PunchOffer p
     | packet.PunchReady p \<Rightarrow> punch_serialize packet_type.PunchReady p
     | packet.PunchLocal p \<Rightarrow> punch_serialize packet_type.PunchLocal p
     | packet.Disconnect \<Rightarrow> disconnect_serialize
     | packet.PttDenied released t shut \<Rightarrow>
         ptt_denied_serialize t (if shut then Closed else if released then ServerReleased else Refused)
     | packet.YaesuMemoryData s \<Rightarrow> text_bytes packet_type.YaesuMemoryData s
     | packet.ServerReportRequest \<Rightarrow> header_bytes packet_type.ServerReportRequest NO_FLAGS
     | packet.ServerReportPart part parts bs \<Rightarrow> report_part_bytes part parts bs
     | packet.ControlAck seq \<Rightarrow> control_ack_serialize seq
     | packet.YaesuMemoryData2 s \<Rightarrow> text_bytes packet_type.YaesuMemoryData2 s
     | packet.RadioInfo slot model \<Rightarrow> radio_info_bytes slot model
     | packet.AuthChallenge nonce \<Rightarrow> auth_challenge_serialize nonce
     | packet.AuthResponse hmac n \<Rightarrow> auth_response_serialize hmac n
     | packet.AuthResult code p \<Rightarrow> auth_result_serialize code p
     | packet.TotpChallenge \<Rightarrow> header_bytes packet_type.TotpChallenge NO_FLAGS
     | packet.TotpResponse s \<Rightarrow> text_bytes packet_type.TotpResponse s)"

definition packet_carried :: "packet \<Rightarrow> bool" where
  "packet_carried q = (case q of
       packet.Audio p \<Rightarrow> length (au_opus_data p) < 2 ^ 16
     | packet.Heartbeat p \<Rightarrow> heartbeat_carried p
     | packet.HeartbeatAck p \<Rightarrow> ack_carried p
     | packet.Control p \<Rightarrow> control_carried p
     | packet.Spectrum p \<Rightarrow> spectrum_carried p
     | packet.FullSpectrum p \<Rightarrow> spectrum_carried p
     | packet.EquipmentStatus p \<Rightarrow> equipment_status_carried p
     | packet.AmplitecPowerTable p \<Rightarrow> amplitec_carried p
     | packet.AudioRx2 p \<Rightarrow> length (au_opus_data p) < 2 ^ 16
     | packet.SpectrumRx2 p \<Rightarrow> spectrum_carried p
     | packet.FullSpectrumRx2 p \<Rightarrow> spectrum_carried p
     | packet.SpectrumVrx1 p \<Rightarrow> spectrum_carried p
     | packet.SpectrumVrx2 p \<Rightarrow> spectrum_carried p
     | packet.Spot p \<Rightarrow> spot_carried p
     | packet.TxProfiles p \<Rightarrow> tx_profiles_carried p
     | packet.AudioYaesu p \<Rightarrow> length (au_opus_data p) < 2 ^ 16
     | packet.AudioBinR p \<Rightarrow> length (au_opus_data p) < 2 ^ 16
     | packet.AudioVrx p \<Rightarrow> length (va_opus_data p) < 2 ^ 16
     | packet.YaesuFeature p \<Rightarrow> yaesu_feature_carried p
     | packet.CwEdges p \<Rightarrow> cw_edges_carried p
     | packet.AudioMultiCh p \<Rightarrow> length (ma_channels p) < 256 \<and> (\<forall>(_, d) \<in> set (ma_channels p). length d < 2 ^ 16)
     | packet.AudioYaesu2 p \<Rightarrow> length (au_opus_data p) < 2 ^ 16
     | packet.PunchOffer p \<Rightarrow> addr_carried p
     | packet.PunchReady p \<Rightarrow> addr_carried p
     | packet.PunchLocal p \<Rightarrow> addr_carried p
     | packet.PttDenied released t shut \<Rightarrow> (shut \<longrightarrow> released)
     | packet.YaesuMemoryData s \<Rightarrow> utf8_valid s \<and> length s < 2 ^ 16
     | packet.YaesuMemoryData2 s \<Rightarrow> utf8_valid s \<and> length s < 2 ^ 16
     | packet.TotpResponse s \<Rightarrow> utf8_valid s \<and> length s < 2 ^ 16
     | packet.ServerReportPart _ _ bs \<Rightarrow> length bs < 2 ^ 16
     | packet.AuthChallenge n \<Rightarrow> length n = 16
     | packet.AuthResponse hmac n \<Rightarrow> length hmac = 32 \<and> (case n of None \<Rightarrow> True | Some n \<Rightarrow> length n = 16)
     | packet.AuthResult _ p \<Rightarrow> (case p of None \<Rightarrow> True | Some p \<Rightarrow> length p = 32)
     | _ \<Rightarrow> True)"

lemmas writers =
  audio_serialize_as_def heartbeat_serialize_with_version_def heartbeat_serialize_def ack_serialize_with_version_def
  ack_serialize_with_subs_def ack_serialize_def control_serialize_def frequency_serialize_as_def mode_serialize_as_def
  smeter_serialize_as_def spectrum_serialize_as_def equipment_status_serialize_def equipment_command_serialize_def
  amplitec_serialize_def spot_serialize_def spot_without_expiry_def tx_profiles_serialize_def Let_def
  vrx_audio_serialize_def vrx_frequency_serialize_as_def tx_filter_serialize_def yaesu_control_serialize_def
  yaesu_feature_serialize_def yaesu_presence_serialize_def cw_edges_before_hang_def multi_serialize_def
  yaesu_state_serialize_as_def punch_serialize_def disconnect_serialize_def ptt_denied_serialize_def text_bytes_def
  report_part_bytes_def control_ack_serialize_def radio_info_bytes_def auth_challenge_serialize_def
  auth_response_serialize_def auth_result_serialize_def

lemma written_header: "\<exists>f rest. packet_bytes mine q = header_bytes (packet_kind q) f @ rest"
  by (cases q; simp add: packet_bytes_def packet_kind_def writers) (metis append_Nil2)+


lemmas body_roundtrips =
  audio.roundtrip heartbeat.roundtrip ack.roundtrip control.roundtrip frequency.roundtrip mode.roundtrip
  smeter.roundtrip spectrum.roundtrip equipment_status.roundtrip equipment_command.roundtrip amplitec.roundtrip
  spot.roundtrip tx_profiles.roundtrip vrx_audio.roundtrip vrx_frequency.roundtrip tx_filter.roundtrip
  yaesu_control.roundtrip yaesu_feature.roundtrip yaesu_presence.roundtrip cw_edges.roundtrip multi.roundtrip
  yaesu_state.roundtrip punch.roundtrip

lemma long_text_roundtrip: "utf8_valid s \<Longrightarrow> length s < 2 ^ 16 \<Longrightarrow> long_text (text_bytes t s) = Ok s"
  by (simp add: long_text_def text_bytes_def del: read_ok_iff)

lemma denied_read:
  assumes "header_deserialize (ptt_denied_serialize t d) = Ok h"
  shows "flag_denied_target (hd_flags h) = t" "flag_server_released (hd_flags h) \<longleftrightarrow> d \<noteq> Refused"
    "flag_server_closed (hd_flags h) \<longleftrightarrow> d = Closed"
  using assms denial_flags [of t d] by (auto simp: ptt_denied_serialize_def simp del: not_None_eq)

lemma body_roundtrip:
  assumes "packet_carried q" "hd_type h = packet_kind q"
    "\<And>r t c. q = packet.PttDenied r t c \<Longrightarrow> header_deserialize (packet_bytes mine q) = Ok h"
  shows "packet_body (packet_bytes mine q) h = Ok q"
  using assms
  by (cases q, simp_all add: packet_bytes_def packet_kind_def packet_carried_def packet_body_def body_roundtrips
      long_text_roundtrip audio_carried_def SPECTRUM_TYPES_def SMETER_TYPES_def,
    auto simp: denied_read report_part_bytes_def control_ack_serialize_def
      radio_info_bytes_def auth_challenge_serialize_def auth_response_serialize_def auth_result_serialize_def
      HEADER_SIZE_def AUTH_RESPONSE_SIZE_def AUTH_RESPONSE_SIZE_WITH_NONCE_def AUTH_RESULT_SIZE_def
      AUTH_RESULT_SIZE_WITH_PROOF_def tail_if_def simp del: read_ok_iff split: option.splits if_splits)

section \<open>Properties\<close>

text \<open>C29. No datagram, whatever its bytes, makes the parser index out of range: \<^verbatim>\<open>Packet::deserialize\<close>
  returns a packet or an error, so nothing a stranger sends ends the task that reads the socket.\<close>

theorem no_datagram_panics: "packet_deserialize buf \<noteq> Panic"
proof -
  have "packet_body buf h \<noteq> Panic" if "header_deserialize buf = Ok h" for h
    using that packet_body_total [of buf h] by (simp add: header_ok_iff)
  then show ?thesis unfolding packet_deserialize_def by (intro no_panic_bind no_panic) blast+
qed

text \<open>C30. Every packet that fits its format is read back as it was sent: 58 packet types, each through its
  own writer and the one parser, with audio, texts, spot lists, version tags and authentication
  tails.\<close>

theorem packet_survives_the_wire:
  assumes "packet_carried q"
  shows "packet_deserialize (packet_bytes mine q) = Ok q"
proof -
  obtain f rest where b: "packet_bytes mine q = header_bytes (packet_kind q) f @ rest"
    using written_header by blast
  then have h: "header_deserialize (packet_bytes mine q) = Ok \<lparr> hd_type = packet_kind q, hd_flags = f \<rparr>" by simp
  have "packet_body (packet_bytes mine q) \<lparr> hd_type = packet_kind q, hd_flags = f \<rparr> = Ok q"
    by (rule body_roundtrip) (use assms h in simp_all)
  with h show ?thesis by (simp add: packet_deserialize_def)
qed

lemma packet_survives_the_wire_witness:
  "packet_deserialize (packet_bytes [] (packet.AuthResult 1 (Some (replicate 32 7)))) =
     Ok (packet.AuthResult 1 (Some (replicate 32 7)))"
  by (rule packet_survives_the_wire) (simp add: packet_carried_def)

text \<open>A parsed packet is of the type its type byte names, behind the magic byte and the version of this
  build: a datagram of another program, of another version of the protocol or of a type this build does not
  know is never taken for a packet.\<close>

theorem parsed_as_its_type_byte:
  assumes "packet_deserialize buf = Ok p"
  shows "4 \<le> length buf \<and> buf ! 0 = MAGIC \<and> buf ! 1 = VERSION \<and> packet_type_from_u8 (buf ! 2) = Some (packet_kind p)"
proof -
  obtain h where h: "header_deserialize buf = Ok h" "packet_body buf h = Ok p"
    using assms by (auto simp: packet_deserialize_def wbind_ok_iff)
  then show ?thesis using packet_body_kind [OF h(2)] by (simp add: header_ok_iff)
qed

lemma parsed_as_its_type_byte_witness:
  "packet_type_from_u8 ([0xAA, 3, 0x29, 0, 1, 0] ! 2) = Some (packet_kind (packet.RadioInfo 1 0))"
proof -
  have "packet_deserialize [0xAA, 3, 0x29, 0, 1, 0] = Ok (packet.RadioInfo 1 0)"
    using packet_survives_the_wire [of "packet.RadioInfo 1 0" "[]"]
    by (simp add: packet_carried_def packet_bytes_def radio_info_bytes_def header_bytes_def MAGIC_def VERSION_def
        packet_code_def NO_FLAGS_def)
  from parsed_as_its_type_byte [OF this] show ?thesis by blast
qed

text \<open>The number behind a control is a tail: the control reads as it always did, so a server that knows
  no numbers still carries it out, and one that does finds the number and the key the acknowledgement
  is kept under.\<close>

theorem numbered_control_reads_as_before:
  assumes "control_carried p"
  shows "packet_deserialize (control_serialize p @ u32_to_be seq) = Ok (packet.Control p) \<and>
    numbered_control (control_serialize p @ u32_to_be seq) =
      Some (if is_action (cp_control_id p) (cp_value p) then Action (cp_control_id p) seq
            else control_key.Control (cp_control_id p), seq)"
proof
  have "control_deserialize (control_serialize p @ u32_to_be seq) = Ok p"
    using assms by (rule control.ignores_rest)
  moreover have "header_deserialize (control_serialize p @ rest) = Ok \<lparr> hd_type = packet_type.Control, hd_flags = NO_FLAGS \<rparr>" for rest
    by (simp add: control_serialize_def)
  ultimately show "packet_deserialize (control_serialize p @ u32_to_be seq) = Ok (packet.Control p)"
    by (simp add: packet_deserialize_def packet_body_def)
  show "numbered_control (control_serialize p @ u32_to_be seq) =
      Some (if is_action (cp_control_id p) (cp_value p) then Action (cp_control_id p) seq
            else control_key.Control (cp_control_id p), seq)"
    by (simp add: numbered_control_def control_serialize_def header_bytes_def get_byte_def packet_code_def
        CONTROL_SIZE_def u16_to_be_def u32_to_be_def Let_def)
qed

lemma numbered_control_reads_as_before_witness:
  "numbered_control (control_serialize \<lparr> cp_control_id = 0x03, cp_value = 1 \<rparr> @ u32_to_be 9) =
     Some (control_key.Control 0x03, 9)"
  using numbered_control_reads_as_before [of "\<lparr> cp_control_id = 0x03, cp_value = 1 \<rparr>" 9]
  by (simp add: control_carried_def CONTROL_CODES_def is_action_def ACTIONS_def)

text \<open>A control this build does not know is refused as that, by its number, and not carried out as another
  one - with or without the number of an acknowledged control behind it.\<close>

theorem unknown_control_is_refused:
  assumes "cp_control_id p \<notin> set CONTROL_CODES"
  shows "packet_deserialize (control_serialize p @ rest) = Err (UnknownControl (cp_control_id p))"
  using assms
  by (simp add: packet_deserialize_def packet_body_def control_deserialize_def control_serialize_def
      control_id_from_u8_def list_ex_iff del: read_ok_iff)

lemma unknown_control_is_refused_witness:
  "packet_deserialize (control_serialize \<lparr> cp_control_id = 0, cp_value = 1 \<rparr> @ []) = Err (UnknownControl 0)"
  using unknown_control_is_refused [of "\<lparr> cp_control_id = 0, cp_value = 1 \<rparr>" "[]"] by (simp add: CONTROL_CODES_def)

text \<open>The answer to a heartbeat has grown three times, and every shorter one still reads, with what
  it lacks absent: an older server's silence about subscriptions or its build is \<^verbatim>\<open>None\<close>, never an empty
  mask or a differing build.\<close>

theorem older_answers_still_read:
  "ack_deserialize (take 12 (ack_serialize p)) =
     Ok (p\<lparr> ha_capabilities := CAPABILITIES_NONE, ha_state_flags := 0, ha_subs := None, ha_version := None \<rparr>) \<and>
   ack_deserialize (take 16 (ack_serialize p)) = Ok (p\<lparr> ha_state_flags := 0, ha_subs := None, ha_version := None \<rparr>) \<and>
   ack_deserialize (ack_serialize p) = Ok (p\<lparr> ha_subs := None, ha_version := None \<rparr>) \<and>
   ack_deserialize (ack_serialize_with_subs p) =
     Ok (p\<lparr> ha_subs := Some (case ha_subs p of None \<Rightarrow> 0 | Some m \<Rightarrow> m), ha_version := None \<rparr>)"
  using ack_over_the_wire(4) [of p "[]"] by (simp add: ack_over_the_wire(1-3) VERSION_TAG_LEN_def)

text \<open>A Yaesu state that lacks more than its last three bytes is refused, although the reader gives
  every byte from the squelch on a default.\<close>

theorem yaesu_state_may_lack_three_bytes:
  "yaesu_state_deserialize (take 37 (yaesu_state_serialize_as t p)) =
     Ok (p\<lparr> ys_tx_power_max := 0, ys_held_by_other := False, ys_loading := 0 \<rparr>) \<and>
   (n < 37 \<longrightarrow> yaesu_state_deserialize (take n (yaesu_state_serialize_as t p)) = Err (TooShort n))"
  by (simp add: yaesu_state_cut)

lemma yaesu_state_may_lack_three_bytes_witness:
  "yaesu_state_deserialize (take 36 (yaesu_state_serialize_as packet_type.YaesuState
     (\<lparr> ys_freq_a = 7000000, ys_freq_b = 0, ys_mode = 1, ys_smeter = 0, ys_tx_active = False, ys_power_on = True,
        ys_af_gain = 0, ys_tx_power = 5, ys_vfo_select = 0, ys_memory_channel = 0, ys_squelch = 0, ys_rf_gain = 0,
        ys_mic_gain = 0, ys_split = False, ys_scan = False, ys_tuner_state = 0, ys_hi_swr = False,
        ys_held_by_other = False, ys_tx_power_max = 0, ys_loading = 0 \<rparr>))) = Err (TooShort 36)"
  using yaesu_state_may_lack_three_bytes [THEN conjunct2, THEN mp, of 36] by simp

text \<open>C37. The build of the other end is judged right from the tag on the wire: the byte comparison, which
  builds no text, answers \<open>SameBuild\<close> exactly for this build's own name, and any other name that fits and can
  be shown is shown as it was sent.\<close>

theorem own_build_is_recognised:
  assumes "list_all printable mine" "length mine \<le> VERSION_TAG_LEN" "list_all printable s" "length s \<le> VERSION_TAG_LEN"
  shows "build_of mine (Some (tag_from_text s)) = (if s = mine then SameBuild else DifferentBuild s)"
proof -
  have t: "tag_text (tag_from_text s) = s" "tag_text (tag_mine mine) = mine"
    using assms by (simp_all add: tag_text_from_text map_shown_printable tag_mine_def)
  then have "tag_is_mine mine (tag_from_text s) \<longleftrightarrow> s = mine"
    using tag_is_mine_iff [OF length_tag_from_text assms(2,1), of s] by (metis tag_mine_def)
  with t(1) show ?thesis by (simp add: build_of_def)
qed

lemma own_build_is_recognised_witness:
  "build_of [0x32] (Some (tag_from_text [0x33])) = DifferentBuild [0x33]"
  using own_build_is_recognised [of "[0x32]" "[0x33]"] by (simp add: printable_def VERSION_TAG_LEN_def)

end
