(* ===== verification/ServerReport.thy ===== *)
theory ServerReport
  imports WirePacket
begin

text \<open>
  The server's own problem report on its way to a client: who may ask when (\<^verbatim>\<open>send_own_report\<close> of
  \<^verbatim>\<open>sdr-remote-server/src/network.rs\<close>), the numbered parts (\<^verbatim>\<open>send_own_report_inner\<close>), and how the
  client puts them together again (\<^verbatim>\<open>ServerReportPart\<close>, \<^verbatim>\<open>RequestServerReport\<close> and the deadline of
  \<^verbatim>\<open>sdr-remote-logic/src/engine.rs\<close>). The text of the report is an argument; the pauses between the
  datagrams are left out, and the thread that sends is the event \<open>ReportSent\<close> that ends it.
\<close>

section \<open>Who may ask\<close>

definition REPORT_COOLDOWN :: duration where "REPORT_COOLDOWN = secs 20"

record report_guard =
  rg_seen :: "socket_addr \<Rightarrow> instant option"
  rg_busy :: bool

definition report_guard_new :: report_guard where
  "report_guard_new = \<lparr> rg_seen = (\<lambda>_. None), rg_busy = False \<rparr>"

definition ask_report :: "report_guard \<Rightarrow> socket_addr \<Rightarrow> instant \<Rightarrow> report_guard \<times> bool" where
  "ask_report g addr now =
     (if rg_busy g then (g, False)
      else if (case rg_seen g addr of None \<Rightarrow> False | Some served \<Rightarrow> now - served < REPORT_COOLDOWN) then (g, False)
      else (g\<lparr> rg_seen := (\<lambda>a. case rg_seen g a of
                             None \<Rightarrow> None
                           | Some t \<Rightarrow> (if now - t < REPORT_COOLDOWN * 4 then Some t else None))(addr \<mapsto> now),
               rg_busy := True \<rparr>, True))"

definition report_sent :: "report_guard \<Rightarrow> report_guard" where
  "report_sent g = g\<lparr> rg_busy := False \<rparr>"

datatype guard_event = ReportAsked socket_addr instant | ReportSent

fun guard_step :: "guard_event \<Rightarrow> report_guard \<Rightarrow> report_guard" where
  "guard_step (ReportAsked addr now) g = fst (ask_report g addr now)"
| "guard_step ReportSent g = report_sent g"

section \<open>The parts\<close>

text \<open>\<^verbatim>\<open>bytes.chunks(n)\<close> and \<^verbatim>\<open>div_ceil\<close>\<close>

function chunks :: "nat \<Rightarrow> 'a list \<Rightarrow> 'a list list" where
  "chunks n xs = (if n = 0 \<or> xs = [] then [] else take n xs # chunks n (drop n xs))"
  by auto
termination by (relation "measure (\<lambda>(n, xs). length xs)") auto

declare chunks.simps [simp del]

definition div_ceil :: "nat \<Rightarrow> nat \<Rightarrow> nat" where
  "div_ceil a b = (a + b - 1) div b"

definition REPORT_PART :: nat where "REPORT_PART = 1100"

definition report_datagrams :: "u8 list \<Rightarrow> u8 list list" where
  "report_datagrams bytes =
     (let parts = max (div_ceil (length bytes) REPORT_PART) 1
      in if 2 ^ 16 - 1 < parts then []
         else map (\<lambda>(i, chunk). report_part_bytes (of_nat i) (of_nat parts) chunk)
                (List.enumerate 0 (chunks REPORT_PART bytes)))"

section \<open>The client\<close>

record report_rx =
  rr_parts :: "u8 list option list"
  rr_deadline :: "instant option"
  rr_report :: "u8 list option"
  rr_failed :: "(u16 \<times> u16) option"

definition report_requested :: "report_rx \<Rightarrow> instant \<Rightarrow> report_rx" where
  "report_requested rx now =
     rx\<lparr> rr_report := None, rr_failed := None, rr_parts := [], rr_deadline := Some (now + secs 20) \<rparr>"

definition have_parts :: "u8 list option list \<Rightarrow> nat" where
  "have_parts ps = length (filter (\<lambda>p. p \<noteq> None) ps)"

definition report_part_in :: "report_rx \<Rightarrow> instant \<Rightarrow> u16 \<Rightarrow> u16 \<Rightarrow> u8 list \<Rightarrow> report_rx" where
  "report_part_in rx now part parts bytes =
     (if parts = 0 \<or> 4096 < unat parts then rx
      else
        let rx = (if length (rr_parts rx) \<noteq> unat parts
                  then rx\<lparr> rr_parts := replicate (unat parts) None, rr_deadline := Some (now + secs 20) \<rparr>
                  else rx);
            rx = (if unat part < length (rr_parts rx)
                  then rx\<lparr> rr_parts := (rr_parts rx)[unat part := Some bytes] \<rparr> else rx)
        in if have_parts (rr_parts rx) = unat parts
           then let all_bytes = concat (map (\<lambda>p. case p of None \<Rightarrow> [] | Some b \<Rightarrow> b) (rr_parts rx))
                in rx\<lparr> rr_report := Some (utf8_lossy all_bytes), rr_failed := None, rr_parts := [], rr_deadline := None \<rparr>
           else rx)"

definition report_tick :: "report_rx \<Rightarrow> instant \<Rightarrow> report_rx" where
  "report_tick rx now =
     (case rr_deadline rx of
        None \<Rightarrow> rx
      | Some t \<Rightarrow>
          (if t \<le> now
           then rx\<lparr> rr_failed := Some (of_nat (have_parts (rr_parts rx)), of_nat (length (rr_parts rx))),
                    rr_report := None, rr_parts := [], rr_deadline := None \<rparr>
           else rx))"

text \<open>A datagram that reaches the client.\<close>

definition report_receive :: "report_rx \<Rightarrow> instant \<Rightarrow> u8 list \<Rightarrow> report_rx" where
  "report_receive rx now buf =
     (case packet_deserialize buf of
        Ok (packet.ServerReportPart part parts bytes) \<Rightarrow> report_part_in rx now part parts bytes
      | _ \<Rightarrow> rx)"

fun report_arrivals :: "report_rx \<Rightarrow> (instant \<times> u8 list) list \<Rightarrow> report_rx" where
  "report_arrivals rx [] = rx"
| "report_arrivals rx ((now, d) # ds) = report_arrivals (report_receive rx now d) ds"

section \<open>Lemmas\<close>

lemma chunks_simps [simp]:
  "chunks n [] = []" "0 < n \<Longrightarrow> xs \<noteq> [] \<Longrightarrow> chunks n xs = take n xs # chunks n (drop n xs)"
  by (simp_all add: chunks.simps)

lemma concat_chunks: "0 < n \<Longrightarrow> concat (chunks n xs) = xs"
proof (induction n xs rule: chunks.induct)
  case (1 n xs)
  then show ?case by (cases "xs = []") simp_all
qed

lemma length_chunk: "0 < n \<Longrightarrow> c \<in> set (chunks n xs) \<Longrightarrow> length c \<le> n"
proof (induction n xs rule: chunks.induct)
  case (1 n xs)
  then show ?case by (cases "xs = []") auto
qed

lemma length_chunks: "0 < n \<Longrightarrow> length (chunks n xs) = div_ceil (length xs) n"
proof (induction n xs rule: chunks.induct)
  case (1 n xs)
  show ?case
  proof (cases "xs = []")
    case True
    then show ?thesis using 1 by (simp add: div_ceil_def)
  next
    case False
    then have "length (chunks n xs) = Suc (div_ceil (length (drop n xs)) n)" using 1 by simp
    also have "\<dots> = div_ceil (length xs) n"
    proof (cases "length xs \<le> n")
      case True
      then have "(length xs + n - 1) div n = 1" using False \<open>0 < n\<close>
        by (cases xs) (auto intro!: div_nat_eqI)
      then show ?thesis using True \<open>0 < n\<close> by (simp add: div_ceil_def)
    next
      case more: False
      define k where "k = length xs - n + n - 1"
      have "length xs + n - 1 = k + n" using more \<open>0 < n\<close> by (simp add: k_def)
      moreover have "(k + n) div n = Suc (k div n)" using \<open>0 < n\<close> by simp
      ultimately show ?thesis by (simp only: div_ceil_def k_def length_drop)
    qed
    finally show ?thesis .
  qed
qed

section \<open>Putting the parts together\<close>

definition slots :: "u8 list list \<Rightarrow> nat set \<Rightarrow> u8 list option list" where
  "slots cs S = map (\<lambda>i. if i \<in> S then Some (cs ! i) else None) [0..<length cs]"

lemma length_slots [simp]: "length (slots cs S) = length cs"
  by (simp add: slots_def)

lemma slots_empty [simp]: "slots cs S = [] \<longleftrightarrow> cs = []"
  by (simp add: slots_def)

lemma slots_none: "slots cs {} = replicate (length cs) None"
  by (simp add: slots_def map_replicate_trivial)

lemma slots_put: "i < length cs \<Longrightarrow> (slots cs S)[i := Some (cs ! i)] = slots cs (insert i S)"
  by (rule nth_equalityI) (auto simp: slots_def nth_list_update)

lemma have_slots: "have_parts (slots cs S) = card (S \<inter> {..<length cs})"
proof -
  have "have_parts (slots cs S) = card {i. i < length cs \<and> slots cs S ! i \<noteq> None}"
    by (simp add: have_parts_def length_filter_conv_card)
  also have "{i. i < length cs \<and> slots cs S ! i \<noteq> None} = S \<inter> {..<length cs}"
    by (auto simp: slots_def split: if_splits)
  finally show ?thesis .
qed

lemma slots_full: "concat (map (\<lambda>p. case p of None \<Rightarrow> [] | Some b \<Rightarrow> b) (slots cs {..<length cs})) = concat cs"
proof -
  have "map (\<lambda>p. case p of None \<Rightarrow> [] | Some b \<Rightarrow> b) (slots cs {..<length cs}) = cs"
    by (rule nth_equalityI) (auto simp: slots_def)
  then show ?thesis by simp
qed

lemma full_iff: "S \<subseteq> {..<n} \<Longrightarrow> card (S \<inter> {..<n}) = n \<longleftrightarrow> S = {..<n}" for n :: nat
  using card_subset_eq [of "{..<n}" S] by (auto simp: Int_absorb2)

text \<open>One part of \<open>cs\<close> arrives while \<open>S\<close> is there.\<close>

lemma part_step:
  assumes "length cs \<le> 4096" "i < length cs" "S \<subseteq> {..<length cs}"
    and parts: "rr_parts rx = slots cs S \<or> S = {} \<and> rr_parts rx = []"
  shows "insert i S = {..<length cs} \<Longrightarrow>
      report_part_in rx now (of_nat i) (of_nat (length cs)) (cs ! i) =
        rx\<lparr> rr_report := Some (utf8_lossy (concat cs)), rr_failed := None, rr_parts := [], rr_deadline := None \<rparr>"
    and "insert i S \<noteq> {..<length cs} \<Longrightarrow>
      (let rx' = report_part_in rx now (of_nat i) (of_nat (length cs)) (cs ! i)
       in rr_parts rx' = slots cs (insert i S) \<and> rr_report rx' = rr_report rx \<and> rr_failed rx' = rr_failed rx \<and>
          rr_deadline rx' = (if rr_parts rx = [] then Some (now + secs 20) else rr_deadline rx))"
proof -
  let ?n = "length cs"
  have n: "unat (of_nat ?n :: u16) = ?n" "unat (of_nat i :: u16) = i" "(of_nat ?n :: u16) \<noteq> 0"
    using assms by (auto simp: unsigned_of_nat take_bit_nat_eq_self unat_eq_zero [symmetric])
  define rx1 where "rx1 = (if length (rr_parts rx) \<noteq> ?n
    then rx\<lparr> rr_parts := replicate ?n None, rr_deadline := Some (now + secs 20) \<rparr> else rx)"
  have rx1: "rr_parts rx1 = slots cs S" "rr_report rx1 = rr_report rx" "rr_failed rx1 = rr_failed rx"
      "rr_deadline rx1 = (if rr_parts rx = [] then Some (now + secs 20) else rr_deadline rx)"
    using parts assms(2) by (auto simp: rx1_def slots_none)
  have sub: "insert i S \<subseteq> {..<?n}" using assms by auto
  have eq: "report_part_in rx now (of_nat i) (of_nat ?n) (cs ! i) =
      (if card (insert i S \<inter> {..<?n}) = ?n
       then rx1\<lparr> rr_report := Some (utf8_lossy (concat (map (\<lambda>p. case p of None \<Rightarrow> [] | Some b \<Rightarrow> b)
              (slots cs (insert i S))))), rr_failed := None, rr_parts := [], rr_deadline := None \<rparr>
       else rx1\<lparr> rr_parts := slots cs (insert i S) \<rparr>)"
    using assms(1,2) n rx1(1)
    by (simp only: report_part_in_def n Let_def rx1_def [symmetric]) (simp add: slots_put have_slots n)
  show "report_part_in rx now (of_nat i) (of_nat ?n) (cs ! i) =
        rx\<lparr> rr_report := Some (utf8_lossy (concat cs)), rr_failed := None, rr_parts := [], rr_deadline := None \<rparr>"
    if "insert i S = {..<?n}"
    unfolding eq that slots_full by (simp add: rx1_def)
  show "let rx' = report_part_in rx now (of_nat i) (of_nat ?n) (cs ! i)
       in rr_parts rx' = slots cs (insert i S) \<and> rr_report rx' = rr_report rx \<and> rr_failed rx' = rr_failed rx \<and>
          rr_deadline rx' = (if rr_parts rx = [] then Some (now + secs 20) else rr_deadline rx)"
    if "insert i S \<noteq> {..<?n}"
    unfolding eq using that full_iff [OF sub] rx1 by simp
qed

text \<open>What the server sends, as the client reads it.\<close>

lemma report_datagrams_read:
  assumes "0 < length bytes" "length bytes \<le> 4096 * REPORT_PART"
  defines "cs \<equiv> chunks REPORT_PART bytes"
  shows "length (report_datagrams bytes) = length cs" "0 < length cs" "length cs \<le> 4096" "concat cs = bytes"
    "i < length cs \<Longrightarrow> report_receive rx now (report_datagrams bytes ! i) =
       report_part_in rx now (of_nat i) (of_nat (length cs)) (cs ! i)"
proof -
  have n: "length cs = div_ceil (length bytes) REPORT_PART" "concat cs = bytes"
    by (simp_all add: cs_def length_chunks concat_chunks REPORT_PART_def)
  have pos: "0 < length cs" using n(2) assms(1) by auto
  have "length cs \<le> (4096 * REPORT_PART + REPORT_PART - 1) div REPORT_PART"
    unfolding n(1) div_ceil_def using assms(2) by (intro div_le_mono) simp
  then have le: "length cs \<le> 4096" by (simp add: REPORT_PART_def)
  have ds: "report_datagrams bytes = map (\<lambda>(i, c). report_part_bytes (of_nat i) (of_nat (length cs)) c) (List.enumerate 0 cs)"
  proof -
    have "max (length cs) 1 = length cs" by (rule max_absorb1) (use pos in linarith)
    then show ?thesis using le unfolding report_datagrams_def Let_def n(1) [symmetric] cs_def [symmetric] by simp
  qed
  show "length (report_datagrams bytes) = length cs" "0 < length cs" "length cs \<le> 4096" "concat cs = bytes"
    using ds pos le n(2) by simp_all
  show "report_receive rx now (report_datagrams bytes ! i) = report_part_in rx now (of_nat i) (of_nat (length cs)) (cs ! i)"
    if "i < length cs"
  proof -
    have "length (cs ! i) \<le> REPORT_PART"
      using that length_chunk [of REPORT_PART "cs ! i" bytes] by (simp add: cs_def REPORT_PART_def)
    then have "packet_carried (packet.ServerReportPart (of_nat i) (of_nat (length cs)) (cs ! i))"
      by (simp add: packet_carried_def REPORT_PART_def)
    then have r: "packet_deserialize (report_part_bytes (of_nat i) (of_nat (length cs)) (cs ! i)) =
        Ok (packet.ServerReportPart (of_nat i) (of_nat (length cs)) (cs ! i))"
      using body_roundtrip [of "packet.ServerReportPart (of_nat i) (of_nat (length cs)) (cs ! i)"
          "\<lparr> hd_type = packet_type.ServerReportPart, hd_flags = NO_FLAGS \<rparr>" "[]"]
      by (simp add: packet_deserialize_def packet_bytes_def packet_kind_def) (simp add: report_part_bytes_def)
    have "report_datagrams bytes ! i = report_part_bytes (of_nat i) (of_nat (length cs)) (cs ! i)"
      using that by (simp add: ds nth_enumerate_eq)
    then show ?thesis by (simp add: report_receive_def r)
  qed
qed

lemma report_arrivals_append: "report_arrivals rx (xs @ ys) = report_arrivals (report_arrivals rx xs) ys"
  by (induction rx xs rule: report_arrivals.induct) simp_all

text \<open>While something is missing, what is there is exactly what arrived.\<close>

lemma report_incomplete:
  assumes "0 < length bytes" "length bytes \<le> 4096 * REPORT_PART"
    and "set (map snd is) \<subset> {..<length (report_datagrams bytes)}" "rr_parts rx = []"
  shows "let rx' = report_arrivals rx (map (\<lambda>(t, i). (t, report_datagrams bytes ! i)) is)
    in (rr_parts rx' = slots (chunks REPORT_PART bytes) (set (map snd is)) \<or> is = [] \<and> rr_parts rx' = []) \<and>
       rr_report rx' = rr_report rx \<and> rr_failed rx' = rr_failed rx"
  using assms(3)
proof (induction "is" rule: rev_induct)
  case Nil
  then show ?case using assms(4) by simp
next
  case (snoc e es)
  obtain t i where e: "e = (t, i)" by fastforce
  note r = report_datagrams_read [OF assms(1,2)]
  let ?cs = "chunks REPORT_PART bytes" and ?S = "set (map snd es)"
  define rx1 where "rx1 = report_arrivals rx (map (\<lambda>(t, i). (t, report_datagrams bytes ! i)) es)"
  have S: "insert i ?S \<subset> {..<length ?cs}" "i < length ?cs" using snoc.prems r(1) e by auto
  then have "?S \<subset> {..<length (report_datagrams bytes)}" using r(1) by auto
  from snoc.IH [OF this] have ih: "rr_parts rx1 = slots ?cs ?S \<or> ?S = {} \<and> rr_parts rx1 = []"
      "rr_report rx1 = rr_report rx" "rr_failed rx1 = rr_failed rx"
    by (auto simp: Let_def rx1_def)
  show ?case
    using part_step(2) [OF r(3) S(2) _ ih(1), of t] S ih(2,3) r(5) [OF S(2), of rx1 t]
    by (auto simp: Let_def report_arrivals_append e rx1_def [symmetric])
qed

section \<open>Properties\<close>



text \<open>A transfer that ends early says so: at the deadline the client reports how many of how many
  parts it had, and starts the next attempt from nothing.\<close>

theorem incomplete_report_is_said:
  fixes rx0 :: report_rx and t0 d now :: instant
  assumes "0 < length bytes" "length bytes \<le> 4096 * REPORT_PART" "is \<noteq> []"
    and missing: "set (map snd is) \<subset> {..<length (report_datagrams bytes)}"
  defines "rx \<equiv> report_arrivals (report_requested rx0 t0) (map (\<lambda>(t, i). (t, report_datagrams bytes ! i)) is)"
  assumes "rr_deadline rx = Some d" "d \<le> now"
  shows "rr_failed (report_tick rx now) =
      Some (of_nat (card (set (map snd is))), of_nat (length (report_datagrams bytes))) \<and>
    rr_report (report_tick rx now) = None \<and> rr_parts (report_tick rx now) = []"
proof -
  note r = report_datagrams_read [OF assms(1,2)]
  have "rr_parts rx = slots (chunks REPORT_PART bytes) (set (map snd is))"
    using report_incomplete [OF assms(1,2) missing, of "report_requested rx0 t0"] \<open>is \<noteq> []\<close>
    by (simp add: Let_def rx_def report_requested_def)
  moreover have "set (map snd is) \<inter> {..<length (chunks REPORT_PART bytes)} = set (map snd is)"
    using missing r(1) by auto
  ultimately show ?thesis using assms(6,7) r(1) by (simp add: report_tick_def have_slots)
qed

definition long_report :: "u8 list" where "long_report = replicate 1101 0x61"

lemma long_ok: "0 < length long_report" "length long_report \<le> 4096 * REPORT_PART"
  by (simp_all add: REPORT_PART_def long_report_def)

lemma two_parts: "length (report_datagrams long_report) = 2"
  using report_datagrams_read(1) [of long_report]
  by (simp add: long_report_def REPORT_PART_def length_chunks div_ceil_def)

definition no_report :: report_rx where
  "no_report = \<lparr> rr_parts = [], rr_deadline = None, rr_report = None, rr_failed = None \<rparr>"

lemma incomplete_report_is_said_witness:
  "\<exists>d. rr_failed (report_tick (report_arrivals (report_requested no_report 0)
     [(5, report_datagrams long_report ! 1)]) d) = Some (1, 2)"
proof -
  let ?rx = "report_arrivals (report_requested no_report 0) (map (\<lambda>(t, i). (t, report_datagrams long_report ! i)) [(5, 1)])"
  have n: "{1} \<subset> {..<2 :: nat}" "{1} \<noteq> {..<2 :: nat}"
    by (simp_all add: numeral_2_eq_2 lessThan_Suc psubset_eq doubleton_eq_iff)
  note r = report_datagrams_read [OF long_ok]
  have two: "length (chunks REPORT_PART long_report) = 2" using r(1) two_parts by simp
  have "rr_deadline ?rx = Some (5 + secs 20)"
  proof -
    let ?rx0 = "report_requested no_report 0"
    let ?rx1 = "report_part_in ?rx0 5 (of_nat 1) (of_nat (length (chunks REPORT_PART long_report))) (chunks REPORT_PART long_report ! 1)"
    have "report_receive ?rx0 5 (report_datagrams long_report ! 1) = ?rx1" by (rule r(5)) (simp add: two)
    moreover have "rr_deadline ?rx1 = (if rr_parts ?rx0 = [] then Some (5 + secs 20) else rr_deadline ?rx0)"
    proof -
      have one: "insert 1 {} \<noteq> {..<length (chunks REPORT_PART long_report)}" "1 < length (chunks REPORT_PART long_report)"
        unfolding two using n(2) by simp_all
      have "rr_parts ?rx0 = []" by (simp add: report_requested_def)
      then show ?thesis
        using part_step(2) [OF r(3) one(2) empty_subsetI disjI2 one(1), of ?rx0 5] by (simp only: Let_def simp_thms)
    qed
    moreover have "rr_parts ?rx0 = []" by (simp add: report_requested_def)
    ultimately show ?thesis by (simp only: list.map prod.case report_arrivals.simps simp_thms if_True)
  qed
  then obtain d where "rr_deadline ?rx = Some d" by blast
  then have "rr_failed (report_tick ?rx d) = Some (1, 2)"
    using incomplete_report_is_said [of long_report "[(5, 1)]" no_report 0 d d] n long_ok
    by (simp add: two_parts)
  then show ?thesis by auto
qed

text \<open>A part that arrives twice, the second time after the report is complete, takes the report away
  again: it counts as the beginning of a new transfer, and twenty seconds later that transfer has failed.\<close>

theorem late_duplicate_takes_the_report_away:
  assumes "0 < length bytes" "length bytes \<le> 4096 * REPORT_PART" "i < length (report_datagrams bytes)"
    and "1 < length (report_datagrams bytes)" "rr_parts rx = []" "t + secs 20 \<le> now"
  shows "rr_report (report_tick (report_receive rx t (report_datagrams bytes ! i)) now) = None \<and>
    rr_failed (report_tick (report_receive rx t (report_datagrams bytes ! i)) now) =
      Some (1, of_nat (length (report_datagrams bytes)))"
proof -
  note r = report_datagrams_read [OF assms(1,2)]
  let ?cs = "chunks REPORT_PART bytes"
  let ?rx = "report_receive rx t (report_datagrams bytes ! i)"
  have i: "i < length ?cs" and n: "1 < length ?cs" using assms(3,4) r(1) by simp_all
  have "card {i} \<noteq> card {..<length ?cs}" using n by simp
  then have "{i} \<noteq> {..<length ?cs}" by metis
  then have p: "rr_parts ?rx = slots ?cs {i}"
    using part_step(2) [OF r(3) i, of "{}" rx t] assms(5) r(5) [OF i, of rx t] by (simp add: Let_def)
  moreover have "rr_deadline ?rx = Some (t + secs 20)"
    using part_step(2) [OF r(3) i, of "{}" rx t] assms(5) r(5) [OF i, of rx t] \<open>{i} \<noteq> {..<length ?cs}\<close>
    by (simp add: Let_def)
  ultimately show ?thesis using assms(6) i r(1) by (simp add: report_tick_def have_slots)
qed

lemma late_duplicate_takes_the_report_away_witness:
  "rr_failed (report_tick (report_receive (no_report\<lparr> rr_report := Some long_report \<rparr>) 5
     (report_datagrams long_report ! 1)) (5 + secs 20)) = Some (1, 2)"
  using late_duplicate_takes_the_report_away [of long_report 1 "no_report\<lparr> rr_report := Some long_report \<rparr>" 5 "5 + secs 20"] long_ok
  by (simp add: two_parts no_report_def)

text \<open>C40. One address is served at most once in twenty seconds, whatever others ask in between and however
  often a transfer ends.\<close>

fun guard_time :: "guard_event \<Rightarrow> instant option" where
  "guard_time (ReportAsked _ t) = Some t"
| "guard_time ReportSent = None"

lemma report_seen_kept:
  assumes "rg_seen g addr = Some s" "now \<le> s" "\<And>t. guard_time e = Some t \<Longrightarrow> now \<le> t \<and> t < now + REPORT_COOLDOWN"
  shows "\<exists>s. rg_seen (guard_step e g) addr = Some s \<and> now \<le> s"
  using assms by (cases e) (auto simp: ask_report_def report_sent_def REPORT_COOLDOWN_def split: option.splits)

theorem report_once_in_twenty_seconds:
  assumes "ask_report g addr now = (g1, True)"
    and "\<forall>t \<in> {t. \<exists>e \<in> set evs. guard_time e = Some t}. now \<le> t \<and> t < now + REPORT_COOLDOWN"
    and "later < now + REPORT_COOLDOWN"
  shows "snd (ask_report (fold guard_step evs g1) addr later) = False"
proof -
  have "\<exists>s. rg_seen (fold guard_step es g') addr = Some s \<and> now \<le> s"
    if "\<exists>s. rg_seen g' addr = Some s \<and> now \<le> s" "set es \<subseteq> set evs" for es g'
    using that
  proof (induction es arbitrary: g')
    case (Cons e es)
    from Cons.prems(1) obtain s where s: "rg_seen g' addr = Some s" "now \<le> s" by blast
    have "\<exists>s. rg_seen (guard_step e g') addr = Some s \<and> now \<le> s"
      by (rule report_seen_kept [OF s]) (use assms(2) Cons.prems(2) in auto)
    with Cons show ?case by simp
  qed simp
  moreover have "rg_seen g1 addr = Some now"
    using assms(1) by (auto simp: ask_report_def split: if_splits)
  ultimately obtain s where "rg_seen (fold guard_step evs g1) addr = Some s" "now \<le> s" by blast
  then show ?thesis using assms(3) by (auto simp: ask_report_def REPORT_COOLDOWN_def)
qed

lemma report_once_in_twenty_seconds_witness:
  "snd (ask_report (fold guard_step [ReportSent, ReportAsked (SocketAddr 2 2) 5, ReportSent]
     (fst (ask_report report_guard_new (SocketAddr 1 1) 3))) (SocketAddr 1 1) (secs 20)) = False"
  by (rule report_once_in_twenty_seconds [of report_guard_new _ 3])
    (auto simp: ask_report_def report_guard_new_def REPORT_COOLDOWN_def)

text \<open>
  The abstract transfer: the numbers of the parts that are in. A part that was there changes nothing; the
  last one delivers the text and empties the set.
\<close>

definition abs_arrive :: "nat \<Rightarrow> nat set \<Rightarrow> nat \<Rightarrow> nat set" where
  "abs_arrive n S i = (if insert i S = {..<n} then {} else insert i S)"

definition represents :: "u8 list list \<Rightarrow> nat set \<Rightarrow> report_rx \<Rightarrow> bool" where
  "represents cs S rx \<longleftrightarrow> S \<subseteq> {..<length cs} \<and> (rr_parts rx = slots cs S \<or> S = {} \<and> rr_parts rx = [])"

text \<open>The client's table of parts refines the set of the numbers that are in: every datagram of the transfer
  takes the table from one set to the next, in whatever order and however often, and the text is
  delivered exactly when the set is full.\<close>

theorem reassembly_refines_the_set:
  assumes "0 < length bytes" "length bytes \<le> 4096 * REPORT_PART" "i < length (report_datagrams bytes)"
    and "represents (chunks REPORT_PART bytes) S rx"
  shows "represents (chunks REPORT_PART bytes) (abs_arrive (length (report_datagrams bytes)) S i)
      (report_receive rx t (report_datagrams bytes ! i)) \<and>
    rr_report (report_receive rx t (report_datagrams bytes ! i)) =
      (if insert i S = {..<length (report_datagrams bytes)} then Some (utf8_lossy bytes) else rr_report rx)"
proof -
  note r = report_datagrams_read [OF assms(1,2)]
  let ?cs = "chunks REPORT_PART bytes"
  have i: "i < length ?cs" using assms(3) r(1) by simp
  have S: "S \<subseteq> {..<length ?cs}" "rr_parts rx = slots ?cs S \<or> S = {} \<and> rr_parts rx = []"
    using assms(4) by (auto simp: represents_def)
  show ?thesis
    using part_step [OF r(3) i S, of t] r(1,2,4) r(5) [OF i, of rx t] S(1) i
    by (cases "insert i S = {..<length ?cs}") (simp_all add: represents_def abs_arrive_def Let_def)
qed

lemma reassembly_refines_the_set_witness:
  "represents (chunks REPORT_PART long_report) {1} (report_receive no_report 5 (report_datagrams long_report ! 1))"
proof -
  have n: "{1} \<noteq> {..<2 :: nat}" by (simp add: numeral_2_eq_2 lessThan_Suc)
  have "represents (chunks REPORT_PART long_report) {} no_report" by (simp add: represents_def no_report_def)
  from reassembly_refines_the_set [OF long_ok _ this, of 1 5] n show ?thesis
    by (simp add: two_parts abs_arrive_def)
qed

end
