(* ===== verification/PttIntent.thy ===== *)
theory PttIntent
  imports Prelude
begin

text \<open>
  What an operator asks of one transmitter, on the client
  (\<^verbatim>\<open>sdr-remote-logic/src/ptt_intent.rs\<close>): the six places a press can come from, the
  exits that end the asking, the desktop's latches and its frame, and the choice of the
  one transmitter that gets the microphone.  \<^verbatim>\<open>held: [bool; 6]\<close>, indexed by source in the
  code, is a function of the source here, and the three-element arrays indexed by
  transmitter are functions of the transmitter.
\<close>

section \<open>The intent of one transmitter\<close>

datatype ptt_source = Mouse | Space | Midi | Screen | Bluetooth | VolumeKey

fun dies_with_its_surface :: "ptt_source \<Rightarrow> bool" where
  "dies_with_its_surface Mouse = True"
| "dies_with_its_surface Space = True"
| "dies_with_its_surface Screen = True"
| "dies_with_its_surface VolumeKey = True"
| "dies_with_its_surface Midi = False"
| "dies_with_its_surface Bluetooth = False"

lemma lives_on: "\<not> dies_with_its_surface s \<longleftrightarrow> s = Midi \<or> s = Bluetooth"
  by (cases s) simp_all

definition ALL_sources :: "ptt_source list" where
  "ALL_sources = [Mouse, Space, Midi, Screen, Bluetooth, VolumeKey]"

lemma set_ALL_sources [simp]: "set ALL_sources = UNIV"
  by (auto simp: ALL_sources_def intro: ptt_source.exhaust)

record ptt_intent =
  pi_held :: "ptt_source \<Rightarrow> bool"
  pi_needs_new_press :: bool

definition intent_default :: ptt_intent where
  "intent_default = \<lparr>pi_held = (\<lambda>_. False), pi_needs_new_press = False\<rparr>"

definition any_held :: "ptt_intent \<Rightarrow> bool" where
  "any_held i \<longleftrightarrow> list_ex (pi_held i) ALL_sources"

definition want_tx :: "ptt_intent \<Rightarrow> bool" where
  "want_tx i \<longleftrightarrow> any_held i \<and> \<not> pi_needs_new_press i"

definition is_held :: "ptt_intent \<Rightarrow> ptt_source \<Rightarrow> bool" where
  "is_held i s = pi_held i s"

definition settle :: "ptt_source list \<Rightarrow> ptt_intent \<Rightarrow> ptt_intent" where
  "settle resampled i =
     (if \<not> list_ex (is_held i) resampled then i\<lparr>pi_needs_new_press := False\<rparr> else i)"

definition set_needs_new_press :: "bool \<Rightarrow> ptt_intent \<Rightarrow> ptt_intent" where
  "set_needs_new_press v i = i\<lparr>pi_needs_new_press := v\<rparr>"

definition set_source :: "ptt_source \<Rightarrow> bool \<Rightarrow> ptt_intent \<Rightarrow> ptt_intent" where
  "set_source s h i = i\<lparr>pi_held := (pi_held i)(s := h)\<rparr>"

definition press_source :: "ptt_source \<Rightarrow> ptt_intent \<Rightarrow> ptt_intent" where
  "press_source s i = set_source s True i"

definition release_source :: "ptt_source \<Rightarrow> ptt_intent \<Rightarrow> ptt_intent" where
  "release_source s i = set_source s False i"

definition clear_all :: "ptt_intent \<Rightarrow> ptt_intent" where
  "clear_all i = i\<lparr>pi_needs_new_press := False, pi_held := (\<lambda>_. False)\<rparr>"

definition stop_and_wait_for_release :: "ptt_source list \<Rightarrow> ptt_intent \<Rightarrow> ptt_intent" where
  "stop_and_wait_for_release resampled i =
     (let will_return = list_ex (is_held i) resampled;
          j = fold (\<lambda>s k. if s \<notin> set resampled then set_source s False k else k) ALL_sources i
      in j\<lparr>pi_needs_new_press := will_return\<rparr>)"

text \<open>The exits, by the names the code gives them.\<close>

definition intent_refused :: "ptt_intent \<Rightarrow> ptt_intent" where
  "intent_refused i = clear_all i"

definition intent_busy :: "ptt_intent \<Rightarrow> ptt_intent" where
  "intent_busy i = clear_all i"

definition intent_disconnected :: "ptt_intent \<Rightarrow> ptt_intent" where
  "intent_disconnected i = clear_all i"

definition link_gone :: "ptt_source list \<Rightarrow> ptt_intent \<Rightarrow> ptt_intent" where
  "link_gone resampled i = stop_and_wait_for_release resampled i"

definition radio_left_tx :: "ptt_source list \<Rightarrow> ptt_intent \<Rightarrow> ptt_intent" where
  "radio_left_tx resampled i = stop_and_wait_for_release resampled i"

definition operator_stop :: "ptt_source list \<Rightarrow> ptt_intent \<Rightarrow> ptt_intent" where
  "operator_stop resampled i = stop_and_wait_for_release resampled i"

definition window_gone :: "ptt_intent \<Rightarrow> ptt_intent" where
  "window_gone i =
     (fold (\<lambda>s k. if dies_with_its_surface s then release_source s k else k) ALL_sources i)
       \<lparr>pi_needs_new_press := False\<rparr>"

text \<open>What the folds over the sources do, read as updates of the whole function.\<close>

lemma fold_release:
  "fold (\<lambda>s k. if P s then set_source s False k else k) ss i =
     i\<lparr>pi_held := (\<lambda>s. pi_held i s \<and> \<not> (s \<in> set ss \<and> P s))\<rparr>"
proof (induction ss arbitrary: i)
  case (Cons a ss)
  show ?case
    by (rule ptt_intent.equality) (auto simp: Cons.IH set_source_def fun_eq_iff)
qed simp

lemma any_held_iff: "any_held i \<longleftrightarrow> (\<exists>s. pi_held i s)"
  by (simp add: any_held_def list_ex_iff)

lemma want_tx_iff: "want_tx i \<longleftrightarrow> (\<exists>s. pi_held i s) \<and> \<not> pi_needs_new_press i"
  by (simp add: want_tx_def any_held_iff)

lemma settle_iff:
  "settle rs i = (if \<exists>s \<in> set rs. pi_held i s then i else i\<lparr>pi_needs_new_press := False\<rparr>)"
  by (auto simp: settle_def list_ex_iff is_held_def)

lemma stop_and_wait_iff:
  "stop_and_wait_for_release rs i =
     i\<lparr>pi_held := (\<lambda>s. pi_held i s \<and> s \<in> set rs),
       pi_needs_new_press := (\<exists>s \<in> set rs. pi_held i s)\<rparr>"
  by (simp add: stop_and_wait_for_release_def Let_def fold_release list_ex_iff is_held_def)

lemma window_gone_iff:
  "window_gone i =
     i\<lparr>pi_held := (\<lambda>s. pi_held i s \<and> \<not> dies_with_its_surface s), pi_needs_new_press := False\<rparr>"
  unfolding window_gone_def release_source_def fold_release by simp

lemma clear_all_fields [simp]:
  "pi_held (clear_all i) = (\<lambda>_. False)" "pi_needs_new_press (clear_all i) = False"
  "\<not> want_tx (clear_all i)"
  by (simp_all add: clear_all_def want_tx_iff)

lemma set_source_fields [simp]:
  "pi_held (set_source s h i) = (pi_held i)(s := h)"
  "pi_needs_new_press (set_source s h i) = pi_needs_new_press i"
  by (simp_all add: set_source_def)

lemmas intent_exits = intent_refused_def intent_busy_def intent_disconnected_def
  link_gone_def radio_left_tx_def operator_stop_def

section \<open>The desktop's latches\<close>

record latches =
  la_mouse :: bool
  la_space :: bool
  la_midi :: bool
  la_bluetooth :: bool
  la_needs_new_press :: bool

definition latches_default :: latches where
  "latches_default = \<lparr>la_mouse = False, la_space = False, la_midi = False,
                      la_bluetooth = False, la_needs_new_press = False\<rparr>"

definition latches_intent :: "latches \<Rightarrow> ptt_intent" where
  "latches_intent l =
     set_needs_new_press (la_needs_new_press l)
       (set_source Bluetooth (la_bluetooth l) (set_source Midi (la_midi l)
         (set_source Space (la_space l) (set_source Mouse (la_mouse l) intent_default))))"

definition from_intent :: "ptt_intent \<Rightarrow> latches" where
  "from_intent i = \<lparr>la_mouse = is_held i Mouse, la_space = is_held i Space,
                    la_midi = is_held i Midi, la_bluetooth = is_held i Bluetooth,
                    la_needs_new_press = pi_needs_new_press i\<rparr>"

definition latching_press :: "ptt_source \<Rightarrow> ptt_source list \<Rightarrow> latches \<Rightarrow> latches" where
  "latching_press source resampled l =
     (let i = latches_intent l
      in from_intent (if any_held i then operator_stop resampled i else set_source source True i))"

definition hold :: "ptt_source \<Rightarrow> bool \<Rightarrow> ptt_source list \<Rightarrow> latches \<Rightarrow> latches" where
  "hold source down resampled l =
     (let i = latches_intent l;
          j = (if down \<and> \<not> is_held i source
               then fold (\<lambda>s k. if s \<notin> set resampled then set_source s False k else k) ALL_sources i
               else i)
      in from_intent (settle resampled (set_source source down j)))"

definition latches_released :: "latches \<Rightarrow> latches" where
  "latches_released l = latches_default\<lparr>la_needs_new_press := la_needs_new_press l\<rparr>"

text \<open>One latch, by its source; the phone's two sources have none on the desktop.\<close>

fun latch :: "latches \<Rightarrow> ptt_source \<Rightarrow> bool" where
  "latch l Mouse = la_mouse l"
| "latch l Space = la_space l"
| "latch l Midi = la_midi l"
| "latch l Bluetooth = la_bluetooth l"
| "latch l Screen = False"
| "latch l VolumeKey = False"

lemma intent_held [simp]: "pi_held (latches_intent l) s = latch l s"
  by (cases s) (simp_all add: latches_intent_def set_needs_new_press_def set_source_def intent_default_def)

lemma intent_waits [simp]: "pi_needs_new_press (latches_intent l) = la_needs_new_press l"
  by (simp add: latches_intent_def set_needs_new_press_def)

lemma from_intent_latch:
  "latch (from_intent i) s = (pi_held i s \<and> s \<noteq> Screen \<and> s \<noteq> VolumeKey)"
  by (cases s) (simp_all add: from_intent_def is_held_def)

lemma from_intent_waits [simp]: "la_needs_new_press (from_intent i) = pi_needs_new_press i"
  by (simp add: from_intent_def)

lemma from_intent_of_intent [simp]: "from_intent (latches_intent l) = l"
  by (simp add: from_intent_def is_held_def)

lemma latches_eqI:
  "l = m" if "latch l = latch m" "la_needs_new_press l = la_needs_new_press m"
proof -
  have "la_mouse l = la_mouse m" "la_space l = la_space m" "la_midi l = la_midi m"
    "la_bluetooth l = la_bluetooth m"
    using fun_cong [OF that(1), of Mouse] fun_cong [OF that(1), of Space]
      fun_cong [OF that(1), of Midi] fun_cong [OF that(1), of Bluetooth] by simp_all
  then show ?thesis
    using that(2) by simp
qed

lemma latches_released_fields [simp]:
  "latch (latches_released l) s = False"
  "la_needs_new_press (latches_released l) = la_needs_new_press l"
  by (cases s) (simp_all add: latches_released_def latches_default_def)

lemma latch_phone [simp]: "latch l s \<Longrightarrow> s \<noteq> Screen" "latch l s \<Longrightarrow> s \<noteq> VolumeKey"
  by auto

definition desktop_source :: "ptt_source \<Rightarrow> bool" where
  "desktop_source s \<longleftrightarrow> s \<noteq> Screen \<and> s \<noteq> VolumeKey"

lemma latch_desktop: "latch l s \<Longrightarrow> desktop_source s"
  by (auto simp: desktop_source_def)

lemma hold_latch:
  "latch (hold src down rs l) s =
     (if s = src then down \<and> desktop_source src
      else latch l s \<and> (down \<and> \<not> latch l src \<longrightarrow> s \<in> set rs))"
  by (auto simp: hold_def Let_def fold_release from_intent_latch settle_iff is_held_def
      desktop_source_def)

lemma hold_waits:
  "la_needs_new_press (hold src down rs l) \<longleftrightarrow>
     la_needs_new_press l \<and>
     (if src \<in> set rs \<and> down then True else \<exists>s \<in> set rs. s \<noteq> src \<and> latch l s)"
  by (auto simp: hold_def Let_def fold_release settle_iff is_held_def)

lemma latching_press_latch:
  "latch (latching_press src rs l) s =
     (if \<exists>s. latch l s then latch l s \<and> s \<in> set rs else s = src \<and> desktop_source src)"
  by (auto simp: latching_press_def Let_def any_held_iff operator_stop_def stop_and_wait_iff
      from_intent_latch desktop_source_def)

lemma latching_press_waits:
  "la_needs_new_press (latching_press src rs l) =
     (if \<exists>s. latch l s then \<exists>s \<in> set rs. latch l s else la_needs_new_press l)"
  by (auto simp: latching_press_def Let_def any_held_iff operator_stop_def stop_and_wait_iff)

lemmas latch_updates = hold_latch hold_waits latching_press_latch latching_press_waits

section \<open>One frame of the desktop loop\<close>

record decision =
  de_latches :: latches
  de_want_tx :: bool
  de_send :: "bool option"

definition desktop_frame :: "latches \<Rightarrow> bool \<Rightarrow> bool \<Rightarrow> bool \<Rightarrow> decision" where
  "desktop_frame l window_open held_by_other last_sent =
     (let i = latches_intent l;
          i = (if \<not> window_open then window_gone i else i);
          i = (if held_by_other then intent_busy i else i);
          want = want_tx i
      in \<lparr>de_latches = from_intent i, de_want_tx = want,
          de_send = (if want = last_sent then None else Some want)\<rparr>)"

lemma desktop_frame_want:
  "de_want_tx (desktop_frame l w other sent) \<longleftrightarrow>
     \<not> other \<and> (\<exists>s. latch l s \<and> (w \<or> \<not> dies_with_its_surface s)) \<and>
     (w \<longrightarrow> \<not> la_needs_new_press l)"
  by (auto simp: desktop_frame_def Let_def want_tx_iff window_gone_iff intent_busy_def)

lemma desktop_frame_latch:
  "latch (de_latches (desktop_frame l w other sent)) s \<longleftrightarrow>
     \<not> other \<and> latch l s \<and> (w \<or> \<not> dies_with_its_surface s)"
  by (auto simp: desktop_frame_def Let_def from_intent_latch window_gone_iff intent_busy_def)

lemma desktop_frame_waits:
  "la_needs_new_press (de_latches (desktop_frame l w other sent)) \<longleftrightarrow>
     \<not> other \<and> w \<and> la_needs_new_press l"
  by (auto simp: desktop_frame_def Let_def window_gone_iff intent_busy_def)

lemmas desktop_frame_facts = desktop_frame_want desktop_frame_latch desktop_frame_waits

section \<open>One microphone\<close>

datatype ptt_target = PttThetis | PttYaesu0 | PttYaesu1

definition ALL_ptt :: "ptt_target list" where
  "ALL_ptt = [PttThetis, PttYaesu0, PttYaesu1]"

lemma set_ALL_ptt [simp]: "set ALL_ptt = UNIV"
  by (auto simp: ALL_ptt_def intro: ptt_target.exhaust)

record tx_arbitration =
  ta_granted :: "ptt_target \<Rightarrow> bool"
  ta_blocked :: "ptt_target \<Rightarrow> bool"

definition arbitrate ::
  "(ptt_target \<Rightarrow> bool) \<Rightarrow> (ptt_target \<Rightarrow> bool) \<Rightarrow> (ptt_target \<Rightarrow> bool) \<Rightarrow> bool \<Rightarrow> tx_arbitration"
where
  "arbitrate wants last_sent held_by_other multi_tx =
     (let want = (\<lambda>t. if held_by_other t then False else wants t)
      in if multi_tx then \<lparr>ta_granted = want, ta_blocked = (\<lambda>_. False)\<rparr>
         else let holder = find (\<lambda>t. want t \<and> last_sent t) ALL_ptt;
                  winner = (case holder of Some i \<Rightarrow> Some i | None \<Rightarrow> find want ALL_ptt)
              in case winner of
                   None \<Rightarrow> \<lparr>ta_granted = (\<lambda>_. False), ta_blocked = (\<lambda>_. False)\<rparr>
                 | Some w \<Rightarrow> \<lparr>ta_granted = (\<lambda>_. False)(w := True),
                             ta_blocked = (\<lambda>t. t \<noteq> w \<and> want t)\<rparr>)"

lemma arbitrate_multi:
  "ta_granted (arbitrate wants sent other True) t = (wants t \<and> \<not> other t)"
  "ta_blocked (arbitrate wants sent other True) t = False"
  by (simp_all add: arbitrate_def Let_def)

lemma find_ALL_ptt_None: "find P ALL_ptt = None \<longleftrightarrow> (\<forall>t. \<not> P t)"
  by (simp add: find_None_iff)

lemma find_ALL_ptt_Some: "find P ALL_ptt = Some t \<Longrightarrow> P t"
  by (auto simp: find_Some_iff)

text \<open>Without multi-TX there is a winner exactly when somebody free asks, and the answer
  is read off the winner.\<close>

definition arb_winner ::
  "(ptt_target \<Rightarrow> bool) \<Rightarrow> (ptt_target \<Rightarrow> bool) \<Rightarrow> (ptt_target \<Rightarrow> bool) \<Rightarrow> ptt_target option"
where
  "arb_winner wants sent other =
     (case find (\<lambda>t. wants t \<and> \<not> other t \<and> sent t) ALL_ptt of Some t \<Rightarrow> Some t
      | None \<Rightarrow> find (\<lambda>t. wants t \<and> \<not> other t) ALL_ptt)"

lemma arbitrate_single:
  "ta_granted (arbitrate wants sent other False) t \<longleftrightarrow> arb_winner wants sent other = Some t"
  "ta_blocked (arbitrate wants sent other False) t \<longleftrightarrow>
     wants t \<and> \<not> other t \<and> arb_winner wants sent other \<noteq> Some t"
proof -
  have cond: "(\<lambda>t. (if other t then False else wants t) \<and> sent t) = (\<lambda>t. wants t \<and> \<not> other t \<and> sent t)"
    "(\<lambda>t. if other t then False else wants t) = (\<lambda>t. wants t \<and> \<not> other t)"
    by auto
  show "ta_granted (arbitrate wants sent other False) t \<longleftrightarrow> arb_winner wants sent other = Some t"
    unfolding arbitrate_def arb_winner_def Let_def cond
    by (auto split: option.split)
  show "ta_blocked (arbitrate wants sent other False) t \<longleftrightarrow>
     wants t \<and> \<not> other t \<and> arb_winner wants sent other \<noteq> Some t"
    unfolding arbitrate_def arb_winner_def Let_def cond
    by (auto split: option.split simp: find_ALL_ptt_None)
qed

lemma arb_winner_Some:
  assumes "arb_winner wants sent other = Some t"
  shows "wants t" "\<not> other t" "sent u \<Longrightarrow> wants u \<Longrightarrow> \<not> other u \<Longrightarrow> sent t"
  using assms
  by (auto simp: arb_winner_def find_ALL_ptt_None split: option.splits dest!: find_ALL_ptt_Some)

lemma arb_winner_None: "arb_winner wants sent other = None \<longleftrightarrow> (\<forall>t. wants t \<longrightarrow> other t)"
  by (auto simp: arb_winner_def find_ALL_ptt_None split: option.splits dest!: find_ALL_ptt_Some)

text \<open>One microphone: what is granted and what is blocked are together exactly the requests
  for transmitters no other station holds, and never both; without multi-TX at most one is
  granted, exactly one when there is such a request, and it is one already on the
  air if one of them is.\<close>

theorem one_microphone:
  defines "a w l h m \<equiv> arbitrate w l h m"
  shows "(ta_granted (a w l h m) t \<or> ta_blocked (a w l h m) t \<longleftrightarrow> w t \<and> \<not> h t) \<and>
    \<not> (ta_granted (a w l h m) t \<and> ta_blocked (a w l h m) t) \<and>
    \<not> ta_blocked (a w l h True) t \<and>
    (\<exists>!u. ta_granted (a w l h False) u) = (\<exists>u. w u \<and> \<not> h u) \<and>
    (ta_granted (a w l h False) t \<and> w u \<and> \<not> h u \<and> l u \<longrightarrow> l t)"
proof -
  have "ta_granted (a w l h m) t \<or> ta_blocked (a w l h m) t \<longleftrightarrow> w t \<and> \<not> h t"
    unfolding a_def by (cases m) (auto simp: arbitrate_multi arbitrate_single dest: arb_winner_Some)
  moreover have "\<not> (ta_granted (a w l h m) t \<and> ta_blocked (a w l h m) t)"
    unfolding a_def by (cases m) (auto simp: arbitrate_multi arbitrate_single)
  moreover have "(\<exists>!u. ta_granted (a w l h False) u) = (\<exists>u. w u \<and> \<not> h u)"
    unfolding a_def arbitrate_single using arb_winner_None [of w l h] arb_winner_Some [of w l h]
    by (metis (no_types) not_Some_eq option.inject)
  moreover have "ta_granted (a w l h False) t \<and> w u \<and> \<not> h u \<and> l u \<longrightarrow> l t"
    unfolding a_def arbitrate_single using arb_winner_Some(3) by metis
  ultimately show ?thesis
    by (simp add: a_def arbitrate_multi)
qed

lemma one_microphone_witness:
  "ta_granted (arbitrate (\<lambda>t. t \<noteq> PttThetis) (\<lambda>t. t = PttYaesu1) (\<lambda>_. False) False) PttYaesu1 \<and>
   ta_blocked (arbitrate (\<lambda>t. t \<noteq> PttThetis) (\<lambda>t. t = PttYaesu1) (\<lambda>_. False) False) PttYaesu0"
proof -
  let ?a = "arbitrate (\<lambda>t. t \<noteq> PttThetis) (\<lambda>t. t = PttYaesu1) (\<lambda>_. False) False"
  have g: "ta_granted ?a PttYaesu1"
    by (simp add: arbitrate_def ALL_ptt_def)
  moreover have "\<not> ta_granted ?a PttYaesu0"
    using one_microphone [of "\<lambda>t. t \<noteq> PttThetis" "\<lambda>t. t = PttYaesu1" "\<lambda>_. False" False PttYaesu0 PttYaesu1]
    by auto
  ultimately show ?thesis
    using one_microphone [of "\<lambda>t. t \<noteq> PttThetis" "\<lambda>t. t = PttYaesu1" "\<lambda>_. False" False PttYaesu0 PttYaesu1]
    by auto
qed

end
