(* ===== verification/BlePtt.thy ===== *)
theory BlePtt
  imports PttIntent
begin

text \<open>
  The Bluetooth PTT button (\<^verbatim>\<open>sdr-remote-logic/src/ble_ptt.rs\<close>): what its link events and
  notification bytes say, which of them are still current, and which transmitter it keys.
\<close>

definition PRESSED :: u8 where
  "PRESSED = 1"

definition RELEASED :: u8 where
  "RELEASED = 0"

datatype ble_event = LinkConnected | LinkDisconnected | Notification u8

datatype ble_action = KeyDown | KeyUp | Gone | Unrecognised u8

datatype drop_policy = Reconnect | Close

definition on_drop :: "bool \<Rightarrow> drop_policy" where
  "on_drop wanted = (if wanted then Reconnect else Close)"

record ble_state =
  ble_held :: bool
  ble_generation :: u64

definition ble_new :: ble_state where
  "ble_new = \<lparr>ble_held = False, ble_generation = 0\<rparr>"

definition ble_gone :: "ble_state \<Rightarrow> ble_state \<times> ble_action option" where
  "ble_gone b = (b\<lparr>ble_held := False\<rparr>, Some Gone)"

definition ble_begin :: "u64 \<Rightarrow> ble_state \<Rightarrow> ble_state \<times> ble_action option" where
  "ble_begin generation b = ble_gone (b\<lparr>ble_generation := generation\<rparr>)"

definition ble_is_current :: "ble_state \<Rightarrow> u64 \<Rightarrow> bool" where
  "ble_is_current b generation \<longleftrightarrow> generation = ble_generation b"

definition ble_button_down :: "ble_state \<Rightarrow> ble_state \<times> ble_action option" where
  "ble_button_down b = (if ble_held b then (b, None) else (b\<lparr>ble_held := True\<rparr>, Some KeyDown))"

definition ble_button_up :: "ble_state \<Rightarrow> ble_state \<times> ble_action option" where
  "ble_button_up b = (if \<not> ble_held b then (b, None) else (b\<lparr>ble_held := False\<rparr>, Some KeyUp))"

definition ble_apply :: "u64 \<Rightarrow> ble_event \<Rightarrow> ble_state \<Rightarrow> ble_state \<times> ble_action option" where
  "ble_apply generation e b =
     (if \<not> ble_is_current b generation then (b, None)
      else case e of
             LinkConnected \<Rightarrow> ble_gone b
           | LinkDisconnected \<Rightarrow> ble_gone b
           | Notification n \<Rightarrow>
               if n = PRESSED then ble_button_down b
               else if n = RELEASED then ble_button_up b
               else (b, Some (Unrecognised n)))"

text \<open>\<^verbatim>\<open>configured: [bool; 3]\<close> and the number of a transmitter.  Past the third number the
  code falls back to the first one configured; \<^verbatim>\<open>position\<close> of none is the first.\<close>

fun ptt_idx :: "ptt_target \<Rightarrow> nat" where
  "ptt_idx PttThetis = 0"
| "ptt_idx PttYaesu0 = 1"
| "ptt_idx PttYaesu1 = 2"

definition ptt_at :: "nat \<Rightarrow> ptt_target option" where
  "ptt_at n = (if n = 0 then Some PttThetis else if n = 1 then Some PttYaesu0
               else if n = 2 then Some PttYaesu1 else None)"

definition effective_target :: "(ptt_target \<Rightarrow> bool) \<Rightarrow> u8 \<Rightarrow> bool \<Rightarrow> u8" where
  "effective_target configured chosen known =
     (if \<not> known then if unat chosen < 3 then chosen else 0
      else case ptt_at (unat chosen) of
             Some t \<Rightarrow> if configured t then chosen
                       else (case find configured ALL_ptt of
                               Some c \<Rightarrow> of_nat (ptt_idx c) | None \<Rightarrow> 0)
           | None \<Rightarrow> (case find configured ALL_ptt of Some c \<Rightarrow> of_nat (ptt_idx c) | None \<Rightarrow> 0))"

definition target_needs_a_choice :: "(ptt_target \<Rightarrow> bool) \<Rightarrow> bool" where
  "target_needs_a_choice configured \<longleftrightarrow> 2 \<le> length (filter configured ALL_ptt)"

lemma ptt_at_idx [simp]: "ptt_at (ptt_idx t) = Some t"
  by (cases t) (simp_all add: ptt_at_def)

lemma ptt_at_Some: "ptt_at n = Some t \<longleftrightarrow> n = ptt_idx t"
  by (cases t) (auto simp: ptt_at_def)

lemma ptt_idx_less [simp]: "ptt_idx t < 3"
  by (cases t) simp_all

lemma unat_ptt_idx [simp]: "unat (of_nat (ptt_idx t) :: u8) = ptt_idx t"
  by (cases t) simp_all

lemma effective_target_slot: "unat (effective_target configured chosen known) < 3"
  by (auto simp: effective_target_def ptt_at_Some split: option.split if_split)

section \<open>Over a run of events\<close>

text \<open>What the caller sees: the attempts it begins, and the events of the radio's callbacks,
  each with the attempt it was born in.\<close>

datatype ble_input = Begin u64 | Callback u64 ble_event

fun ble_input_step :: "ble_input \<Rightarrow> ble_state \<Rightarrow> ble_state \<times> ble_action option" where
  "ble_input_step (Begin g) b = ble_begin g b"
| "ble_input_step (Callback g e) b = ble_apply g e b"

fun ble_run :: "ble_input list \<Rightarrow> ble_state \<Rightarrow> ble_state \<times> ble_action list" where
  "ble_run [] b = (b, [])"
| "ble_run (i # is) b =
     (let (c, a) = ble_input_step i b; (d, as) = ble_run is c
      in (d, (case a of Some x \<Rightarrow> [x] | None \<Rightarrow> []) @ as))"

text \<open>The abstract button: down after a KeyDown, up after a KeyUp or a Gone.  A KeyDown is
  only spoken of when it is up, a KeyUp only when it is down.\<close>

fun follows :: "bool \<Rightarrow> ble_action list \<Rightarrow> bool" where
  "follows down [] = True"
| "follows down (KeyDown # as) \<longleftrightarrow> \<not> down \<and> follows True as"
| "follows down (KeyUp # as) \<longleftrightarrow> down \<and> follows False as"
| "follows down (Gone # as) = follows False as"
| "follows down (Unrecognised n # as) = follows down as"

fun button_after :: "bool \<Rightarrow> ble_action list \<Rightarrow> bool" where
  "button_after down [] = down"
| "button_after down (KeyDown # as) = button_after True as"
| "button_after down (KeyUp # as) = button_after False as"
| "button_after down (Gone # as) = button_after False as"
| "button_after down (Unrecognised n # as) = button_after down as"

lemma ble_step_cases:
  "case ble_input_step i b of (c, a) \<Rightarrow>
     (a = None \<and> c = b) \<or> (a = Some Gone \<and> \<not> ble_held c)
     \<or> (a = Some KeyDown \<and> \<not> ble_held b \<and> ble_held c)
     \<or> (a = Some KeyUp \<and> ble_held b \<and> \<not> ble_held c)
     \<or> (\<exists>n. a = Some (Unrecognised n) \<and> c = b)"
  by (cases i) (simp_all add: ble_begin_def ble_gone_def ble_apply_def ble_button_down_def
      ble_button_up_def split: ble_event.split)

lemma ble_run_follows: "follows (ble_held b) (snd (ble_run is b))"
proof (induction "is" arbitrary: b)
  case (Cons i "is")
  show ?case
    using ble_step_cases [where i = i and b = b] Cons.IH [of "fst (ble_input_step i b)"]
    by (auto simp: split_beta Let_def)
qed simp

lemma ble_run_button: "ble_held (fst (ble_run is b)) = button_after (ble_held b) (snd (ble_run is b))"
proof (induction "is" arbitrary: b)
  case (Cons i "is")
  show ?case
    using ble_step_cases [where i = i and b = b] Cons.IH [of "fst (ble_input_step i b)"]
    by (auto simp: split_beta Let_def)
qed simp

lemma ble_run_append:
  "ble_run (is @ js) b =
     (let (c, as) = ble_run is b; (d, bs) = ble_run js c in (d, as @ bs))"
  by (induction "is" arbitrary: b) (simp_all add: split_beta Let_def)

end
