(* ===== verification/DesktopPtt.thy ===== *)
theory DesktopPtt
  imports BlePtt
begin

text \<open>
  The transmit side of the desktop client (\<^verbatim>\<open>sdr-remote-client/src/ui\<close>): where the mouse, the
  spacebar, a MIDI button and a Bluetooth button reach the latches of the three
  transmitters, where a refusal, a lost link or a radio that stopped reaches them, and the
  one decision per frame that is sent to the server (\<^verbatim>\<open>drive_ptt\<close>).  The Thetis fields and the
  two-element Yaesu arrays of the code are one function of the transmitter here.  A command
  is the transmitter and the value sent (\<^verbatim>\<open>SetPtt\<close>, \<^verbatim>\<open>SetYaesuPtt\<close>, \<^verbatim>\<open>SetYaesu2Ptt\<close>); the TX
  profile chosen with it, the spike protection and the log are left out.
\<close>

section \<open>State and operations\<close>

datatype desktop_release = RefusedByServer | LinkGone | RadioLeftTx

record desktop =
  dk_latches :: "ptt_target \<Rightarrow> latches"
  dk_last_sent :: "ptt_target \<Rightarrow> bool"
  dk_toggle_mode :: "ptt_target \<Rightarrow> bool"
  dk_midi_toggle :: bool
  dk_ble_toggle :: bool
  dk_blocked_by_own :: "ptt_target \<Rightarrow> bool"
  dk_thetis_allowed :: bool

definition resampled_sources :: "desktop \<Rightarrow> ptt_target \<Rightarrow> ptt_source list" where
  "resampled_sources d t = (if dk_toggle_mode d t then [Space] else [Space, Mouse])"

definition with_latches :: "ptt_target \<Rightarrow> (latches \<Rightarrow> latches) \<Rightarrow> desktop \<Rightarrow> desktop" where
  "with_latches t f d = d\<lparr>dk_latches := (dk_latches d)(t := f (dk_latches d t))\<rparr>"

definition release_tx_latch :: "ptt_target \<Rightarrow> desktop_release \<Rightarrow> desktop \<Rightarrow> desktop" where
  "release_tx_latch t why d =
     (let resampled = resampled_sources d t;
          intent = latches_intent (dk_latches d t);
          next = from_intent (case why of
                   RefusedByServer \<Rightarrow> intent_refused intent
                 | LinkGone \<Rightarrow> link_gone resampled intent
                 | RadioLeftTx \<Rightarrow> radio_left_tx resampled intent);
          d = d\<lparr>dk_latches := (dk_latches d)(t := next)\<rparr>
      in if why = LinkGone then d\<lparr>dk_last_sent := (dk_last_sent d)(t := False)\<rparr> else d)"

definition release_all_ptt :: "desktop \<Rightarrow> desktop" where
  "release_all_ptt d = fold (\<lambda>t. release_tx_latch t LinkGone) ALL_ptt d"

text \<open>The PTT button and the spacebar of one window.  \<^verbatim>\<open>clicked\<close> is asked in toggle mode,
  \<^verbatim>\<open>pointer\<close> (held down on the button) in momentary mode.\<close>

definition window_ptt :: "ptt_target \<Rightarrow> bool \<Rightarrow> bool \<Rightarrow> bool \<Rightarrow> desktop \<Rightarrow> desktop" where
  "window_ptt t clicked pointer space_down d =
     (let rs = resampled_sources d t;
          mouse = (if dk_toggle_mode d t
                   then (\<lambda>l. if clicked then latching_press Mouse rs l else l)
                   else hold Mouse pointer rs)
      in with_latches t (\<lambda>l. hold Space space_down rs (mouse l)) d)"

definition thetis_bar :: "bool \<Rightarrow> bool \<Rightarrow> bool \<Rightarrow> bool \<Rightarrow> bool \<Rightarrow> desktop \<Rightarrow> desktop" where
  "thetis_bar clicked pointer space_down rx_only configured d =
     (let d = window_ptt PttThetis clicked pointer space_down d;
          d = (if rx_only \<or> \<not> configured then with_latches PttThetis latches_released d else d)
      in d\<lparr>dk_thetis_allowed := \<not> rx_only \<and> configured\<rparr>)"

definition midi_ptt :: "ptt_target \<Rightarrow> bool \<Rightarrow> desktop \<Rightarrow> desktop" where
  "midi_ptt t pressed d =
     (if dk_midi_toggle d
      then if pressed then with_latches t (latching_press Midi (resampled_sources d t)) d else d
      else with_latches t (la_midi_update (\<lambda>_. pressed)) d)"

definition tx_latches :: "u8 \<Rightarrow> ptt_target" where
  "tx_latches target = (if target = 0 then PttThetis else if target = 1 then PttYaesu0 else PttYaesu1)"

definition ble_press :: "u8 \<Rightarrow> bool \<Rightarrow> desktop \<Rightarrow> desktop" where
  "ble_press target down d =
     (let t = tx_latches target; rs = resampled_sources d t
      in with_latches t
           (if dk_ble_toggle d then (if down then latching_press Bluetooth rs else (\<lambda>l. l))
            else hold Bluetooth down rs) d)"

definition ble_release_all :: "desktop \<Rightarrow> desktop" where
  "ble_release_all d =
     fold (\<lambda>target e. let t = tx_latches target
                      in with_latches t (hold Bluetooth False (resampled_sources e t)) e)
       [0, 1, 2] d"

definition apply_ble_action :: "u8 \<Rightarrow> ble_action \<Rightarrow> desktop \<Rightarrow> desktop" where
  "apply_ble_action target a d =
     (case a of KeyDown \<Rightarrow> ble_press target True d | KeyUp \<Rightarrow> ble_press target False d
      | Gone \<Rightarrow> ble_release_all d | Unrecognised _ \<Rightarrow> d)"

text \<open>What a frame knows besides: the open pop-outs, the server's ownership table, the missing
  microphone and whether several transmitters may share it.\<close>

record frame_env =
  fe_popout :: "ptt_target \<Rightarrow> bool"
  fe_held_by_other :: "ptt_target \<Rightarrow> bool"
  fe_mic_missing :: bool
  fe_multi_tx :: bool

definition frame_of :: "frame_env \<Rightarrow> desktop \<Rightarrow> ptt_target \<Rightarrow> decision" where
  "frame_of v d t = desktop_frame (dk_latches d t) (t = PttThetis \<or> fe_popout v t)
                      (fe_held_by_other v t \<or> fe_mic_missing v) (dk_last_sent d t)"

definition drive_ptt :: "frame_env \<Rightarrow> desktop \<Rightarrow> desktop \<times> (ptt_target \<times> bool) list" where
  "drive_ptt v d =
     (let wants = (\<lambda>t. de_want_tx (frame_of v d t) \<and> (t = PttThetis \<longrightarrow> dk_thetis_allowed d));
          arb = arbitrate wants (dk_last_sent d) (fe_held_by_other v) (fe_multi_tx v);
          changed = filter (\<lambda>t. ta_granted arb t \<noteq> dk_last_sent d t) ALL_ptt;
          framed = (\<lambda>t. de_latches (frame_of v d t));
          refused = (\<lambda>t. if ta_blocked arb t then latches_released (framed t) else framed t);
          kept = (\<lambda>t. if t \<noteq> PttThetis \<and> t \<in> set changed \<and> \<not> ta_granted arb t
                      then latches_released (refused t) else refused t)
      in (d\<lparr>dk_latches := kept, dk_blocked_by_own := ta_blocked arb,
            dk_last_sent := (\<lambda>t. if t \<in> set changed then ta_granted arb t else dk_last_sent d t)\<rparr>,
          map (\<lambda>t. (t, ta_granted arb t)) changed))"

section \<open>What the operations do to one transmitter\<close>

lemma with_latches_fields [simp]:
  "dk_latches (with_latches t f d) u = (if u = t then f (dk_latches d t) else dk_latches d u)"
  "dk_last_sent (with_latches t f d) = dk_last_sent d"
  "dk_toggle_mode (with_latches t f d) = dk_toggle_mode d"
  "dk_thetis_allowed (with_latches t f d) = dk_thetis_allowed d"
  by (simp_all add: with_latches_def)

lemma resampled_with_latches [simp]:
  "resampled_sources (with_latches t f d) u = resampled_sources d u"
  by (simp add: resampled_sources_def)

lemma resampled_keys: "s \<in> set (resampled_sources d t) \<Longrightarrow> s = Space \<or> s = Mouse"
  by (auto simp: resampled_sources_def split: if_splits)

lemma release_tx_latch_fields [simp]:
  "dk_toggle_mode (release_tx_latch t why d) = dk_toggle_mode d"
  "dk_last_sent (release_tx_latch t why d) u = (if u = t \<and> why = LinkGone then False else dk_last_sent d u)"
  "dk_thetis_allowed (release_tx_latch t why d) = dk_thetis_allowed d"
  by (simp_all add: release_tx_latch_def Let_def)

lemma release_tx_latch_other:
  "u \<noteq> t \<Longrightarrow> dk_latches (release_tx_latch t why d) u = dk_latches d u"
  by (simp add: release_tx_latch_def Let_def)

lemma release_tx_latch_latch:
  "latch (dk_latches (release_tx_latch t why d) t) s \<longleftrightarrow>
     why \<noteq> RefusedByServer \<and> latch (dk_latches d t) s \<and> s \<in> set (resampled_sources d t)"
  by (auto simp: release_tx_latch_def Let_def intent_exits from_intent_latch stop_and_wait_iff
      split: desktop_release.split)

lemma release_tx_latch_waits:
  "la_needs_new_press (dk_latches (release_tx_latch t why d) t) \<longleftrightarrow>
     why \<noteq> RefusedByServer \<and> (\<exists>s \<in> set (resampled_sources d t). latch (dk_latches d t) s)"
  by (auto simp: release_tx_latch_def Let_def intent_exits stop_and_wait_iff
      split: desktop_release.split)

lemmas release_facts = release_tx_latch_other release_tx_latch_latch release_tx_latch_waits

lemma resampled_release [simp]:
  "resampled_sources (release_tx_latch t why d) u = resampled_sources d u"
  by (simp add: resampled_sources_def)

lemma release_all_fields:
  "dk_last_sent (release_all_ptt d) t = False"
  "dk_toggle_mode (release_all_ptt d) = dk_toggle_mode d"
  "dk_latches (release_all_ptt d) t = dk_latches (release_tx_latch t LinkGone d) t"
  by (cases t; simp add: release_all_ptt_def ALL_ptt_def release_tx_latch_def resampled_sources_def Let_def)+

definition granted_by :: "frame_env \<Rightarrow> desktop \<Rightarrow> ptt_target \<Rightarrow> bool" where
  "granted_by v d t =
     ta_granted (arbitrate (\<lambda>t. de_want_tx (frame_of v d t) \<and> (t = PttThetis \<longrightarrow> dk_thetis_allowed d))
                  (dk_last_sent d) (fe_held_by_other v) (fe_multi_tx v)) t"

definition blocked_by :: "frame_env \<Rightarrow> desktop \<Rightarrow> ptt_target \<Rightarrow> bool" where
  "blocked_by v d t =
     ta_blocked (arbitrate (\<lambda>t. de_want_tx (frame_of v d t) \<and> (t = PttThetis \<longrightarrow> dk_thetis_allowed d))
                  (dk_last_sent d) (fe_held_by_other v) (fe_multi_tx v)) t"

lemma drive_last_sent: "dk_last_sent (fst (drive_ptt v d)) t = granted_by v d t"
  by (auto simp: drive_ptt_def Let_def granted_by_def)

lemma drive_sent: "(t, b) \<in> set (snd (drive_ptt v d)) \<longleftrightarrow> b = granted_by v d t \<and> b \<noteq> dk_last_sent d t"
  by (auto simp: drive_ptt_def Let_def granted_by_def)

lemma drive_toggle [simp]: "dk_toggle_mode (fst (drive_ptt v d)) = dk_toggle_mode d"
  "dk_thetis_allowed (fst (drive_ptt v d)) = dk_thetis_allowed d"
  by (simp_all add: drive_ptt_def Let_def)

lemma drive_latches:
  "dk_latches (fst (drive_ptt v d)) t =
     (if blocked_by v d t \<or> t \<noteq> PttThetis \<and> dk_last_sent d t \<and> \<not> granted_by v d t
      then latches_released (de_latches (frame_of v d t)) else de_latches (frame_of v d t))"
  by (auto simp: drive_ptt_def Let_def granted_by_def blocked_by_def latches_released_def)

text \<open>What is granted or blocked was asked for and free.\<close>

lemma arbitrate_wants:
  "ta_granted (arbitrate w l h m) t \<or> ta_blocked (arbitrate w l h m) t \<longleftrightarrow> w t \<and> \<not> h t"
  by (cases m) (auto simp: arbitrate_multi arbitrate_single dest: arb_winner_Some)

lemma asked_in_frame:
  "granted_by v d t \<or> blocked_by v d t \<longleftrightarrow>
     de_want_tx (frame_of v d t) \<and> (t = PttThetis \<longrightarrow> dk_thetis_allowed d) \<and> \<not> fe_held_by_other v t"
  by (simp add: granted_by_def blocked_by_def arbitrate_wants)

lemma granted_not_blocked: "granted_by v d t \<Longrightarrow> \<not> blocked_by v d t"
  by (cases "fe_multi_tx v")
    (auto simp: granted_by_def blocked_by_def arbitrate_multi arbitrate_single)

section \<open>Runs\<close>

datatype desktop_event =
    StopAsked ptt_target desktop_release
  | LinkLost
  | RadioWindow ptt_target bool bool bool
  | ThetisBar bool bool bool bool bool
  | MidiPtt ptt_target bool
  | BleAct u8 ble_action
  | ToggleMode ptt_target bool
  | MidiToggle bool
  | BleToggle bool
  | FrameEnd frame_env

fun desktop_step :: "desktop_event \<Rightarrow> desktop \<Rightarrow> desktop \<times> (ptt_target \<times> bool) list" where
  "desktop_step (StopAsked t why) d = (release_tx_latch t why d, [])"
| "desktop_step LinkLost d = (release_all_ptt d, [])"
| "desktop_step (RadioWindow t clicked pointer space) d = (window_ptt t clicked pointer space d, [])"
| "desktop_step (ThetisBar clicked pointer space rx_only configured) d =
     (thetis_bar clicked pointer space rx_only configured d, [])"
| "desktop_step (MidiPtt t pressed) d = (midi_ptt t pressed d, [])"
| "desktop_step (BleAct target a) d = (apply_ble_action target a d, [])"
| "desktop_step (ToggleMode t b) d = (d\<lparr>dk_toggle_mode := (dk_toggle_mode d)(t := b)\<rparr>, [])"
| "desktop_step (MidiToggle b) d = (d\<lparr>dk_midi_toggle := b\<rparr>, [])"
| "desktop_step (BleToggle b) d = (d\<lparr>dk_ble_toggle := b\<rparr>, [])"
| "desktop_step (FrameEnd v) d = drive_ptt v d"

fun desktop_run :: "desktop_event list \<Rightarrow> desktop \<Rightarrow> desktop \<times> (ptt_target \<times> bool) list" where
  "desktop_run [] d = (d, [])"
| "desktop_run (e # es) d =
     (let (d', c) = desktop_step e d; (d'', cs) = desktop_run es d' in (d'', c @ cs))"

lemma desktop_run_append:
  "desktop_run (es @ fs) d =
     (let (d', cs) = desktop_run es d; (d'', ds) = desktop_run fs d' in (d'', cs @ ds))"
  by (induction es arbitrary: d) (simp_all add: split_beta Let_def)

text \<open>What a server believes that hears every command, and lets a client go when its link is
  gone.\<close>

definition hear :: "(ptt_target \<times> bool) list \<Rightarrow> (ptt_target \<Rightarrow> bool) \<Rightarrow> ptt_target \<Rightarrow> bool" where
  "hear cs on = fold (\<lambda>(t, b) f. f(t := b)) cs on"

fun server_after :: "desktop_event \<Rightarrow> desktop \<Rightarrow> (ptt_target \<Rightarrow> bool) \<Rightarrow> ptt_target \<Rightarrow> bool" where
  "server_after (StopAsked t LinkGone) d on = on(t := False)"
| "server_after LinkLost d on = (\<lambda>_. False)"
| "server_after e d on = hear (snd (desktop_step e d)) on"

fun server_hears :: "desktop_event list \<Rightarrow> desktop \<Rightarrow> (ptt_target \<Rightarrow> bool) \<Rightarrow> ptt_target \<Rightarrow> bool" where
  "server_hears [] d on = on"
| "server_hears (e # es) d on = server_hears es (fst (desktop_step e d)) (server_after e d on)"

lemma hear_map:
  "hear (map (\<lambda>t. (t, g t)) ts) on = (\<lambda>t. if t \<in> set ts then g t else on t)"
  by (induction ts arbitrary: on) (auto simp: hear_def fun_eq_iff)

lemma window_ptt_sent [simp]: "dk_last_sent (window_ptt t c p s d) = dk_last_sent d"
  by (simp add: window_ptt_def Let_def)

lemma thetis_bar_sent [simp]: "dk_last_sent (thetis_bar c p s rx conf d) = dk_last_sent d"
  by (simp add: thetis_bar_def Let_def)

lemma midi_ptt_sent [simp]: "dk_last_sent (midi_ptt t b d) = dk_last_sent d"
  by (simp add: midi_ptt_def)

lemma ble_sent [simp]: "dk_last_sent (apply_ble_action target a d) = dk_last_sent d"
  by (simp add: apply_ble_action_def ble_press_def ble_release_all_def Let_def split: ble_action.split)

lemma hear_Nil [simp]: "hear [] on = on"
  by (simp add: hear_def)

lemma drive_heard: "hear (snd (drive_ptt v d)) (dk_last_sent d) = dk_last_sent (fst (drive_ptt v d))"
  by (auto simp: drive_ptt_def Let_def hear_map fun_eq_iff)

lemma server_after_sent:
  "server_after e d (dk_last_sent d) = dk_last_sent (fst (desktop_step e d))"
proof (cases e)
  case (StopAsked t why)
  then show ?thesis
    by (cases why) (simp_all add: fun_eq_iff)
qed (simp_all add: fun_eq_iff release_all_fields drive_heard)

lemma server_hears_sent:
  "server_hears es d (dk_last_sent d) = dk_last_sent (fst (desktop_run es d))"
  by (induction es arbitrary: d) (simp_all add: server_after_sent split_beta Let_def)

text \<open>A request the frame can grant: a control holds the transmitter - with a Yaesu's window shut only a
  MIDI or Bluetooth button counts -, none of them has to be let go first, no other station holds the
  transmitter, there is a microphone, and Thetis may transmit.\<close>

definition asks :: "frame_env \<Rightarrow> desktop \<Rightarrow> ptt_target \<Rightarrow> bool" where
  "asks v d t \<longleftrightarrow>
     (let open_window = (t = PttThetis \<or> fe_popout v t); l = dk_latches d t
      in list_ex (\<lambda>s. latch l s \<and> (open_window \<or> s = Midi \<or> s = Bluetooth)) ALL_sources
         \<and> (open_window \<longrightarrow> \<not> la_needs_new_press l)
         \<and> \<not> fe_held_by_other v t \<and> \<not> fe_mic_missing v \<and> (t = PttThetis \<longrightarrow> dk_thetis_allowed d))"

lemma asks_iff:
  "asks v d t \<longleftrightarrow> de_want_tx (frame_of v d t) \<and> (t = PttThetis \<longrightarrow> dk_thetis_allowed d) \<and> \<not> fe_held_by_other v t"
  by (auto simp: asks_def frame_of_def desktop_frame_want list_ex_iff lives_on Let_def)

text \<open>C6. Whatever the operator, the server and the link did before, at the end of every frame a
  server that heard this client's commands has exactly these of its transmitters keyed: with
  multi-TX every one the operator asks for and may have (\<open>asks\<close>), without it one of them - the first
  that was keyed already, else the first in the order Thetis, first Yaesu, second Yaesu - and none when
  nothing is asked for.\<close>

theorem frame_keys_one_free_transmitter:
  fixes d :: desktop and es :: "desktop_event list" and v :: frame_env
  defines "on \<equiv> server_hears (es @ [FrameEnd v]) d (\<lambda>_. False)"
    and "was_on \<equiv> server_hears es d (\<lambda>_. False)"
    and "asked \<equiv> asks v (fst (desktop_run es d))"
  assumes "dk_last_sent d = (\<lambda>_. False)"
  shows "on t \<longleftrightarrow>
    (if fe_multi_tx v then asked t
     else (case find (\<lambda>u. asked u \<and> was_on u) ALL_ptt of Some u \<Rightarrow> Some u | None \<Rightarrow> find asked ALL_ptt) = Some t)"
proof -
  define before where "before = fst (desktop_run es d)"
  have "on t = dk_last_sent (fst (desktop_run (es @ [FrameEnd v]) d)) t"
    unfolding on_def assms(4) [symmetric] server_hears_sent ..
  then have on: "on t = granted_by v before t"
    by (simp add: desktop_run_append before_def split_beta Let_def drive_last_sent)
  have was: "was_on = dk_last_sent before"
    unfolding was_on_def before_def assms(4) [symmetric] server_hears_sent ..
  have "asked u \<longleftrightarrow> (de_want_tx (frame_of v before u) \<and> (u = PttThetis \<longrightarrow> dk_thetis_allowed before)) \<and> \<not> fe_held_by_other v u" for u
    unfolding asked_def before_def asks_iff by blast
  then have "asked = (\<lambda>u. (de_want_tx (frame_of v before u) \<and> (u = PttThetis \<longrightarrow> dk_thetis_allowed before)) \<and> \<not> fe_held_by_other v u)"
    by (rule ext)
  note asked = this
  show ?thesis
    unfolding on granted_by_def was asked
    by (cases "fe_multi_tx v") (simp_all add: arbitrate_multi arbitrate_single arb_winner_def conj_assoc)
qed

lemma desktop_run_step [simp]: "desktop_run [e] d = desktop_step e d"
  by (simp add: split_beta Let_def)

definition quiet_desktop :: desktop where
  "quiet_desktop = \<lparr>dk_latches = (\<lambda>_. latches_default), dk_last_sent = (\<lambda>_. False),
     dk_toggle_mode = (\<lambda>_. False), dk_midi_toggle = True, dk_ble_toggle = False,
     dk_blocked_by_own = (\<lambda>_. False), dk_thetis_allowed = False\<rparr>"

definition free_env :: frame_env where
  "free_env = \<lparr>fe_popout = (\<lambda>_. True), fe_held_by_other = (\<lambda>_. False),
     fe_mic_missing = False, fe_multi_tx = False\<rparr>"

lemmas desktop_eval = quiet_desktop_def free_env_def drive_ptt_def frame_of_def desktop_frame_def
  window_ptt_def with_latches_def resampled_sources_def release_tx_latch_def Let_def
  ALL_ptt_def ALL_sources_def hold_def latching_press_def latches_intent_def from_intent_def
  latches_default_def latches_released_def intent_default_def set_needs_new_press_def
  set_source_def settle_def is_held_def any_held_def want_tx_def arbitrate_def
  radio_left_tx_def link_gone_def intent_refused_def stop_and_wait_for_release_def
  release_source_def clear_all_def window_gone_def intent_busy_def midi_ptt_def

lemma frame_keys_one_free_transmitter_witness:
  "let es = [RadioWindow PttYaesu0 False False True, RadioWindow PttYaesu1 False False True]
   in server_hears (es @ [FrameEnd free_env]) quiet_desktop (\<lambda>_. False) PttYaesu0
      \<and> \<not> server_hears (es @ [FrameEnd free_env]) quiet_desktop (\<lambda>_. False) PttYaesu1"
proof -
  let ?es = "[RadioWindow PttYaesu0 False False True, RadioWindow PttYaesu1 False False True]"
  have "dk_last_sent quiet_desktop = (\<lambda>_. False)"
    by (simp add: quiet_desktop_def)
  note exact = frame_keys_one_free_transmitter [OF this, where es = ?es and v = free_env]
  have "asks free_env (fst (desktop_run ?es quiet_desktop)) t \<longleftrightarrow> t \<noteq> PttThetis" for t
    by (cases t) (simp_all add: asks_def desktop_eval)
  moreover have "server_hears ?es quiet_desktop (\<lambda>_. False) t = False" for t
    by (simp add: hear_def)
  ultimately show ?thesis
    unfolding Let_def exact by (simp add: free_env_def ALL_ptt_def)
qed

section \<open>Waiting for a fresh press\<close>

text \<open>A transmitter waits on a key that is still down and that its window reads again every
  frame.\<close>

definition waits_on :: "ptt_target \<Rightarrow> ptt_source \<Rightarrow> desktop \<Rightarrow> bool" where
  "waits_on t s d \<longleftrightarrow> la_needs_new_press (dk_latches d t) \<and> latch (dk_latches d t) s \<and>
     s \<in> set (resampled_sources d t) \<and> (t = PttThetis \<or> \<not> dk_last_sent d t)"

text \<open>What does not end it: everything but the key coming up, the refusals that mean the
  request is over, the window shut, an antenna that may not transmit and a changed setting.\<close>

fun key_stays_down :: "ptt_target \<Rightarrow> ptt_source \<Rightarrow> desktop_event \<Rightarrow> bool" where
  "key_stays_down t s (StopAsked u why) \<longleftrightarrow> u = t \<longrightarrow> why \<noteq> RefusedByServer"
| "key_stays_down t s LinkLost \<longleftrightarrow> True"
| "key_stays_down t s (RadioWindow u clicked pointer space) \<longleftrightarrow>
     u = t \<longrightarrow> (s = Space \<longrightarrow> space) \<and> (s = Mouse \<longrightarrow> pointer)"
| "key_stays_down t s (ThetisBar clicked pointer space rx_only configured) \<longleftrightarrow>
     t = PttThetis \<longrightarrow> (s = Space \<longrightarrow> space) \<and> (s = Mouse \<longrightarrow> pointer) \<and> \<not> rx_only \<and> configured"
| "key_stays_down t s (MidiPtt u b) \<longleftrightarrow> True"
| "key_stays_down t s (BleAct n a) \<longleftrightarrow> True"
| "key_stays_down t s (ToggleMode u b) \<longleftrightarrow> u \<noteq> t"
| "key_stays_down t s (MidiToggle b) \<longleftrightarrow> True"
| "key_stays_down t s (BleToggle b) \<longleftrightarrow> True"
| "key_stays_down t s (FrameEnd v) \<longleftrightarrow>
     \<not> fe_held_by_other v t \<and> \<not> fe_mic_missing v \<and> (t = PttThetis \<or> fe_popout v t)"

definition waiting :: "ptt_source \<Rightarrow> ptt_source list \<Rightarrow> latches \<Rightarrow> bool" where
  "waiting s rs l \<longleftrightarrow> la_needs_new_press l \<and> latch l s \<and> s \<in> set rs"

lemma waiting_hold:
  "waiting s rs l \<Longrightarrow> (src = s \<longrightarrow> down) \<Longrightarrow> waiting s rs (hold src down rs l)"
  by (auto simp: waiting_def latch_updates dest: latch_desktop)

lemma waiting_latching_press: "waiting s rs l \<Longrightarrow> waiting s rs (latching_press src rs l)"
  by (auto simp: waiting_def latch_updates)

lemma waiting_midi: "waiting s rs l \<Longrightarrow> s \<noteq> Midi \<Longrightarrow> waiting s rs (la_midi_update f l)"
  by (cases s) (auto simp: waiting_def)

lemma fold_preserves:
  "P d \<Longrightarrow> (\<And>x e. P e \<Longrightarrow> P (f x e)) \<Longrightarrow> P (fold f xs d)"
  by (induction xs arbitrary: d) auto

lemma waits_on_alt:
  "waits_on t s d \<longleftrightarrow> waiting s (resampled_sources d t) (dk_latches d t) \<and>
     (t = PttThetis \<or> \<not> dk_last_sent d t)"
  by (auto simp: waits_on_def waiting_def)

lemma resampled_cong: "dk_toggle_mode d = dk_toggle_mode e \<Longrightarrow> resampled_sources d t = resampled_sources e t"
  by (simp add: resampled_sources_def)

lemma waits_on_with_latches:
  "waits_on t s d \<Longrightarrow> (u = t \<Longrightarrow> waiting s (resampled_sources d t) (f (dk_latches d t))) \<Longrightarrow>
     waits_on t s (with_latches u f d)"
  by (auto simp: waits_on_alt)

lemma waits_on_release:
  "waits_on t s d \<Longrightarrow> (u = t \<longrightarrow> why \<noteq> RefusedByServer) \<Longrightarrow> waits_on t s (release_tx_latch u why d)"
  by (cases "u = t") (auto simp: waits_on_def release_facts)

lemma waits_on_window:
  assumes "waits_on t s d" "u = t \<longrightarrow> (s = Space \<longrightarrow> space) \<and> (s = Mouse \<longrightarrow> pointer)"
  shows "waits_on t s (window_ptt u clicked pointer space d)"
  unfolding window_ptt_def Let_def
  by (rule waits_on_with_latches)
    (use assms in \<open>auto simp: waits_on_alt intro!: waiting_hold waiting_latching_press\<close>)

lemma waits_on_ble: "waits_on t s d \<Longrightarrow> waits_on t s (apply_ble_action n a d)"
proof -
  assume w: "waits_on t s d"
  then have s: "s \<noteq> Bluetooth"
    by (auto simp: waits_on_def dest: resampled_keys)
  have hold_off: "waits_on t s (with_latches u (hold Bluetooth down (resampled_sources e u)) e)"
    if "waits_on t s e" for u down e
    using that s by (auto intro!: waits_on_with_latches waiting_hold simp: waits_on_alt)
  have "waits_on t s (with_latches u (latching_press Bluetooth (resampled_sources e u)) e)"
    if "waits_on t s e" for u e
    using that by (auto intro!: waits_on_with_latches waiting_latching_press simp: waits_on_alt)
  moreover have "waits_on t s (with_latches u (\<lambda>l. l) d)" for u
    using w by (auto intro!: waits_on_with_latches simp: waits_on_alt)
  moreover have "waits_on t s (ble_release_all d)"
    unfolding ble_release_all_def
    by (rule fold_preserves [where P = "waits_on t s"]) (use w hold_off in \<open>simp_all add: Let_def\<close>)
  ultimately show ?thesis
    using w hold_off by (simp add: apply_ble_action_def ble_press_def Let_def split: ble_action.split)
qed

lemma waits_on_asks_nothing: "waits_on t s d \<Longrightarrow> t = PttThetis \<or> fe_popout v t \<Longrightarrow>
    \<not> granted_by v d t \<and> \<not> blocked_by v d t"
  using asked_in_frame [of v d t] by (auto simp: waits_on_def frame_of_def desktop_frame_want)

lemma waits_on_drive:
  assumes "waits_on t s d" "key_stays_down t s (FrameEnd v)"
  shows "waits_on t s (fst (drive_ptt v d))"
proof -
  have "resampled_sources (fst (drive_ptt v d)) t = resampled_sources d t"
    by (rule resampled_cong) simp
  then show ?thesis
    using assms waits_on_asks_nothing [OF assms(1), of v]
    by (auto simp: waits_on_def drive_latches drive_last_sent frame_of_def desktop_frame_facts)
qed

lemma waits_on_step:
  assumes "waits_on t s d" "key_stays_down t s e"
  shows "waits_on t s (fst (desktop_step e d)) \<and> (t, True) \<notin> set (snd (desktop_step e d))"
proof (cases e)
  case LinkLost
  then show ?thesis
    using assms by (simp add: release_all_ptt_def ALL_ptt_def waits_on_release)
next
  case (ThetisBar clicked pointer space rx_only configured)
  then have "waits_on t s (window_ptt PttThetis clicked pointer space d)"
    using assms by (auto intro: waits_on_window)
  then show ?thesis
    using ThetisBar assms(2)
    by (auto simp: thetis_bar_def Let_def waits_on_alt resampled_sources_def)
next
  case (MidiPtt u b)
  have "waits_on t s (midi_ptt u b d)"
    using assms(1) resampled_keys [of s d t] unfolding midi_ptt_def
    by (auto intro!: waits_on_with_latches waiting_latching_press waiting_midi simp: waits_on_alt)
      (auto simp: waiting_def)
  then show ?thesis
    using MidiPtt by simp
next
  case (FrameEnd v)
  then show ?thesis
    using assms waits_on_drive [OF assms(1)] waits_on_asks_nothing [OF assms(1), of v]
    by (auto simp: drive_sent)
next
  case (StopAsked u why)
  then show ?thesis
    using assms by (auto intro: waits_on_release)
next
  case (RadioWindow u clicked pointer space)
  then show ?thesis
    using assms by (auto intro: waits_on_window)
next
  case (BleAct n a)
  then show ?thesis
    using assms by (auto intro: waits_on_ble)
qed (use assms in \<open>auto simp: waits_on_def resampled_sources_def\<close>)

lemma waits_on_run:
  "waits_on t s d \<Longrightarrow> list_all (key_stays_down t s) es \<Longrightarrow>
     (t, True) \<notin> set (snd (desktop_run es d)) \<and> waits_on t s (fst (desktop_run es d))"
proof (induction es arbitrary: d)
  case (Cons e es)
  then show ?case
    using waits_on_step [OF Cons.prems(1), of e] by (auto simp: split_beta Let_def)
qed simp

text \<open>When a transmitter's radio stops on its own or the link goes while a key is held that
  its window reads every frame, no later event makes the client ask for that transmitter
  again as long as the key stays down, no refusal ends the request and its window stays open
  and free.  For a Yaesu that has stopped on its own this holds once the client has
  said so to the server.\<close>

theorem held_key_does_not_rekey:
  assumes "latch (dk_latches d t) s" and "s \<in> set (resampled_sources d t)"
    and "why \<noteq> RefusedByServer" and "why = RadioLeftTx \<and> t \<noteq> PttThetis \<Longrightarrow> \<not> dk_last_sent d t"
    and "list_all (key_stays_down t s) es"
  shows "(t, True) \<notin> set (snd (desktop_run (StopAsked t why # es) d))"
proof -
  have "waits_on t s (release_tx_latch t why d)"
    using assms(1-4) by (cases why) (auto simp: waits_on_def release_facts)
  then show ?thesis
    using waits_on_run assms(5) by (simp add: split_beta Let_def)
qed

lemma held_key_does_not_rekey_witness:
  "let d = fst (desktop_run [ThetisBar False False True False True, FrameEnd free_env] quiet_desktop)
   in dk_last_sent d PttThetis \<and>
      (PttThetis, True) \<notin> set (snd (desktop_run
        [StopAsked PttThetis RadioLeftTx, FrameEnd free_env,
         ThetisBar False False True False True, FrameEnd free_env] d))"
proof -
  define d where
    "d = fst (desktop_run [ThetisBar False False True False True, FrameEnd free_env] quiet_desktop)"
  have d: "dk_last_sent d PttThetis" "latch (dk_latches d PttThetis) Space"
    "Space \<in> set (resampled_sources d PttThetis)"
    by (simp_all add: d_def thetis_bar_def desktop_eval)
  have "(PttThetis, True) \<notin> set (snd (desktop_run
        (StopAsked PttThetis RadioLeftTx # [FrameEnd free_env,
         ThetisBar False False True False True, FrameEnd free_env]) d))"
    by (rule held_key_does_not_rekey [OF d(2,3)]) (simp_all add: free_env_def)
  then show ?thesis
    using d(1) unfolding d_def Let_def by simp
qed

text \<open>The case left out, and it is the one the wait was made for: a Yaesu keyed by the
  spacebar in momentary mode, whose radio stops on its own.  The frame that tells the server
  also wipes the latches, with the spacebar among them; the mouse button's line of the
  next frame then finds no key down and ends the wait, and the spacebar's line, the key still
  being down, keys the radio again.\<close>

text \<open>The frames of a transmitter nobody competes with.\<close>

definition nobody_else :: "ptt_target \<Rightarrow> desktop \<Rightarrow> bool" where
  "nobody_else t d \<longleftrightarrow> (\<forall>u. u \<noteq> t \<longrightarrow> (\<forall>s. \<not> latch (dk_latches d u) s) \<and> \<not> dk_last_sent d u)"

lemma drive_commands:
  "snd (drive_ptt v d) =
     map (\<lambda>u. (u, granted_by v d u)) (filter (\<lambda>u. granted_by v d u \<noteq> dk_last_sent d u) ALL_ptt)"
  by (simp add: drive_ptt_def Let_def granted_by_def)

lemma nobody_else_granted:
  assumes "nobody_else t d"
  shows "granted_by v d u \<longleftrightarrow> u = t \<and> de_want_tx (frame_of v d t)
    \<and> (t = PttThetis \<longrightarrow> dk_thetis_allowed d) \<and> \<not> fe_held_by_other v t"
    and "\<not> blocked_by v d t"
proof -
  have others: "\<not> de_want_tx (frame_of v d x)" if "x \<noteq> t" for x
    using assms that by (auto simp: nobody_else_def frame_of_def desktop_frame_want)
  show *: "\<not> blocked_by v d t"
  proof (cases "fe_multi_tx v")
    case False
    show ?thesis
    proof
      assume b: "blocked_by v d t"
      let ?w = "\<lambda>t. de_want_tx (frame_of v d t) \<and> (t = PttThetis \<longrightarrow> dk_thetis_allowed d)"
      have "arb_winner ?w (dk_last_sent d) (fe_held_by_other v) \<noteq> Some t"
        "arb_winner ?w (dk_last_sent d) (fe_held_by_other v) \<noteq> None"
        using b False by (auto simp: blocked_by_def arbitrate_single arb_winner_None)
      then obtain x where x: "arb_winner ?w (dk_last_sent d) (fe_held_by_other v) = Some x" "x \<noteq> t"
        by auto
      then show False
        using arb_winner_Some(1) [OF x(1)] others [OF x(2)] by simp
    qed
  qed (simp add: blocked_by_def arbitrate_multi)
  show "granted_by v d u \<longleftrightarrow> u = t \<and> de_want_tx (frame_of v d t)
    \<and> (t = PttThetis \<longrightarrow> dk_thetis_allowed d) \<and> \<not> fe_held_by_other v t"
    using others [of u] * asked_in_frame [of v d u] by (cases "u = t") auto
qed

lemma nobody_else_commands:
  assumes "nobody_else t d"
  shows "snd (drive_ptt v d) =
    (if granted_by v d t \<noteq> dk_last_sent d t then [(t, granted_by v d t)] else [])"
proof -
  have "\<not> granted_by v d u" "\<not> dk_last_sent d u" if "u \<noteq> t" for u
    using assms that by (auto simp: nobody_else_granted [OF assms] nobody_else_def)
  then show ?thesis
    by (cases t) (simp_all add: drive_commands ALL_ptt_def)
qed

lemma nobody_else_step:
  "nobody_else t d \<Longrightarrow> nobody_else t (fst (drive_ptt v d))"
  "nobody_else t d \<Longrightarrow> nobody_else t (with_latches t f d)"
  "nobody_else t d \<Longrightarrow> nobody_else t (release_tx_latch t why d)"
  by (auto simp: nobody_else_def drive_latches drive_last_sent nobody_else_granted frame_of_def
      desktop_frame_latch release_facts)

text \<open>A Yaesu transmitting on the held spacebar with its window open, the mouse button up and
  hold-to-talk set, and nobody else asking for or holding a transmitter: when the radio stops on its own, the client
  sends the release and, one frame later, a new request, with the spacebar never let go.\<close>

theorem yaesu_rekeys_under_a_held_space:
  fixes d :: desktop and v :: frame_env and t :: ptt_target
  defines "window_then_frame \<equiv> [RadioWindow t False False True, FrameEnd v]"
  assumes "t \<noteq> PttThetis" and "dk_latches d t = latches_default\<lparr>la_space := True\<rparr>"
    and "dk_last_sent d t" and "\<not> dk_toggle_mode d t" and "fe_popout v t"
    and "\<And>u. \<not> fe_held_by_other v u" and "\<not> fe_mic_missing v"
    and "nobody_else t d"
  shows "snd (desktop_run ([StopAsked t RadioLeftTx] @ window_then_frame @ window_then_frame) d)
     = [(t, False), (t, True)]"
proof -
  let ?rs = "[Space, Mouse]"
  have rs: "resampled_sources e t = ?rs" if "dk_toggle_mode e = dk_toggle_mode d" for e
    using assms(5) that by (simp add: resampled_sources_def)
  have win: "window_ptt t False False True e =
      with_latches t (\<lambda>l. hold Space True ?rs (hold Mouse False ?rs l)) e"
    if "dk_toggle_mode e = dk_toggle_mode d" for e
    using assms(5) that by (simp add: window_ptt_def rs Let_def)
  define d1 where "d1 = window_ptt t False False True (release_tx_latch t RadioLeftTx d)"
  define d2 where "d2 = fst (drive_ptt v d1)"
  define d3 where "d3 = window_ptt t False False True d2"
  have mode: "dk_toggle_mode d1 = dk_toggle_mode d" "dk_toggle_mode d2 = dk_toggle_mode d"
    by (simp_all add: d1_def d2_def window_ptt_def Let_def)
  have alone: "nobody_else t d1" "nobody_else t d2" "nobody_else t d3"
    using assms(9) by (simp_all add: d1_def d2_def d3_def win mode nobody_else_step)
  have space: "latch (dk_latches d t) s \<longleftrightarrow> s = Space" for s
    by (cases s) (simp_all add: assms(3) latches_default_def)
  have d1: "la_needs_new_press (dk_latches d1 t)" "dk_last_sent d1 t"
    using assms(4) by (simp_all add: d1_def win release_facts space rs latch_updates)
  then have off: "\<not> granted_by v d1 t"
    using assms(6) by (simp add: nobody_else_granted [OF alone(1)] frame_of_def desktop_frame_want)
  then have d2: "dk_latches d2 t = latches_released (de_latches (frame_of v d1 t))" "\<not> dk_last_sent d2 t"
    using assms(2) d1 by (simp_all add: d2_def drive_latches drive_last_sent)
  have d3: "\<not> la_needs_new_press (dk_latches d3 t)" "latch (dk_latches d3 t) Space" "\<not> dk_last_sent d3 t"
    using d2 by (simp_all add: d3_def win mode latch_updates desktop_source_def del: latch.simps)
  then have on: "granted_by v d3 t"
    using assms(2,6-8)
    by (auto simp: nobody_else_granted [OF alone(3)] frame_of_def desktop_frame_want simp del: latch.simps)
  have "snd (drive_ptt v d1) = [(t, False)]" "snd (drive_ptt v d3) = [(t, True)]"
    using off on d1 d3 alone by (simp_all add: nobody_else_commands)
  then show ?thesis
    by (simp add: window_then_frame_def split_beta Let_def flip: d1_def d2_def d3_def)
qed

lemma yaesu_rekeys_under_a_held_space_witness:
  "let d = quiet_desktop
         \<lparr>dk_latches := (\<lambda>_. latches_default)(PttYaesu0 := latches_default\<lparr>la_space := True\<rparr>),
          dk_last_sent := (\<lambda>_. False)(PttYaesu0 := True)\<rparr>;
       again = [RadioWindow PttYaesu0 False False True, FrameEnd free_env]
   in snd (desktop_run ([StopAsked PttYaesu0 RadioLeftTx] @ again @ again) d)
        = [(PttYaesu0, False), (PttYaesu0, True)]"
proof -
  have none: "\<not> latch latches_default s" for s
    by (cases s) (simp_all add: latches_default_def)
  show ?thesis
    unfolding Let_def
    by (rule yaesu_rekeys_under_a_held_space)
      (simp_all add: nobody_else_def none quiet_desktop_def free_env_def)
qed

section \<open>The button that goes out of range\<close>

lemma hold_released:
  "latch (hold src False rs l) s \<longleftrightarrow> s \<noteq> src \<and> latch l s"
  by (auto simp: hold_latch)

lemma ble_release_all_latch:
  "latch (dk_latches (ble_release_all d) t) s \<longleftrightarrow> s \<noteq> Bluetooth \<and> latch (dk_latches d t) s"
  by (cases t) (auto simp: ble_release_all_def Let_def tx_latches_def hold_released simp del: latch.simps)

text \<open>When the link of the Bluetooth button drops, whatever was pressed before and whether or
  not the button was ever let go, the button holds none of the three transmitters any more
  and every other control still holds what it held.\<close>

theorem lost_button_lets_go:
  assumes "ble_is_current b g"
  shows "\<exists>a. snd (ble_apply g LinkDisconnected b) = Some a \<and>
    \<not> ble_held (fst (ble_apply g LinkDisconnected b)) \<and>
    (\<forall>t s. latch (dk_latches (apply_ble_action n a d) t) s \<longleftrightarrow>
       s \<noteq> Bluetooth \<and> latch (dk_latches d t) s)"
  using assms
  by (auto simp: ble_apply_def ble_gone_def apply_ble_action_def ble_release_all_latch)

lemma lost_button_lets_go_witness:
  "let b = fst (ble_run [Begin 1, Callback 1 LinkConnected, Callback 1 (Notification 1)] ble_new)
   in ble_held b \<and> ble_is_current b 1 \<and>
      (\<exists>a. snd (ble_apply 1 LinkDisconnected b) = Some a \<and>
         (\<forall>t. \<not> la_bluetooth (dk_latches (apply_ble_action 0 a
            (ble_press 0 True quiet_desktop)) t)))"
proof -
  define b where
    "b = fst (ble_run [Begin 1, Callback 1 LinkConnected, Callback 1 (Notification 1)] ble_new)"
  have b: "ble_held b" "ble_is_current b 1"
    by (simp_all add: b_def ble_new_def ble_begin_def ble_gone_def ble_apply_def ble_is_current_def
        ble_button_down_def PRESSED_def)
  then show ?thesis
    using lost_button_lets_go [OF b(2), of 0 "ble_press 0 True quiet_desktop"]
    unfolding b_def [symmetric] Let_def by (metis latch.simps(4))
qed

text \<open>The transmitter the button keys is worked out again at the release: when the
  server's list changes in between, the release goes to another transmitter than the press, and
  the press stays on the first.  (The phone aims a release at what is on the air.)\<close>

text \<open>With hold-to-talk on the Bluetooth button, a press aimed at one transmitter and its
  release aimed at another leave the first one's latch on; with its window open or shut, a
  free transmitter goes on being asked for after the button came up.\<close>

theorem moved_button_keeps_the_old_press:
  assumes "\<not> dk_ble_toggle d" and "tx_latches n \<noteq> tx_latches m"
    and "\<not> la_needs_new_press (dk_latches d (tx_latches n))"
    and "\<not> fe_held_by_other v (tx_latches n)" and "\<not> fe_mic_missing v"
  shows "de_want_tx (frame_of v
    (apply_ble_action m KeyUp (apply_ble_action n KeyDown d)) (tx_latches n))"
proof -
  have b: "latch (dk_latches (ble_press n True d) (tx_latches n)) Bluetooth"
    "\<not> la_needs_new_press (dk_latches (ble_press n True d) (tx_latches n))"
    using assms(1,3)
    by (simp_all add: ble_press_def Let_def latch_updates desktop_source_def del: latch.simps)
  have "dk_ble_toggle (ble_press n True d) = dk_ble_toggle d"
    by (simp add: ble_press_def with_latches_def Let_def)
  then have "dk_latches (ble_press m False (ble_press n True d)) (tx_latches n)
      = dk_latches (ble_press n True d) (tx_latches n)"
    using assms(2) by (simp add: ble_press_def [of m] Let_def)
  then show ?thesis
    using b assms(4,5) by (auto simp: apply_ble_action_def frame_of_def desktop_frame_want lives_on
        simp del: latch.simps intro!: exI [of _ Bluetooth])
qed

lemma moved_button_keeps_the_old_press_witness:
  "effective_target (\<lambda>t. t = PttThetis) 1 False = 1 \<and> effective_target (\<lambda>t. t = PttThetis) 1 True = 0 \<and>
   de_want_tx (frame_of free_env
     (apply_ble_action 0 KeyUp (apply_ble_action 1 KeyDown quiet_desktop)) PttYaesu0)"
proof -
  have "tx_latches 1 = PttYaesu0" "tx_latches 0 = PttThetis"
    by (simp_all add: tx_latches_def)
  then show ?thesis
    using moved_button_keeps_the_old_press [of quiet_desktop 1 0 free_env]
    by (simp add: effective_target_def ptt_at_def ALL_ptt_def quiet_desktop_def latches_default_def free_env_def)
qed

end
