(* ===== verification/PhonePtt.thy ===== *)
theory PhonePtt
  imports BlePtt
begin

text \<open>
  The phone's PTT (\<^verbatim>\<open>PhonePtt\<close> of \<^verbatim>\<open>sdr-remote-logic/src/ptt_intent.rs\<close>): three intents of which
  at most one asks, latching and held controls, and the exits; and the view model around it
  (\<^verbatim>\<open>SdrViewModel.kt\<close>) that turns every change of what is asked into commands.  Muting the
  speaker, the microphone gate and the TX profile are left out there.
\<close>

section \<open>The shared rule\<close>

record phone_ptt =
  ph_intents :: "ptt_target \<Rightarrow> ptt_intent"
  ph_toggle :: bool

definition phone_new :: phone_ptt where
  "phone_new = \<lparr>ph_intents = (\<lambda>_. intent_default), ph_toggle = False\<rparr>"

definition on_intent :: "ptt_target \<Rightarrow> (ptt_intent \<Rightarrow> ptt_intent) \<Rightarrow> phone_ptt \<Rightarrow> phone_ptt" where
  "on_intent t f p = p\<lparr>ph_intents := (ph_intents p)(t := f (ph_intents p t))\<rparr>"

definition on_every_intent :: "(ptt_intent \<Rightarrow> ptt_intent) \<Rightarrow> phone_ptt \<Rightarrow> phone_ptt" where
  "on_every_intent f p = fold (\<lambda>t. on_intent t f) ALL_ptt p"

definition set_toggle_mode :: "bool \<Rightarrow> phone_ptt \<Rightarrow> phone_ptt" where
  "set_toggle_mode toggle p =
     (if ph_toggle p = toggle then p else on_every_intent clear_all (p\<lparr>ph_toggle := toggle\<rparr>))"

definition phone_latches :: "phone_ptt \<Rightarrow> ptt_source \<Rightarrow> bool" where
  "phone_latches p source \<longleftrightarrow> source = Midi \<or> ph_toggle p"

definition phone_want_tx :: "phone_ptt \<Rightarrow> ptt_target \<Rightarrow> bool" where
  "phone_want_tx p t = want_tx (ph_intents p t)"

definition asking :: "phone_ptt \<Rightarrow> ptt_target option" where
  "asking p = find (phone_want_tx p) ALL_ptt"

definition phone_operator_stop :: "ptt_target \<Rightarrow> phone_ptt \<Rightarrow> phone_ptt" where
  "phone_operator_stop t p = on_intent t clear_all p"

definition phone_set :: "ptt_target \<Rightarrow> ptt_source \<Rightarrow> bool \<Rightarrow> phone_ptt \<Rightarrow> phone_ptt" where
  "phone_set target source h p =
     (let p = (if h then fold (\<lambda>u q. if u \<noteq> target then on_intent u clear_all q else q) ALL_ptt p else p)
      in on_intent target (set_source source h) p)"

definition phone_down :: "ptt_target \<Rightarrow> ptt_source \<Rightarrow> phone_ptt \<Rightarrow> phone_ptt" where
  "phone_down target source p =
     (case (if phone_latches p source then asking p else None) of
        Some t \<Rightarrow> phone_operator_stop t p
      | None \<Rightarrow> phone_set target source True p)"

definition phone_up :: "ptt_target \<Rightarrow> ptt_source \<Rightarrow> phone_ptt \<Rightarrow> phone_ptt" where
  "phone_up target source p =
     (if phone_latches p source then p
      else if source = Screen then phone_operator_stop target p
      else phone_set target source False p)"

definition phone_refused :: "phone_ptt \<Rightarrow> phone_ptt" where
  "phone_refused p = on_every_intent intent_refused p"

definition phone_busy :: "ptt_target \<Rightarrow> phone_ptt \<Rightarrow> phone_ptt" where
  "phone_busy t p = on_intent t intent_busy p"

definition phone_disconnected :: "phone_ptt \<Rightarrow> phone_ptt" where
  "phone_disconnected p = on_every_intent intent_disconnected p"

definition phone_radio_left_tx :: "ptt_target \<Rightarrow> phone_ptt \<Rightarrow> phone_ptt" where
  "phone_radio_left_tx t p = on_intent t (radio_left_tx []) p"

definition bluetooth_gone :: "phone_ptt \<Rightarrow> phone_ptt" where
  "bluetooth_gone p = on_every_intent (release_source Bluetooth) p"

definition screen_gone :: "phone_ptt \<Rightarrow> phone_ptt" where
  "screen_gone p = on_every_intent window_gone p"

section \<open>At most one, and never a dead button\<close>

lemma on_intent_fields [simp]:
  "ph_intents (on_intent t f p) u = (if u = t then f (ph_intents p t) else ph_intents p u)"
  "ph_toggle (on_intent t f p) = ph_toggle p"
  by (simp_all add: on_intent_def)

lemma on_every_intent_fields [simp]:
  "ph_intents (on_every_intent f p) u = f (ph_intents p u)"
  "ph_toggle (on_every_intent f p) = ph_toggle p"
  by (cases u; simp add: on_every_intent_def ALL_ptt_def)+

lemma phone_set_fields [simp]:
  "ph_toggle (phone_set t s h p) = ph_toggle p"
  "ph_intents (phone_set t s h p) u =
     (if u = t then set_source s h (ph_intents p t)
      else if h then clear_all (ph_intents p u) else ph_intents p u)"
  by (cases t; cases u; simp add: phone_set_def ALL_ptt_def)+

text \<open>No two intents hold anything, and no intent ever waits: the phone's controls report
  edges, so there is nothing to wait for.\<close>

definition phone_ok :: "phone_ptt \<Rightarrow> bool" where
  "phone_ok p \<longleftrightarrow> (\<forall>t. \<not> pi_needs_new_press (ph_intents p t)) \<and>
     (\<forall>t u s r. pi_held (ph_intents p t) s \<longrightarrow> pi_held (ph_intents p u) r \<longrightarrow> t = u)"

lemma phone_ok_new [simp]: "phone_ok phone_new"
  by (simp add: phone_ok_def phone_new_def intent_default_def)

lemma phone_okI_shrink:
  assumes "phone_ok p" "\<And>t s. pi_held (ph_intents q t) s \<Longrightarrow> pi_held (ph_intents p t) s"
    "\<And>t. \<not> pi_needs_new_press (ph_intents q t)"
  shows "phone_ok q"
  using assms unfolding phone_ok_def by blast

lemma phone_ok_set: "phone_ok p \<Longrightarrow> phone_ok (phone_set t s h p)"
proof (cases h)
  case False
  assume "phone_ok p"
  then show ?thesis
    by (rule phone_okI_shrink)
      (use False \<open>phone_ok p\<close> in \<open>auto simp: phone_ok_def split: if_splits\<close>)
qed (auto simp: phone_ok_def split: if_splits)

lemma phone_ok_on_intent:
  assumes "phone_ok p" "\<And>i s. pi_held (f i) s \<Longrightarrow> pi_held i s"
    "\<And>i. \<not> pi_needs_new_press i \<Longrightarrow> \<not> pi_needs_new_press (f i)"
  shows "phone_ok (on_intent t f p)" "phone_ok (on_every_intent f p)"
  using assms(1) by (rule phone_okI_shrink; use assms in \<open>auto simp: phone_ok_def split: if_splits\<close>)+

lemma released_fields:
  "pi_held (release_source s i) r \<Longrightarrow> pi_held i r"
  "pi_held (window_gone i) r \<Longrightarrow> pi_held i r"
  "pi_held (radio_left_tx [] i) r \<Longrightarrow> pi_held i r"
  "\<not> pi_needs_new_press i \<Longrightarrow> \<not> pi_needs_new_press (release_source s i)"
  "\<not> pi_needs_new_press (window_gone i)" "\<not> pi_needs_new_press (radio_left_tx [] i)"
  by (auto simp: release_source_def window_gone_iff radio_left_tx_def stop_and_wait_iff split: if_splits)

lemma phone_ok_down: "phone_ok p \<Longrightarrow> phone_ok (phone_down t s p)"
  by (auto simp: phone_down_def phone_operator_stop_def
      intro: phone_ok_set phone_ok_on_intent split: option.split)

lemma phone_ok_up: "phone_ok p \<Longrightarrow> phone_ok (phone_up t s p)"
  by (auto simp: phone_up_def phone_operator_stop_def intro: phone_ok_set phone_ok_on_intent)

lemma phone_ok_exits:
  assumes "phone_ok p"
  shows "phone_ok (phone_refused p)" "phone_ok (phone_busy t p)" "phone_ok (phone_disconnected p)"
    "phone_ok (phone_radio_left_tx t p)" "phone_ok (bluetooth_gone p)" "phone_ok (screen_gone p)"
    "phone_ok (phone_operator_stop t p)"
  using assms
  by (auto simp: phone_refused_def phone_busy_def phone_disconnected_def phone_radio_left_tx_def
      bluetooth_gone_def screen_gone_def phone_operator_stop_def intent_refused_def intent_busy_def
      intent_disconnected_def intro!: phone_ok_on_intent released_fields(4-6) dest: released_fields(1-3))

lemma phone_ok_toggle: "phone_ok p \<Longrightarrow> phone_ok (set_toggle_mode b p)"
  by (auto simp: set_toggle_mode_def phone_ok_def)

lemmas phone_ok_step = phone_ok_set phone_ok_down phone_ok_up phone_ok_exits phone_ok_toggle

lemma phone_want_ok:
  "phone_ok p \<Longrightarrow> phone_want_tx p t \<longleftrightarrow> (\<exists>s. pi_held (ph_intents p t) s)"
  by (simp add: phone_want_tx_def want_tx_iff phone_ok_def)

lemma asking_None: "asking p = None \<longleftrightarrow> (\<forall>t. \<not> phone_want_tx p t)"
  by (simp add: asking_def find_ALL_ptt_None)

lemma asking_Some: "phone_ok p \<Longrightarrow> asking p = Some t \<longleftrightarrow> phone_want_tx p t"
proof
  assume "phone_ok p" and "phone_want_tx p t"
  moreover from this obtain u where u: "asking p = Some u"
    using asking_None by fastforce
  moreover from u have "phone_want_tx p u"
    unfolding asking_def by (rule find_ALL_ptt_Some)
  ultimately show "asking p = Some t"
    unfolding phone_ok_def phone_want_tx_def want_tx_iff by metis
qed (simp add: asking_def find_ALL_ptt_Some)

text \<open>A phone that is not asking holds nothing, and the other way round.\<close>

lemma idle_holds_nothing: "phone_ok p \<Longrightarrow> asking p = None \<Longrightarrow> \<not> pi_held (ph_intents p t) s"
  by (auto simp: asking_None phone_want_ok)

lemma asking_after_set:
  "phone_ok p \<Longrightarrow> asking (phone_set t s True p) = Some t"
  by (auto simp: asking_Some phone_ok_set phone_want_ok)

lemma asking_after_stop:
  assumes "phone_ok p" "asking p = Some t"
  shows "asking (phone_operator_stop t p) = None"
proof -
  have "\<not> phone_want_tx (phone_operator_stop t p) u" for u
    using assms by (cases "u = t")
      (auto simp: phone_want_tx_def phone_operator_stop_def asking_Some [OF assms(1)] want_tx_iff phone_ok_def)
  then show ?thesis
    by (simp add: asking_None)
qed

section \<open>The view model\<close>

record phone_vm =
  vm_ptt :: phone_ptt
  vm_active :: "ptt_target option"

definition vm_new :: phone_vm where
  "vm_new = \<lparr>vm_ptt = phone_new, vm_active = None\<rparr>"

definition sendActualPtt :: "ptt_target \<Rightarrow> bool \<Rightarrow> phone_vm \<Rightarrow> phone_vm \<times> (ptt_target \<times> bool) list" where
  "sendActualPtt target active m =
     ((if active then m\<lparr>vm_active := Some target\<rparr>
       else if vm_active m = Some target then m\<lparr>vm_active := None\<rparr> else m),
      [(target, active)])"

definition pttEnded :: "phone_vm \<Rightarrow> phone_vm \<times> (ptt_target \<times> bool) list" where
  "pttEnded m = (case vm_active m of Some t \<Rightarrow> sendActualPtt t False m | None \<Rightarrow> (m, []))"

definition reconcilePtt :: "ptt_target option \<Rightarrow> phone_vm \<Rightarrow> phone_vm \<times> (ptt_target \<times> bool) list" where
  "reconcilePtt before m =
     (let now = asking (vm_ptt m)
      in if now = before then (m, [])
         else case now of
                None \<Rightarrow> pttEnded m
              | Some t \<Rightarrow>
                  let (m, off) = (case vm_active m of
                                    Some a \<Rightarrow> if a \<noteq> t then sendActualPtt a False m else (m, [])
                                  | None \<Rightarrow> (m, []));
                      (m, on) = sendActualPtt t True m
                  in (m, off @ on))"

text \<open>What reaches it: the controls, with the transmitter the screen would key now, the
  setting, the screen and the Bluetooth link, and what a poll of the engine finds.\<close>

datatype phone_event =
    PttDown ptt_source ptt_target
  | PttUp ptt_source ptt_target
  | SetToggle bool
  | ScreenGone
  | BluetoothGone
  | SessionGone
  | Denied bool

definition mutate :: "(phone_ptt \<Rightarrow> phone_ptt) \<Rightarrow> phone_vm \<Rightarrow> phone_vm \<times> (ptt_target \<times> bool) list" where
  "mutate f m = reconcilePtt (asking (vm_ptt m)) (m\<lparr>vm_ptt := f (vm_ptt m)\<rparr>)"

fun phone_step :: "phone_event \<Rightarrow> phone_vm \<Rightarrow> phone_vm \<times> (ptt_target \<times> bool) list" where
  "phone_step (PttDown source current) m = mutate (phone_down current source) m"
| "phone_step (PttUp source current) m =
     mutate (phone_up (case asking (vm_ptt m) of Some t \<Rightarrow> t | None \<Rightarrow> current) source) m"
| "phone_step (SetToggle b) m = mutate (set_toggle_mode b) m"
| "phone_step ScreenGone m =
     (if asking (vm_ptt m) = None then (m, []) else mutate screen_gone m)"
| "phone_step BluetoothGone m = mutate bluetooth_gone m"
| "phone_step SessionGone m =
     (if asking (vm_ptt m) = None then (m, [])
      else pttEnded (m\<lparr>vm_ptt := phone_disconnected (vm_ptt m)\<rparr>))"
| "phone_step (Denied by_server) m =
     (case asking (vm_ptt m) of
        None \<Rightarrow> (m, [])
      | Some t \<Rightarrow>
          pttEnded (m\<lparr>vm_ptt := (if by_server then phone_radio_left_tx t else phone_refused) (vm_ptt m)\<rparr>))"

fun phone_run :: "phone_event list \<Rightarrow> phone_vm \<Rightarrow> phone_vm \<times> (ptt_target \<times> bool) list" where
  "phone_run [] m = (m, [])"
| "phone_run (e # es) m =
     (let (m, c) = phone_step e m; (m, cs) = phone_run es m in (m, c @ cs))"

text \<open>What the server was told last: the one transmitter on, if any.\<close>

definition told :: "(ptt_target \<times> bool) list \<Rightarrow> ptt_target set \<Rightarrow> ptt_target set" where
  "told cs S = fold (\<lambda>(t, b) S. if b then insert t S else S - {t}) cs S"

definition vm_ok :: "phone_vm \<Rightarrow> bool" where
  "vm_ok m \<longleftrightarrow> phone_ok (vm_ptt m) \<and> vm_active m = asking (vm_ptt m)"

abbreviation active_set :: "phone_vm \<Rightarrow> ptt_target set" where
  "active_set m \<equiv> set_option (vm_active m)"

definition keeps_step :: "phone_vm \<Rightarrow> phone_vm \<times> (ptt_target \<times> bool) list \<Rightarrow> bool" where
  "keeps_step m r \<longleftrightarrow> vm_ok (fst r) \<and> told (snd r) (active_set m) = active_set (fst r)"

lemma mutate_keeps:
  assumes "vm_ok m" "phone_ok (f (vm_ptt m))"
  shows "keeps_step m (mutate f m)" "vm_ptt (fst (mutate f m)) = f (vm_ptt m)"
  using assms
  by (auto simp: keeps_step_def mutate_def reconcilePtt_def vm_ok_def pttEnded_def sendActualPtt_def
      told_def Let_def split: option.split)

lemma ended_keeps:
  assumes "vm_ok m" "phone_ok p" "asking p = None"
  shows "keeps_step m (pttEnded (m\<lparr>vm_ptt := p\<rparr>))" "vm_ptt (fst (pttEnded (m\<lparr>vm_ptt := p\<rparr>))) = p"
  using assms
  by (auto simp: keeps_step_def vm_ok_def pttEnded_def sendActualPtt_def told_def split: option.split)

lemma asking_cleared:
  "(\<And>u. \<not> phone_want_tx p u) \<Longrightarrow> asking p = None"
  by (simp add: asking_None)

lemma asking_disconnected: "asking (phone_disconnected p) = None" "asking (phone_refused p) = None"
  by (auto intro!: asking_cleared simp: phone_want_tx_def phone_disconnected_def phone_refused_def
      intent_disconnected_def intent_refused_def)

lemma asking_left_tx:
  assumes "phone_ok p" "asking p = Some t"
  shows "asking (phone_radio_left_tx t p) = None"
proof (rule asking_cleared)
  show "\<not> phone_want_tx (phone_radio_left_tx t p) u" for u
    using assms by (cases "u = t")
      (auto simp: phone_want_tx_def phone_radio_left_tx_def asking_Some [OF assms(1)] want_tx_iff
        phone_ok_def radio_left_tx_def stop_and_wait_iff)
qed

lemma phone_step_keeps: "vm_ok m \<Longrightarrow> keeps_step m (phone_step e m)"
proof (cases e)
  case (Denied b)
  assume "vm_ok m"
  then show ?thesis
    using Denied by (cases b) (auto simp: vm_ok_def keeps_step_def [of m "(m, [])"] told_def
      intro!: ended_keeps phone_ok_exits asking_disconnected asking_left_tx split: option.split)
qed (auto simp: vm_ok_def keeps_step_def [of m "(m, [])"] told_def
    intro!: mutate_keeps ended_keeps phone_ok_step asking_disconnected)

lemma told_append: "told (cs @ ds) S = told ds (told cs S)"
  by (simp add: told_def)

lemma phone_run_keeps: "vm_ok m \<Longrightarrow> keeps_step m (phone_run es m)"
proof (induction es arbitrary: m)
  case (Cons e es)
  then show ?case
    using phone_step_keeps [OF Cons.prems, of e] Cons.IH [of "fst (phone_step e m)"]
    by (simp add: keeps_step_def split_beta Let_def told_append)
qed (simp add: keeps_step_def told_def)

lemma asking_new [simp]: "asking phone_new = None"
  by (simp add: asking_None phone_want_tx_def phone_new_def intent_default_def want_tx_iff)

lemma vm_ok_new [simp]: "vm_ok vm_new"
  by (simp add: vm_ok_def vm_new_def)

lemma vm_ok_run: "vm_ok (fst (phone_run es vm_new))"
  using phone_run_keeps [OF vm_ok_new] by (simp add: keeps_step_def)

text \<open>C7. Whatever the controls, the settings, the link and the server do, and wherever the screen
  aims in between: a server that heard the phone's commands has keyed exactly the transmitter
  the phone asks for, hence never two; and only that one's intent holds a control.\<close>

theorem phone_keys_what_it_asks:
  "told (snd (phone_run es vm_new)) {} = set_option (asking (vm_ptt (fst (phone_run es vm_new)))) \<and>
   {t. \<exists>s. pi_held (ph_intents (vm_ptt (fst (phone_run es vm_new))) t) s}
     = set_option (asking (vm_ptt (fst (phone_run es vm_new))))"
proof -
  let ?m = "fst (phone_run es vm_new)"
  have "keeps_step vm_new (phone_run es vm_new)"
    by (rule phone_run_keeps) simp
  moreover have "active_set vm_new = {}"
    by (simp add: vm_new_def)
  ultimately have "told (snd (phone_run es vm_new)) {} = set_option (asking (vm_ptt ?m))"
    by (simp add: keeps_step_def vm_ok_def)
  moreover have "{t. \<exists>s. pi_held (ph_intents (vm_ptt ?m) t) s} = set_option (asking (vm_ptt ?m))"
    using vm_ok_run [of es] by (auto simp: vm_ok_def asking_Some phone_want_ok)
  ultimately show ?thesis ..
qed

text \<open>Is this control holding the phone's transmitter?\<close>

definition holds :: "phone_ptt \<Rightarrow> ptt_source \<Rightarrow> bool" where
  "holds p s \<longleftrightarrow> (\<exists>t. pi_held (ph_intents p t) s)"

lemma phone_ptt_after:
  assumes "vm_ok m"
  shows "vm_ptt (fst (phone_step e m)) =
    (let p = vm_ptt m in case e of
       PttDown s c \<Rightarrow> phone_down c s p
     | PttUp s c \<Rightarrow> phone_up (case asking p of Some t \<Rightarrow> t | None \<Rightarrow> c) s p
     | SetToggle b \<Rightarrow> set_toggle_mode b p
     | ScreenGone \<Rightarrow> if asking p = None then p else screen_gone p
     | BluetoothGone \<Rightarrow> bluetooth_gone p
     | SessionGone \<Rightarrow> if asking p = None then p else phone_disconnected p
     | Denied b \<Rightarrow> (case asking p of None \<Rightarrow> p
         | Some t \<Rightarrow> (if b then phone_radio_left_tx t else phone_refused) p))"
  using assms
  by (cases e)
    (auto simp: Let_def vm_ok_def phone_ok_step asking_disconnected asking_left_tx
      mutate_keeps(2) ended_keeps(2) split: option.split)

lemma only_asked:
  "phone_ok p \<Longrightarrow> asking p = Some t \<Longrightarrow> pi_held (ph_intents p u) s \<Longrightarrow> u = t"
  by (metis asking_Some option.inject phone_want_ok)

lemma asking_if:
  assumes "phone_ok p" "phone_ok q"
    and "\<And>t s. pi_held (ph_intents q t) s \<longleftrightarrow> pi_held (ph_intents p t) s \<and> P s"
  shows "asking q = (if \<exists>s. P s \<and> holds p s then asking p else None)"
proof (cases "asking p")
  case None
  then have "asking q = None"
    using assms idle_holds_nothing [OF assms(1) None] by (simp add: asking_None phone_want_ok)
  then show ?thesis
    using None by simp
next
  case (Some t)
  note only = only_asked [OF assms(1) Some]
  show ?thesis
  proof (cases "\<exists>s. P s \<and> holds p s")
    case True
    then have "phone_want_tx q t"
      using assms only by (auto simp: phone_want_ok holds_def)
    then show ?thesis
      using True Some assms(2) by (simp add: asking_Some)
  next
    case False
    then have "asking q = None"
      using assms by (auto simp: asking_None phone_want_ok holds_def)
    then show ?thesis
      using False by auto
  qed
qed

lemma asking_screen_gone:
  assumes "phone_ok p"
  shows "asking (screen_gone p) = (if holds p Midi \<or> holds p Bluetooth then asking p else None)"
proof -
  have "asking (screen_gone p) =
      (if \<exists>s. \<not> dies_with_its_surface s \<and> holds p s then asking p else None)"
    by (rule asking_if [OF assms phone_ok_exits(6) [OF assms]]) (simp add: screen_gone_def window_gone_iff)
  moreover have "(\<exists>s. \<not> dies_with_its_surface s \<and> holds p s) = (holds p Midi \<or> holds p Bluetooth)"
    unfolding lives_on by blast
  ultimately show ?thesis
    by (simp only:)
qed

lemma asking_bluetooth_gone:
  assumes "phone_ok p"
  shows "asking (bluetooth_gone p) = (if \<exists>s. s \<noteq> Bluetooth \<and> holds p s then asking p else None)"
  by (rule asking_if [OF assms phone_ok_exits(5) [OF assms]])
    (auto simp: bluetooth_gone_def release_source_def)

lemma asking_down:
  assumes "phone_ok p"
  shows "asking (phone_down t s p) = (if phone_latches p s \<and> asking p \<noteq> None then None else Some t)"
  using assms
  by (auto simp: phone_down_def asking_after_set asking_after_stop split: option.split)

lemma asking_up:
  assumes "phone_ok p" "case asking p of Some u \<Rightarrow> t = u | None \<Rightarrow> True"
  shows "asking (phone_up t s p) =
    (if phone_latches p s then asking p else if s = Screen then None
     else if \<exists>r. r \<noteq> s \<and> holds p r then asking p else None)"
proof (cases "asking p")
  case None
  have "asking (phone_up t s p) = None"
    using None idle_holds_nothing [OF assms(1) None]
    by (auto simp: asking_None phone_up_def phone_operator_stop_def phone_want_tx_def want_tx_iff)
  then show ?thesis
    using None by auto
next
  case (Some u)
  have "asking (phone_set t s False p) = (if \<exists>r. r \<noteq> s \<and> holds p r then asking p else None)"
  proof (rule asking_if [OF assms(1) phone_ok_set [OF assms(1)]])
    show "pi_held (ph_intents (phone_set t s False p) x) r \<longleftrightarrow>
        pi_held (ph_intents p x) r \<and> r \<noteq> s" for x r
      using only_asked [OF assms(1) Some, of x r] Some assms(2) by auto
  qed
  then show ?thesis
    using Some assms by (simp add: phone_up_def asking_after_stop)
qed

definition asked_after :: "phone_event \<Rightarrow> phone_ptt \<Rightarrow> ptt_target option" where
  "asked_after e p =
     (case e of
        PttDown s c \<Rightarrow> if phone_latches p s \<and> asking p \<noteq> None then None else Some c
      | PttUp s c \<Rightarrow>
          if phone_latches p s then asking p else if s = Screen then None
          else if \<exists>r. r \<noteq> s \<and> holds p r then asking p else None
      | SetToggle b \<Rightarrow> if b = ph_toggle p then asking p else None
      | ScreenGone \<Rightarrow> if holds p Midi \<or> holds p Bluetooth then asking p else None
      | BluetoothGone \<Rightarrow> if \<exists>s. s \<noteq> Bluetooth \<and> holds p s then asking p else None
      | SessionGone \<Rightarrow> None
      | Denied b \<Rightarrow> None)"

lemma phone_answers:
  "asking (vm_ptt (fst (phone_step e (fst (phone_run es vm_new)))))
     = asked_after e (vm_ptt (fst (phone_run es vm_new)))"
proof -
  define m where "m = fst (phone_run es vm_new)"
  have m: "vm_ok m" and ok: "phone_ok (vm_ptt m)"
    using vm_ok_run [of es] by (simp_all add: m_def vm_ok_def)
  have idle: "asking (vm_ptt m) = None \<Longrightarrow> \<not> holds (vm_ptt m) s" for s
    using idle_holds_nothing [OF ok] by (simp add: holds_def)
  have "asking (vm_ptt (fst (phone_step e m))) = asked_after e (vm_ptt m)"
  proof (cases e)
    case (SetToggle b)
    have "asking (on_every_intent clear_all (q::phone_ptt)) = None" for q
      by (simp add: asking_None phone_want_tx_def)
    then show ?thesis
      using SetToggle
      by (auto simp: phone_ptt_after [OF m] asked_after_def set_toggle_mode_def simp del: phone_step.simps)
  next
    case (PttUp s c)
    then show ?thesis
      using asking_up [OF ok, of "case asking (vm_ptt m) of Some t \<Rightarrow> t | None \<Rightarrow> c" s]
      by (cases "asking (vm_ptt m)")
        (simp_all add: phone_ptt_after [OF m] asked_after_def Let_def del: phone_step.simps)
  qed (use idle in \<open>auto simp: phone_ptt_after [OF m] asked_after_def Let_def asking_down [OF ok]
      asking_screen_gone [OF ok] asking_bluetooth_gone [OF ok] asking_disconnected
      asking_left_tx [OF ok] simp del: phone_step.simps split: option.split\<close>)
  then show ?thesis
    by (simp add: m_def)
qed

text \<open>What each event means to the transmission, in every state a run can reach: a latching
  control ends whatever is on and otherwise starts its own, so with nothing on every press
  starts; a release, the screen or the Bluetooth link going ends what no other control still
  holds; the screen button's release, a refusal, a lost session and a changed setting end
  it whoever holds it.\<close>

theorem phone_answers_each_event:
  "asking (vm_ptt (fst (phone_step e (fst (phone_run es vm_new)))))
     = asked_after e (vm_ptt (fst (phone_run es vm_new)))"
  by (rule phone_answers)

section \<open>The Bluetooth button in front of it\<close>

definition phone_event_of :: "ptt_target \<Rightarrow> ble_action \<Rightarrow> phone_event list" where
  "phone_event_of current a =
     (case a of KeyDown \<Rightarrow> [PttDown Bluetooth current] | KeyUp \<Rightarrow> [PttUp Bluetooth current]
      | Gone \<Rightarrow> [BluetoothGone] | Unrecognised _ \<Rightarrow> [])"

lemma latching_press_with_bluetooth:
  "phone_run (phone_event_of c Gone) m = phone_step BluetoothGone m"
  by (simp add: phone_event_of_def split_beta)

text \<open>Whatever was pressed on the phone and on the Bluetooth button before, in either setting,
  once a link event of the current attempt is passed on nothing is on the air by the
  Bluetooth button alone: what is still asked for is held by another control, and it is
  what was asked for before.\<close>

theorem out_of_range_is_a_release:
  fixes es :: "phone_event list" and b :: ble_state
  assumes "ble_is_current b g" and "e = LinkDisconnected \<or> e = LinkConnected"
  defines "m \<equiv> fst (phone_run es vm_new)"
  shows "\<exists>a. snd (ble_apply g e b) = Some a \<and>
    (let m' = fst (phone_run (phone_event_of c a) m)
     in asking (vm_ptt m') = (if \<exists>s. s \<noteq> Bluetooth \<and> holds (vm_ptt m) s then asking (vm_ptt m) else None)
        \<and> \<not> holds (vm_ptt m') Bluetooth)"
proof -
  have "snd (ble_apply g e b) = Some Gone"
    using assms(1,2) by (auto simp: ble_apply_def ble_gone_def)
  moreover have "asking (vm_ptt (fst (phone_step BluetoothGone m))) = asked_after BluetoothGone (vm_ptt m)"
    unfolding m_def by (rule phone_answers)
  moreover have "\<not> holds (vm_ptt (fst (phone_step BluetoothGone m))) Bluetooth"
    using vm_ok_run [of es] unfolding m_def
    by (simp add: phone_ptt_after holds_def bluetooth_gone_def release_source_def del: phone_step.simps)
  ultimately show ?thesis
    by (simp add: latching_press_with_bluetooth asked_after_def Let_def)
qed

lemma out_of_range_is_a_release_witness:
  "let b = fst (ble_run [Begin 1, Callback 1 (Notification 1)] ble_new);
       m = fst (phone_run [SetToggle True, PttDown Bluetooth PttYaesu0] vm_new)
   in asking (vm_ptt m) = Some PttYaesu0 \<and>
      (\<exists>a. snd (ble_apply 1 LinkDisconnected b) = Some a \<and>
         asking (vm_ptt (fst (phone_run (phone_event_of PttThetis a) m))) = None)"
proof -
  define b where "b = fst (ble_run [Begin 1, Callback 1 (Notification 1)] ble_new)"
  define m where "m = fst (phone_run [SetToggle True, PttDown Bluetooth PttYaesu0] vm_new)"
  have b: "ble_is_current b 1"
    by (simp add: b_def ble_new_def ble_begin_def ble_gone_def ble_apply_def ble_is_current_def
        ble_button_down_def PRESSED_def)
  have p: "vm_ptt m = phone_set PttYaesu0 Bluetooth True (set_toggle_mode True phone_new)"
  proof -
    have ok: "phone_ok (set_toggle_mode True phone_new)" "asking (set_toggle_mode True phone_new) = None"
      by (rule phone_ok_toggle [OF phone_ok_new])
        (simp add: asking_None phone_want_tx_def set_toggle_mode_def phone_new_def)
    then have "vm_ok (fst (phone_step (SetToggle True) vm_new))"
      "vm_ptt (fst (phone_step (SetToggle True) vm_new)) = set_toggle_mode True phone_new"
      using phone_step_keeps [OF vm_ok_new, of "SetToggle True"]
      by (simp_all add: keeps_step_def phone_ptt_after del: phone_step.simps) (simp add: vm_new_def)
    then show ?thesis
      using ok(2) by (simp add: m_def split_beta Let_def phone_ptt_after phone_down_def del: phone_step.simps)
  qed
  have "asking (vm_ptt m) = Some PttYaesu0"
    unfolding p by (rule asking_after_set) (simp add: phone_ok_toggle)
  moreover have "\<not> (\<exists>s. s \<noteq> Bluetooth \<and> holds (vm_ptt m) s)"
    by (auto simp: p holds_def set_toggle_mode_def phone_new_def intent_default_def split: if_splits)
  ultimately show ?thesis
    using out_of_range_is_a_release [OF b, of LinkDisconnected PttThetis "[SetToggle True, PttDown Bluetooth PttYaesu0]"]
    by (simp only: flip: b_def m_def) (auto simp: Let_def)
qed

end
