(* ===== verification/PttDenial.thy ===== *)
theory PttDenial
  imports Wire
begin

unbundle bit_operations_syntax

text \<open>
  A refusal from the server as the client keeps it
  (\<^verbatim>\<open>sdr-remote-logic/src/ptt_denial.rs\<close>): an event counter that only rises, the
  transmitters the last refusal was about, and those still refused.  An interface looks at it
  now and then and must not miss a refusal in between.  \<^verbatim>\<open>[bool; 3]\<close> arrays are functions of
  the transmitter's number, read below three.
\<close>

section \<open>State and operations\<close>

definition TRANSMITTERS :: nat where
  "TRANSMITTERS = 3"

definition asking_with_cw :: "(nat \<Rightarrow> bool) \<Rightarrow> bool \<Rightarrow> u8 \<Rightarrow> nat \<Rightarrow> bool" where
  "asking_with_cw ptt_requested cw_keying cw_target =
     (if cw_keying \<and> unat cw_target < TRANSMITTERS
      then ptt_requested(unat cw_target := True) else ptt_requested)"

record ptt_denial =
  dn_seq :: u32
  dn_covered :: u8
  dn_outstanding :: u8
  dn_server_released :: bool

definition denial_default :: ptt_denial where
  "denial_default = \<lparr>dn_seq = 0, dn_covered = 0, dn_outstanding = 0, dn_server_released = False\<rparr>"

definition transmitter_bit :: "nat \<Rightarrow> u8" where
  "transmitter_bit i = push_bit i 1"

definition refusal_mask :: "(nat \<Rightarrow> bool) \<Rightarrow> denied_target \<Rightarrow> u8" where
  "refusal_mask asking target =
     (case denied_index target of
        Some i \<Rightarrow> if i < TRANSMITTERS \<and> asking i then transmitter_bit i else 0
      | None \<Rightarrow> fold (\<lambda>i m. if asking i then m OR transmitter_bit i else m) [0..<TRANSMITTERS] 0)"

definition apply_refusal ::
  "(nat \<Rightarrow> bool) \<Rightarrow> denied_target \<Rightarrow> bool \<Rightarrow> ptt_denial \<Rightarrow> ptt_denial \<times> bool" where
  "apply_refusal asking target server_released d =
     (let mask = refusal_mask asking target
      in if mask = 0 then (d, False)
         else (d\<lparr>dn_seq := dn_seq d + 1, dn_covered := mask,
                 dn_outstanding := dn_outstanding d OR mask,
                 dn_server_released := server_released\<rparr>, True))"

definition transmitter_off :: "nat \<Rightarrow> ptt_denial \<Rightarrow> ptt_denial" where
  "transmitter_off which d =
     (if which < TRANSMITTERS
      then d\<lparr>dn_outstanding := dn_outstanding d AND NOT (transmitter_bit which)\<rparr> else d)"

definition cw_run_over :: "u8 \<Rightarrow> (nat \<Rightarrow> bool) \<Rightarrow> ptt_denial \<Rightarrow> ptt_denial" where
  "cw_run_over asked mic_asking d =
     fold (\<lambda>i d. if asked AND transmitter_bit i \<noteq> 0 \<and> \<not> mic_asking i then transmitter_off i d else d)
       [0..<TRANSMITTERS] d"

text \<open>\<^verbatim>\<open>report\<close> is the caller's field, stored by this call: the old value goes in, the new one
  comes out.\<close>

definition cw_keyed_after_all ::
  "nat \<Rightarrow> bool \<Rightarrow> bool \<Rightarrow> bool \<Rightarrow> u8 \<Rightarrow> (nat \<Rightarrow> bool) \<Rightarrow> ptt_denial \<Rightarrow> ptt_denial \<times> bool" where
  "cw_keyed_after_all t was_tx now_tx held_by_other cw_asked mic_asking d =
     ((if t < TRANSMITTERS \<and> \<not> was_tx \<and> now_tx \<and> \<not> held_by_other
          \<and> cw_asked AND transmitter_bit t \<noteq> 0 \<and> \<not> mic_asking t
       then transmitter_off t d else d), now_tx)"

definition denial_clear :: "ptt_denial \<Rightarrow> ptt_denial" where
  "denial_clear d = d\<lparr>dn_outstanding := 0\<rparr>"

definition denial_active :: "ptt_denial \<Rightarrow> bool" where
  "denial_active d \<longleftrightarrow> dn_outstanding d \<noteq> 0"

definition was_about :: "ptt_denial \<Rightarrow> nat \<Rightarrow> bool" where
  "was_about d which \<longleftrightarrow> which < TRANSMITTERS \<and> dn_covered d AND transmitter_bit which \<noteq> 0"

definition transmitters_to_release :: "u32 \<Rightarrow> u8 \<Rightarrow> u8 \<Rightarrow> u8" where
  "transmitters_to_release missed covered outstanding =
     (if missed \<le> 1 then covered else covered OR outstanding)"

definition to_release :: "ptt_denial \<Rightarrow> u32 \<Rightarrow> u8" where
  "to_release d missed = transmitters_to_release missed (dn_covered d) (dn_outstanding d)"

definition releases :: "ptt_denial \<Rightarrow> u32 \<Rightarrow> nat \<Rightarrow> bool" where
  "releases d missed which \<longleftrightarrow>
     which < TRANSMITTERS \<and> to_release d missed AND transmitter_bit which \<noteq> 0"

definition released_by_server_now :: "ptt_denial \<Rightarrow> bool" where
  "released_by_server_now d \<longleftrightarrow> denial_active d \<and> dn_server_released d"

section \<open>The masks as sets of transmitters\<close>

lemma bit_transmitter: "bit (transmitter_bit i) n \<longleftrightarrow> n = i \<and> i < 8"
  by (auto simp: transmitter_bit_def bit_exp_iff possible_bit_def)

lemma transmitter_bit_iff [simp]: "m AND transmitter_bit i \<noteq> 0 \<longleftrightarrow> bit m i" for m :: u8
proof -
  have "bit (m AND transmitter_bit i) n \<longleftrightarrow> bit m i \<and> n = i" for n
    by (auto simp: bit_and_iff bit_transmitter dest: bit_imp_le_length)
  then show ?thesis
    by (metis bit_eq_iff bit_0_eq bot_apply bot_bool_def)
qed

definition refused_set :: "u8 \<Rightarrow> nat set" where
  "refused_set m = {i. i < TRANSMITTERS \<and> bit m i}"

lemma refused_set_0 [simp]: "refused_set 0 = {}"
  by (simp add: refused_set_def)

lemma refused_set_OR [simp]: "refused_set (a OR b) = refused_set a \<union> refused_set b"
  by (auto simp: refused_set_def bit_or_iff)

lemma refused_set_off [simp]:
  "refused_set (a AND NOT (transmitter_bit i)) = refused_set a - {i}"
  by (auto simp: refused_set_def bit_and_iff bit_not_iff bit_transmitter TRANSMITTERS_def
      dest: bit_imp_le_length)

lemma refused_set_bit: "i < TRANSMITTERS \<Longrightarrow> refused_set (transmitter_bit i) = {i}"
  by (auto simp: refused_set_def bit_transmitter TRANSMITTERS_def)

text \<open>A refusal names one transmitter, or everything this client asks for; either way only what
  it asks for.\<close>

definition meant :: "(nat \<Rightarrow> bool) \<Rightarrow> denied_target \<Rightarrow> nat set" where
  "meant asking target =
     {i. i < TRANSMITTERS \<and> asking i \<and> (case denied_index target of Some j \<Rightarrow> i = j | None \<Rightarrow> True)}"

lemma refused_set_fold:
  "refused_set (fold (\<lambda>i m. if P i then m OR transmitter_bit i else m) is m) =
     refused_set m \<union> {i \<in> set is. P i \<and> i < TRANSMITTERS}"
proof (induction "is" arbitrary: m)
  case (Cons i "is")
  then show ?case
    by (auto simp: refused_set_def bit_or_iff bit_transmitter TRANSMITTERS_def)
qed simp

lemma refused_set_mask: "refused_set (refusal_mask asking target) = meant asking target"
  by (auto simp: refusal_mask_def meant_def refused_set_fold refused_set_bit split: option.split)

lemma mask_within: "bit (refusal_mask asking target) n \<Longrightarrow> n < TRANSMITTERS"
proof -
  have "bit (fold (\<lambda>i m. if P i then m OR transmitter_bit i else m) is m) n \<Longrightarrow>
      bit m n \<or> n \<in> set is" for P "is" m
    by (induction "is" arbitrary: m) (fastforce simp: bit_or_iff bit_transmitter split: if_splits)+
  from this [of asking "[0..<TRANSMITTERS]" 0]
  show "bit (refusal_mask asking target) n \<Longrightarrow> n < TRANSMITTERS"
    by (auto simp: refusal_mask_def bit_transmitter TRANSMITTERS_def split: option.splits if_splits)
qed

lemma mask_0_iff: "refusal_mask asking target = 0 \<longleftrightarrow> meant asking target = {}"
proof
  assume "meant asking target = {}"
  then have "\<not> bit (refusal_mask asking target) n" for n
    using mask_within [of asking target n] by (auto simp: refused_set_def simp flip: refused_set_mask)
  then show "refusal_mask asking target = 0"
    by (simp add: bit_eq_iff)
qed (simp flip: refused_set_mask)

lemma released_set: "releases d missed which \<longleftrightarrow> which \<in> refused_set (to_release d missed)"
  by (simp add: releases_def refused_set_def)

section \<open>Runs of the engine\<close>

datatype refusal_event =
    RefusalIn "nat \<Rightarrow> bool" denied_target bool
  | TransmitterOff nat
  | CwRunOver u8 "nat \<Rightarrow> bool"
  | CwKeyed nat bool bool bool u8 "nat \<Rightarrow> bool"
  | LinkCleared

fun denial_step :: "refusal_event \<Rightarrow> ptt_denial \<Rightarrow> ptt_denial" where
  "denial_step (RefusalIn asking target released) d = fst (apply_refusal asking target released d)"
| "denial_step (TransmitterOff t) d = transmitter_off t d"
| "denial_step (CwRunOver asked mic) d = cw_run_over asked mic d"
| "denial_step (CwKeyed t was now other asked mic) d = fst (cw_keyed_after_all t was now other asked mic d)"
| "denial_step LinkCleared d = denial_clear d"

definition denial_run :: "refusal_event list \<Rightarrow> ptt_denial \<Rightarrow> ptt_denial" where
  "denial_run es d = fold denial_step es d"

text \<open>The same events on sets of transmitters: what a refusal adds and what takes it away.\<close>

fun refuses :: "refusal_event \<Rightarrow> nat set" where
  "refuses (RefusalIn asking target released) = meant asking target"
| "refuses e = {}"

fun settles :: "refusal_event \<Rightarrow> nat set" where
  "settles (RefusalIn asking target released) = {}"
| "settles (TransmitterOff t) = {t}"
| "settles (CwRunOver asked mic) = {t. bit asked t \<and> \<not> mic t}"
| "settles (CwKeyed t was now other asked mic) =
     (if \<not> was \<and> now \<and> \<not> other \<and> bit asked t \<and> \<not> mic t then {t} else {})"
| "settles LinkCleared = UNIV"

definition still_refused :: "ptt_denial \<Rightarrow> nat set" where
  "still_refused d = refused_set (dn_outstanding d)"

definition last_refused :: "ptt_denial \<Rightarrow> nat set" where
  "last_refused d = refused_set (dn_covered d)"

lemma transmitter_off_fields [simp]:
  "dn_seq (transmitter_off t d) = dn_seq d" "dn_covered (transmitter_off t d) = dn_covered d"
  "dn_server_released (transmitter_off t d) = dn_server_released d"
  "still_refused (transmitter_off t d) = still_refused d - {t}"
proof -
  show "still_refused (transmitter_off t d) = still_refused d - {t}"
    by (cases "t < TRANSMITTERS") (auto simp: transmitter_off_def still_refused_def refused_set_def [of "dn_outstanding d"])
qed (simp_all add: transmitter_off_def)

lemma cw_run_over_fields:
  "dn_seq (fold (\<lambda>i d. if P i then transmitter_off i d else d) is d) = dn_seq d"
  "dn_covered (fold (\<lambda>i d. if P i then transmitter_off i d else d) is d) = dn_covered d"
  "still_refused (fold (\<lambda>i d. if P i then transmitter_off i d else d) is d) =
     still_refused d - {i \<in> set is. P i}"
  by (induction "is" arbitrary: d) auto

lemma still_refused_below: "t \<in> still_refused d \<Longrightarrow> t < TRANSMITTERS"
  by (simp add: still_refused_def refused_set_def)

lemma denial_step_fields:
  "still_refused (denial_step e d) = (still_refused d \<union> refuses e) - settles e \<and>
   last_refused (denial_step e d) = (if refuses e = {} then last_refused d else refuses e) \<and>
   dn_seq (denial_step e d) = (if refuses e = {} then dn_seq d else dn_seq d + 1)"
proof (cases e)
  case (RefusalIn asking target released)
  then show ?thesis
    by (auto simp: apply_refusal_def Let_def mask_0_iff still_refused_def last_refused_def refused_set_mask)
next
  case (CwRunOver asked mic)
  then show ?thesis
    by (auto simp: cw_run_over_def cw_run_over_fields last_refused_def dest: still_refused_below)
next
  case (CwKeyed t was now other asked mic)
  then show ?thesis
    by (auto simp: cw_keyed_after_all_def last_refused_def dest: still_refused_below)
qed (auto simp: denial_clear_def last_refused_def still_refused_def [of "_\<lparr>dn_outstanding := _\<rparr>"])

lemmas denial_step_sets = denial_step_fields [THEN conjunct1]
  denial_step_fields [THEN conjunct2, THEN conjunct1] denial_step_fields [THEN conjunct2, THEN conjunct2]

text \<open>C33. The masks refine two sets of transmitters: what the last applied refusal was about, and
  what is still refused, to which a refusal adds and from which each settling event takes
  exactly its own; the counter rises by one per applied refusal and never otherwise.\<close>

theorem denial_refines_sets:
  "still_refused (denial_step e d) = (still_refused d \<union> refuses e) - settles e \<and>
   last_refused (denial_step e d) = (if refuses e = {} then last_refused d else refuses e) \<and>
   dn_seq (denial_step e d) = (if refuses e = {} then dn_seq d else dn_seq d + 1)"
  by (rule denial_step_fields)

definition refusals :: "refusal_event list \<Rightarrow> nat" where
  "refusals es = length (filter (\<lambda>e. refuses e \<noteq> {}) es)"

lemma denial_run_seq: "dn_seq (denial_run es d) = dn_seq d + of_nat (refusals es)"
  by (induction es arbitrary: d) (simp_all add: denial_run_def refusals_def denial_step_sets)

lemma denial_run_last:
  "refusals es = 0 \<Longrightarrow> last_refused (denial_run es d) = last_refused d"
  by (induction es arbitrary: d) (auto simp: denial_run_def refusals_def denial_step_sets split: if_splits)

lemma denial_run_keeps:
  "t \<in> still_refused d \<Longrightarrow> (\<And>e. e \<in> set es \<Longrightarrow> t \<notin> settles e) \<Longrightarrow> t \<in> still_refused (denial_run es d)"
  by (induction es arbitrary: d) (auto simp: denial_run_def denial_step_sets)

lemma denial_run_origin:
  "t \<in> still_refused (denial_run es d) \<Longrightarrow> t \<in> still_refused d \<or> (\<exists>e \<in> set es. t \<in> refuses e)"
  "t \<in> last_refused (denial_run es d) \<Longrightarrow> refusals es \<noteq> 0 \<Longrightarrow> \<exists>e \<in> set es. t \<in> refuses e"
proof (induction es arbitrary: d rule: rev_induct)
  case (snoc e es)
  { case 1
    then show ?case
      using snoc(1) [of d] by (auto simp: denial_run_def denial_step_sets)
  next
    case 2
    then show ?case
      using snoc(2) [of d] by (auto simp: denial_run_def denial_step_sets refusals_def split: if_splits)
  }
qed (simp_all add: denial_run_def refusals_def)

lemma missed_refusals:
  assumes "refusals es < 2 ^ 32"
  shows "unat (dn_seq (denial_run es d) - dn_seq d) = refusals es"
  using assms by (simp add: denial_run_seq unat_of_nat take_bit_nat_eq_self)

lemma refuses_settles: "t \<in> refuses e \<Longrightarrow> t \<notin> settles e"
  by (cases e) simp_all

lemma releases_iff:
  "releases d missed t \<longleftrightarrow> t \<in> last_refused d \<or> 1 < missed \<and> t \<in> still_refused d"
  by (auto simp: released_set to_release_def transmitters_to_release_def last_refused_def still_refused_def)

text \<open>A reader that compares the counter only now and then, with fewer than 2^32 refusals in
  between, is told of a refusal exactly when one was applied; it lets go of every transmitter
  refused in between and not settled since, whatever else was refused and settled, and
  only of transmitters refused in between or still refused from before.\<close>

theorem sampling_misses_no_refusal:
  fixes d :: ptt_denial and es :: "refusal_event list"
  defines "d' \<equiv> denial_run es d" and "missed \<equiv> dn_seq (denial_run es d) - dn_seq d"
  assumes "refusals es < 2 ^ 32"
  shows "(missed \<noteq> 0 \<longleftrightarrow> refusals es \<noteq> 0) \<and>
    (\<forall>as e bs t. es = as @ e # bs \<and> t \<in> refuses e \<and> (\<forall>b \<in> set bs. t \<notin> settles b)
       \<longrightarrow> releases d' missed t) \<and>
    (\<forall>t. missed \<noteq> 0 \<and> releases d' missed t
       \<longrightarrow> t \<in> still_refused d \<or> (\<exists>e \<in> set es. t \<in> refuses e))"
proof (intro conjI allI impI)
  have u: "unat missed = refusals es"
    unfolding missed_def by (rule missed_refusals [OF assms(3)])
  show "missed \<noteq> 0 \<longleftrightarrow> refusals es \<noteq> 0"
    using u by (metis unat_eq_zero)
  show "releases d' missed t"
    if "es = as @ e # bs \<and> t \<in> refuses e \<and> (\<forall>b \<in> set bs. t \<notin> settles b)" for as e bs t
  proof (cases "refusals bs = 0 \<and> refusals as = 0")
    case True
    have "t \<in> last_refused (denial_step e (denial_run as d))"
      using that by (auto simp: denial_step_sets)
    then have "t \<in> last_refused d'"
      using True that denial_run_last [of bs "denial_step e (denial_run as d)"]
      by (simp add: d'_def denial_run_def)
    then show ?thesis
      by (simp add: releases_iff)
  next
    case False
    have "refusals es = refusals as + 1 + refusals bs"
      using that by (auto simp: refusals_def)
    then have "1 < missed"
      using False u by (auto simp: word_less_nat_alt)
    moreover have "t \<in> still_refused (denial_step e (denial_run as d))"
      using that refuses_settles by (simp add: denial_step_sets)
    then have "t \<in> still_refused d'"
      using that denial_run_keeps [of t "denial_step e (denial_run as d)" bs]
      by (simp add: d'_def denial_run_def)
    ultimately show ?thesis
      by (simp add: releases_iff)
  qed
  show "t \<in> still_refused d \<or> (\<exists>e \<in> set es. t \<in> refuses e)" if "missed \<noteq> 0 \<and> releases d' missed t" for t
  proof -
    have "refusals es \<noteq> 0"
      using that u by (metis unat_eq_zero)
    then show ?thesis
      using that denial_run_origin [of t es d] unfolding d'_def releases_iff by blast
  qed
qed

lemma sampling_misses_no_refusal_witness:
  "let es = [RefusalIn (\<lambda>_. True) DeniedThetis False, RefusalIn (\<lambda>_. True) DeniedRadio1 False,
             TransmitterOff 1];
       d' = denial_run es denial_default; missed = dn_seq d' - dn_seq denial_default
   in missed \<noteq> 0 \<and> releases d' missed 0"
proof -
  let ?es = "[RefusalIn (\<lambda>_. True) DeniedThetis False, RefusalIn (\<lambda>_. True) DeniedRadio1 False,
             TransmitterOff 1]"
  have r: "meant (\<lambda>_. True) DeniedThetis = {0}" "meant (\<lambda>_. True) DeniedRadio1 = {1}"
    by (auto simp: meant_def denied_index_def TRANSMITTERS_def)
  have few: "refusals ?es < 2 ^ 32" "refusals ?es \<noteq> 0"
    by (simp_all add: refusals_def r)
  show ?thesis
    using sampling_misses_no_refusal [OF few(1), of denial_default] few(2) r
    unfolding Let_def by (metis append_Nil insertI1 list.set_intros(1) refuses.simps(1) set_ConsD
      settles.simps(1,2) singletonD empty_iff list.set(1) zero_neq_one)
qed

end
