(* ===== verification/SessionIntent.thy ===== *)
theory SessionIntent
  imports WireLink ControlAck
begin

text \<open>
  What the client has asked the server for, so that it can ask again on a new session
  (\<^verbatim>\<open>sdr-remote-logic/src/session_intent.rs\<close>), with the send path it sits in
  (\<^verbatim>\<open>send_control!\<close>, \<^verbatim>\<open>send_held_back!\<close> and the restore in \<^verbatim>\<open>engine.rs\<close>).  A control id is its
  number, as in Wire.  The log line \<^verbatim>\<open>restore_summary\<close> is left out.
\<close>

section \<open>The record of what was asked\<close>

definition SESSION_SCOPED_CONTROLS :: "u8 list" where
  "SESSION_SCOPED_CONTROLS =
    [0x91, 0x07, 0x08, 0x09, 0x0A, 0x9E, 0x1A,
     0x0E, 0x15, 0x16, 0x10, 0x11, 0x9F, 0x1B,
     0x20, 0x92, 0x80, 0x93,
     0x67, 0x6A, 0x71, 0x72, 0x76, 0x77,
     0x62, 0x64, 0x65, 0x98, 0x66, 0x63]"

definition needs_fine_spectrum_view :: "u8 \<Rightarrow> bool" where
  "needs_fine_spectrum_view cid \<longleftrightarrow> cid = 0x9E \<or> cid = 0x9F \<or> cid = 0xA0 \<or> cid = 0xA1"

record session_intent =
  si_values :: "u16 option list"

definition session_intent_new :: session_intent where
  "session_intent_new = \<lparr>si_values = replicate (length SESSION_SCOPED_CONTROLS) None\<rparr>"

fun position :: "('a \<Rightarrow> bool) \<Rightarrow> 'a list \<Rightarrow> nat option" where
  "position P [] = None"
| "position P (x # xs) = (if P x then Some 0 else map_option Suc (position P xs))"

definition intent_index_of :: "u8 \<Rightarrow> nat option" where
  "intent_index_of cid = position (\<lambda>c. c = cid) SESSION_SCOPED_CONTROLS"

definition record_intent :: "u8 \<Rightarrow> u16 \<Rightarrow> session_intent \<Rightarrow> session_intent" where
  "record_intent cid value i =
     (case intent_index_of cid of
        Some k \<Rightarrow> i\<lparr>si_values := (si_values i)[k := Some value]\<rparr>
      | None \<Rightarrow> i)"

definition replay :: "session_intent \<Rightarrow> (u8 \<times> u16) list" where
  "replay i = List.map_filter (\<lambda>(cid, v). map_option (\<lambda>v. (cid, v)) v)
                (zip SESSION_SCOPED_CONTROLS (si_values i))"

definition intent_len :: "session_intent \<Rightarrow> nat" where
  "intent_len i = length (filter (\<lambda>v. v \<noteq> None) (si_values i))"

definition intent_is_empty :: "session_intent \<Rightarrow> bool" where
  "intent_is_empty i \<longleftrightarrow> intent_len i = 0"

text \<open>The send path of every packet: the type byte first, the full parse only for a control.\<close>

definition record_if_control :: "u8 list \<Rightarrow> session_intent \<Rightarrow> session_intent" where
  "record_if_control buf i =
     (if length buf < CONTROL_SIZE \<or> buf ! 2 \<noteq> packet_code packet_type.Control then i
      else case control_deserialize buf of
             Ok ctrl \<Rightarrow> record_intent (cp_control_id ctrl) (cp_value ctrl) i
           | _ \<Rightarrow> i)"

section \<open>What a server does not take\<close>

definition hold_back :: "u8 \<Rightarrow> u16 \<Rightarrow> (u8 \<times> u16) list \<Rightarrow> (u8 \<times> u16) list" where
  "hold_back cid value held =
     (case position (\<lambda>(h, _). h = cid) held of
        Some k \<Rightarrow> held[k := (fst (held ! k), value)]
      | None \<Rightarrow> held @ [(cid, value)])"

definition take_held :: "(u8 \<times> u16) list \<Rightarrow> (u8 \<times> u16) list \<times> (u8 \<times> u16) list" where
  "take_held held = ([], held)"

section \<open>The send path\<close>

text \<open>The engine's variables: the record, what is held back, the numbered sender, and whether
  the server has said it takes the fine spectrum view.\<close>

record control_link =
  cl_intent :: session_intent
  cl_held :: "(u8 \<times> u16) list"
  cl_sender :: control_sender
  cl_fine :: bool

definition server_takes :: "control_link \<Rightarrow> u8 \<Rightarrow> bool" where
  "server_takes s cid \<longleftrightarrow> cl_fine s \<or> \<not> needs_fine_spectrum_view cid"

definition engine_send_control ::
  "instant \<Rightarrow> duration \<Rightarrow> u8 \<times> u16 \<Rightarrow> control_link \<Rightarrow> control_link \<times> u8 list list" where
  "engine_send_control now rtt = (\<lambda>(cid, value) s.
     if \<not> server_takes s cid then (s\<lparr>cl_held := hold_back cid value (cl_held s)\<rparr>, [])
     else let cbuf = control_serialize \<lparr>cp_control_id = cid, cp_value = value\<rparr>;
              (sender, numbered) = send_control (cl_sender s) cbuf now rtt
          in (s\<lparr>cl_sender := sender, cl_intent := record_if_control numbered (cl_intent s)\<rparr>, [numbered]))"

fun engine_send_all ::
  "instant \<Rightarrow> duration \<Rightarrow> (u8 \<times> u16) list \<Rightarrow> control_link \<Rightarrow> control_link \<times> u8 list list" where
  "engine_send_all now rtt [] s = (s, [])"
| "engine_send_all now rtt (c # cs) s =
     (let (s, out) = engine_send_control now rtt c s; (s, rest) = engine_send_all now rtt cs s
      in (s, out @ rest))"

definition send_held_back :: "instant \<Rightarrow> duration \<Rightarrow> control_link \<Rightarrow> control_link \<times> u8 list list" where
  "send_held_back now rtt s =
     (if cl_fine s
      then let (left, held) = take_held (cl_held s)
           in engine_send_all now rtt held (s\<lparr>cl_held := left\<rparr>)
      else (s, []))"

text \<open>What an answer of the server does here: it says whether it takes the fine view; on a new
  session the record is replayed first, then what was held back.\<close>

definition restore :: "instant \<Rightarrow> duration \<Rightarrow> control_link \<Rightarrow> control_link \<times> u8 list list" where
  "restore now rtt s =
     (let again = filter (\<lambda>(cid, _). server_takes s cid) (replay (cl_intent s));
          (s, out) = engine_send_all now rtt again s;
          (s, held) = send_held_back now rtt s
      in (s, out @ held))"

definition control_link_new :: "control_sender \<Rightarrow> control_link" where
  "control_link_new sender =
     \<lparr>cl_intent = session_intent_new, cl_held = [], cl_sender = sender, cl_fine = False\<rparr>"

section \<open>Facts about the pieces\<close>

lemma scoped_controls [simp]:
  "distinct SESSION_SCOPED_CONTROLS" "set SESSION_SCOPED_CONTROLS \<subseteq> set CONTROL_CODES"
  by (simp_all add: SESSION_SCOPED_CONTROLS_def CONTROL_CODES_def)

lemma position_None: "position P xs = None \<longleftrightarrow> (\<forall>x \<in> set xs. \<not> P x)"
  by (induction xs) auto

lemma position_Some: "position P xs = Some k \<Longrightarrow> k < length xs \<and> P (xs ! k)"
  by (induction xs arbitrary: k) (auto split: if_splits)

lemma intent_index_None: "intent_index_of cid = None \<longleftrightarrow> cid \<notin> set SESSION_SCOPED_CONTROLS"
  by (auto simp: intent_index_of_def position_None)

lemma intent_index_Some:
  "intent_index_of cid = Some k \<longleftrightarrow> k < length SESSION_SCOPED_CONTROLS \<and> SESSION_SCOPED_CONTROLS ! k = cid"
proof
  assume *: "k < length SESSION_SCOPED_CONTROLS \<and> SESSION_SCOPED_CONTROLS ! k = cid"
  then obtain j where j: "intent_index_of cid = Some j"
    using intent_index_None [of cid] nth_mem by fastforce
  with * show "intent_index_of cid = Some k"
    using position_Some [of "\<lambda>c. c = cid" SESSION_SCOPED_CONTROLS j] scoped_controls(1)
    by (auto simp: intent_index_of_def nth_eq_iff_index_eq)
qed (auto simp: intent_index_of_def dest: position_Some)

text \<open>The list of options read as a map from control to the last value.\<close>

definition asked_value :: "session_intent \<Rightarrow> u8 \<Rightarrow> u16 option" where
  "asked_value i cid = (case intent_index_of cid of Some k \<Rightarrow> si_values i ! k | None \<Rightarrow> None)"

definition intent_ok :: "session_intent \<Rightarrow> bool" where
  "intent_ok i \<longleftrightarrow> length (si_values i) = length SESSION_SCOPED_CONTROLS"

lemma intent_ok_new [simp]: "intent_ok session_intent_new"
  by (simp add: intent_ok_def session_intent_new_def)

lemma intent_ok_record [simp]: "intent_ok (record_intent cid v i) \<longleftrightarrow> intent_ok i"
  by (simp add: intent_ok_def record_intent_def split: option.split)

lemma asked_value_new [simp]: "asked_value session_intent_new cid = None"
  by (auto simp: asked_value_def session_intent_new_def intent_index_Some split: option.split)

lemma asked_value_record:
  "intent_ok i \<Longrightarrow> asked_value (record_intent cid v i) c =
     (if c = cid \<and> cid \<in> set SESSION_SCOPED_CONTROLS then Some v else asked_value i c)"
proof (cases "intent_index_of cid")
  case None
  then show ?thesis
    using intent_index_None [of cid] by (simp add: record_intent_def)
next
  case (Some k)
  assume ok: "intent_ok i"
  have k: "k < length (si_values i)" "cid \<in> set SESSION_SCOPED_CONTROLS"
    using Some ok by (auto simp: intent_index_Some intent_ok_def)
  have same: "intent_index_of c = Some k \<longleftrightarrow> c = cid"
    using Some by (auto simp: intent_index_Some)
  show ?thesis
    using Some k same by (cases "c = cid") (auto simp: asked_value_def record_intent_def split: option.split)
qed

lemma asked_value_scoped: "asked_value i cid = Some v \<Longrightarrow> cid \<in> set SESSION_SCOPED_CONTROLS"
  by (cases "intent_index_of cid") (auto simp: asked_value_def intent_index_Some)

lemma replay_map:
  "intent_ok i \<Longrightarrow> replay i =
     List.map_filter (\<lambda>cid. map_option (\<lambda>v. (cid, v)) (asked_value i cid)) SESSION_SCOPED_CONTROLS"
proof -
  assume ok: "intent_ok i"
  have "zip SESSION_SCOPED_CONTROLS (si_values i)
      = map (\<lambda>cid. (cid, asked_value i cid)) SESSION_SCOPED_CONTROLS"
  proof (rule nth_equalityI)
    fix k assume "k < length (zip SESSION_SCOPED_CONTROLS (si_values i))"
    then have "intent_index_of (SESSION_SCOPED_CONTROLS ! k) = Some k"
      by (simp add: intent_index_Some)
    then show "zip SESSION_SCOPED_CONTROLS (si_values i) ! k
        = map (\<lambda>cid. (cid, asked_value i cid)) SESSION_SCOPED_CONTROLS ! k"
      using ok \<open>k < _\<close> by (simp add: asked_value_def intent_ok_def)
  qed (use ok in \<open>simp add: intent_ok_def\<close>)
  then show ?thesis
    by (simp add: replay_def List.map_filter_def filter_map comp_def split_beta)
qed

section \<open>The byte that answers before the parse\<close>

lemma control_parsed_type:
  assumes "control_deserialize buf = Ok c"
  shows "CONTROL_SIZE \<le> length buf" "buf ! 2 = packet_code packet_type.Control"
proof -
  obtain h where h: "header_deserialize buf = Ok h" "hd_type h = packet_type.Control" "7 \<le> length buf"
    using assms by (auto simp: control_deserialize_def expect_def wbind_ok_iff ensure_ok_iff)
  then show "CONTROL_SIZE \<le> length buf"
    by (simp add: CONTROL_SIZE_def)
  show "buf ! 2 = packet_code packet_type.Control"
    using h by (simp add: header_ok_iff ptype.code_from)
qed

lemma recorded:
  "record_if_control buf i =
     (case control_deserialize buf of
        Ok c \<Rightarrow> record_intent (cp_control_id c) (cp_value c) i
      | _ \<Rightarrow> i)"
  using control_parsed_type [of buf] by (auto simp: record_if_control_def split: wire.split)

text \<open>C32. The comparison of one byte in the path of every packet leaves nothing out: what is recorded
  is exactly what the full parse of the packet would have recorded.\<close>

theorem recorded_as_parsed:
  "record_if_control buf i =
     (case control_deserialize buf of
        Ok c \<Rightarrow> record_intent (cp_control_id c) (cp_value c) i
      | _ \<Rightarrow> i)"
  by (rule recorded)

section \<open>What a new session hears\<close>

text \<open>What a server reads out of the datagrams it gets.\<close>

definition heard_controls :: "u8 list list \<Rightarrow> (u8 \<times> u16) list" where
  "heard_controls outs =
     map (\<lambda>buf. case control_deserialize buf of Ok c \<Rightarrow> (cp_control_id c, cp_value c) | _ \<Rightarrow> (0, 0)) outs"

definition last_heard :: "(u8 \<times> u16) list \<Rightarrow> u8 \<Rightarrow> u16 option" where
  "last_heard cs = map_of (rev cs)"

lemma last_heard_append: "last_heard (as @ bs) c = (case last_heard bs c of None \<Rightarrow> last_heard as c | v \<Rightarrow> v)"
  unfolding last_heard_def by (simp add: map_add_def)

lemma last_heard_Nil [simp]: "last_heard [] c = None"
  by (simp add: last_heard_def)

lemma last_heard_Cons:
  "last_heard ((x, v) # cs) c = (case last_heard cs c of None \<Rightarrow> if c = x then Some v else None | u \<Rightarrow> u)"
  unfolding last_heard_def by (simp add: map_add_def split: option.split)

lemma heard_controls_append: "heard_controls (as @ bs) = heard_controls as @ heard_controls bs"
  by (simp add: heard_controls_def)

lemma send_control_bytes:
  "\<exists>rest. snd (send_control s (control_serialize p) now rtt) = control_serialize p @ rest"
  by (auto simp: send_control_def Let_def split: option.split)

lemma record_written:
  assumes "c \<in> set CONTROL_CODES"
  shows "record_if_control (control_serialize \<lparr>cp_control_id = c, cp_value = v\<rparr> @ rest) i = record_intent c v i"
    "control_deserialize (control_serialize \<lparr>cp_control_id = c, cp_value = v\<rparr> @ rest)
       = Ok \<lparr>cp_control_id = c, cp_value = v\<rparr>"
proof -
  show "control_deserialize (control_serialize \<lparr>cp_control_id = c, cp_value = v\<rparr> @ rest)
       = Ok \<lparr>cp_control_id = c, cp_value = v\<rparr>"
    using control.ignores_rest assms by (simp add: control_carried_def)
  then show "record_if_control (control_serialize \<lparr>cp_control_id = c, cp_value = v\<rparr> @ rest) i = record_intent c v i"
    by (simp add: recorded)
qed

lemma engine_send_taken:
  assumes "server_takes s c" "c \<in> set CONTROL_CODES"
  shows "heard_controls (snd (engine_send_control now rtt (c, v) s)) = [(c, v)]"
    "cl_intent (fst (engine_send_control now rtt (c, v) s)) = record_intent c v (cl_intent s)"
    "cl_held (fst (engine_send_control now rtt (c, v) s)) = cl_held s"
    "cl_fine (fst (engine_send_control now rtt (c, v) s)) = cl_fine s"
proof -
  obtain rest where "snd (send_control (cl_sender s) (control_serialize \<lparr>cp_control_id = c, cp_value = v\<rparr>) now rtt)
      = control_serialize \<lparr>cp_control_id = c, cp_value = v\<rparr> @ rest"
    using send_control_bytes by blast
  then show "heard_controls (snd (engine_send_control now rtt (c, v) s)) = [(c, v)]"
    "cl_intent (fst (engine_send_control now rtt (c, v) s)) = record_intent c v (cl_intent s)"
    "cl_held (fst (engine_send_control now rtt (c, v) s)) = cl_held s"
    "cl_fine (fst (engine_send_control now rtt (c, v) s)) = cl_fine s"
    using assms by (simp_all add: engine_send_control_def split_beta Let_def record_written heard_controls_def)
qed

lemma engine_send_refused:
  "\<not> server_takes s c \<Longrightarrow>
     engine_send_control now rtt (c, v) s = (s\<lparr>cl_held := hold_back c v (cl_held s)\<rparr>, [])"
  by (simp add: engine_send_control_def)

definition record_all :: "(u8 \<times> u16) list \<Rightarrow> session_intent \<Rightarrow> session_intent" where
  "record_all cs i = fold (\<lambda>(c, v). record_intent c v) cs i"

lemma record_all_value:
  assumes "intent_ok i"
  shows "intent_ok (record_all cs i) \<and> (c \<in> set SESSION_SCOPED_CONTROLS \<longrightarrow>
    asked_value (record_all cs i) c = (asked_value i ++ last_heard cs) c)"
  using assms
proof (induction cs arbitrary: i)
  case (Cons cv cs)
  obtain x v where cv: "cv = (x, v)"
    by (cases cv)
  show ?case
    using Cons.IH [of "record_intent x v i"] Cons.prems
    by (auto simp: cv record_all_def last_heard_Cons asked_value_record map_add_def split: option.splits)
qed (simp add: record_all_def map_add_def)

lemma engine_send_all_taken:
  assumes "\<forall>x \<in> set cs. server_takes s (fst x) \<and> fst x \<in> set CONTROL_CODES"
  shows "heard_controls (snd (engine_send_all now rtt cs s)) = cs \<and>
    cl_intent (fst (engine_send_all now rtt cs s)) = record_all cs (cl_intent s) \<and>
    cl_held (fst (engine_send_all now rtt cs s)) = cl_held s \<and>
    cl_fine (fst (engine_send_all now rtt cs s)) = cl_fine s"
  using assms
proof (induction cs arbitrary: s)
  case (Cons cv cs)
  obtain c v where cv: "cv = (c, v)"
    by (cases cv)
  have t: "server_takes s c" "c \<in> set CONTROL_CODES"
    using Cons.prems cv by auto
  note one = engine_send_taken [OF t, of now rtt v]
  have "server_takes (fst (engine_send_control now rtt (c, v) s)) x = server_takes s x" for x
    by (simp add: server_takes_def one(4))
  then show ?case
    using Cons.IH [of "fst (engine_send_control now rtt (c, v) s)"] Cons.prems one
    by (auto simp: cv split_beta Let_def record_all_def heard_controls_append)
qed (simp add: heard_controls_def record_all_def)

lemma hold_back_map:
  "map_of (hold_back c v held) = (map_of held)(c \<mapsto> v) \<and>
   fst ` set (hold_back c v held) = insert c (fst ` set held) \<and>
   (distinct (map fst held) \<longrightarrow> distinct (map fst (hold_back c v held)))"
proof (cases "position (\<lambda>(h, _). h = c) held")
  case None
  then have "c \<notin> fst ` set held"
    by (auto simp: position_None)
  then show ?thesis
    using None by (auto simp: hold_back_def map_add_def fun_eq_iff dom_map_of_conv_image_fst
        split: option.split simp flip: map_of_eq_None_iff)
next
  case (Some k)
  have "map_of (held[k := (fst (held ! k), v)]) = (map_of held)(c \<mapsto> v) \<and>
      map fst (held[k := (fst (held ! k), v)]) = map fst held \<and> c \<in> fst ` set held"
    using Some
    by (induction held arbitrary: k) (auto split: if_splits simp: fun_eq_iff)
  then show ?thesis
    using Some by (simp add: hold_back_def insert_absorb) (metis list.set_map)
qed

datatype link_event = Ask u8 u16 | AnswerIn bool bool | SessionForgotten

fun link_step :: "instant \<Rightarrow> duration \<Rightarrow> link_event \<Rightarrow> control_link \<Rightarrow> control_link \<times> u8 list list" where
  "link_step now rtt (Ask c v) s = engine_send_control now rtt (c, v) s"
| "link_step now rtt (AnswerIn fine again) s =
     (let s = s\<lparr>cl_fine := fine\<rparr>;
          (s, out) = (if again then restore now rtt s else (s, []));
          (s, held) = send_held_back now rtt s
      in (s, out @ held))"
| "link_step now rtt SessionForgotten s = (s\<lparr>cl_fine := False\<rparr>, [])"

definition link_run :: "(instant \<times> duration \<times> link_event) list \<Rightarrow> control_link \<Rightarrow> control_link" where
  "link_run es s = fold (\<lambda>(now, rtt, e) s. fst (link_step now rtt e s)) es s"

text \<open>The operator's last wish for a control.\<close>

definition wished :: "(instant \<times> duration \<times> link_event) list \<Rightarrow> u8 \<Rightarrow> u16 option" where
  "wished es c = last_heard (concat (map (\<lambda>(_, _, e). case e of Ask c v \<Rightarrow> [(c, v)] | _ \<Rightarrow> []) es)) c"

definition known :: "control_link \<Rightarrow> u8 \<Rightarrow> u16 option" where
  "known s = asked_value (cl_intent s) ++ map_of (cl_held s)"

lemma known_fine [simp]: "known (s\<lparr>cl_fine := f\<rparr>) = known s"
  by (simp add: known_def)

definition link_ok :: "control_link \<Rightarrow> (u8 \<Rightarrow> u16 option) \<Rightarrow> bool" where
  "link_ok s wish \<longleftrightarrow> intent_ok (cl_intent s) \<and> distinct (map fst (cl_held s)) \<and>
     (cl_fine s \<longrightarrow> cl_held s = []) \<and>
     (\<forall>c \<in> fst ` set (cl_held s). needs_fine_spectrum_view c) \<and>
     (\<forall>c \<in> set SESSION_SCOPED_CONTROLS. wish c = known s c)"

lemma fine_codes: "needs_fine_spectrum_view c \<Longrightarrow> c \<in> set CONTROL_CODES"
  by (auto simp: needs_fine_spectrum_view_def CONTROL_CODES_def)

lemma link_ok_ask:
  assumes "link_ok s wish" "c \<in> set CONTROL_CODES"
  shows "link_ok (fst (engine_send_control now rtt (c, v) s)) (wish(c \<mapsto> v))"
proof (cases "server_takes s c")
  case True
  then have "c \<notin> fst ` set (cl_held s)"
    using assms(1) by (auto simp: link_ok_def server_takes_def)
  then have "map_of (cl_held s) c = None"
    by (simp add: map_of_eq_None_iff)
  then show ?thesis
    using assms engine_send_taken [OF True assms(2), of now rtt v]
    by (auto simp: link_ok_def known_def asked_value_record map_add_def split: option.split)
next
  case False
  then show ?thesis
    using assms hold_back_map [of c v "cl_held s"]
    by (auto simp: link_ok_def known_def map_add_def engine_send_refused server_takes_def)
qed

lemma send_held_back_out:
  assumes "link_ok s wish" "cl_fine s"
  shows "snd (send_held_back now rtt s) = []" "link_ok (fst (send_held_back now rtt s)) wish"
  using assms by (auto simp: link_ok_def send_held_back_def take_held_def known_def)

text \<open>A server's answer before anything is sent: the invariant may be short of an empty list.\<close>

definition link_pre :: "control_link \<Rightarrow> (u8 \<Rightarrow> u16 option) \<Rightarrow> bool" where
  "link_pre s wish \<longleftrightarrow> link_ok (s\<lparr>cl_fine := False\<rparr>) wish"

lemma link_ok_pre: "link_ok s wish \<Longrightarrow> link_pre (s\<lparr>cl_fine := f\<rparr>) wish"
  by (auto simp: link_ok_def link_pre_def)

lemma link_ok_pre_self: "link_ok s wish \<Longrightarrow> link_pre s wish"
  by (auto simp: link_ok_def link_pre_def)

lemma link_pre_ok: "link_pre s wish \<Longrightarrow> \<not> cl_fine s \<Longrightarrow> link_ok s wish"
  by (auto simp: link_ok_def link_pre_def)

lemma last_heard_distinct: "distinct (map fst cs) \<Longrightarrow> last_heard cs c = map_of cs c"
proof (induction cs)
  case (Cons cv cs)
  then show ?case
    by (cases cv) (auto simp: last_heard_Cons simp flip: map_of_eq_None_iff split: option.split)
qed simp

lemma held_flushed:
  assumes "link_pre s wish"
  shows "link_ok (fst (send_held_back now rtt s)) wish \<and>
    heard_controls (snd (send_held_back now rtt s)) = (if cl_fine s then cl_held s else [])"
proof (cases "cl_fine s")
  case True
  let ?s = "s\<lparr>cl_held := []\<rparr>"
  have "\<forall>x \<in> set (cl_held s). server_takes ?s (fst x) \<and> fst x \<in> set CONTROL_CODES"
    using assms True by (force simp: link_pre_def link_ok_def server_takes_def dest: fine_codes)
  note all = engine_send_all_taken [of "cl_held s" ?s now rtt, OF this]
  have "asked_value (record_all (cl_held s) (cl_intent s)) c = known s c"
    if "c \<in> set SESSION_SCOPED_CONTROLS" for c
    using that assms record_all_value [of "cl_intent s" "cl_held s" c]
    by (auto simp: known_def map_add_def link_pre_def link_ok_def last_heard_distinct split: option.split)
  then show ?thesis
    using assms True all record_all_value [of "cl_intent s" "cl_held s"]
    by (simp add: send_held_back_def take_held_def link_pre_def link_ok_def known_def [of "fst _"])
next
  case False
  then show ?thesis
    using assms by (simp add: send_held_back_def link_pre_ok heard_controls_def)
qed

lemma replay_facts:
  assumes "intent_ok i"
  shows "set (replay i) = {(c, v). asked_value i c = Some v}" "distinct (map fst (replay i))"
proof -
  have f: "replay i = map (\<lambda>c. (c, the (asked_value i c)))
      (filter (\<lambda>c. asked_value i c \<noteq> None) SESSION_SCOPED_CONTROLS)"
    by (auto simp: replay_map [OF assms] List.map_filter_def comp_def)
  show "set (replay i) = {(c, v). asked_value i c = Some v}"
    by (auto simp: f image_iff dest: asked_value_scoped)
  show "distinct (map fst (replay i))"
    by (simp add: f comp_def)
qed

lemma map_of_filter_keys: "map_of (filter (\<lambda>(c, _). P c) cs) c = (if P c then map_of cs c else None)"
  by (induction cs) auto

lemma last_heard_replay:
  assumes "intent_ok i"
  shows "last_heard (filter (\<lambda>(c, _). P c) (replay i)) c = (if P c then asked_value i c else None)"
proof -
  have "map_of (replay i) c = asked_value i c"
  proof (cases "asked_value i c")
    case None
    then show ?thesis
      using replay_facts(1) [OF assms] by (auto simp: map_of_eq_None_iff)
  next
    case (Some v)
    then show ?thesis
      using replay_facts [OF assms] by (auto intro: map_of_is_SomeI)
  qed
  moreover have "distinct (map fst (filter (\<lambda>(c, _). P c) (replay i)))"
    using replay_facts(2) [OF assms] by (rule distinct_map_filter)
  ultimately show ?thesis
    by (simp add: last_heard_distinct map_of_filter_keys)
qed

lemma restore_hears:
  assumes "link_pre s wish"
  shows "link_ok (fst (restore now rtt s)) wish \<and>
    (\<forall>c \<in> set SESSION_SCOPED_CONTROLS.
       last_heard (heard_controls (snd (restore now rtt s))) c =
         (if server_takes s c then wish c else None))"
proof -
  let ?cs = "filter (\<lambda>(c, _). server_takes s c) (replay (cl_intent s))"
  define t where "t = fst (engine_send_all now rtt ?cs s)"
  have ok: "intent_ok (cl_intent s)"
    using assms by (simp add: link_pre_def link_ok_def)
  have "\<forall>x \<in> set ?cs. server_takes s (fst x) \<and> fst x \<in> set CONTROL_CODES"
    using replay_facts(1) [OF ok] subsetD [OF scoped_controls(2)]
    by (auto dest: asked_value_scoped)
  note all = engine_send_all_taken [of ?cs s now rtt, OF this, folded t_def]
  have heard: "last_heard ?cs c = (if server_takes s c then asked_value (cl_intent s) c else None)" for c
    by (rule last_heard_replay [OF ok])
  have "asked_value (cl_intent t) c = asked_value (cl_intent s) c" if "c \<in> set SESSION_SCOPED_CONTROLS" for c
    using that all record_all_value [OF ok, of ?cs c] heard [of c]
    by (auto simp: map_add_def split: option.split)
  then have pre: "link_pre t wish"
    using assms all record_all_value [OF ok, of ?cs]
    by (auto simp: link_pre_def link_ok_def known_def map_add_def split: option.split)
  have held: "needs_fine_spectrum_view c" if "map_of (cl_held s) c = Some v" for c v
    using assms map_of_SomeD [OF that] by (force simp: link_pre_def link_ok_def)
  have "last_heard (heard_controls (snd (restore now rtt s))) c = (if server_takes s c then wish c else None)"
    if c: "c \<in> set SESSION_SCOPED_CONTROLS" for c
  proof -
    have d: "distinct (map fst (cl_held s))"
      using assms by (simp add: link_pre_def link_ok_def)
    have "heard_controls (snd (restore now rtt s)) = ?cs @ (if cl_fine s then cl_held s else [])"
      using all held_flushed [OF pre, of now rtt]
      by (simp add: restore_def split_beta Let_def heard_controls_append t_def)
    then have "last_heard (heard_controls (snd (restore now rtt s))) c =
        (case (if cl_fine s then map_of (cl_held s) c else None) of
           None \<Rightarrow> last_heard ?cs c | v \<Rightarrow> v)"
      by (simp only: last_heard_append) (simp add: last_heard_distinct [OF d])
    moreover have "wish c = (asked_value (cl_intent s) ++ map_of (cl_held s)) c"
      using assms c by (simp add: link_pre_def link_ok_def known_def)
    moreover have "cl_fine s \<Longrightarrow> server_takes s c"
      "\<And>v. map_of (cl_held s) c = Some v \<Longrightarrow> server_takes s c \<Longrightarrow> cl_fine s"
      using held [of c] by (auto simp: server_takes_def)
    ultimately show ?thesis
      by (auto simp: heard map_add_def split: option.split)
  qed
  moreover have "fst (restore now rtt s) = fst (send_held_back now rtt t)"
    by (simp add: restore_def split_beta Let_def t_def)
  ultimately show ?thesis
    using held_flushed [OF pre, of now rtt] by simp
qed

lemma link_ok_step:
  assumes "link_ok s (wished es)" "\<And>c v. e = Ask c v \<Longrightarrow> c \<in> set CONTROL_CODES"
  shows "link_ok (fst (link_step now rtt e s)) (wished (es @ [(now, rtt, e)]))"
proof (cases e)
  case (Ask c v)
  have "wished (es @ [(now, rtt, e)]) = (wished es)(c \<mapsto> v)"
    by (auto simp: wished_def Ask last_heard_append last_heard_Cons fun_eq_iff)
  then show ?thesis
    using link_ok_ask [OF assms(1)] assms(2) Ask by simp
next
  case (AnswerIn fine again)
  have "wished (es @ [(now, rtt, e)]) = wished es"
    by (simp add: wished_def AnswerIn fun_eq_iff)
  then show ?thesis
    using held_flushed [OF link_ok_pre [OF assms(1), of fine]]
      held_flushed [OF link_ok_pre_self [OF restore_hears
        [OF link_ok_pre [OF assms(1), of fine], THEN conjunct1]]]
    by (auto simp: AnswerIn split_beta Let_def)
next
  case SessionForgotten
  then show ?thesis
    using assms(1) by (simp add: link_ok_def wished_def)
qed

lemma link_ok_run:
  assumes "\<forall>x \<in> set es. \<forall>c v. snd (snd x) = Ask c v \<longrightarrow> c \<in> set CONTROL_CODES"
  shows "link_ok (link_run es (control_link_new sender)) (wished es)"
  using assms
proof (induction es rule: rev_induct)
  case Nil
  then show ?case
    by (simp add: link_run_def control_link_new_def link_ok_def known_def wished_def)
next
  case (snoc x es)
  obtain now rtt e where x: "x = (now, rtt, e)"
    by (cases x)
  then show ?case
    using link_ok_step [of "link_run es (control_link_new sender)" es e now rtt] snoc
    by (auto simp: link_run_def)
qed

text \<open>A new session is told exactly what the operator last asked for: however often each control
  was set, through whatever servers with and without the fine spectrum view and however many
  sessions, the last value a new session's server reads for each session control it
  takes is the last one asked for, and it reads none that was never asked for.\<close>

theorem new_session_hears_the_last_wish:
  fixes es :: "(instant \<times> duration \<times> link_event) list" and now :: instant and rtt :: duration
    and fine :: bool and sender :: control_sender
  defines "out \<equiv> snd (link_step now rtt (AnswerIn fine True) (link_run es (control_link_new sender)))"
  assumes "\<forall>x \<in> set es. \<forall>c v. snd (snd x) = Ask c v \<longrightarrow> c \<in> set CONTROL_CODES"
    and "c \<in> set SESSION_SCOPED_CONTROLS"
  shows "last_heard (heard_controls out) c =
    (if fine \<or> \<not> needs_fine_spectrum_view c then wished es c else None)"
proof -
  define s where "s = (link_run es (control_link_new sender))\<lparr>cl_fine := fine\<rparr>"
  have pre: "link_pre s (wished es)"
    unfolding s_def by (rule link_ok_pre [OF link_ok_run [OF assms(2)]])
  have r: "link_ok (fst (restore now rtt s)) (wished es)"
    using restore_hears [OF pre] by blast
  have "heard_controls (snd (send_held_back now rtt (fst (restore now rtt s)))) = []"
    using held_flushed [OF link_ok_pre_self [OF r], of now rtt] r by (auto simp: link_ok_def)
  then have "heard_controls out = heard_controls (snd (restore now rtt s))"
    by (simp add: out_def s_def [symmetric] split_beta Let_def heard_controls_append)
  moreover have "server_takes s c \<longleftrightarrow> fine \<or> \<not> needs_fine_spectrum_view c"
    by (simp add: server_takes_def s_def)
  ultimately show ?thesis
    using restore_hears [OF pre, of now rtt] assms(3) by simp
qed

lemma new_session_hears_the_last_wish_witness:
  "last_heard (heard_controls (snd (link_step 9 0 (AnswerIn True True)
     (link_run [(0, 0, AnswerIn False False), (1, 0, Ask 0x20 1), (2, 0, Ask 0x9E 7), (3, 0, Ask 0x20 0)]
       (control_link_new (starting_at 1)))))) 0x9E = Some 7 \<and>
   last_heard (heard_controls (snd (link_step 9 0 (AnswerIn True True)
     (link_run [(0, 0, AnswerIn False False), (1, 0, Ask 0x20 1), (2, 0, Ask 0x9E 7), (3, 0, Ask 0x20 0)]
       (control_link_new (starting_at 1)))))) 0x20 = Some 0"
proof -
  let ?es = "[(0, 0, AnswerIn False False), (1, 0, Ask 0x20 1), (2, 0, Ask 0x9E 7), (3, 0, Ask 0x20 0)]
     :: (instant \<times> duration \<times> link_event) list"
  have codes: "\<forall>x \<in> set ?es. \<forall>c v. snd (snd x) = Ask c v \<longrightarrow> c \<in> set CONTROL_CODES"
    by (simp add: CONTROL_CODES_def)
  have scoped: "0x9E \<in> set SESSION_SCOPED_CONTROLS" "0x20 \<in> set SESSION_SCOPED_CONTROLS"
    by (simp_all add: SESSION_SCOPED_CONTROLS_def)
  have "wished ?es 0x9E = Some 7" "wished ?es 0x20 = Some 0"
    by (simp_all add: wished_def last_heard_Cons)
  then show ?thesis
    using new_session_hears_the_last_wish [OF codes scoped(1), of 9 0 True "starting_at 1"]
      new_session_hears_the_last_wish [OF codes scoped(2), of 9 0 True "starting_at 1"] by simp
qed

end
