(* ===== verification/PaPolicy.thy ===== *)
theory PaPolicy
  imports Prelude
begin

text \<open>
  Which power amplifier may amplify and what the Thetis drive falls back to
  (\<^verbatim>\<open>sdr-remote-server/src/pa_policy.rs\<close>), and the tick of the server that applies it
  (\<^verbatim>\<open>pa_policy_tick\<close> in \<^verbatim>\<open>network.rs\<close>).  Constructors and fields carry prefixes; the log
  lines are left out.
\<close>

section \<open>The rules\<close>

definition PA_SPE :: u8 where "PA_SPE = 1"
definition PA_RF2K :: u8 where "PA_RF2K = 2"
definition DEFAULT_PA_DRIVE :: u8 where "DEFAULT_PA_DRIVE = 100"

datatype enforce = EnforceNothing | EnforceStandby | WaitForRx

definition operate_allowed :: "u8 \<Rightarrow> u8 \<Rightarrow> bool" where
  "operate_allowed active_pa pa_id \<longleftrightarrow> active_pa = 0 \<or> active_pa = pa_id"

datatype amplifying = AmpYes | AmpNo | AmpUnknown

fun spe_amplifying :: "bool \<Rightarrow> u8 \<Rightarrow> amplifying" where
  "spe_amplifying False _ = AmpNo"
| "spe_amplifying True state = (if state = 2 then AmpYes else AmpNo)"

record rf2k_reading =
  rr_reachable :: bool
  rr_reports_operate :: bool
  rr_last_seen_operate :: "bool option"

definition rf2k_amplifying :: "rf2k_reading \<Rightarrow> amplifying" where
  "rf2k_amplifying r =
     (if rr_reachable r then if rr_reports_operate r then AmpYes else AmpNo
      else case rr_last_seen_operate r of Some False \<Rightarrow> AmpNo | _ \<Rightarrow> AmpUnknown)"

definition worst :: "amplifying \<Rightarrow> amplifying \<Rightarrow> amplifying" where
  "worst a b =
     (if a = AmpYes \<or> b = AmpYes then AmpYes
      else if a = AmpUnknown \<or> b = AmpUnknown then AmpUnknown else AmpNo)"

record drive_alarm =
  al_state :: amplifying
  al_drive_when_lost :: u8
  al_drive_now :: u8

definition alarm_raised :: "drive_alarm \<Rightarrow> bool" where
  "alarm_raised a \<longleftrightarrow> al_state a = AmpUnknown \<and> al_drive_now a > al_drive_when_lost a"

definition steady_in_operate :: "bool option \<Rightarrow> bool \<Rightarrow> bool" where
  "steady_in_operate prev now \<longleftrightarrow> prev = Some True \<and> now"

record alarm_baseline =
  ab_prev :: "u8 option"
  ab_out_of_reach :: bool
  ab_drive_known :: bool
  ab_drive_now :: u8

definition baseline_next :: "alarm_baseline \<Rightarrow> u8 option" where
  "baseline_next b =
     (if \<not> ab_out_of_reach b then None
      else if \<not> ab_drive_known b then ab_prev b
      else case ab_prev b of Some v \<Rightarrow> Some v | None \<Rightarrow> Some (ab_drive_now b))"

record drive_warning =
  dw_was_up :: bool
  dw_alarm_now :: bool
  dw_reachable :: bool

definition warning_stays :: "drive_warning \<Rightarrow> bool" where
  "warning_stays w \<longleftrightarrow> (if dw_reachable w then False else dw_was_up w \<or> dw_alarm_now w)"

definition startup_attempt_used :: "amplifying \<Rightarrow> bool \<Rightarrow> bool" where
  "startup_attempt_used a drive_known \<longleftrightarrow> drive_known \<and> a \<noteq> AmpUnknown"

record tx_sources =
  ts_client :: bool
  ts_thetis_trx :: bool
  ts_thetis_tune :: bool
  ts_spe_ptt :: bool
  ts_rf2k_ptt :: bool
  ts_yaesu_ptt :: bool
  ts_yaesu2_ptt :: bool
  ts_yaesu_tx :: bool
  ts_yaesu2_tx :: bool

definition any_tx :: "tx_sources \<Rightarrow> bool" where
  "any_tx s \<longleftrightarrow> ts_client s \<or> ts_thetis_trx s \<or> ts_thetis_tune s \<or> ts_spe_ptt s \<or> ts_rf2k_ptt s
     \<or> ts_yaesu_ptt s \<or> ts_yaesu2_ptt s \<or> ts_yaesu_tx s \<or> ts_yaesu2_tx s"

record thetis_reading =
  tr_tx_active :: bool
  tr_drive :: u8
  tr_known :: bool

definition became_known :: "bool \<Rightarrow> bool \<Rightarrow> bool" where
  "became_known before now \<longleftrightarrow> \<not> before \<and> now"

datatype thetis_back =
  NewProcess u32 "u32 option" | SameProcess u32 | NotSeen | Several nat

definition thetis_back_of :: "u32 option \<Rightarrow> u32 list \<Rightarrow> thetis_back" where
  "thetis_back_of run_pid pids_now =
     (case pids_now of
        [] \<Rightarrow> NotSeen
      | [pid] \<Rightarrow> if run_pid = Some pid then SameProcess pid else NewProcess pid run_pid
      | _ \<Rightarrow> Several (length pids_now))"

definition run_pid_now :: "u32 list \<Rightarrow> u32 option" where
  "run_pid_now pids_now = (case pids_now of [pid] \<Rightarrow> Some pid | _ \<Rightarrow> None)"

definition new_run :: "thetis_back \<Rightarrow> bool" where
  "new_run b = (case b of SameProcess _ \<Rightarrow> False | _ \<Rightarrow> True)"

record active_mark =
  am_marked :: u8
  am_spe_present :: bool
  am_rf2k_present :: bool

definition effective_mark :: "active_mark \<Rightarrow> u8" where
  "effective_mark m =
     (if am_marked m = PA_SPE \<and> \<not> am_spe_present m then 0
      else if am_marked m = PA_RF2K \<and> \<not> am_rf2k_present m then 0 else am_marked m)"

record enforce_input =
  ei_active_pa :: u8
  ei_pa_id :: u8
  ei_connected :: bool
  ei_in_operate :: bool
  ei_tx_active :: bool

definition enforce_decide :: "enforce_input \<Rightarrow> enforce" where
  "enforce_decide i =
     (if \<not> ei_connected i \<or> \<not> ei_in_operate i then EnforceNothing
      else if operate_allowed (ei_active_pa i) (ei_pa_id i) then EnforceNothing
      else if ei_tx_active i then WaitForRx else EnforceStandby)"

definition snapshot_on_operate :: "bool option \<Rightarrow> bool \<Rightarrow> u8 \<Rightarrow> u8 option" where
  "snapshot_on_operate prev_operate now_operate thetis_drive =
     (case prev_operate of
        Some False \<Rightarrow> if now_operate \<and> thetis_drive > 0 then Some thetis_drive else None
      | _ \<Rightarrow> None)"

definition restore_target :: "u8 option \<Rightarrow> u8 \<Rightarrow> u8" where
  "restore_target saved default_drive = (case saved of Some v \<Rightarrow> v | None \<Rightarrow> default_drive)"

definition startup_restore :: "amplifying \<Rightarrow> bool \<Rightarrow> u8 option \<Rightarrow> u8 \<Rightarrow> u8 \<Rightarrow> u8 option" where
  "startup_restore a drive_known saved default_drive thetis_drive =
     (if a \<noteq> AmpNo \<or> \<not> drive_known then None
      else let target = restore_target saved default_drive
           in if target = 0 \<or> target = thetis_drive then None else Some target)"

section \<open>The tick\<close>

text \<open>What the server knows of the two amplifiers and of Thetis at a tick; \<^verbatim>\<open>None\<close> is an amplifier
  this server does not have.\<close>

record spe_status =
  spe_connected :: bool
  spe_state :: u8

record rf2k_status =
  rf_connected :: bool
  rf_operate :: bool

record pa_inputs =
  pi_spe :: "spe_status option"
  pi_rf2k :: "rf2k_status option"
  pi_marked :: u8
  pi_sources :: tx_sources
  pi_drive :: u8
  pi_known :: bool
  pi_pids :: "u32 list"
  pi_default_drive :: u8
  pi_single_operate :: bool

record pa_state =
  pa_startup_done :: bool
  pa_thetis_pid :: "u32 option"
  pa_prev_thetis_known :: bool
  pa_rf2k_last_seen :: "bool option"
  pa_drive_when_lost :: "u8 option"
  pa_drive_warning :: bool
  pa_drive_alarm_was_on :: bool
  pa_prev_spe_operate :: "bool option"
  pa_last_standby_cmd :: "instant option"
  pa_spe_saved_drive :: "u8 option"
  pa_rf2k_saved_drive :: "u8 option"

datatype pa_command = SetDrive u8 | SpeToggleOperate | Rf2kSetOperate bool

definition pi_thetis :: "pa_inputs \<Rightarrow> thetis_reading" where
  "pi_thetis i = \<lparr>tr_tx_active = any_tx (pi_sources i), tr_drive = pi_drive i, tr_known = pi_known i\<rparr>"

definition spe_seen :: "pa_inputs \<Rightarrow> bool" where
  "spe_seen i = (case pi_spe i of Some s \<Rightarrow> spe_connected s | None \<Rightarrow> False)"

definition rf_seen :: "pa_inputs \<Rightarrow> bool" where
  "rf_seen i = (case pi_rf2k i of Some r \<Rightarrow> rf_connected r | None \<Rightarrow> False)"

definition spe_in_operate :: "pa_inputs \<Rightarrow> bool" where
  "spe_in_operate i = (case pi_spe i of Some s \<Rightarrow> spe_connected s \<and> spe_state s = 2 | None \<Rightarrow> False)"

definition rf_in_operate :: "pa_inputs \<Rightarrow> bool" where
  "rf_in_operate i = (case pi_rf2k i of Some r \<Rightarrow> rf_connected r \<and> rf_operate r | None \<Rightarrow> False)"

definition active_pa_of :: "pa_inputs \<Rightarrow> u8" where
  "active_pa_of i = effective_mark \<lparr>am_marked = pi_marked i, am_spe_present = pi_spe i \<noteq> None,
                                    am_rf2k_present = pi_rf2k i \<noteq> None\<rparr>"

definition spe_amp :: "pa_inputs \<Rightarrow> amplifying" where
  "spe_amp i = (case pi_spe i of Some s \<Rightarrow> spe_amplifying (spe_seen i) (spe_state s) | None \<Rightarrow> AmpNo)"

definition rf_amp :: "pa_inputs \<Rightarrow> pa_state \<Rightarrow> amplifying" where
  "rf_amp i s = (case pi_rf2k i of
     Some r \<Rightarrow> rf2k_amplifying \<lparr>rr_reachable = rf_seen i, rr_reports_operate = rf_in_operate i,
                 rr_last_seen_operate = pa_rf2k_last_seen s\<rparr>
   | None \<Rightarrow> AmpNo)"

definition note_thetis_run :: "pa_inputs \<Rightarrow> pa_state \<Rightarrow> pa_state" where
  "note_thetis_run i s =
     (let known = tr_known (pi_thetis i);
          s = (if became_known (pa_prev_thetis_known s) known
               then let back = thetis_back_of (pa_thetis_pid s) (pi_pids i);
                        s = (if pa_startup_done s \<and> new_run back then s\<lparr>pa_startup_done := False\<rparr> else s)
                    in s\<lparr>pa_thetis_pid := run_pid_now (pi_pids i)\<rparr>
               else s)
      in s\<lparr>pa_prev_thetis_known := known\<rparr>)"

definition note_drive :: "pa_inputs \<Rightarrow> amplifying \<Rightarrow> pa_state \<Rightarrow> pa_state" where
  "note_drive i rf s =
     (let drive_now = tr_drive (pi_thetis i);
          out_of_reach = (rf = AmpUnknown);
          lost = baseline_next \<lparr>ab_prev = pa_drive_when_lost s, ab_out_of_reach = out_of_reach,
                   ab_drive_known = tr_known (pi_thetis i), ab_drive_now = drive_now\<rparr>;
          alarm = (case lost of
                     Some base \<Rightarrow> alarm_raised \<lparr>al_state = rf, al_drive_when_lost = base, al_drive_now = drive_now\<rparr>
                   | None \<Rightarrow> False);
          warning = warning_stays \<lparr>dw_was_up = pa_drive_warning s, dw_alarm_now = alarm,
                      dw_reachable = \<not> out_of_reach\<rparr>
      in s\<lparr>pa_drive_when_lost := lost, pa_drive_warning := warning, pa_drive_alarm_was_on := alarm\<rparr>)"

definition saved_for :: "u8 \<Rightarrow> pa_state \<Rightarrow> u8 option" where
  "saved_for active_pa s =
     (if active_pa = PA_SPE then pa_spe_saved_drive s
      else if active_pa = PA_RF2K then pa_rf2k_saved_drive s
      else case pa_rf2k_saved_drive s of Some v \<Rightarrow> Some v | None \<Rightarrow> pa_spe_saved_drive s)"

definition startup_step :: "pa_inputs \<Rightarrow> amplifying \<Rightarrow> pa_state \<Rightarrow> pa_state \<times> pa_command list" where
  "startup_step i amp s =
     (if \<not> pa_startup_done s \<and> (spe_seen i \<or> rf_seen i)
      then let known = tr_known (pi_thetis i);
               target = startup_restore amp known (saved_for (active_pa_of i) s) (pi_default_drive i)
                          (tr_drive (pi_thetis i))
           in (if startup_attempt_used amp known then s\<lparr>pa_startup_done := True\<rparr> else s,
               case target of Some v \<Rightarrow> [SetDrive v] | None \<Rightarrow> [])
      else (s, []))"

definition standby_row :: "instant \<Rightarrow> bool \<Rightarrow> enforce_input \<Rightarrow> pa_state \<Rightarrow> pa_state \<times> pa_command list" where
  "standby_row now spe_steady e s =
     (case enforce_decide e of
        EnforceStandby \<Rightarrow>
          let ready = (case pa_last_standby_cmd s of None \<Rightarrow> True | Some t \<Rightarrow> secs 5 \<le> now - t)
                        \<and> (ei_pa_id e \<noteq> PA_SPE \<or> spe_steady)
          in if ready then (s\<lparr>pa_last_standby_cmd := Some now\<rparr>,
                            [if ei_pa_id e = PA_SPE then SpeToggleOperate else Rf2kSetOperate False])
             else (s, [])
      | _ \<Rightarrow> (s, []))"

definition pa_tick :: "instant \<Rightarrow> pa_inputs \<Rightarrow> pa_state \<Rightarrow> pa_state \<times> pa_command list" where
  "pa_tick now i s =
     (let is_tx = tr_tx_active (pi_thetis i);
          s = note_thetis_run i s;
          rf = rf_amp i s;
          amp = worst (spe_amp i) rf;
          s = (if rf_seen i then s\<lparr>pa_rf2k_last_seen := Some (rf_in_operate i)\<rparr> else s);
          s = note_drive i rf s;
          steady = steady_in_operate (pa_prev_spe_operate s) (spe_in_operate i);
          s = (if spe_seen i
               then (case snapshot_on_operate (pa_prev_spe_operate s) (spe_in_operate i) (tr_drive (pi_thetis i)) of
                       Some v \<Rightarrow> s\<lparr>pa_spe_saved_drive := Some v\<rparr> | None \<Rightarrow> s)
                      \<lparr>pa_prev_spe_operate := Some (spe_in_operate i)\<rparr>
               else s);
          (s, drive) = startup_step i amp s;
          row = (\<lambda>pa_id seen operate. \<lparr>ei_active_pa = active_pa_of i, ei_pa_id = pa_id,
                   ei_connected = seen, ei_in_operate = operate, ei_tx_active = is_tx\<rparr>)
      in if pi_single_operate i
         then let (s, spe) = standby_row now steady (row PA_SPE (spe_seen i) (spe_in_operate i)) s;
                  (s, rf2k) = standby_row now steady (row PA_RF2K (rf_seen i) (rf_in_operate i)) s
              in (s, drive @ spe @ rf2k)
         else (s, drive))"

definition pa_start :: "bool option \<Rightarrow> u8 option \<Rightarrow> u8 option \<Rightarrow> pa_state" where
  "pa_start last_seen spe_saved rf2k_saved =
     \<lparr>pa_startup_done = False, pa_thetis_pid = None, pa_prev_thetis_known = False,
      pa_rf2k_last_seen = last_seen, pa_drive_when_lost = None, pa_drive_warning = False,
      pa_drive_alarm_was_on = False, pa_prev_spe_operate = None, pa_last_standby_cmd = None,
      pa_spe_saved_drive = spe_saved, pa_rf2k_saved_drive = rf2k_saved\<rparr>"

section \<open>What one tick may do\<close>

lemma thetis_fields [simp]:
  "tr_tx_active (pi_thetis i) = any_tx (pi_sources i)" "tr_drive (pi_thetis i) = pi_drive i"
  "tr_known (pi_thetis i) = pi_known i"
  by (simp_all add: pi_thetis_def)

text \<open>The steps before the drive is restored, and what they leave for the rest of the tick.\<close>

definition before_startup :: "pa_inputs \<Rightarrow> pa_state \<Rightarrow> pa_state" where
  "before_startup i s =
     (let s = note_thetis_run i s; rf = rf_amp i s;
          s = (if rf_seen i then s\<lparr>pa_rf2k_last_seen := Some (rf_in_operate i)\<rparr> else s);
          s = note_drive i rf s
      in if spe_seen i
         then (case snapshot_on_operate (pa_prev_spe_operate s) (spe_in_operate i) (pi_drive i) of
                 Some v \<Rightarrow> s\<lparr>pa_spe_saved_drive := Some v\<rparr> | None \<Rightarrow> s)
                \<lparr>pa_prev_spe_operate := Some (spe_in_operate i)\<rparr>
         else s)"

definition amp_of :: "pa_inputs \<Rightarrow> pa_state \<Rightarrow> amplifying" where
  "amp_of i s = worst (spe_amp i) (rf_amp i s)"

definition row_of :: "pa_inputs \<Rightarrow> u8 \<Rightarrow> bool \<Rightarrow> bool \<Rightarrow> enforce_input" where
  "row_of i pa_id seen operate = \<lparr>ei_active_pa = active_pa_of i, ei_pa_id = pa_id,
     ei_connected = seen, ei_in_operate = operate, ei_tx_active = any_tx (pi_sources i)\<rparr>"

definition standby_rows :: "instant \<Rightarrow> bool \<Rightarrow> pa_inputs \<Rightarrow> pa_state \<Rightarrow> pa_state \<times> pa_command list" where
  "standby_rows now steady i s =
     (if pi_single_operate i
      then let (s, spe) = standby_row now steady (row_of i PA_SPE (spe_seen i) (spe_in_operate i)) s;
               (s, rf2k) = standby_row now steady (row_of i PA_RF2K (rf_seen i) (rf_in_operate i)) s
           in (s, spe @ rf2k)
      else (s, []))"

lemma note_fields [simp]:
  "pa_rf2k_last_seen (note_thetis_run i s) = pa_rf2k_last_seen s"
  "pa_prev_spe_operate (note_thetis_run i s) = pa_prev_spe_operate s"
  "pa_last_standby_cmd (note_thetis_run i s) = pa_last_standby_cmd s"
  "pa_prev_spe_operate (note_drive i rf s) = pa_prev_spe_operate s"
  "pa_drive_when_lost (note_thetis_run i s) = pa_drive_when_lost s"
  "pa_drive_warning (note_thetis_run i s) = pa_drive_warning s"
  "pa_startup_done (note_drive i rf s) = pa_startup_done s"
  "pa_thetis_pid (note_drive i rf s) = pa_thetis_pid s"
  "pa_prev_thetis_known (note_drive i rf s) = pa_prev_thetis_known s"
  "pa_last_standby_cmd (note_drive i rf s) = pa_last_standby_cmd s"
  "pa_rf2k_last_seen (note_drive i rf s) = pa_rf2k_last_seen s"
  by (simp_all add: note_thetis_run_def note_drive_def Let_def)

lemma rf_amp_cong: "pa_rf2k_last_seen s = pa_rf2k_last_seen t \<Longrightarrow> rf_amp i s = rf_amp i t"
  by (simp add: rf_amp_def split: option.split)

lemma rf_amp_note [simp]: "rf_amp i (note_thetis_run i s) = rf_amp i s"
  by (rule rf_amp_cong) simp

lemma pa_tick_split:
  "pa_tick now i s =
     (let (t, drive) = startup_step i (amp_of i s) (before_startup i s);
          (u, rows) = standby_rows now (steady_in_operate (pa_prev_spe_operate s) (spe_in_operate i)) i t
      in (u, drive @ rows))"
proof -
  have "pa_prev_spe_operate (note_drive i (rf_amp i s) (if rf_seen i
      then note_thetis_run i s\<lparr>pa_rf2k_last_seen := Some (rf_in_operate i)\<rparr> else note_thetis_run i s))
      = pa_prev_spe_operate s"
    by simp
  then show ?thesis
    by (simp add: pa_tick_def before_startup_def amp_of_def standby_rows_def row_of_def Let_def split_beta)
qed

lemma standby_row_cmds:
  assumes "c \<in> set (snd (standby_row now steady e s))"
  shows "ei_connected e" "ei_in_operate e" "\<not> ei_tx_active e" "ei_active_pa e \<noteq> 0"
    "ei_active_pa e \<noteq> ei_pa_id e" "pa_last_standby_cmd s = Some t \<Longrightarrow> secs 5 \<le> now - t"
    "c = (if ei_pa_id e = PA_SPE then SpeToggleOperate else Rf2kSetOperate False)"
    "ei_pa_id e = PA_SPE \<Longrightarrow> steady" "snd (standby_row now steady e s) = [c]"
    "pa_last_standby_cmd (fst (standby_row now steady e s)) = Some now"
  using assms
  by (auto simp: standby_row_def enforce_decide_def operate_allowed_def Let_def split: if_splits enforce.splits)

lemma standby_row_state:
  "fst (standby_row now steady e s) = (if snd (standby_row now steady e s) = [] then s
     else s\<lparr>pa_last_standby_cmd := Some now\<rparr>)"
  by (auto simp: standby_row_def Let_def split: enforce.split)

lemma startup_cmds:
  assumes "c \<in> set (snd (startup_step i amp s))"
  shows "amp = AmpNo" "pi_known i" "\<not> pa_startup_done s" "pa_startup_done (fst (startup_step i amp s))"
    "snd (startup_step i amp s) = [c]"
    "c = SetDrive (restore_target (saved_for (active_pa_of i) s) (pi_default_drive i))"
    "restore_target (saved_for (active_pa_of i) s) (pi_default_drive i) \<notin> {0, pi_drive i}"
  using assms
  by (auto simp: startup_step_def startup_restore_def startup_attempt_used_def Let_def split: if_splits option.splits)

lemma startup_state:
  "pa_last_standby_cmd (fst (startup_step i amp s)) = pa_last_standby_cmd s"
  "pa_thetis_pid (fst (startup_step i amp s)) = pa_thetis_pid s"
  "pa_prev_thetis_known (fst (startup_step i amp s)) = pa_prev_thetis_known s"
  "pa_prev_spe_operate (fst (startup_step i amp s)) = pa_prev_spe_operate s"
  by (simp_all add: startup_step_def Let_def)

lemma before_startup_fields:
  "pa_last_standby_cmd (before_startup i s) = pa_last_standby_cmd s"
  "pa_startup_done (before_startup i s) = pa_startup_done (note_thetis_run i s)"
  "pa_prev_thetis_known (before_startup i s) = pi_known i"
  "pa_thetis_pid (before_startup i s) = pa_thetis_pid (note_thetis_run i s)"
  "pa_prev_spe_operate (before_startup i s) = (if spe_seen i then Some (spe_in_operate i) else pa_prev_spe_operate s)"
  by (simp_all add: before_startup_def Let_def note_thetis_run_def split: option.split)

lemma worst_No: "worst a b = AmpNo \<longleftrightarrow> a = AmpNo \<and> b = AmpNo"
  by (cases a; cases b) (simp_all add: worst_def)

lemma amp_No:
  "spe_amp i = AmpNo \<longleftrightarrow> \<not> spe_in_operate i"
  "rf_amp i s = AmpNo \<longleftrightarrow> \<not> rf_in_operate i \<and> (pi_rf2k i \<noteq> None \<and> \<not> rf_seen i \<longrightarrow> pa_rf2k_last_seen s = Some False)"
  by (auto simp: spe_amp_def spe_seen_def spe_in_operate_def rf_amp_def rf_in_operate_def rf_seen_def
      rf2k_amplifying_def split: option.split elim!: spe_amplifying.elims)
    (case_tac "spe_connected x2"; simp)+

text \<open>C13. A tick switches no amplifier under RF and none that may amplify: a command to one means that
  nothing transmits - no client, Thetis, TUNE, amplifier line or Yaesu -, that the other
  one is marked active and present, that this one was read in Operate at this tick, the
  SPE, whose command is a toggle, at its reading before as well, and that none went out for five
  seconds; the RF2K-S is only ever told Standby.\<close>

theorem no_amplifier_switched_under_rf:
  assumes "c \<in> set (snd (pa_tick now i s))" and "c = SpeToggleOperate \<or> c = Rf2kSetOperate b"
  shows "pi_single_operate i \<and> \<not> any_tx (pi_sources i) \<and> c \<noteq> Rf2kSetOperate True \<and>
    (c = SpeToggleOperate \<longrightarrow> spe_in_operate i \<and> pa_prev_spe_operate s = Some True \<and>
       active_pa_of i \<noteq> PA_SPE \<and> active_pa_of i \<noteq> 0) \<and>
    (c \<noteq> SpeToggleOperate \<longrightarrow> rf_in_operate i \<and> active_pa_of i \<noteq> PA_RF2K \<and> active_pa_of i \<noteq> 0) \<and>
    (\<forall>t. pa_last_standby_cmd s = Some t \<longrightarrow> secs 5 \<le> now - t)"
proof -
  let ?steady = "steady_in_operate (pa_prev_spe_operate s) (spe_in_operate i)"
  let ?t = "fst (startup_step i (amp_of i s) (before_startup i s))"
  have last: "pa_last_standby_cmd ?t = pa_last_standby_cmd s"
    by (simp add: startup_state before_startup_fields)
  have "c \<notin> set (snd (startup_step i (amp_of i s) (before_startup i s)))"
    using startup_cmds(6) [of c] assms(2) by auto
  then have "c \<in> set (snd (standby_rows now ?steady i ?t))"
    using assms(1) by (simp add: pa_tick_split split_beta Let_def)
  then obtain r u where r: "pi_single_operate i" "c \<in> set (snd (standby_row now ?steady r u))"
    "(r = row_of i PA_SPE (spe_seen i) (spe_in_operate i) \<and> u = ?t) \<or>
     (r = row_of i PA_RF2K (rf_seen i) (rf_in_operate i) \<and>
      u = fst (standby_row now ?steady (row_of i PA_SPE (spe_seen i) (spe_in_operate i)) ?t))"
    by (auto simp: standby_rows_def split_beta Let_def split: if_splits)
  note cmd = standby_row_cmds [OF r(2)]
  have "pa_last_standby_cmd u = pa_last_standby_cmd s \<or> pa_last_standby_cmd u = Some now"
    using r(3) last by (auto simp: standby_row_state)
  then have "secs 5 \<le> now - t" if "pa_last_standby_cmd s = Some t" for t
    using cmd(6) that by auto
  then show ?thesis
    using r(1,3) cmd
    by (auto simp: row_of_def PA_SPE_def PA_RF2K_def steady_in_operate_def split: if_splits)
qed

definition example_inputs :: pa_inputs where
  "example_inputs = \<lparr>pi_spe = Some \<lparr>spe_connected = True, spe_state = 2\<rparr>,
     pi_rf2k = Some \<lparr>rf_connected = True, rf_operate = True\<rparr>, pi_marked = 2,
     pi_sources = \<lparr>ts_client = False, ts_thetis_trx = False, ts_thetis_tune = False, ts_spe_ptt = False,
       ts_rf2k_ptt = False, ts_yaesu_ptt = False, ts_yaesu2_ptt = False, ts_yaesu_tx = False,
       ts_yaesu2_tx = False\<rparr>,
     pi_drive = 30, pi_known = True, pi_pids = [7], pi_default_drive = 100, pi_single_operate = True\<rparr>"

lemmas pa_eval = pa_tick_def example_inputs_def pa_start_def pi_thetis_def spe_seen_def rf_seen_def
  spe_in_operate_def rf_in_operate_def active_pa_of_def effective_mark_def spe_amp_def rf_amp_def
  rf2k_amplifying_def worst_def note_thetis_run_def note_drive_def startup_step_def standby_row_def
  enforce_decide_def operate_allowed_def any_tx_def became_known_def thetis_back_of_def new_run_def
  run_pid_now_def baseline_next_def alarm_raised_def warning_stays_def steady_in_operate_def
  snapshot_on_operate_def startup_restore_def startup_attempt_used_def restore_target_def saved_for_def
  PA_SPE_def PA_RF2K_def Let_def

lemma no_amplifier_switched_under_rf_witness:
  "let s = fst (pa_tick 0 example_inputs (pa_start None None None))
   in SpeToggleOperate \<in> set (snd (pa_tick (secs 1) example_inputs s)) \<and>
      pa_prev_spe_operate s = Some True"
proof -
  define s where "s = fst (pa_tick 0 example_inputs (pa_start None None None))"
  have s: "pa_prev_spe_operate s = Some True"
    by (simp_all add: s_def pa_eval)
  have on: "SpeToggleOperate \<in> set (snd (pa_tick (secs 1) example_inputs s))"
    by (simp add: s_def pa_eval)
  then show ?thesis
    using no_amplifier_switched_under_rf [OF on, of False] s unfolding s_def Let_def by blast
qed

section \<open>Runs of ticks\<close>

fun pa_run :: "(instant \<times> pa_inputs) list \<Rightarrow> pa_state \<Rightarrow> pa_state \<times> pa_command list" where
  "pa_run [] s = (s, [])"
| "pa_run ((now, i) # is) s =
     (let (s, c) = pa_tick now i s; (s, cs) = pa_run is s in (s, c @ cs))"

text \<open>A new run of Thetis begins: it becomes known, and not as the process it was.\<close>

definition thetis_run_begins :: "pa_inputs \<Rightarrow> pa_state \<Rightarrow> bool" where
  "thetis_run_begins i s \<longleftrightarrow> became_known (pa_prev_thetis_known s) (pi_known i) \<and>
     new_run (thetis_back_of (pa_thetis_pid s) (pi_pids i))"

fun thetis_runs :: "(instant \<times> pa_inputs) list \<Rightarrow> pa_state \<Rightarrow> nat" where
  "thetis_runs [] s = 0"
| "thetis_runs ((now, i) # is) s =
     (if thetis_run_begins i s then 1 else 0) + thetis_runs is (fst (pa_tick now i s))"

definition drives :: "pa_command list \<Rightarrow> pa_command list" where
  "drives cs = filter (\<lambda>c. \<exists>v. c = SetDrive v) cs"

lemma pa_tick_fields:
  "pa_prev_thetis_known (fst (pa_tick now i s)) = pi_known i"
  "pa_thetis_pid (fst (pa_tick now i s)) = pa_thetis_pid (note_thetis_run i s)"
  "pa_startup_done (fst (pa_tick now i s)) =
     pa_startup_done (fst (startup_step i (amp_of i s) (before_startup i s)))"
  "drives (snd (pa_tick now i s)) = snd (startup_step i (amp_of i s) (before_startup i s))"
proof -
  let ?t = "fst (startup_step i (amp_of i s) (before_startup i s))"
  have rows: "fst (standby_rows now b i t) = t \<or> (\<exists>x. fst (standby_rows now b i t) = t\<lparr>pa_last_standby_cmd := x\<rparr>)" for b t
    by (auto simp: standby_rows_def split_beta Let_def standby_row_state)
  have "fst (pa_tick now i s) = ?t \<or> (\<exists>x. fst (pa_tick now i s) = ?t\<lparr>pa_last_standby_cmd := x\<rparr>)"
    using rows by (simp add: pa_tick_split split_beta Let_def)
  then show "pa_prev_thetis_known (fst (pa_tick now i s)) = pi_known i"
    "pa_thetis_pid (fst (pa_tick now i s)) = pa_thetis_pid (note_thetis_run i s)"
    "pa_startup_done (fst (pa_tick now i s)) = pa_startup_done ?t"
    by (auto simp: startup_state before_startup_fields)
  have "drives (snd (standby_rows now b i t)) = []" for b t
    by (auto simp: drives_def standby_rows_def split_beta Let_def filter_empty_conv
        dest!: standby_row_cmds(7) split: if_splits)
  moreover have "drives (snd (startup_step i a t)) = snd (startup_step i a t)" for a t
    unfolding drives_def filter_id_conv using startup_cmds(6) by blast
  ultimately show "drives (snd (pa_tick now i s)) = snd (startup_step i (amp_of i s) (before_startup i s))"
    by (simp add: pa_tick_split split_beta Let_def drives_def)
qed

lemma note_run_done:
  "pa_startup_done (note_thetis_run i s) =
     (pa_startup_done s \<and> \<not> thetis_run_begins i s)"
  by (auto simp: note_thetis_run_def thetis_run_begins_def Let_def)

lemma note_run_pid:
  "pa_thetis_pid (note_thetis_run i s) =
     (if became_known (pa_prev_thetis_known s) (pi_known i) then run_pid_now (pi_pids i) else pa_thetis_pid s)"
  by (simp add: note_thetis_run_def Let_def)

text \<open>How many drives may still come: one per run of Thetis, until it is spent.\<close>

definition credit :: "nat \<Rightarrow> nat \<Rightarrow> pa_state \<Rightarrow> bool" where
  "credit sent runs s \<longleftrightarrow> sent + (if pa_startup_done s then 0 else 1) \<le> runs + (if runs = 0 then 1 else 0) \<and>
     (runs = 0 \<longrightarrow> sent = 0 \<and> \<not> pa_prev_thetis_known s \<and> pa_thetis_pid s = None)"

lemma credit_tick:
  assumes "credit sent runs s"
  shows "credit (sent + length (drives (snd (pa_tick now i s))))
    (runs + (if thetis_run_begins i s then 1 else 0)) (fst (pa_tick now i s))"
proof -
  let ?b = "before_startup i s"
  let ?st = "startup_step i (amp_of i s) ?b"
  have done_b: "pa_startup_done ?b = (pa_startup_done s \<and> \<not> thetis_run_begins i s)"
    by (simp add: before_startup_fields note_run_done)
  have one: "length (drives (snd (pa_tick now i s))) + (if pa_startup_done (fst ?st) then 0 else 1)
      \<le> (if pa_startup_done ?b then 0 else 1)"
    unfolding pa_tick_fields(4) by (simp add: startup_step_def startup_restore_def startup_attempt_used_def Let_def
        split: option.split)
  have none: "drives (snd (pa_tick now i s)) = []" if "\<not> pi_known i"
    unfolding pa_tick_fields(4) using that startup_cmds(2) by (metis last_in_set)
  have first: "thetis_run_begins i s" if "runs = 0" "pi_known i"
    using that assms
    by (auto simp: credit_def thetis_run_begins_def became_known_def thetis_back_of_def new_run_def split: list.split)
  have keep: "pa_thetis_pid (fst (pa_tick now i s)) = None" if "runs = 0" "\<not> pi_known i"
    using that assms by (simp add: pa_tick_fields note_run_pid credit_def became_known_def)
  show ?thesis
  proof (cases "runs = 0 \<and> \<not> pi_known i")
    case True
    then have "\<not> thetis_run_begins i s"
      by (simp add: thetis_run_begins_def became_known_def)
    then show ?thesis
      using True assms none keep by (simp add: credit_def pa_tick_fields)
  next
    case False
    then show ?thesis
      using assms one done_b first
      by (auto simp: credit_def pa_tick_fields split: if_splits)
  qed
qed

lemma credit_run:
  "credit sent runs s \<Longrightarrow>
     credit (sent + length (drives (snd (pa_run is s)))) (runs + thetis_runs is s) (fst (pa_run is s))"
proof (induction "is" arbitrary: sent runs s)
  case (Cons x "is")
  obtain now i where x: "x = (now, i)"
    by (cases x)
  show ?case
    using Cons.IH [OF credit_tick [OF Cons.prems, of now i]]
    by (simp add: x split_beta Let_def drives_def add.assoc)
qed (simp add: drives_def)

text \<open>The drive is put back at most once per run of Thetis, whatever the amplifiers, Thetis and the
  network do and however often TCI comes back to the same process.\<close>

theorem drive_put_back_once_per_thetis_run:
  "length (drives (snd (pa_run is (pa_start seen spe rf2k)))) \<le> thetis_runs is (pa_start seen spe rf2k)"
proof -
  have "credit 0 0 (pa_start seen spe rf2k)"
    by (simp add: credit_def pa_start_def)
  from credit_run [OF this, of "is"] show ?thesis
    by (auto simp: credit_def split: if_splits)
qed

text \<open>C15. The drive is never put back while an amplifier may be amplifying: at that tick Thetis has
  spoken, the SPE is not read in Operate, and the RF2K-S is read in Standby, or is out of reach and
  was last seen in Standby, or is not there; and what is set is the saved drive or the
  default, neither zero nor what Thetis already has.\<close>

theorem drive_never_raised_into_an_amplifier:
  assumes "SetDrive v \<in> set (snd (pa_tick now i s))"
  shows "pi_known i \<and> \<not> spe_in_operate i \<and> \<not> rf_in_operate i \<and>
    (pi_rf2k i \<noteq> None \<and> \<not> rf_seen i \<longrightarrow> pa_rf2k_last_seen s = Some False) \<and>
    (Some v \<in> {pa_spe_saved_drive s, pa_rf2k_saved_drive s} \<or> v = pi_default_drive i) \<and>
    v \<noteq> 0 \<and> v \<noteq> pi_drive i"
proof -
  have "SetDrive v \<in> set (drives (snd (pa_tick now i s)))"
    using assms by (simp add: drives_def)
  then have c: "SetDrive v \<in> set (snd (startup_step i (amp_of i s) (before_startup i s)))"
    by (simp add: pa_tick_fields)
  note f = startup_cmds [OF c]
  have no: "\<not> spe_in_operate i" "\<not> rf_in_operate i"
    "pi_rf2k i \<noteq> None \<and> \<not> rf_seen i \<longrightarrow> pa_rf2k_last_seen s = Some False"
    using f(1) by (auto simp: amp_of_def worst_No amp_No)
  have "snapshot_on_operate x (spe_in_operate i) d = None" for x d
    using no(1) by (simp add: snapshot_on_operate_def split: option.split bool.split)
  then have "pa_spe_saved_drive (before_startup i s) = pa_spe_saved_drive s"
    "pa_rf2k_saved_drive (before_startup i s) = pa_rf2k_saved_drive s"
    by (simp_all add: before_startup_def Let_def note_thetis_run_def note_drive_def)
  then have "Some v \<in> {pa_spe_saved_drive s, pa_rf2k_saved_drive s} \<or> v = pi_default_drive i"
    using f(6) by (auto simp: saved_for_def restore_target_def split: option.splits if_splits)
  then show ?thesis
    using no f(2,6,7) by auto
qed

lemma drive_never_raised_into_an_amplifier_witness:
  "let i = example_inputs\<lparr>pi_spe := None, pi_rf2k := Some \<lparr>rf_connected = True, rf_operate = False\<rparr>\<rparr>
   in SetDrive 100 \<in> set (snd (pa_tick 0 i (pa_start (Some True) None None))) \<and> \<not> rf_in_operate i"
proof -
  define i where "i = example_inputs\<lparr>pi_spe := None, pi_rf2k := Some \<lparr>rf_connected = True, rf_operate = False\<rparr>\<rparr>"
  have "SetDrive 100 \<in> set (snd (pa_tick 0 i (pa_start (Some True) None None)))"
    by (simp add: i_def pa_eval)
  from this drive_never_raised_into_an_amplifier [OF this] show ?thesis
    unfolding i_def Let_def by blast
qed

section \<open>The alarm against its history\<close>

text \<open>One entry per tick: was the RF2K-S out of reach and perhaps amplifying, had Thetis spoken,
  and the drive.\<close>

fun pa_history :: "(instant \<times> pa_inputs) list \<Rightarrow> pa_state \<Rightarrow> (bool \<times> bool \<times> u8) list" where
  "pa_history [] s = []"
| "pa_history ((now, i) # is) s =
     (rf_amp i s = AmpUnknown, pi_known i, pi_drive i) # pa_history is (fst (pa_tick now i s))"

text \<open>The ticks since contact went, from the first at which the drive was known.\<close>

definition since_lost :: "(bool \<times> bool \<times> u8) list \<Rightarrow> (bool \<times> bool \<times> u8) list" where
  "since_lost hs = dropWhile (\<lambda>(_, known, _). \<not> known) (rev (takeWhile fst (rev hs)))"

definition drive_at_loss :: "(bool \<times> bool \<times> u8) list \<Rightarrow> u8 option" where
  "drive_at_loss hs = (case since_lost hs of [] \<Rightarrow> None | (_, _, d) # _ \<Rightarrow> Some d)"

definition above_loss :: "(bool \<times> bool \<times> u8) list \<Rightarrow> u8 \<Rightarrow> bool" where
  "above_loss hs d \<longleftrightarrow> (\<exists>b. drive_at_loss hs = Some b \<and> b < d)"

lemma since_lost_snoc:
  "since_lost (hs @ [(out, known, d)]) =
     (if \<not> out then [] else if since_lost hs = [] \<and> \<not> known then [] else since_lost hs @ [(out, known, d)])"
  by (auto simp: since_lost_def dropWhile_append dropWhile_eq_Nil_conv)

lemma drive_at_loss_snoc:
  "drive_at_loss (hs @ [(out, known, d)]) =
     (if \<not> out then None else case drive_at_loss hs of Some b \<Rightarrow> Some b | None \<Rightarrow> if known then Some d else None)"
  by (auto simp: drive_at_loss_def since_lost_snoc split: list.split)

lemma pa_tick_alarm:
  "pa_drive_when_lost (fst (pa_tick now i s)) = pa_drive_when_lost (note_drive i (rf_amp i s) s)"
  "pa_drive_warning (fst (pa_tick now i s)) = pa_drive_warning (note_drive i (rf_amp i s) s)"
  "pa_drive_alarm_was_on (fst (pa_tick now i s)) = pa_drive_alarm_was_on (note_drive i (rf_amp i s) s)"
proof -
  have same: "pa_drive_when_lost (fst (standby_rows now b i t)) = pa_drive_when_lost t \<and>
      pa_drive_warning (fst (standby_rows now b i t)) = pa_drive_warning t \<and>
      pa_drive_alarm_was_on (fst (standby_rows now b i t)) = pa_drive_alarm_was_on t" for b t
    by (auto simp: standby_rows_def split_beta Let_def standby_row_state)
  show "pa_drive_when_lost (fst (pa_tick now i s)) = pa_drive_when_lost (note_drive i (rf_amp i s) s)"
    "pa_drive_warning (fst (pa_tick now i s)) = pa_drive_warning (note_drive i (rf_amp i s) s)"
    "pa_drive_alarm_was_on (fst (pa_tick now i s)) = pa_drive_alarm_was_on (note_drive i (rf_amp i s) s)"
    by (simp_all add: pa_tick_split split_beta Let_def same startup_step_def before_startup_def
        note_drive_def split: option.split)
qed

definition tracks :: "(bool \<times> bool \<times> u8) list \<Rightarrow> pa_state \<Rightarrow> bool" where
  "tracks hs s \<longleftrightarrow> pa_drive_when_lost s = drive_at_loss hs \<and>
     (pa_drive_alarm_was_on s \<longleftrightarrow> hs \<noteq> [] \<and> fst (last hs) \<and> above_loss hs (snd (snd (last hs)))) \<and>
     (pa_drive_warning s \<longleftrightarrow> (\<exists>(_, _, d) \<in> set (since_lost hs). above_loss hs d))"

lemma above_loss_snoc:
  "drive_at_loss hs \<noteq> None \<Longrightarrow> above_loss (hs @ [(True, known, d)]) = above_loss hs"
  by (auto simp: above_loss_def drive_at_loss_snoc fun_eq_iff)

lemma since_lost_Nil: "since_lost hs = [] \<longleftrightarrow> drive_at_loss hs = None"
  by (auto simp: drive_at_loss_def split: list.split)

lemma tracks_tick:
  assumes "tracks hs s"
  shows "tracks (hs @ [(rf_amp i s = AmpUnknown, pi_known i, pi_drive i)]) (fst (pa_tick now i s))"
proof (cases "rf_amp i s = AmpUnknown")
  case False
  then show ?thesis
    by (simp add: tracks_def pa_tick_alarm note_drive_def baseline_next_def warning_stays_def Let_def
        drive_at_loss_snoc since_lost_snoc)
next
  case True
  show ?thesis
  proof (cases "drive_at_loss hs")
    case None
    then have "since_lost hs = []" "\<not> pa_drive_warning s"
      using assms by (auto simp: since_lost_Nil tracks_def above_loss_def)
    then show ?thesis
      using True None assms
      by (auto simp: tracks_def pa_tick_alarm note_drive_def baseline_next_def warning_stays_def alarm_raised_def
          Let_def drive_at_loss_snoc since_lost_snoc above_loss_def split: if_splits)
  next
    case (Some b)
    then have "since_lost hs \<noteq> []"
      by (simp add: since_lost_Nil)
    then show ?thesis
      using True Some assms
      by (auto simp: tracks_def pa_tick_alarm note_drive_def baseline_next_def warning_stays_def alarm_raised_def
          Let_def drive_at_loss_snoc since_lost_snoc above_loss_snoc) (auto simp: above_loss_def)
  qed
qed

lemma tracks_run:
  "tracks hs s \<Longrightarrow> tracks (hs @ pa_history is s) (fst (pa_run is s))"
proof (induction "is" arbitrary: hs s)
  case (Cons x "is")
  obtain now i where x: "x = (now, i)"
    by (cases x)
  show ?case
    using Cons.IH [OF tracks_tick [OF Cons.prems, of i now]] by (simp add: x split_beta Let_def)
qed simp

text \<open>After every run of ticks the beep is on exactly when the RF2K-S is out of reach, perhaps
  amplifying, and the drive is above what it was when contact went - the first drive Thetis
  told since -, and the red line is up exactly when that was so at some tick since
  contact went: it comes down with the contact and with nothing else.\<close>

theorem alarm_is_against_the_drive_at_the_loss:
  fixes ticks :: "(instant \<times> pa_inputs) list" and seen :: "bool option" and spe rf2k :: "u8 option"
  defines "s0 \<equiv> pa_start seen spe rf2k"
  defines "hs \<equiv> pa_history ticks s0" and "s \<equiv> fst (pa_run ticks s0)"
  shows "pa_drive_when_lost s = drive_at_loss hs \<and>
    (pa_drive_alarm_was_on s \<longleftrightarrow> hs \<noteq> [] \<and> fst (last hs) \<and> above_loss hs (snd (snd (last hs)))) \<and>
    (pa_drive_warning s \<longleftrightarrow> (\<exists>(_, _, d) \<in> set (since_lost hs). above_loss hs d))"
proof -
  have "tracks [] s0"
    by (simp add: tracks_def s0_def pa_start_def drive_at_loss_def since_lost_def)
  from tracks_run [OF this, of ticks] show ?thesis
    by (simp add: tracks_def hs_def s_def)
qed

section \<open>The second amplifier goes to Standby\<close>

lemma pa_tick_rows:
  "\<exists>t. pa_last_standby_cmd t = pa_last_standby_cmd s \<and>
     set (snd (standby_rows now (steady_in_operate (pa_prev_spe_operate s) (spe_in_operate i)) i t))
       \<subseteq> set (snd (pa_tick now i s))"
  by (rule exI [of _ "fst (startup_step i (amp_of i s) (before_startup i s))"])
    (auto simp: pa_tick_split split_beta Let_def startup_state before_startup_fields)

text \<open>C14. With the rule on, an amplifier in Operate beside the active one does not stay there: in the
  first tick without RF and five seconds after the last such command, the RF2K-S is told Standby, and the
  SPE is toggled if its reading before was Operate too.\<close>

theorem second_amplifier_is_sent_to_standby:
  assumes "pi_single_operate i" and "\<not> any_tx (pi_sources i)"
    and "\<forall>t. pa_last_standby_cmd s = Some t \<longrightarrow> secs 5 \<le> now - t"
    and "(c = Rf2kSetOperate False \<and> rf_in_operate i \<and> active_pa_of i = PA_SPE) \<or>
      (c = SpeToggleOperate \<and> spe_in_operate i \<and> active_pa_of i = PA_RF2K \<and>
       pa_prev_spe_operate s = Some True)"
  shows "c \<in> set (snd (pa_tick now i s))"
proof -
  obtain t where t: "pa_last_standby_cmd t = pa_last_standby_cmd s"
    "set (snd (standby_rows now (steady_in_operate (pa_prev_spe_operate s) (spe_in_operate i)) i t))
       \<subseteq> set (snd (pa_tick now i s))"
    using pa_tick_rows by blast
  have seen: "rf_in_operate i \<Longrightarrow> rf_seen i" "spe_in_operate i \<Longrightarrow> spe_seen i"
    by (auto simp: rf_in_operate_def rf_seen_def spe_in_operate_def spe_seen_def split: option.splits)
  have "c \<in> set (snd (standby_rows now (steady_in_operate (pa_prev_spe_operate s) (spe_in_operate i)) i t))"
    using assms t(1) seen
    by (auto simp: standby_rows_def standby_row_def row_of_def enforce_decide_def operate_allowed_def
        steady_in_operate_def PA_SPE_def PA_RF2K_def split_beta Let_def split: option.split)
  then show ?thesis
    using t(2) by blast
qed

lemma second_amplifier_is_sent_to_standby_witness:
  "let i = example_inputs\<lparr>pi_marked := 1\<rparr>
   in Rf2kSetOperate False \<in> set (snd (pa_tick 0 i (pa_start None None None)))"
  unfolding Let_def
  by (rule second_amplifier_is_sent_to_standby)
    (simp_all add: example_inputs_def any_tx_def pa_start_def rf_in_operate_def active_pa_of_def
      effective_mark_def PA_SPE_def PA_RF2K_def)

end
