(* ===== verification/PowerCap.thy ===== *)
theory PowerCap
  imports Prelude Complex_Main
begin

text \<open>
  The power cap per Amplitec-A position (\<^verbatim>\<open>sdr-remote-server/src/power_cap.rs\<close>): the cap of a
  position in a mode, the tick that lowers the amplifier's drive, and the restore on a switch.
  The mode factors are rationals: \<^verbatim>\<open>0.4\<close> as \<^verbatim>\<open>f32\<close> differs from 2/5 by less than one part in a
  hundred million, and two fifths of a whole number stay a tenth away from every half,
  so rounding gives the same watts.  The snapshot kept for the log only is left out.
\<close>

section \<open>State and operations\<close>

definition MIN_ACTION_INTERVAL_MS :: nat where
  "MIN_ACTION_INTERVAL_MS = 1000"

datatype power_cap_action = SpeDriveDown | Rf2kDriveDown

record power_cap_state =
  pc_spe_drive_down_count :: u32
  pc_rf2k_drive_down_count :: u32
  pc_last_action_at :: "instant option"
  pc_prev_amplitec_pos :: "u8 option"

definition power_cap_new :: power_cap_state where
  "power_cap_new = \<lparr>pc_spe_drive_down_count = 0, pc_rf2k_drive_down_count = 0,
                    pc_last_action_at = None, pc_prev_amplitec_pos = None\<rparr>"

definition mode_factor :: "u8 \<Rightarrow> rat option" where
  "mode_factor mode =
     (if mode \<in> {0, 1, 2, 3, 4} then Some 1 else if mode = 6 then Some (1 / 2)
      else if mode \<in> {5, 7, 8, 9, 10, 11} then Some (2 / 5) else None)"

text \<open>\<^verbatim>\<open>f32::round\<close>: to the nearest, halves away from zero; the value is not negative here.\<close>

definition round_watts :: "rat \<Rightarrow> nat" where
  "round_watts x = nat \<lfloor>x + 1 / 2\<rfloor>"

record cap_for =
  cf_amplitec_pos :: u8
  cf_mode :: u8

definition cap_watts :: "cap_for \<Rightarrow> u16 option list \<Rightarrow> u16 option" where
  "cap_watts c table =
     (if \<not> (1 \<le> cf_amplitec_pos c \<and> cf_amplitec_pos c \<le> 6) then None
      else case table ! (unat (cf_amplitec_pos c) - 1) of
             None \<Rightarrow> None
           | Some max_w \<Rightarrow>
               (case mode_factor (cf_mode c) of
                  None \<Rightarrow> None
                | Some factor \<Rightarrow> Some (of_nat (round_watts (of_nat (unat max_w) * factor)))))"

record power_cap_reading =
  pr_active_pos :: "u8 option"
  pr_max_w_table :: "u16 option list"
  pr_active_pa :: u8
  pr_pa_in_operate :: bool
  pr_pa_fwd_watts :: "u16 option"
  pr_mode :: u8

definition sat_inc :: "u32 \<Rightarrow> u32" where
  "sat_inc n = (if n = - 1 then n else n + 1)"

definition reading_cap :: "power_cap_reading \<Rightarrow> u16 option" where
  "reading_cap r = (case pr_active_pos r of
     Some p \<Rightarrow> cap_watts \<lparr>cf_amplitec_pos = p, cf_mode = pr_mode r\<rparr> (pr_max_w_table r) | None \<Rightarrow> None)"

definition power_cap_tick ::
  "instant \<Rightarrow> power_cap_reading \<Rightarrow> power_cap_state \<Rightarrow> power_cap_state \<times> power_cap_action option" where
  "power_cap_tick now r s =
     (case reading_cap r of
        None \<Rightarrow> (s, None)
      | Some cap \<Rightarrow>
          if \<not> pr_pa_in_operate r then (s, None)
          else case pr_pa_fwd_watts r of
            None \<Rightarrow> (s, None)
          | Some fwd \<Rightarrow>
              if fwd \<le> cap then (s, None)
              else if (case pc_last_action_at s of
                         Some earlier \<Rightarrow> now - earlier < ms MIN_ACTION_INTERVAL_MS | None \<Rightarrow> False)
              then (s, None)
              else if pr_active_pa r = 1
              then (s\<lparr>pc_spe_drive_down_count := sat_inc (pc_spe_drive_down_count s),
                      pc_last_action_at := Some now\<rparr>, Some SpeDriveDown)
              else if pr_active_pa r = 2
              then (s\<lparr>pc_rf2k_drive_down_count := sat_inc (pc_rf2k_drive_down_count s),
                      pc_last_action_at := Some now\<rparr>, Some Rf2kDriveDown)
              else (s, None))"

record power_cap_restore =
  re_spe_drive_up :: u32
  re_rf2k_drive_up :: u32

definition on_position_change ::
  "instant \<Rightarrow> u8 option \<Rightarrow> power_cap_state \<Rightarrow> power_cap_state \<times> power_cap_restore option" where
  "on_position_change now new_pos s =
     (let prev_pos = pc_prev_amplitec_pos s;
          s = s\<lparr>pc_prev_amplitec_pos := new_pos\<rparr>
      in if prev_pos = new_pos then (s, None)
         else let spe_up = pc_spe_drive_down_count s; rf2k_up = pc_rf2k_drive_down_count s;
                  s = s\<lparr>pc_spe_drive_down_count := 0, pc_rf2k_drive_down_count := 0\<rparr>
              in if spe_up = 0 \<and> rf2k_up = 0 then (s, None)
                 else (s\<lparr>pc_last_action_at := Some now\<rparr>,
                       Some \<lparr>re_spe_drive_up = spe_up, re_rf2k_drive_up = rf2k_up\<rparr>))"

section \<open>One broadcast tick\<close>

text \<open>The caller in \<^verbatim>\<open>network.rs\<close>: first the switch detector, whose restore is sent out press by
  press, then the cap.\<close>

datatype drive_press = SpeUp | SpeDown | Rf2kUp | Rf2kDown

definition cap_presses :: "instant \<Rightarrow> power_cap_reading \<Rightarrow> power_cap_state \<Rightarrow> power_cap_state \<times> drive_press list" where
  "cap_presses now r s =
     (let (s, back) = on_position_change now (pr_active_pos r) s;
          ups = (case back of
                   Some b \<Rightarrow> replicate (unat (re_spe_drive_up b)) SpeUp @ replicate (unat (re_rf2k_drive_up b)) Rf2kUp
                 | None \<Rightarrow> []);
          (s, act) = power_cap_tick now r s
      in (s, ups @ (case act of Some SpeDriveDown \<Rightarrow> [SpeDown] | Some Rf2kDriveDown \<Rightarrow> [Rf2kDown] | None \<Rightarrow> [])))"

section \<open>The cap in whole watts\<close>

lemma round_half: "round_watts (of_nat w / 2) = (w + 1) div 2"
proof -
  have "of_nat w / 2 + 1 / 2 = of_nat (w + 1) / (of_nat 2 :: rat)"
    by (simp add: field_simps)
  then show ?thesis
    unfolding round_watts_def by (simp only: floor_divide_of_nat_eq nat_int)
qed

lemma round_two_fifths: "round_watts (of_nat w * 2 / 5) = (4 * w + 5) div 10"
proof -
  have "of_nat w * 2 / 5 + 1 / 2 = of_nat (4 * w + 5) / (of_nat 10 :: rat)"
    by (simp add: field_simps)
  then show ?thesis
    unfolding round_watts_def by (simp only: floor_divide_of_nat_eq nat_int)
qed

lemma round_one: "round_watts (of_nat w) = w"
proof -
  have "\<lfloor>of_nat w + 1 / 2 :: rat\<rfloor> = int w"
    by (simp add: floor_eq_iff)
  then show ?thesis
    by (simp add: round_watts_def)
qed

lemma cap_watts_at:
  assumes "1 \<le> unat p" "unat p \<le> 6" "table ! (unat p - 1) = Some w"
  shows "cap_watts \<lparr>cf_amplitec_pos = p, cf_mode = m\<rparr> table =
    (if unat m \<le> 4 then Some w
     else if unat m = 6 then Some (of_nat ((unat w + 1) div 2))
     else if unat m \<le> 11 then Some (of_nat ((4 * unat w + 5) div 10))
     else None) \<and>
    (\<forall>c. cap_watts \<lparr>cf_amplitec_pos = p, cf_mode = m\<rparr> table = Some c \<longrightarrow> c \<le> w)"
proof -
  have p: "1 \<le> p \<and> p \<le> 6"
    using assms(1,2) by (simp add: word_le_nat_alt)
  have modes: "m \<in> {0, 1, 2, 3, 4} \<longleftrightarrow> unat m \<le> 4" "m = 6 \<longleftrightarrow> unat m = 6"
    "m \<in> {5, 7, 8, 9, 10, 11} \<longleftrightarrow> unat m \<le> 11 \<and> \<not> unat m \<le> 4 \<and> unat m \<noteq> 6"
    by (auto simp: word_unat_eq_iff)
  have whole: "(of_nat (unat w) :: u16) = w"
    by simp
  have eq: "cap_watts \<lparr>cf_amplitec_pos = p, cf_mode = m\<rparr> table =
    (if unat m \<le> 4 then Some w
     else if unat m = 6 then Some (of_nat ((unat w + 1) div 2))
     else if unat m \<le> 11 then Some (of_nat ((4 * unat w + 5) div 10))
     else None)"
    using p assms(3)
    by (simp add: cap_watts_def mode_factor_def modes round_half round_two_fifths round_one whole
        del: insert_iff of_nat_unat)
  have below: "of_nat n \<le> w" if "n \<le> unat w" for n
    using that unsigned_less [of w] by (simp add: word_le_nat_alt unat_of_nat take_bit_nat_eq_self)
  have "(unat w + 1) div 2 \<le> unat w" "(4 * unat w + 5) div 10 \<le> unat w"
    by presburger+
  then show ?thesis
    unfolding eq using below by simp
qed

text \<open>The cap of a position is its whole maximum on SSB and CW, half of it, halves rounded up, on AM, and two
  fifths of it, rounded to the nearest, in the other modes; there is none outside the six positions, in
  an unknown mode or at a position without a maximum, and it is never above the maximum.\<close>

theorem cap_of_a_position:
  assumes "1 \<le> unat p" "unat p \<le> 6" "table ! (unat p - 1) = Some w"
  shows "cap_watts \<lparr>cf_amplitec_pos = p, cf_mode = m\<rparr> table =
    (if unat m \<le> 4 then Some w
     else if unat m = 6 then Some (of_nat ((unat w + 1) div 2))
     else if unat m \<le> 11 then Some (of_nat ((4 * unat w + 5) div 10))
     else None) \<and>
    (\<forall>c. cap_watts \<lparr>cf_amplitec_pos = p, cf_mode = m\<rparr> table = Some c \<longrightarrow> c \<le> w)"
  by (rule cap_watts_at [OF assms])

lemma cap_of_a_position_witness:
  "cap_watts \<lparr>cf_amplitec_pos = 2, cf_mode = 7\<rparr> [None, Some 250, None, None, None, None] = Some 100"
  using cap_of_a_position [of 2 "[None, Some 250, None, None, None, None]" 250 7] by simp

section \<open>Runs\<close>

fun cap_run :: "(instant \<times> power_cap_reading) list \<Rightarrow> power_cap_state \<Rightarrow>
    power_cap_state \<times> (instant \<times> drive_press) list" where
  "cap_run [] s = (s, [])"
| "cap_run ((now, r) # rs) s =
     (let (s, ps) = cap_presses now r s; (s, qs) = cap_run rs s in (s, map (Pair now) ps @ qs))"

definition presses :: "drive_press \<Rightarrow> (instant \<times> drive_press) list \<Rightarrow> nat" where
  "presses p ps = length (filter (\<lambda>q. snd q = p) ps)"

text \<open>One tick: what is pressed, and how the counters follow.\<close>

definition is_down :: "drive_press \<Rightarrow> bool" where
  "is_down p \<longleftrightarrow> p = SpeDown \<or> p = Rf2kDown"

lemma tick_effect:
  "case power_cap_tick now r s of (t, a) \<Rightarrow>
     pc_prev_amplitec_pos t = pc_prev_amplitec_pos s \<and>
     (a = None \<longrightarrow> t = s) \<and>
     (a \<noteq> None \<longrightarrow> pc_last_action_at t = Some now \<and>
        (\<forall>e. pc_last_action_at s = Some e \<longrightarrow> ms 1000 \<le> now - e)) \<and>
     pc_spe_drive_down_count t =
       (if a = Some SpeDriveDown then sat_inc (pc_spe_drive_down_count s) else pc_spe_drive_down_count s) \<and>
     pc_rf2k_drive_down_count t =
       (if a = Some Rf2kDriveDown then sat_inc (pc_rf2k_drive_down_count s) else pc_rf2k_drive_down_count s)"
  by (auto simp: power_cap_tick_def MIN_ACTION_INTERVAL_MS_def split: option.split)

lemma tick_cause:
  assumes "snd (power_cap_tick now r s) = Some a"
  shows "pr_pa_in_operate r \<and> (\<exists>cap fwd. reading_cap r = Some cap \<and> pr_pa_fwd_watts r = Some fwd \<and> cap < fwd) \<and>
    pr_active_pa r = (case a of SpeDriveDown \<Rightarrow> 1 | Rf2kDriveDown \<Rightarrow> 2)"
  using assms by (auto simp: power_cap_tick_def split: option.splits if_splits)

lemma position_effect:
  "case on_position_change now p s of (t, b) \<Rightarrow>
     pc_prev_amplitec_pos t = p \<and>
     (pc_prev_amplitec_pos s = p \<longrightarrow> b = None \<and> t = s\<lparr>pc_prev_amplitec_pos := p\<rparr>) \<and>
     (pc_prev_amplitec_pos s \<noteq> p \<longrightarrow>
        pc_spe_drive_down_count t = 0 \<and> pc_rf2k_drive_down_count t = 0 \<and>
        (b = None \<longrightarrow> pc_spe_drive_down_count s = 0 \<and> pc_rf2k_drive_down_count s = 0 \<and>
           pc_last_action_at t = pc_last_action_at s) \<and>
        (b \<noteq> None \<longrightarrow> pc_last_action_at t = Some now \<and>
           b = Some \<lparr>re_spe_drive_up = pc_spe_drive_down_count s, re_rf2k_drive_up = pc_rf2k_drive_down_count s\<rparr>))"
  by (auto simp: on_position_change_def Let_def)

lemma presses_simps [simp]:
  "presses p [] = 0" "presses p (ps @ qs) = presses p ps + presses p qs"
  "presses p (x # ps) = (if snd x = p then 1 else 0) + presses p ps"
  "presses p (replicate n q) = (if snd q = p then n else 0)"
  by (auto simp: presses_def filter_replicate)

lemma cap_presses_count:
  fixes s :: power_cap_state and now :: instant and r :: power_cap_reading
  defines "t \<equiv> fst (cap_presses now r s)" and "ps \<equiv> map (Pair now) (snd (cap_presses now r s))"
  assumes "unat (pc_spe_drive_down_count s) < 2 ^ 32 - 1" "unat (pc_rf2k_drive_down_count s) < 2 ^ 32 - 1"
  shows "unat (pc_spe_drive_down_count s) + presses SpeDown ps =
      presses SpeUp ps + unat (pc_spe_drive_down_count t) \<and>
    unat (pc_rf2k_drive_down_count s) + presses Rf2kDown ps =
      presses Rf2kUp ps + unat (pc_rf2k_drive_down_count t) \<and>
    presses SpeDown ps + presses Rf2kDown ps \<le> 1 \<and>
    pc_prev_amplitec_pos t = pr_active_pos r"
proof -
  have inc: "unat (sat_inc n) = unat n + 1" if "unat n < 2 ^ 32 - 1" for n :: u32
  proof -
    have "n \<noteq> - 1"
      using that by (auto simp: unsigned_minus_1_eq_mask mask_eq_exp_minus_1)
    then show ?thesis
      using that by (simp add: sat_inc_def unat_word_ariths)
  qed
  obtain u b where u: "on_position_change now (pr_active_pos r) s = (u, b)"
    by fastforce
  obtain v a where v: "power_cap_tick now r u = (v, a)"
    by fastforce
  have less: "unat (pc_spe_drive_down_count u) < 2 ^ 32 - 1" "unat (pc_rf2k_drive_down_count u) < 2 ^ 32 - 1"
    using position_effect [where now = now and p = "pr_active_pos r" and s = s] assms(3,4) u
    by (cases "pc_prev_amplitec_pos s = pr_active_pos r"; simp)+
  show ?thesis
    using position_effect [where now = now and p = "pr_active_pos r" and s = s] tick_effect [where now = now and r = r and s = u] u v
      inc [OF less(1)] inc [OF less(2)]
    unfolding t_def ps_def cap_presses_def
    by (cases "pc_prev_amplitec_pos s = pr_active_pos r"; cases a; cases b; cases "the a")
      (auto split: power_cap_action.splits)
qed

text \<open>As long as the counters have not reached their width, which takes four thousand million
  ticks, they hold what is still to be given back.\<close>

lemma cap_run_count:
  assumes "unat (pc_spe_drive_down_count s) + length rs < 2 ^ 32 - 1"
    "unat (pc_rf2k_drive_down_count s) + length rs < 2 ^ 32 - 1"
  shows "case cap_run rs s of (t, ps) \<Rightarrow>
    unat (pc_spe_drive_down_count s) + presses SpeDown ps = presses SpeUp ps + unat (pc_spe_drive_down_count t) \<and>
    unat (pc_rf2k_drive_down_count s) + presses Rf2kDown ps = presses Rf2kUp ps + unat (pc_rf2k_drive_down_count t) \<and>
    unat (pc_spe_drive_down_count t) \<le> unat (pc_spe_drive_down_count s) + length rs \<and>
    unat (pc_rf2k_drive_down_count t) \<le> unat (pc_rf2k_drive_down_count s) + length rs"
  using assms
proof (induction rs arbitrary: s)
  case (Cons x rs)
  obtain now r where x: "x = (now, r)"
    by (cases x)
  have less: "unat (pc_spe_drive_down_count s) < 2 ^ 32 - 1" "unat (pc_rf2k_drive_down_count s) < 2 ^ 32 - 1"
    using Cons.prems by auto
  let ?t = "fst (cap_presses now r s)"
  note one = cap_presses_count [OF less, of now r]
  have grow: "unat (pc_spe_drive_down_count ?t) \<le> unat (pc_spe_drive_down_count s) + 1"
    "unat (pc_rf2k_drive_down_count ?t) \<le> unat (pc_rf2k_drive_down_count s) + 1"
    using one by auto
  have "unat (pc_spe_drive_down_count ?t) + length rs < 2 ^ 32 - 1"
    "unat (pc_rf2k_drive_down_count ?t) + length rs < 2 ^ 32 - 1"
    using grow Cons.prems by auto
  from Cons.IH [OF this] one grow show ?case
    by (auto simp: x split_beta Let_def)
qed simp

text \<open>Whatever is measured, marked and switched, at the tick that finds the antenna on another
  position each amplifier has been told up as often as down, apart from the one press down the
  new position may itself ask for in that tick: a cap leaves no trace in the drive of the next
  antenna.\<close>

theorem drive_returns_on_a_switch:
  fixes rs :: "(instant \<times> power_cap_reading) list" and now :: instant and r :: power_cap_reading
  defines "s \<equiv> fst (cap_run rs power_cap_new)" and "ps \<equiv> snd (cap_run (rs @ [(now, r)]) power_cap_new)"
  assumes "length rs < 2 ^ 31" and "pc_prev_amplitec_pos s \<noteq> pr_active_pos r"
  defines "act \<equiv> snd (power_cap_tick now r (fst (on_position_change now (pr_active_pos r) s)))"
  shows "presses SpeDown ps = presses SpeUp ps + (if act = Some SpeDriveDown then 1 else 0) \<and>
    presses Rf2kDown ps = presses Rf2kUp ps + (if act = Some Rf2kDriveDown then 1 else 0)"
proof -
  have zero: "unat (pc_spe_drive_down_count power_cap_new) = 0" "unat (pc_rf2k_drive_down_count power_cap_new) = 0"
    by (simp_all add: power_cap_new_def)
  obtain t qs where run: "cap_run rs power_cap_new = (t, qs)"
    by fastforce
  have count: "presses SpeDown qs = presses SpeUp qs + unat (pc_spe_drive_down_count s)"
    "presses Rf2kDown qs = presses Rf2kUp qs + unat (pc_rf2k_drive_down_count s)"
    using cap_run_count [of power_cap_new rs] assms(3) zero run by (simp_all add: s_def)
  have app: "cap_run (as @ bs) u = (let (v, ps) = cap_run as u; (w, qs) = cap_run bs v in (w, ps @ qs))" for as bs u
    by (induction as arbitrary: u) (auto simp: split_beta Let_def)
  have ps: "ps = qs @ map (Pair now) (snd (cap_presses now r s))"
    by (simp add: ps_def app run s_def split_beta Let_def)
  obtain u b where u: "on_position_change now (pr_active_pos r) s = (u, b)"
    by fastforce
  show ?thesis
  proof (cases b)
    case None
    then show ?thesis
      using position_effect [where now = now and p = "pr_active_pos r" and s = s] assms(4) u count unfolding ps act_def cap_presses_def
      by (auto simp: split_beta Let_def split: option.split power_cap_action.split)
  next
    case (Some c)
    then show ?thesis
      using position_effect [where now = now and p = "pr_active_pos r" and s = s] assms(4) u count unfolding ps act_def cap_presses_def
      by (auto simp: split_beta Let_def split: option.split power_cap_action.split)
  qed
qed

definition over_the_cap :: power_cap_reading where
  "over_the_cap = \<lparr>pr_active_pos = Some 2, pr_max_w_table = [None, Some 250, None, None, None, None],
     pr_active_pa = 1, pr_pa_in_operate = True, pr_pa_fwd_watts = Some 180, pr_mode = 7\<rparr>"

lemma cap_100: "cap_watts \<lparr>cf_amplitec_pos = 2, cf_mode = 7\<rparr> [None, Some 250, None, None, None, None] = Some 100"
  using conjunct1 [OF cap_watts_at [of 2 "[None, Some 250, None, None, None, None]" 250 7]] by simp

lemma drive_returns_on_a_switch_witness:
  "let rs = [(0, over_the_cap), (ms 1000, over_the_cap)];
       ps = snd (cap_run (rs @ [(ms 1200, over_the_cap\<lparr>pr_active_pos := Some 3\<rparr>)]) power_cap_new)
   in presses SpeDown (snd (cap_run rs power_cap_new)) = 2 \<and> presses SpeDown ps = presses SpeUp ps"
proof -
  let ?rs = "[(0, over_the_cap), (ms 1000, over_the_cap)]"
  let ?r = "over_the_cap\<lparr>pr_active_pos := Some 3\<rparr>"
  have two: "presses SpeDown (snd (cap_run ?rs power_cap_new)) = 2"
    "pc_prev_amplitec_pos (fst (cap_run ?rs power_cap_new)) = Some 2"
    by (simp_all add: cap_presses_def on_position_change_def power_cap_tick_def reading_cap_def over_the_cap_def
        cap_100 power_cap_new_def sat_inc_def MIN_ACTION_INTERVAL_MS_def Let_def)
  have none: "snd (power_cap_tick now ?r u) = None" for now u
    by (simp add: power_cap_tick_def reading_cap_def over_the_cap_def cap_watts_def)
  show ?thesis
    using drive_returns_on_a_switch [of ?rs ?r "ms 1200"] two none
    by (simp add: over_the_cap_def del: cap_run.simps)
qed

text \<open>The presses down of a run, each at least a second after the last action before it.\<close>

lemma downs_apart:
  assumes "sorted_wrt (\<le>) (map fst rs)" "\<forall>x \<in> set rs. t0 \<le> fst x"
    and "\<forall>e. pc_last_action_at s = Some e \<longrightarrow> e \<le> t0"
  defines "ds \<equiv> filter (\<lambda>q. is_down (snd q)) (snd (cap_run rs s))"
  shows "sorted_wrt (\<lambda>a b. fst a + ms 1000 \<le> fst b) ds \<and>
    (\<forall>d \<in> set ds. t0 \<le> fst d \<and> (\<forall>e. pc_last_action_at s = Some e \<longrightarrow> e + ms 1000 \<le> fst d))"
  unfolding ds_def using assms(1-3)
proof (induction rs arbitrary: s t0)
  case (Cons x rs)
  obtain now r where x: "x = (now, r)"
    by (cases x)
  obtain u b where u: "on_position_change now (pr_active_pos r) s = (u, b)"
    by fastforce
  obtain v a where v: "power_cap_tick now r u = (v, a)"
    by fastforce
  have now: "t0 \<le> now"
    using Cons.prems(2) x by simp
  have pos: "pc_last_action_at u = pc_last_action_at s \<or> pc_last_action_at u = Some now"
    using position_effect [where now = now and p = "pr_active_pos r" and s = s] u
    by (cases "pc_prev_amplitec_pos s = pr_active_pos r"; cases b) auto
  have act: "pc_last_action_at v = (if a = None then pc_last_action_at u else Some now)"
    "a \<noteq> None \<Longrightarrow> pc_last_action_at u = Some e \<Longrightarrow> ms 1000 \<le> now - e" for e
    using tick_effect [where now = now and r = r and s = u] v by auto
  have head: "fst (cap_presses now r s) = v"
    "filter (\<lambda>q. is_down (snd q)) (map (Pair now) (snd (cap_presses now r s)))
      = (case a of None \<Rightarrow> [] | Some SpeDriveDown \<Rightarrow> [(now, SpeDown)] | Some Rf2kDriveDown \<Rightarrow> [(now, Rf2kDown)])"
    using u v by (auto simp: cap_presses_def is_down_def filter_replicate split: option.split power_cap_action.split)
  have late: "e + ms 1000 \<le> now" if "a \<noteq> None" "pc_last_action_at s = Some e" for e
    using act(2) [OF that(1)] pos that(2) by (cases "pc_last_action_at u = Some now") fastforce+
  have "\<forall>y \<in> set rs. now \<le> fst y" "sorted_wrt (\<le>) (map fst rs)"
    using Cons.prems(1) x by auto
  moreover have before: "\<forall>e. pc_last_action_at v = Some e \<longrightarrow> e \<le> now"
    using act(1) pos Cons.prems(3) now by (auto split: if_splits)
  ultimately have IH: "sorted_wrt (\<lambda>a b. fst a + ms 1000 \<le> fst b) (filter (\<lambda>q. is_down (snd q)) (snd (cap_run rs v))) \<and>
    (\<forall>d \<in> set (filter (\<lambda>q. is_down (snd q)) (snd (cap_run rs v))).
       now \<le> fst d \<and> (\<forall>e. pc_last_action_at v = Some e \<longrightarrow> e + ms 1000 \<le> fst d))"
    using Cons.IH [of now v] by blast
  have tail: "e + ms 1000 \<le> fst d" if "d \<in> set (filter (\<lambda>q. is_down (snd q)) (snd (cap_run rs v)))"
    "pc_last_action_at s = Some e" for d e
  proof -
    have "e \<le> now"
      using Cons.prems(3) that(2) now by force
    moreover have "pc_last_action_at v = Some e \<or> pc_last_action_at v = Some now"
      using act(1) pos that(2) by (auto split: if_splits)
    ultimately show ?thesis
      using IH that(1) by fastforce
  qed
  show ?case
    using IH tail late head now act(1)
    by (cases a) (auto simp: x split_beta Let_def split: power_cap_action.split)
qed simp

text \<open>C17. Over any run of ticks any two presses down are at least a
  second apart, whichever amplifiers they went to.\<close>

theorem presses_down_a_second_apart:
  assumes "sorted_wrt (\<le>) (map fst rs)"
  shows "sorted_wrt (\<lambda>a b. fst a + ms 1000 \<le> fst b)
    (filter (\<lambda>q. is_down (snd q)) (snd (cap_run rs power_cap_new)))"
  using downs_apart [OF assms, of 0 power_cap_new] by (simp add: power_cap_new_def)

lemma presses_down_a_second_apart_witness:
  "sorted_wrt (\<lambda>a b. fst a + ms 1000 \<le> fst b) (filter (\<lambda>q. is_down (snd q))
     (snd (cap_run [(0, over_the_cap), (ms 400, over_the_cap), (ms 1000, over_the_cap)] power_cap_new)))"
  by (rule presses_down_a_second_apart) simp

end
