(* ===== verification/TxTiming.thy ===== *)
theory TxTiming
  imports Prelude
begin

text \<open>
  The transmit chain of a Yaesu radio (\<^verbatim>\<open>yaesu/tx_timing.rs\<close>): the over and its lead, the audio held
  until the radio transmits, the silence the sound card filled in, and the wait before \<^verbatim>\<open>TX0;\<close> that
  lets the last words play.

  The atomics of \<^verbatim>\<open>TxTiming\<close> are the fields of one record; times are milliseconds of
  \<^verbatim>\<open>turnaround_clock\<close>, which begins at one, so that zero is "no time". The clock, the sleep and the
  look at the ring that \<^verbatim>\<open>wait_for_tail\<close> gets as closures are functions on a world of which nothing is
  known; the locale \<open>tail_env\<close> says what the wait needs of them - the clock moves in a sleep by what
  was asked, and the machine keeps the thread waiting no longer than \<open>slack\<close> at a time - and its
  interpretation is the real clock and the real sleep, with any ring and any delays up to a bound.
\<close>

section \<open>The wait before TX0\<close>

definition HOLD_MAX_MS :: nat where "HOLD_MAX_MS = 150"
definition LEAD_MAX_MS :: nat where "LEAD_MAX_MS = HOLD_MAX_MS"
definition LEAD_MS :: nat where "LEAD_MS = 120"
definition TAIL_MAX_MS :: nat where "TAIL_MAX_MS = 250"
definition TAIL_MARGIN_MS :: nat where "TAIL_MARGIN_MS = 30"
definition TAIL_EXTRA_MS :: nat where "TAIL_EXTRA_MS = 100"
definition TAIL_CAP_MS :: nat where "TAIL_CAP_MS = 1000"

lemmas tail_consts = TAIL_MAX_MS_def TAIL_MARGIN_MS_def TAIL_EXTRA_MS_def TAIL_CAP_MS_def

definition tail_limit :: "nat \<Rightarrow> nat" where
  "tail_limit first_ms = min (max TAIL_MAX_MS (first_ms + TAIL_EXTRA_MS)) TAIL_CAP_MS"

definition tail_done :: "nat \<Rightarrow> nat \<Rightarrow> nat \<Rightarrow> bool" where
  "tail_done queued_ms waited_ms limit_ms \<longleftrightarrow> queued_ms = 0 \<or> limit_ms \<le> waited_ms"

record tail =
  tl_waited :: nat
  tl_first :: nat
  tl_late :: nat
  tl_again :: bool

definition after_margin :: "tail \<Rightarrow> string option" where
  "after_margin t = (if 0 < tl_late t
     then Some (if tl_again t then ''waited again'' else ''past the bound, TX0 anyway'') else None)"

text \<open>The loop may not end on a clock that stands still, so it is a partial function.\<close>

partial_function (option) until_empty ::
    "('s \<Rightarrow> nat \<times> 's) \<Rightarrow> ('s \<Rightarrow> nat \<times> 's) \<Rightarrow> (nat \<Rightarrow> 's \<Rightarrow> 's) \<Rightarrow> nat \<Rightarrow> nat \<Rightarrow> nat \<Rightarrow> 's \<Rightarrow> (nat \<times> nat \<times> 's) option" where
  "until_empty now_ms queued_ms pause started limit most s =
     (let (now, s) = now_ms s;
          waited = now - started;
          (queued, s) = queued_ms s;
          most = max most queued;
          limit = max limit (tail_limit queued)
      in if tail_done queued waited limit then Some (limit, most, s)
         else until_empty now_ms queued_ms pause started limit most (pause 5 s))"

definition wait_for_tail ::
    "('s \<Rightarrow> nat \<times> 's) \<Rightarrow> ('s \<Rightarrow> nat \<times> 's) \<Rightarrow> (nat \<Rightarrow> 's \<Rightarrow> 's) \<Rightarrow> 's \<Rightarrow> (tail \<times> 's) option" where
  "wait_for_tail now_ms queued_ms pause s =
     (let (started, s) = now_ms s;
          (first, s) = queued_ms s
      in case until_empty now_ms queued_ms pause started (tail_limit first) first s of
        None \<Rightarrow> None
      | Some (limit, most, s) \<Rightarrow>
          (let s = (if 0 < most then pause TAIL_MARGIN_MS s else s);
               (late, s) = queued_ms s;
               (again, s) = (if 0 < late then (let (now, s) = now_ms s in (now - started < limit, s)) else (False, s))
           in case (if again
                    then map_option (\<lambda>(_, _, s). pause TAIL_MARGIN_MS s)
                           (until_empty now_ms queued_ms pause started limit most s)
                    else Some s) of
                None \<Rightarrow> None
              | Some s \<Rightarrow>
                  (let (now, s) = now_ms s
                   in Some (\<lparr>tl_waited = now - started, tl_first = first, tl_late = late, tl_again = again\<rparr>, s))))"

lemma tail_limit_bounds: "250 \<le> tail_limit q" "tail_limit q \<le> 1000"
  by (auto simp: tail_limit_def tail_consts)

locale tail_env =
  fixes now_ms :: "'s \<Rightarrow> nat \<times> 's"
    and queued_ms :: "'s \<Rightarrow> nat \<times> 's"
    and pause :: "nat \<Rightarrow> 's \<Rightarrow> 's"
    and time :: "'s \<Rightarrow> nat"
    and seen :: "'s \<Rightarrow> nat"
    and slack :: nat
  assumes now: "now_ms s = (n, s') \<Longrightarrow> n = time s' \<and> time s \<le> n \<and> n \<le> time s + slack \<and> seen s' = seen s"
    and look: "queued_ms s = (q, s') \<Longrightarrow> q = seen s' \<and> time s \<le> time s' \<and> time s' \<le> time s + slack"
    and sleep: "time s + m \<le> time (pause m s) \<and> time (pause m s) \<le> time s + m + slack \<and> seen (pause m s) = seen s"
begin

text \<open>The wait ends whatever the ring reads, with the ring empty or the limit reached.\<close>

lemma until_empty_ends:
  assumes "limit \<le> 1000"
  shows "\<exists>l m s'. until_empty now_ms queued_ms pause started limit most s = Some (l, m, s')
    \<and> limit \<le> l \<and> l \<le> 1000 \<and> most \<le> m \<and> time s \<le> time s'
    \<and> time s' \<le> max (time s) (started + 1004 + 2 * slack) + 2 * slack
    \<and> (seen s' = 0 \<or> started + l \<le> time s')"
  using assms
proof (induction "started + 1000 - time s" arbitrary: s limit most rule: less_induct)
  case less
  obtain n s1 where n: "now_ms s = (n, s1)" by fastforce
  obtain q s2 where q: "queued_ms s1 = (q, s2)" by fastforce
  define l where "l = max limit (tail_limit q)"
  note t = now [OF n] look [OF q] sleep [of s2 5]
  have l: "limit \<le> l" "l \<le> 1000" using less.prems tail_limit_bounds [of q] by (auto simp: l_def)
  have eq: "until_empty now_ms queued_ms pause started limit most s =
      (if tail_done q (n - started) l then Some (l, max most q, s2)
       else until_empty now_ms queued_ms pause started l (max most q) (pause 5 s2))"
    by (subst until_empty.simps) (simp add: n q l_def Let_def)
  show ?case
  proof (cases "tail_done q (n - started) l")
    case True
    then have "seen s2 = 0 \<or> started + l \<le> time s2"
      using t l tail_limit_bounds(1) [of q] by (auto simp: tail_done_def l_def)
    moreover have "time s \<le> time s2" "time s2 \<le> max (time s) (started + 1004 + 2 * slack) + 2 * slack"
      using t by linarith+
    ultimately show ?thesis using True l by (simp add: eq)
  next
    case False
    then have early: "n - started < l" by (simp add: tail_done_def)
    with t l have fewer: "started + 1000 - time (pause 5 s2) < started + 1000 - time s" by linarith
    have bound: "time (pause 5 s2) \<le> started + 1004 + 2 * slack" "time s \<le> time (pause 5 s2)"
      using t early l by linarith+
    obtain l' m s' where r:
      "until_empty now_ms queued_ms pause started l (max most q) (pause 5 s2) = Some (l', m, s')"
      "l \<le> l'" "l' \<le> 1000" "max most q \<le> m" "time (pause 5 s2) \<le> time s'"
      "time s' \<le> max (time (pause 5 s2)) (started + 1004 + 2 * slack) + 2 * slack"
      "seen s' = 0 \<or> started + l' \<le> time s'"
      using less.hyps [OF fewer l(2), of "max most q"] by blast
    then have "time s' \<le> max (time s) (started + 1004 + 2 * slack) + 2 * slack" "time s \<le> time s'"
      using bound by linarith+
    then show ?thesis using False l r by (simp add: eq)
  qed
qed

lemma wait_ends:
  "\<exists>t s'. wait_for_tail now_ms queued_ms pause s = Some (t, s')
    \<and> tl_waited t \<le> 1034 + 8 * slack
    \<and> (seen s' = 0 \<or> 250 \<le> tl_waited t)"
proof -
  obtain a s1 where a: "now_ms s = (a, s1)" by fastforce
  obtain f s2 where f: "queued_ms s1 = (f, s2)" by fastforce
  obtain l m s3 where u: "until_empty now_ms queued_ms pause a (tail_limit f) f s2 = Some (l, m, s3)"
    and ul: "tail_limit f \<le> l" "l \<le> 1000" and ut: "time s2 \<le> time s3"
      "time s3 \<le> max (time s2) (a + 1004 + 2 * slack) + 2 * slack"
    using until_empty_ends [OF tail_limit_bounds(2), of a f f s2] by blast
  define s4 where "s4 = (if 0 < m then pause TAIL_MARGIN_MS s3 else s3)"
  obtain g s5 where g: "queued_ms s4 = (g, s5)" by fastforce
  obtain b s6 where b: "now_ms s5 = (b, s6)" by fastforce
  note l = tail_limit_bounds [of f] ul
  have t: "time s1 = a" "time s2 \<le> a + slack" "a \<le> time s2"
    using now [OF a] look [OF f] by simp_all
  have t4: "time s4 \<le> time s3 + 30 + slack" "time s3 \<le> time s4"
    using sleep [of s3 30] by (auto simp: s4_def TAIL_MARGIN_MS_def)
  have t5: "time s5 \<le> time s4 + slack" "time s4 \<le> time s5" "seen s5 = g" using look [OF g] by simp_all
  have t6: "time s6 = b" "b \<le> time s5 + slack" "time s5 \<le> b" "seen s6 = g" using now [OF b] t5 by simp_all
  show ?thesis
  proof (cases "0 < g \<and> b - a < l")
    case True
    obtain l' m' s7 where v: "until_empty now_ms queued_ms pause a l m s6 = Some (l', m', s7)"
      and vl: "l \<le> l'" and vt: "time s6 \<le> time s7"
        "time s7 \<le> max (time s6) (a + 1004 + 2 * slack) + 2 * slack" "seen s7 = 0 \<or> a + l' \<le> time s7"
      using until_empty_ends [OF ul(2), of a m s6] by blast
    obtain c s8 where c: "now_ms (pause TAIL_MARGIN_MS s7) = (c, s8)" by fastforce
    have t8: "c \<le> time s7 + 30 + 2 * slack" "time s7 \<le> c" "seen s8 = seen s7"
      using now [OF c] sleep [of s7 30] by (auto simp: TAIL_MARGIN_MS_def)
    have "wait_for_tail now_ms queued_ms pause s
        = Some (\<lparr>tl_waited = c - a, tl_first = f, tl_late = g, tl_again = True\<rparr>, s8)"
      using True by (simp add: wait_for_tail_def a f u g b v c flip: s4_def)
    moreover have "c - a \<le> 1034 + 8 * slack" using True t t6 t8 vt l by auto
    moreover have "seen s8 = 0 \<or> 250 \<le> c - a" using t8 vt(3) vl l by linarith
    ultimately show ?thesis by simp
  next
    case False
    define s7 where "s7 = (if 0 < g then s6 else s5)"
    obtain c s8 where c: "now_ms s7 = (c, s8)" by fastforce
    have t8: "c \<le> time s5 + 2 * slack" "seen s8 = g" "0 < g \<longrightarrow> b \<le> c"
      using now [OF c] t5 t6 by (auto simp: s7_def split: if_splits)
    have "wait_for_tail now_ms queued_ms pause s
        = Some (\<lparr>tl_waited = c - a, tl_first = f, tl_late = g, tl_again = False\<rparr>, s8)"
      using False c by (cases "0 < g") (simp_all add: wait_for_tail_def a f u g b s7_def flip: s4_def)
    moreover have "c - a \<le> 1034 + 8 * slack" using t t4 t5 t8 ut l by auto
    moreover have "seen s8 = 0 \<or> 250 \<le> c - a" using t8 False l by linarith
    ultimately show ?thesis by simp
  qed
qed

end

text \<open>
  The real clock and the real sleep: a step of the world may be late by up to \<open>d\<close> milliseconds, as
  \<open>delays\<close> has it, and the ring reads what \<open>ring\<close> says, look by look.
\<close>

record tail_world =
  tw_ms :: nat
  tw_step :: nat
  tw_looks :: nat
  tw_seen :: nat

definition world_step :: "nat \<Rightarrow> (nat \<Rightarrow> nat) \<Rightarrow> nat \<Rightarrow> tail_world \<Rightarrow> tail_world" where
  "world_step d delays m w = w\<lparr>tw_ms := tw_ms w + m + min d (delays (tw_step w)), tw_step := Suc (tw_step w)\<rparr>"

definition clock_ms :: "nat \<Rightarrow> (nat \<Rightarrow> nat) \<Rightarrow> tail_world \<Rightarrow> nat \<times> tail_world" where
  "clock_ms d delays w = (let w = world_step d delays 0 w in (tw_ms w, w))"

definition ring_look :: "nat \<Rightarrow> (nat \<Rightarrow> nat) \<Rightarrow> (nat \<Rightarrow> nat) \<Rightarrow> tail_world \<Rightarrow> nat \<times> tail_world" where
  "ring_look d delays ring w = (let q = ring (tw_looks w); w = world_step d delays 0 w
     in (q, w\<lparr>tw_looks := Suc (tw_looks w), tw_seen := q\<rparr>))"

definition wait_for_tail_now ::
    "nat \<Rightarrow> (nat \<Rightarrow> nat) \<Rightarrow> (nat \<Rightarrow> nat) \<Rightarrow> tail_world \<Rightarrow> (tail \<times> tail_world) option" where
  "wait_for_tail_now d delays ring = wait_for_tail (clock_ms d delays) (ring_look d delays ring) (world_step d delays)"

interpretation std: tail_env "clock_ms d delays" "ring_look d delays ring" "world_step d delays" tw_ms tw_seen d
  for d delays ring
  by unfold_locales (auto simp: clock_ms_def ring_look_def world_step_def Let_def)

text \<open>Every release an operator asked for is written: the wait before \<^verbatim>\<open>TX0;\<close> ends whatever the ring
  reads and however the machine delays it, at most 1034 ms and eight delays after it began, and it ends
  with the ring read empty or after at least the 250 ms every release gets.\<close>

theorem release_wait_ends:
  "\<exists>t w'. wait_for_tail_now d delays ring w = Some (t, w')
    \<and> tl_waited t \<le> 1034 + 8 * d
    \<and> (tw_seen w' = 0 \<or> 250 \<le> tl_waited t)"
  unfolding wait_for_tail_now_def by (rule std.wait_ends)

section \<open>Audio held until the radio transmits\<close>

text \<open>A sample is an \<^verbatim>\<open>f32\<close> that is moved and never computed with: any type \<open>'a\<close>.\<close>

record 'a hold =
  hd_samples :: "'a list"
  hd_over :: nat
  hd_dropped :: nat
  hd_report :: "nat option"

definition hold_default :: "'a hold" where
  "hold_default = \<lparr>hd_samples = [], hd_over = 0, hd_dropped = 0, hd_report = None\<rparr>"

definition hold_over :: "nat \<Rightarrow> 'a hold \<Rightarrow> 'a hold" where
  "hold_over over h =
     (if over \<noteq> hd_over h
      then (let thrown = hd_dropped h + length (hd_samples h)
            in h\<lparr>hd_report := (if 0 < thrown then Some thrown else hd_report h),
                 hd_dropped := 0, hd_samples := [], hd_over := over\<rparr>)
      else h)"

definition hold_take :: "'a list \<Rightarrow> bool \<Rightarrow> nat \<Rightarrow> nat \<Rightarrow> 'a hold \<Rightarrow> 'a hold \<times> ('a list \<times> nat) option" where
  "hold_take samples keyed over max_held h =
     (let h = hold_over over h
      in if keyed then
           (if hd_samples h = [] then (h, Some (samples, 0))
            else (h\<lparr>hd_samples := []\<rparr>, Some (hd_samples h @ samples, length (hd_samples h))))
         else
           (let all = hd_samples h @ samples;
                extra = length all - max_held
            in (h\<lparr>hd_samples := drop extra all, hd_dropped := hd_dropped h + extra\<rparr>, None)))"

definition hold_take_report :: "'a hold \<Rightarrow> 'a hold \<times> nat option" where
  "hold_take_report h = (h\<lparr>hd_report := None\<rparr>, hd_report h)"

text \<open>
  A run of blocks through one \<open>hold\<close>: each block with whether the radio was keyed, its over and the most
  to hold, and what each let through.
\<close>

type_synonym 'a block = "'a list \<times> bool \<times> nat \<times> nat"

fun hold_run :: "'a block list \<Rightarrow> 'a hold \<Rightarrow> 'a hold \<times> ('a list \<times> nat) option list" where
  "hold_run [] h = (h, [])"
| "hold_run ((samples, keyed, over, max_held) # bs) h =
     (let (h, out) = hold_take samples keyed over max_held h;
          (h, outs) = hold_run bs h
      in (h, out # outs))"

lemma hold_take_waiting:
  "hd_over h = over \<Longrightarrow> hold_take xs False over m h =
     (h\<lparr>hd_samples := keep_newest m (hd_samples h @ xs),
        hd_dropped := hd_dropped h + (length (hd_samples h @ xs) - m)\<rparr>, None)"
  by (simp add: hold_take_def hold_over_def keep_newest_def Let_def)

text \<open>Waiting blocks of one over: the newest are held, whatever the blocks' sizes.\<close>

lemma waiting_blocks_are_held:
  assumes "\<forall>b \<in> set bs. \<exists>x. b = (x, False, over, m)" "hd_over h = over" "length (hd_samples h) \<le> m"
  shows "fst (hold_run bs h) = h\<lparr>hd_samples := keep_newest m (hd_samples h @ concat (map fst bs)),
    hd_dropped := hd_dropped h + (length (hd_samples h @ concat (map fst bs)) - m)\<rparr>"
  using assms
proof (induction bs arbitrary: h)
  case (Cons b bs)
  obtain x where b: "b = (x, False, over, m)" using Cons.prems by auto
  define h1 where "h1 = h\<lparr>hd_samples := keep_newest m (hd_samples h @ x),
    hd_dropped := hd_dropped h + (length (hd_samples h @ x) - m)\<rparr>"
  have run: "fst (hold_run (b # bs) h) = fst (hold_run bs h1)"
    using Cons.prems by (simp add: b h1_def hold_take_waiting split_beta Let_def)
  have IH: "fst (hold_run bs h1) = h1\<lparr>hd_samples := keep_newest m (hd_samples h1 @ concat (map fst bs)),
    hd_dropped := hd_dropped h1 + (length (hd_samples h1 @ concat (map fst bs)) - m)\<rparr>"
    by (rule Cons.IH) (use Cons.prems h1_def in auto)
  show ?case
    unfolding run IH by (simp add: h1_def b min_def)
qed simp

text \<open>An operator who talks while the radio is still being keyed loses only the oldest of what he
  said: when \<^verbatim>\<open>TX1;\<close> is out, the newest samples that waited, as many as the limit allows, go out in the
  order they came, ahead of the block that found the radio keyed; every other waiting sample is counted
  as dropped.\<close>

theorem held_audio_goes_out_in_order:
  assumes "\<forall>b \<in> set bs. \<exists>x. b = (x, False, over, m)" "hd_over h = over" "hd_samples h = []"
  defines "waiting \<equiv> concat (map fst bs)"
  shows "let (h1, _) = hold_run bs h;
             (h2, out) = hold_take samples True over m' h1
         in map_option fst out = Some (drop (length waiting - m) waiting @ samples)
          \<and> hd_samples h2 = [] \<and> hd_dropped h2 = hd_dropped h + (length waiting - m)"
proof -
  have "fst (hold_run bs h) = h\<lparr>hd_samples := keep_newest m waiting, hd_dropped := hd_dropped h + (length waiting - m)\<rparr>"
    using waiting_blocks_are_held [OF assms(1,2)] assms(3) by (simp add: waiting_def)
  then show ?thesis using assms(2)
    by (auto simp: split_beta Let_def hold_take_def hold_over_def keep_newest_def)
qed

lemma held_audio_goes_out_in_order_witness:
  "let (h1, _) = hold_run [([1, 2, 3::nat], False, 1, 4), ([4, 5], False, 1, 4)] (hold_default\<lparr>hd_over := 1\<rparr>);
       (h2, out) = hold_take [6] True 1 4 h1
   in map_option fst out = Some [2, 3, 4, 5, 6] \<and> hd_samples h2 = [] \<and> hd_dropped h2 = 1"
  using held_audio_goes_out_in_order [of "[([1, 2, 3::nat], False, 1, 4), ([4, 5], False, 1, 4)]" 1 4
      "hold_default\<lparr>hd_over := 1\<rparr>" "[6]" 4]
  by (simp add: hold_default_def)

lemma hold_take_cases:
  assumes "hold_take xs keyed over m h = (h1, out)"
  shows "hd_over h1 = over"
    and "x \<in> set (hd_samples h1) \<Longrightarrow> x \<in> set xs \<or> hd_over h = over \<and> x \<in> set (hd_samples h)"
    and "out = Some (ys, n) \<Longrightarrow> x \<in> set ys \<Longrightarrow> x \<in> set xs \<or> hd_over h = over \<and> x \<in> set (hd_samples h)"
  using assms
  by (auto simp: hold_take_def hold_over_def Let_def simp flip: keep_newest_def split: if_splits dest: set_keep_newest set_keep_newest_append)

lemma hold_keeps_overs:
  assumes "\<forall>x \<in> set (hd_samples h). P (hd_over h) x" "\<forall>(xs, _, over, _) \<in> set bs. \<forall>x \<in> set xs. P over x"
  shows "(\<forall>x \<in> set (hd_samples (fst (hold_run bs h))). P (hd_over (fst (hold_run bs h))) x)
    \<and> list_all2 (\<lambda>(_, _, over, _) out. case out of None \<Rightarrow> True | Some (xs, _) \<Rightarrow> \<forall>x \<in> set xs. P over x)
        bs (snd (hold_run bs h))"
  using assms
proof (induction bs arbitrary: h)
  case (Cons b bs)
  obtain xs keyed over m where b: "b = (xs, keyed, over, m)" by (cases b)
  obtain h1 out where h1: "hold_take xs keyed over m h = (h1, out)" by fastforce
  have k: "\<forall>x \<in> set (hd_samples h1). P (hd_over h1) x"
    "case out of None \<Rightarrow> True | Some (ys, _) \<Rightarrow> \<forall>x \<in> set ys. P over x"
    using hold_take_cases [OF h1] Cons.prems by (fastforce simp: b split: option.split)+
  show ?case
    using Cons.IH [OF k(1)] Cons.prems(2) k(2) h1 by (auto simp: b split_beta Let_def)
qed simp

definition handed_in :: "'a block list \<Rightarrow> nat \<Rightarrow> 'a list" where
  "handed_in bs over = concat (map fst (filter (\<lambda>(_, _, n, _). n = over) bs))"

text \<open>Nothing said in one over is heard in another: over any run of blocks, keyed or not, what a block
  lets through was all handed in with that block's own over number.\<close>

theorem no_audio_of_another_over:
  "list_all2 (\<lambda>(_, _, over, _) out. set (fst (case_option ([], 0) (\<lambda>y. y) out)) \<subseteq> set (handed_in bs over))
     bs (snd (hold_run bs hold_default))"
proof -
  have "list_all2 (\<lambda>(_, _, over, _) out. case out of None \<Rightarrow> True
      | Some (xs, _) \<Rightarrow> \<forall>x \<in> set xs. x \<in> set (handed_in bs over)) bs (snd (hold_run bs hold_default))"
    by (rule hold_keeps_overs [where P = "\<lambda>over x. x \<in> set (handed_in bs over)", THEN conjunct2])
      (fastforce simp: hold_default_def handed_in_def)+
  then show ?thesis
    by (rule list_all2_mono) (auto split: option.splits)
qed

section \<open>The over, its lead and its times\<close>

definition lead_for_over :: "nat \<Rightarrow> bool \<Rightarrow> nat \<Rightarrow> nat" where
  "lead_for_over setting_ms alternate over = (if alternate \<and> over mod 2 = 0 then 0 else setting_ms)"

definition queued_ms :: "nat \<Rightarrow> nat \<Rightarrow> nat" where
  "queued_ms items capacity = (let rate = max (capacity div 2) 1 in items div 2 * 1000 div rate)"

record rx_back_watch =
  rb_off_at :: nat

definition RX_BACK_GIVE_UP_MS :: nat where "RX_BACK_GIVE_UP_MS = 10000"

definition trx_off :: "nat \<Rightarrow> rx_back_watch \<Rightarrow> rx_back_watch" where
  "trx_off now w = w\<lparr>rb_off_at := now\<rparr>"

definition trx_on :: "rx_back_watch \<Rightarrow> rx_back_watch" where
  "trx_on w = w\<lparr>rb_off_at := 0\<rparr>"

definition rx_cancel :: "rx_back_watch \<Rightarrow> rx_back_watch" where
  "rx_cancel w = w\<lparr>rb_off_at := 0\<rparr>"

text \<open>The block is given by whether its peak lies above \<^verbatim>\<open>RX_BACK_PEAK\<close>.\<close>

definition rx_block_at :: "nat \<Rightarrow> bool \<Rightarrow> rx_back_watch \<Rightarrow> rx_back_watch \<times> nat option" where
  "rx_block_at now_ms loud w =
     (if rb_off_at w = 0 then (w, None)
      else if RX_BACK_GIVE_UP_MS < now_ms - rb_off_at w then (w\<lparr>rb_off_at := 0\<rparr>, None)
      else if \<not> loud then (w, None)
      else (w\<lparr>rb_off_at := 0\<rparr>, Some (now_ms - rb_off_at w)))"

record tx_timing =
  tt_requested_at :: nat
  tt_released_at :: nat
  tt_first_audio_from :: nat
  tt_rx_back :: rx_back_watch
  tt_keyed :: bool
  tt_over :: nat
  tt_padded_frames :: nat
  tt_gaps :: nat
  tt_ring_ms :: nat
  tt_lead_setting_ms :: nat
  tt_lead_alternate :: bool
  tt_over_lead_ms :: nat
  tt_pressed :: bool

definition set_lead :: "nat \<Rightarrow> bool \<Rightarrow> tx_timing \<Rightarrow> tx_timing" where
  "set_lead m alternate t = t\<lparr>tt_lead_setting_ms := min m LEAD_MAX_MS, tt_lead_alternate := alternate\<rparr>"

definition tx_timing_new :: tx_timing where
  "tx_timing_new = set_lead LEAD_MS False
     \<lparr>tt_requested_at = 0, tt_released_at = 0, tt_first_audio_from = 0, tt_rx_back = \<lparr>rb_off_at = 0\<rparr>,
      tt_keyed = False, tt_over = 0, tt_padded_frames = 0, tt_gaps = 0, tt_ring_ms = 0,
      tt_lead_setting_ms = 0, tt_lead_alternate = False, tt_over_lead_ms = 0, tt_pressed = False\<rparr>"

definition asked_release :: "tx_timing \<Rightarrow> bool" where
  "asked_release t \<longleftrightarrow> tt_released_at t \<noteq> 0"

definition timing_ring_ms :: "tx_timing \<Rightarrow> nat option" where
  "timing_ring_ms t = (if tt_keyed t then Some (tt_ring_ms t) else None)"

definition forget_release :: "tx_timing \<Rightarrow> tx_timing" where
  "forget_release t = t\<lparr>tt_released_at := 0, tt_pressed := False\<rparr>"

definition request_at :: "nat \<Rightarrow> bool \<Rightarrow> tx_timing \<Rightarrow> tx_timing" where
  "request_at now on t =
     (if on then
        (if tt_pressed t then t
         else (let over = tt_over t + 1
               in t\<lparr>tt_pressed := True, tt_requested_at := now, tt_first_audio_from := now,
                    tt_over_lead_ms := lead_for_over (tt_lead_setting_ms t) (tt_lead_alternate t) over,
                    tt_over := over\<rparr>))
      else t\<lparr>tt_pressed := False, tt_released_at := now\<rparr>)"

definition tx_audio_at :: "nat \<Rightarrow> tx_timing \<Rightarrow> tx_timing \<times> nat option" where
  "tx_audio_at now t =
     (let from = tt_first_audio_from t; t = t\<lparr>tt_first_audio_from := 0\<rparr>
      in (t, if from = 0 then None else Some (now - from)))"

definition written_at :: "nat \<Rightarrow> bool \<Rightarrow> tx_timing \<Rightarrow> tx_timing \<times> nat option" where
  "written_at now on t =
     (let t = t\<lparr>tt_keyed := on\<rparr>
      in if on then
           (t\<lparr>tt_rx_back := trx_on (tt_rx_back t), tt_requested_at := 0\<rparr>,
            if tt_requested_at t = 0 then None else Some (now - tt_requested_at t))
         else
           (t\<lparr>tt_rx_back := trx_off now (tt_rx_back t), tt_first_audio_from := 0, tt_pressed := False, tt_released_at := 0\<rparr>,
            if tt_released_at t = 0 then None else Some (now - tt_released_at t)))"

definition gaps_add :: "nat \<Rightarrow> tx_timing \<Rightarrow> tx_timing" where
  "gaps_add frames t = t\<lparr>tt_padded_frames := tt_padded_frames t + frames, tt_gaps := tt_gaps t + 1\<rparr>"

definition set_ring_ms :: "nat \<Rightarrow> tx_timing \<Rightarrow> tx_timing" where
  "set_ring_ms m t = t\<lparr>tt_ring_ms := m\<rparr>"

definition take_gaps :: "tx_timing \<Rightarrow> tx_timing \<times> nat \<times> nat" where
  "take_gaps t = (t\<lparr>tt_padded_frames := 0, tt_gaps := 0\<rparr>, tt_padded_frames t, tt_gaps t)"

text \<open>What happens to a radio's timing; \<open>turnaround_clock\<close> is one more than the time since the start.\<close>

datatype timing_event = Press nat | LetGo nat | Wrote nat bool | NewPort | SetLead nat bool | FirstAudio nat
  | GapClosed nat | RingLevel nat | TakeGaps

fun timing_step :: "timing_event \<Rightarrow> tx_timing \<Rightarrow> tx_timing" where
  "timing_step (Press e) t = request_at (e + 1) True t"
| "timing_step (LetGo e) t = request_at (e + 1) False t"
| "timing_step (Wrote e on) t = fst (written_at (e + 1) on t)"
| "timing_step NewPort t = forget_release t"
| "timing_step (SetLead m a) t = set_lead m a t"
| "timing_step (FirstAudio e) t = fst (tx_audio_at (e + 1) t)"
| "timing_step (GapClosed n) t = gaps_add n t"
| "timing_step (RingLevel m) t = set_ring_ms m t"
| "timing_step TakeGaps t = fst (take_gaps t)"

definition timing_run :: "timing_event list \<Rightarrow> tx_timing \<Rightarrow> tx_timing" where
  "timing_run es t = fold timing_step es t"

text \<open>What ends a press - letting go, \<^verbatim>\<open>TX0;\<close>, another port - and what the last press has come to.\<close>

fun is_press :: "timing_event \<Rightarrow> bool" where
  "is_press (Press _) = True"
| "is_press _ = False"

fun ends_press :: "timing_event \<Rightarrow> bool" where
  "ends_press (LetGo _) = True"
| "ends_press (Wrote _ on) = (\<not> on)"
| "ends_press NewPort = True"
| "ends_press _ = False"

definition held_down :: "timing_event list \<Rightarrow> bool" where
  "held_down es = (case dropWhile (\<lambda>e. \<not> is_press e \<and> \<not> ends_press e) (rev es) of [] \<Rightarrow> False | e # _ \<Rightarrow> is_press e)"

definition new_presses :: "timing_event list \<Rightarrow> nat" where
  "new_presses es = length (filter (\<lambda>i. is_press (es ! i) \<and> \<not> held_down (take i es)) [0..<length es])"

lemma held_down_snoc [simp]:
  "held_down (es @ [e]) = (is_press e \<or> (\<not> ends_press e \<and> held_down es))"
  by (cases e) (simp_all add: held_down_def)

lemma new_presses_snoc [simp]:
  "new_presses (es @ [e]) = new_presses es + (if is_press e \<and> \<not> held_down es then 1 else 0)"
  by (auto simp: new_presses_def nth_append intro!: arg_cong [where f = length] filter_cong)

lemmas timing_defs = request_at_def written_at_def forget_release_def set_lead_def tx_audio_at_def
  gaps_add_def set_ring_ms_def take_gaps_def

lemma timing_run_snoc [simp]: "timing_run (es @ [e]) t = timing_step e (timing_run es t)"
  by (simp add: timing_run_def)

text \<open>C20. A transmission is one over however often it is asked for: the over number counts the presses that
  came when no press stood - none before, or the last one let go of, written off by \<^verbatim>\<open>TX0;\<close>, whoever sent
  it, or lost with its port. A press again inside a transmission is the same over.\<close>

theorem over_counts_the_transmissions:
  "tt_over (timing_run es tx_timing_new) = new_presses es \<and> tt_pressed (timing_run es tx_timing_new) = held_down es"
proof (induction es rule: rev_induct)
  case Nil
  then show ?case by (simp add: timing_run_def tx_timing_new_def set_lead_def new_presses_def held_down_def)
next
  case (snoc e es)
  then show ?case by (cases e) (auto simp: timing_defs Let_def)
qed

text \<open>The lead of an over stands as long as the over does, whatever is set meanwhile.\<close>

lemma timing_step_over: "tt_over t \<le> tt_over (timing_step e t)"
  by (cases e) (auto simp: timing_defs Let_def)

lemma timing_run_over: "tt_over t \<le> tt_over (timing_run es t)"
  unfolding timing_run_def
  by (induction es arbitrary: t) (auto intro: order_trans timing_step_over)

lemma timing_step_lead:
  "tt_over (timing_step e t) = tt_over t \<Longrightarrow> tt_over_lead_ms (timing_step e t) = tt_over_lead_ms t"
  by (cases e) (auto simp: timing_defs Let_def split: if_splits)

definition lead_ok :: "tx_timing \<Rightarrow> bool" where
  "lead_ok t \<longleftrightarrow> tt_over_lead_ms t \<le> LEAD_MAX_MS \<and> tt_lead_setting_ms t \<le> LEAD_MAX_MS"

lemma lead_ok_step: "lead_ok t \<Longrightarrow> lead_ok (timing_step e t)"
  by (cases e) (auto simp: timing_defs lead_ok_def lead_for_over_def Let_def)

lemma lead_ok_run: "lead_ok t \<Longrightarrow> lead_ok (timing_run es t)"
  unfolding timing_run_def by (induction es arbitrary: t) (auto intro: lead_ok_step)

text \<open>The lead of an over is fixed when the over begins: whatever happens afterwards, a new setting from
  the server's screen included, while the over number stays so does its lead, and no lead is longer than
  what the hold before \<^verbatim>\<open>TX1;\<close> can keep.\<close>

theorem lead_stands_for_the_over:
  assumes "tt_over (timing_run (es @ fs) tx_timing_new) = tt_over (timing_run es tx_timing_new)"
  shows "tt_over_lead_ms (timing_run (es @ fs) tx_timing_new) = tt_over_lead_ms (timing_run es tx_timing_new)
    \<and> tt_over_lead_ms (timing_run es tx_timing_new) \<le> HOLD_MAX_MS"
proof -
  have split: "timing_run (es @ gs) tx_timing_new = timing_run gs (timing_run es tx_timing_new)" for gs
    by (simp add: timing_run_def)
  have "tt_over (timing_run fs t) = tt_over t \<Longrightarrow> tt_over_lead_ms (timing_run fs t) = tt_over_lead_ms t" for t
  proof (induction fs arbitrary: t)
    case (Cons f fs)
    have run: "timing_run (f # fs) t = timing_run fs (timing_step f t)" by (simp add: timing_run_def)
    have "tt_over (timing_step f t) = tt_over t" "tt_over (timing_run fs (timing_step f t)) = tt_over (timing_step f t)"
      using Cons.prems timing_step_over [of t f] timing_run_over [of "timing_step f t" fs] by (simp_all add: run)
    with Cons.IH timing_step_lead show ?case by (simp add: run)
  qed (simp add: timing_run_def)
  moreover have "lead_ok (timing_run es tx_timing_new)"
    by (rule lead_ok_run) (simp add: lead_ok_def tx_timing_new_def set_lead_def)
  ultimately show ?thesis using assms by (simp add: split lead_ok_def LEAD_MAX_MS_def)
qed

lemma lead_stands_for_the_over_witness:
  "tt_over_lead_ms (timing_run ([Press 5] @ [SetLead 40 False, Press 9]) tx_timing_new) = 120
   \<and> tt_over_lead_ms (timing_run [Press 5] tx_timing_new) \<le> HOLD_MAX_MS"
  using lead_stands_for_the_over [of "[Press 5]" "[SetLead 40 False, Press 9]"]
  by (simp add: timing_run_def tx_timing_new_def timing_defs lead_for_over_def LEAD_MS_def LEAD_MAX_MS_def HOLD_MAX_MS_def)

text \<open>
  The poll loop's turn for \<^verbatim>\<open>TX0;\<close>: an operator's release waits for its tail, a safety release - no
  request behind it - goes at once.
\<close>

definition before_tx0 ::
    "nat \<Rightarrow> (nat \<Rightarrow> nat) \<Rightarrow> (nat \<Rightarrow> nat) \<Rightarrow> tx_timing \<Rightarrow> tail_world \<Rightarrow> (tail option \<times> tail_world) option" where
  "before_tx0 d delays ring t w =
     (if asked_release t then map_option (\<lambda>(tail, w). (Some tail, w)) (wait_for_tail_now d delays ring w)
      else Some (None, w))"

text \<open>Whether a release was asked for since the last \<^verbatim>\<open>TX0;\<close> or the last new port.\<close>

fun asks_release :: "timing_event \<Rightarrow> bool" where
  "asks_release (LetGo _) = True"
| "asks_release _ = False"

fun settles_release :: "timing_event \<Rightarrow> bool" where
  "settles_release (Wrote _ on) = (\<not> on)"
| "settles_release NewPort = True"
| "settles_release _ = False"

definition release_open :: "timing_event list \<Rightarrow> bool" where
  "release_open es = list_ex asks_release (takeWhile (\<lambda>e. \<not> settles_release e) (rev es))"

lemma asked_release_iff: "asked_release (timing_run es tx_timing_new) = release_open es"
proof (induction es rule: rev_induct)
  case Nil
  then show ?case
    by (simp add: timing_run_def tx_timing_new_def set_lead_def asked_release_def release_open_def)
next
  case (snoc e es)
  then show ?case
    by (cases e) (auto simp: timing_defs Let_def asked_release_def release_open_def)
qed

text \<open>C20. \<^verbatim>\<open>TX0;\<close> is never kept from the radio: on every run of the timing the poll loop gets to write it, a
  safety release that no operator asked for at once, and an operator's within 1034 ms and eight delays of
  the machine.\<close>

theorem tx0_is_always_written:
  "case before_tx0 d delays ring (timing_run es tx_timing_new) w of
     None \<Rightarrow> False
   | Some (None, w') \<Rightarrow> \<not> release_open es \<and> w' = w
   | Some (Some tail, w') \<Rightarrow> release_open es \<and> tl_waited tail \<le> 1034 + 8 * d
       \<and> (tw_seen w' = 0 \<or> 250 \<le> tl_waited tail)"
proof (cases "release_open es")
  case True
  obtain tail w' where "wait_for_tail_now d delays ring w = Some (tail, w')"
    "tl_waited tail \<le> 1034 + 8 * d" "tw_seen w' = 0 \<or> 250 \<le> tl_waited tail"
    using std.wait_ends [of d delays ring w] by (auto simp: wait_for_tail_now_def)
  with True show ?thesis by (simp add: before_tx0_def asked_release_iff)
next
  case False
  then show ?thesis by (simp add: before_tx0_def asked_release_iff)
qed

section \<open>Silence in the middle of an over\<close>

record gap_watch =
  gw_over :: nat
  gw_heard :: bool
  gw_pending :: nat

definition gap_watch_default :: gap_watch where
  "gap_watch_default = \<lparr>gw_over = 0, gw_heard = False, gw_pending = 0\<rparr>"

definition gap_sample :: "bool \<Rightarrow> bool \<Rightarrow> nat \<Rightarrow> gap_watch \<Rightarrow> gap_watch \<times> nat option" where
  "gap_sample audio keyed over g =
     (let g = (if over \<noteq> gw_over g then \<lparr>gw_over = over, gw_heard = False, gw_pending = 0\<rparr> else g)
      in if \<not> keyed then (g\<lparr>gw_pending := 0, gw_heard := False\<rparr>, None)
         else if audio then
           (if 0 < gw_pending g then (g\<lparr>gw_heard := True, gw_pending := 0\<rparr>, Some (gw_pending g))
            else (g\<lparr>gw_heard := True\<rparr>, None))
         else if gw_heard g then (g\<lparr>gw_pending := gw_pending g + 1\<rparr>, None)
         else (g, None))"

fun gap_run :: "(bool \<times> bool \<times> nat) list \<Rightarrow> gap_watch \<Rightarrow> gap_watch \<times> nat list" where
  "gap_run [] g = (g, [])"
| "gap_run ((audio, keyed, over) # xs) g =
     (let (g, closed) = gap_sample audio keyed over g;
          (g, gaps) = gap_run xs g
      in (g, (case closed of None \<Rightarrow> gaps | Some n \<Rightarrow> n # gaps)))"

text \<open>What the counting should come to for one keying: the silence with audio before it and after it.\<close>

definition until_last_audio :: "bool list \<Rightarrow> bool list" where
  "until_last_audio xs = rev (dropWhile Not (rev xs))"

definition between_audio :: "bool list \<Rightarrow> bool list" where
  "between_audio xs = until_last_audio (dropWhile Not xs)"

lemma until_last_audio_Cons:
  "until_last_audio (x # xs) = (if True \<in> set xs then x # until_last_audio xs else if x then [x] else [])"
  by (cases x) (auto simp: until_last_audio_def dropWhile_append)

lemma until_last_audio_Nil: "True \<notin> set xs \<Longrightarrow> until_last_audio xs = []"
  by (auto simp: until_last_audio_def)

lemma gaps_after_audio:
  assumes "gw_over g = over" "gw_heard g"
  shows "sum_list (snd (gap_run (map (\<lambda>a. (a, True, over)) xs) g)) =
    (if True \<in> set xs then gw_pending g + count_list (until_last_audio xs) False else 0)"
  using assms
proof (induction xs arbitrary: g)
  case (Cons x xs)
  obtain g1 c where g1: "gap_sample x True over g = (g1, c)" by fastforce
  have k: "gw_over g1 = over" "gw_heard g1"
    "gw_pending g1 = (if x then 0 else gw_pending g + 1)"
    "c = (if x \<and> 0 < gw_pending g then Some (gw_pending g) else None)"
    using g1 Cons.prems by (auto simp: gap_sample_def Let_def split: if_splits)
  have run: "snd (gap_run (map (\<lambda>a. (a, True, over)) (x # xs)) g) = (case c of
      None \<Rightarrow> snd (gap_run (map (\<lambda>a. (a, True, over)) xs) g1)
    | Some n \<Rightarrow> n # snd (gap_run (map (\<lambda>a. (a, True, over)) xs) g1))"
    by (simp add: g1 split_beta split: option.split)
  show ?case
    unfolding run using Cons.IH [OF k(1,2)] k(3,4)
    by (cases x) (auto simp: until_last_audio_Cons until_last_audio_Nil)
qed simp

text \<open>C22. What the sound card reports as padded with silence is exactly the silence on the air: over one
  keyed over the gaps it counts add up to the samples the ring could not give between the over's first
  audio and its last; the silence before the first audio and after the last, the start and the tail, is
  no gap.\<close>

theorem gaps_are_the_silence_between_audio:
  assumes "gw_over g \<noteq> over \<or> \<not> gw_heard g \<and> gw_pending g = 0"
  shows "sum_list (snd (gap_run (map (\<lambda>a. (a, True, over)) xs) g)) = count_list (between_audio xs) False"
  using assms
proof (induction xs arbitrary: g)
  case (Cons x xs)
  obtain g1 c where g1: "gap_sample x True over g = (g1, c)" by fastforce
  have k: "gw_over g1 = over" "gw_heard g1 = x" "gw_pending g1 = 0" "c = None"
    using g1 Cons.prems by (auto simp: gap_sample_def Let_def split: if_splits)
  have run: "snd (gap_run (map (\<lambda>a. (a, True, over)) (x # xs)) g) = (case c of
      None \<Rightarrow> snd (gap_run (map (\<lambda>a. (a, True, over)) xs) g1)
    | Some n \<Rightarrow> n # snd (gap_run (map (\<lambda>a. (a, True, over)) xs) g1))"
    by (simp add: g1 split_beta split: option.split)
  show ?case
    unfolding run using Cons.IH [of g1] gaps_after_audio [OF k(1), of xs] k
    by (cases x) (auto simp: between_audio_def until_last_audio_Cons until_last_audio_Nil)
qed (simp add: between_audio_def until_last_audio_def)

lemma gaps_are_the_silence_between_audio_witness:
  "sum_list (snd (gap_run (map (\<lambda>a. (a, True, 3)) [False, True, False, False, True, True, False]) gap_watch_default)) = 2"
  using gaps_are_the_silence_between_audio
    [of gap_watch_default 3 "[False, True, False, False, True, True, False]"]
  by (simp add: gap_watch_default_def between_audio_def until_last_audio_def)

lemma gap_ends_with_the_keying:
  "gap_sample audio False over g = (g1, c) \<Longrightarrow> c = None \<and> gw_over g1 = over \<and> \<not> gw_heard g1 \<and> gw_pending g1 = 0"
  by (auto simp: gap_sample_def Let_def)

section \<open>The bridge to the sound card\<close>

record lead_start =
  ls_over :: nat

definition lead_pad :: "nat \<Rightarrow> nat \<Rightarrow> nat \<Rightarrow> lead_start \<Rightarrow> lead_start \<times> nat" where
  "lead_pad over lead len l = (if over = ls_over l then (l, 0) else (\<lparr>ls_over = over\<rparr>, lead - len))"

record over_tally =
  ot_over :: nat
  ot_count :: nat

definition tally_add :: "nat \<Rightarrow> nat \<Rightarrow> over_tally \<Rightarrow> over_tally \<times> nat option" where
  "tally_add over n t =
     (let new = over \<noteq> ot_over t
      in (\<lparr>ot_over = over, ot_count = (if new then 0 else ot_count t) + n\<rparr>,
          if new \<and> 0 < ot_count t then Some (ot_count t) else None))"

record over_summary =
  os_queued_1s :: "nat option"
  os_lead_ms :: nat
  os_first_queued_ms :: nat

record over_output =
  oo_over :: nat
  oo_first_ms :: "nat option"
  oo_summary :: over_summary

definition over_output_default :: "nat \<Rightarrow> over_output" where
  "over_output_default over = \<lparr>oo_over = over, oo_first_ms = None,
     oo_summary = \<lparr>os_queued_1s = None, os_lead_ms = 0, os_first_queued_ms = 0\<rparr>\<rparr>"

definition output_written :: "nat \<Rightarrow> nat \<Rightarrow> nat \<Rightarrow> nat \<Rightarrow> over_output \<Rightarrow> over_output \<times> over_summary option" where
  "output_written over now_ms queued lead_ms o1 =
     (let report = (if over \<noteq> oo_over o1 \<and> oo_first_ms o1 \<noteq> None then Some (oo_summary o1) else None);
          o2 = (if over \<noteq> oo_over o1 then over_output_default over else o1)
      in ((case oo_first_ms o2 of
             None \<Rightarrow> o2\<lparr>oo_first_ms := Some now_ms,
                        oo_summary := (oo_summary o2)\<lparr>os_lead_ms := lead_ms, os_first_queued_ms := queued\<rparr>\<rparr>
           | Some first \<Rightarrow>
               (if os_queued_1s (oo_summary o2) = None \<and> first + 1000 \<le> now_ms
                then o2\<lparr>oo_summary := (oo_summary o2)\<lparr>os_queued_1s := Some queued\<rparr>\<rparr> else o2)),
          report))"

text \<open>
  The sound card's ring (\<^verbatim>\<open>ringbuf\<close>) holds what was pushed and not yet popped, at most its capacity;
  \<^verbatim>\<open>try_push\<close> on a full ring fails. The bridge writes each mono sample to both channels.
\<close>

definition try_push :: "nat \<Rightarrow> 'a \<Rightarrow> 'a list \<Rightarrow> 'a list \<times> bool" where
  "try_push capacity x ring = (if length ring < capacity then (ring @ [x], True) else (ring, False))"

fun push_zeros :: "nat \<Rightarrow> nat \<Rightarrow> 'a::zero list \<Rightarrow> 'a list" where
  "push_zeros capacity 0 ring = ring"
| "push_zeros capacity (Suc n) ring =
     push_zeros capacity n (fst (try_push capacity 0 (fst (try_push capacity 0 ring))))"

fun push_mono :: "nat \<Rightarrow> 'a list \<Rightarrow> 'a list \<Rightarrow> 'a list \<times> nat" where
  "push_mono capacity [] ring = (ring, 0)"
| "push_mono capacity (s # ss) ring =
     (let (ring, ok) = try_push capacity s ring;
          ring = fst (try_push capacity s ring);
          (ring, written) = push_mono capacity ss ring
      in (ring, (if ok then 1 else 0) + written))"

record 'a bridge =
  br_hold :: "'a hold"
  br_unwritten :: over_tally
  br_output :: over_output
  br_lead :: lead_start

definition bridge_default :: "'a bridge" where
  "bridge_default = \<lparr>br_hold = hold_default, br_unwritten = \<lparr>ot_over = 0, ot_count = 0\<rparr>,
     br_output = over_output_default 0, br_lead = \<lparr>ls_over = 0\<rparr>\<rparr>"

text \<open>What one block tells: the reports of the previous over, and what of it reached the ring.\<close>

record bridge_told =
  bt_thrown :: "nat option"
  bt_unwritten :: "nat option"
  bt_summary :: "(nat \<times> nat \<times> over_summary) option"
  bt_written :: nat

text \<open>\<open>ring\<close> is \<^verbatim>\<open>None\<close> where the lock is busy or no output is open.\<close>

definition bridge_block ::
    "nat \<Rightarrow> nat \<Rightarrow> nat \<Rightarrow> 'a::zero list \<Rightarrow> 'a list option \<Rightarrow> tx_timing \<Rightarrow> 'a bridge
      \<Rightarrow> 'a bridge \<times> tx_timing \<times> 'a list option \<times> bridge_told" where
  "bridge_block tx_rate capacity now samples ring t b =
     (let hold_max = tx_rate * HOLD_MAX_MS div 1000;
          (h, taken) = hold_take samples (tt_keyed t) (tt_over t) hold_max (br_hold b);
          (h, thrown) = hold_take_report h;
          b = b\<lparr>br_hold := h\<rparr>
      in case taken of
           None \<Rightarrow> (b, t, ring, \<lparr>bt_thrown = thrown, bt_unwritten = None, bt_summary = None, bt_written = 0\<rparr>)
         | Some (samples, held) \<Rightarrow>
             (let (lead, pad) = lead_pad (tt_over t) (tt_over_lead_ms t * tx_rate div 1000) (length samples) (br_lead b);
                  (ring, written) = (case ring of
                      None \<Rightarrow> (None, 0)
                    | Some r \<Rightarrow> apfst Some (push_mono capacity samples (push_zeros capacity pad r)));
                  queued = (case ring of None \<Rightarrow> 0 | Some r \<Rightarrow> queued_ms (length r) capacity);
                  (output, summary) = (if 0 < written
                    then output_written (tt_over t) now queued (tt_over_lead_ms t) (br_output b)
                    else (br_output b, None));
                  (t', told) = (case summary of
                      None \<Rightarrow> (t, None)
                    | Some s \<Rightarrow> (let (t, frames, gaps) = take_gaps t
                                 in (t, Some (frames * 1000 div max tx_rate 1, gaps, s))));
                  (tally, lost) = tally_add (tt_over t) (length samples - written) (br_unwritten b)
              in (b\<lparr>br_lead := lead, br_output := output, br_unwritten := tally\<rparr>, t', ring,
                  \<lparr>bt_thrown = thrown, bt_unwritten = lost, bt_summary = told, bt_written = written\<rparr>)))"

text \<open>
  A run of the bridge: before each block the world - the poll loop, the sound card - has left the timing
  and the ring as the block finds them.
\<close>

fun bridge_run :: "nat \<Rightarrow> nat \<Rightarrow> (nat \<times> tx_timing \<times> 'a::zero list option \<times> 'a list) list \<Rightarrow> 'a bridge
    \<Rightarrow> 'a bridge \<times> bridge_told list" where
  "bridge_run tx_rate capacity [] b = (b, [])"
| "bridge_run tx_rate capacity ((now, t, ring, samples) # xs) b =
     (let (b, _, _, told) = bridge_block tx_rate capacity now samples ring t b;
          (b, tolds) = bridge_run tx_rate capacity xs b
      in (b, told # tolds))"

text \<open>What the bridge has in hand or has lost and not yet told.\<close>

definition or_zero :: "nat option \<Rightarrow> nat" where
  "or_zero = case_option 0 (\<lambda>n. n)"

lemma or_zero_simps [simp]: "or_zero None = 0" "or_zero (Some n) = n"
  by (simp_all add: or_zero_def)

definition in_hand :: "'a bridge \<Rightarrow> nat" where
  "in_hand b = length (hd_samples (br_hold b)) + hd_dropped (br_hold b) + ot_count (br_unwritten b)"

lemma push_mono_written: "snd (push_mono capacity ss ring) \<le> length ss"
  by (induction ss arbitrary: ring) (auto simp: split_beta Let_def le_SucI)

lemma hold_take_conserves:
  assumes "hold_take xs keyed over m h = (h1, out)" "hd_report h = None"
  shows "length xs + length (hd_samples h) + hd_dropped h
    = length (hd_samples h1) + hd_dropped h1 + or_zero (hd_report h1)
      + (case out of None \<Rightarrow> 0 | Some (ys, _) \<Rightarrow> length ys)"
  using assms by (auto simp: hold_take_def hold_over_def Let_def split: if_splits)

lemma tally_conserves:
  "tally_add over n t = (t1, r) \<Longrightarrow> ot_count t + n = ot_count t1 + or_zero r"
  by (auto simp: tally_add_def Let_def split: if_splits)

lemma bridge_block_conserves:
  assumes "bridge_block rate capacity now samples ring t b = (b1, t1, ring1, told)" "hd_report (br_hold b) = None"
  shows "length samples + in_hand b = bt_written told + or_zero (bt_thrown told) + or_zero (bt_unwritten told) + in_hand b1
    \<and> hd_report (br_hold b1) = None"
proof -
  obtain h out where h: "hold_take samples (tt_keyed t) (tt_over t) (rate * HOLD_MAX_MS div 1000) (br_hold b) = (h, out)"
    by fastforce
  note c = hold_take_conserves [OF h assms(2)]
  show ?thesis
  proof (cases out)
    case None
    with c h assms(1) show ?thesis
      by (auto simp: bridge_block_def hold_take_report_def in_hand_def Let_def)
  next
    case (Some y)
    obtain ys n where y: "y = (ys, n)" by fastforce
    define written where "written = (case ring of None \<Rightarrow> 0
      | Some r \<Rightarrow> snd (push_mono capacity ys (push_zeros capacity
          (snd (lead_pad (tt_over t) (tt_over_lead_ms t * rate div 1000) (length ys) (br_lead b))) r)))"
    obtain tally lost where tl: "tally_add (tt_over t) (length ys - written) (br_unwritten b) = (tally, lost)"
      by fastforce
    have w: "written \<le> length ys" by (auto simp: written_def push_mono_written split: option.split)
    have "bt_written told = written \<and> bt_thrown told = hd_report h \<and> bt_unwritten told = lost
        \<and> br_unwritten b1 = tally \<and> br_hold b1 = h\<lparr>hd_report := None\<rparr>"
      using assms(1) h tl Some y
      by (auto simp: bridge_block_def hold_take_report_def written_def Let_def split_beta split: option.splits)
    with c w tally_conserves [OF tl] Some y show ?thesis
      by (simp add: in_hand_def)
  qed
qed

text \<open>C21. No transmit audio is lost in silence: over any run of the bridge - any keying, any rings, full,
  busy or absent - the samples handed in are those written to the sound card, those the log reported as
  thrown away or not written, and those the bridge still holds or counts for the next report.\<close>

theorem every_sample_is_accounted_for:
  "let (b, tolds) = bridge_run rate capacity xs bridge_default
   in sum_list (map (\<lambda>(_, _, _, samples). length samples) xs)
      = sum_list (map (\<lambda>told. bt_written told + or_zero (bt_thrown told) + or_zero (bt_unwritten told)) tolds) + in_hand b"
proof -
  have "hd_report (br_hold b) = None \<Longrightarrow>
      sum_list (map (\<lambda>(_, _, _, samples). length samples) xs) + in_hand b
      = sum_list (map (\<lambda>told. bt_written told + or_zero (bt_thrown told) + or_zero (bt_unwritten told))
          (snd (bridge_run rate capacity xs b))) + in_hand (fst (bridge_run rate capacity xs b))" for b
  proof (induction xs arbitrary: b)
    case (Cons x xs)
    obtain now t ring samples where x: "x = (now, t, ring, samples)" by (cases x)
    obtain b1 t1 ring1 told where b1: "bridge_block rate capacity now samples ring t b = (b1, t1, ring1, told)"
      by (cases "bridge_block rate capacity now samples ring t b")
    show ?case
      using bridge_block_conserves [OF b1 Cons.prems] Cons.IH [of b1] by (simp add: x b1 split_beta)
  qed simp
  from this [of bridge_default] show ?thesis
    by (simp add: split_beta in_hand_def bridge_default_def hold_default_def)
qed

end
