(* ===== verification/RelayFrames.thy ===== *)
theory RelayFrames
  imports WireAudio
begin

text \<open>
  What an endpoint and the relay put on the line between them (\<^verbatim>\<open>sdr-remote-relay/src/lib.rs\<close>): TLT1 frames
  that tunnel the program's packets over the websocket, TLU1 datagrams that carry audio over UDP,
  relay-control frames, the binary probe, the synthetic address of a relay client - and the window
  that lets a frame carried on both paths through once.
\<close>

section \<open>Frames\<close>

definition TLT1_MAGIC :: "u8 list" where "TLT1_MAGIC = [0x54, 0x4C, 0x54, 0x31]"
definition TLT1_VERSION :: u8 where "TLT1_VERSION = 1"
definition TLT1_HEADER_LEN :: nat where "TLT1_HEADER_LEN = 8"
definition TLU1_MAGIC :: "u8 list" where "TLU1_MAGIC = [0x54, 0x4C, 0x55, 0x31]"
definition TLU1_VERSION :: u8 where "TLU1_VERSION = 1"
definition TLU1_TOKEN_LEN :: nat where "TLU1_TOKEN_LEN = 32"
definition TLU1_HEADER_LEN :: nat where "TLU1_HEADER_LEN = 4 + 1 + 1 + 1 + 4 + TLU1_TOKEN_LEN"
definition BINARY_MAGIC :: "u8 list" where "BINARY_MAGIC = [0x54, 0x4C, 0x42, 0x31]"
definition RCF_MAGIC :: "u8 list" where "RCF_MAGIC = [0x52, 0x43, 0x46, 0x31]"
definition RCF_FALLBACK :: u8 where "RCF_FALLBACK = 0x01"
definition RCF_CAPS :: u8 where "RCF_CAPS = 0x02"
definition CAPS_READS_BEACON :: u8 where "CAPS_READS_BEACON = 0x01"

lemmas relay_magics = TLT1_MAGIC_def TLU1_MAGIC_def BINARY_MAGIC_def RCF_MAGIC_def

text \<open>Little-endian numbers are the big-endian ones turned round.\<close>

definition encode_tlt1 :: "u8 \<Rightarrow> u8 list \<Rightarrow> u8 list" where
  "encode_tlt1 client_id payload =
     (let n = min (length payload) 65535
      in TLT1_MAGIC @ [TLT1_VERSION, client_id] @ rev (u16_to_be (of_nat n)) @ take n payload)"

definition parse_tlt1 :: "u8 list \<Rightarrow> (u8 \<times> u8 list) option" where
  "parse_tlt1 data =
     (if length data < TLT1_HEADER_LEN \<or> take 4 data \<noteq> TLT1_MAGIC then None
      else (let client_id = data ! 5;
                n = unat (u16_be (data ! 7) (data ! 6))
            in if length data < TLT1_HEADER_LEN + n then None
               else Some (client_id, take n (drop TLT1_HEADER_LEN data))))"

definition encode_tlu1_raw :: "u8 \<Rightarrow> u32 \<Rightarrow> u8 list \<Rightarrow> u8 list \<Rightarrow> u8 list" where
  "encode_tlu1_raw client_id seq token payload =
     TLU1_MAGIC @ [TLU1_VERSION, 0, client_id] @ rev (u32_to_be seq) @ token @ payload"

definition encode_rcf_fallback :: "bool \<Rightarrow> u8 list" where
  "encode_rcf_fallback on = RCF_MAGIC @ [RCF_FALLBACK, bool_byte on]"

definition encode_rcf_caps :: "u8 \<Rightarrow> u8 list" where
  "encode_rcf_caps bits = RCF_MAGIC @ [RCF_CAPS, bits]"

definition parse_rcf_caps :: "u8 list \<Rightarrow> u8 option" where
  "parse_rcf_caps payload =
     (if 6 \<le> length payload \<and> take 4 payload = RCF_MAGIC \<and> payload ! 4 = RCF_CAPS then Some (payload ! 5) else None)"

definition parse_rcf_fallback :: "u8 list \<Rightarrow> bool option" where
  "parse_rcf_fallback payload =
     (if 6 \<le> length payload \<and> take 4 payload = RCF_MAGIC \<and> payload ! 4 = RCF_FALLBACK
      then Some (payload ! 5 \<noteq> 0) else None)"

definition is_relay_control_frame :: "u8 list \<Rightarrow> bool" where
  "is_relay_control_frame payload \<longleftrightarrow> parse_rcf_caps payload \<noteq> None \<or> parse_rcf_fallback payload \<noteq> None"

datatype relay_role = RelayStation | RelayClient

definition binary_probe_frame :: "u8 \<Rightarrow> relay_role \<Rightarrow> u64 \<Rightarrow> nat \<Rightarrow> u8 list" where
  "binary_probe_frame kind role seq len =
     (let buf = BINARY_MAGIC @ [kind, (case role of RelayStation \<Rightarrow> 0 | RelayClient \<Rightarrow> 1)] @ rev (u64_to_be seq)
      in buf @ replicate (max len 14 - length buf) 0)"

definition u64_le_at6 :: "u8 list \<Rightarrow> u64" where
  "u64_le_at6 d = u64_be (u32_be (d ! 13) (d ! 12) (d ! 11) (d ! 10)) (u32_be (d ! 9) (d ! 8) (d ! 7) (d ! 6))"

definition parse_binary_probe :: "u8 list \<Rightarrow> (u8 \<times> u64) option" where
  "parse_binary_probe data =
     (if length data < 14 \<or> take 4 data \<noteq> BINARY_MAGIC then None else Some (data ! 4, u64_le_at6 data))"

definition sentinel_for_client_id :: "u8 \<Rightarrow> socket_addr" where
  "sentinel_for_client_id i = SocketAddr (203 * 2 ^ 24 + 113 * 2 ^ 8 + (1 + unat i mod 254)) 1"

definition client_id_from_sentinel :: "socket_addr \<Rightarrow> u8" where
  "client_id_from_sentinel a = of_nat (sa_ip a mod 256 - 1)"

text \<open>The station reads a client's control frame as it was meant.\<close>

lemma rcf_roundtrip:
  "parse_rcf_fallback (encode_rcf_fallback on) = Some on" "parse_rcf_caps (encode_rcf_fallback on) = None"
  "parse_rcf_caps (encode_rcf_caps bits) = Some bits" "parse_rcf_fallback (encode_rcf_caps bits) = None"
  by (auto simp: parse_rcf_fallback_def parse_rcf_caps_def encode_rcf_fallback_def encode_rcf_caps_def
      RCF_MAGIC_def RCF_FALLBACK_def RCF_CAPS_def)

text \<open>C28. A packet tunnelled to the relay comes out as it went in, whatever follows it on the line, up to the
  65535 bytes the length field can say; a longer one is cut there, and the frame still parses. Probes come out
  with their kind and number, control frames as what they ask for or can do; and of the three kinds of frame
  none is ever taken for another: no tunnel frame for a probe or a control frame, no probe for a tunnel or a
  control frame, no control frame for a tunnel frame or a probe.\<close>

theorem tunnel_frame_roundtrip:
  "parse_tlt1 (encode_tlt1 c p @ rest) = Some (c, take 65535 p)
   \<and> parse_binary_probe (encode_tlt1 c p @ rest) = None \<and> \<not> is_relay_control_frame (encode_tlt1 c p @ rest)
   \<and> parse_binary_probe (binary_probe_frame k role seq n) = Some (k, seq)
   \<and> parse_tlt1 (binary_probe_frame k role seq n) = None \<and> \<not> is_relay_control_frame (binary_probe_frame k role seq n)
   \<and> parse_rcf_fallback (encode_rcf_fallback on) = Some on \<and> parse_tlt1 (encode_rcf_fallback on) = None
   \<and> parse_binary_probe (encode_rcf_fallback on) = None
   \<and> parse_rcf_caps (encode_rcf_caps bits) = Some bits \<and> parse_tlt1 (encode_rcf_caps bits) = None
   \<and> parse_binary_probe (encode_rcf_caps bits) = None"
proof -
  have u: "unat (of_nat (min (length p) 65535) :: u16) = min (length p) 65535"
    by (simp add: unsigned_of_nat take_bit_nat_eq_self)
  have t: "take (min (length p) 65535) p = take 65535 p" by (simp add: min_def)
  have b: "u16_be (ucast (drop_bit 8 w)) (ucast w) = (w :: u16)" for w by simp
  have "parse_tlt1 (encode_tlt1 c p @ rest) = Some (c, take 65535 p)"
    by (simp add: parse_tlt1_def encode_tlt1_def TLT1_MAGIC_def TLT1_HEADER_LEN_def u16_to_be_def Let_def u t)
  moreover have "parse_binary_probe (encode_tlt1 c p @ rest) = None" "\<not> is_relay_control_frame (encode_tlt1 c p @ rest)"
    by (simp_all add: parse_binary_probe_def is_relay_control_frame_def parse_rcf_caps_def parse_rcf_fallback_def
        encode_tlt1_def relay_magics Let_def)
  moreover have "parse_tlt1 (binary_probe_frame k role seq n) = None" "\<not> is_relay_control_frame (binary_probe_frame k role seq n)"
    "parse_binary_probe (binary_probe_frame k role seq n) = Some (k, seq)"
    by (simp_all add: parse_tlt1_def parse_binary_probe_def binary_probe_frame_def relay_magics u64_le_at6_def
        is_relay_control_frame_def parse_rcf_caps_def parse_rcf_fallback_def u64_to_be_def u32_to_be_def Let_def)
  ultimately show ?thesis
    by (simp add: rcf_roundtrip)
      (simp add: parse_tlt1_def parse_binary_probe_def encode_rcf_fallback_def encode_rcf_caps_def relay_magics)
qed

text \<open>No packet of the program is a control frame.\<close>

lemma packet_is_no_control_frame: "\<not> is_relay_control_frame (header_bytes t f @ body)"
  by (simp add: is_relay_control_frame_def parse_rcf_caps_def parse_rcf_fallback_def header_bytes_def RCF_MAGIC_def MAGIC_def)

lemma sentinel_roundtrip:
  assumes "i < 254" shows "client_id_from_sentinel (sentinel_for_client_id i) = i"
proof -
  have "unat i < 254" using assms by (simp add: word_less_nat_alt)
  moreover have "(256 * 13303921 + (1 + n)) mod 256 = 1 + n" if "n < 254" for n :: nat
    using that by (subst mod_mult_self4) simp
  ultimately show ?thesis
    by (simp add: client_id_from_sentinel_def sentinel_for_client_id_def)
qed

section \<open>Which audio frame it is\<close>

definition AUDIO_TYPE_BYTES :: "u8 list" where
  "AUDIO_TYPE_BYTES = [0x01, 0x0E, 0x16, 0x1A, 0x1B, 0x21, 0x25]"

definition is_audio_packet :: "u8 list \<Rightarrow> bool" where
  "is_audio_packet data \<longleftrightarrow> 4 \<le> length data \<and> data ! 2 \<in> set AUDIO_TYPE_BYTES"

definition audio_identity :: "u8 list \<Rightarrow> (u16 \<times> u32) option" where
  "audio_identity payload =
     (if is_audio_packet payload \<and> 8 \<le> length payload
      then (let seq = u32_be (payload ! 4) (payload ! 5) (payload ! 6) (payload ! 7);
                ty = payload ! 2;
                stream = (if ty = 0x21 \<and> 12 < length payload
                          then ucast ty OR push_bit 8 (ucast (payload ! 12)) else ucast ty)
            in Some (stream, seq))
      else None)"

definition PTT_FLAG_BIT :: u8 where "PTT_FLAG_BIT = 0x01"

definition audio_ptt_active :: "u8 list \<Rightarrow> bool" where
  "audio_ptt_active payload \<longleftrightarrow> is_audio_packet payload \<and> 3 < length payload \<and> payload ! 3 AND PTT_FLAG_BIT \<noteq> 0"

text \<open>
  What the relay mirrors of the program's wire format without linking it agrees with that format: it
  takes for audio exactly the packets whose type is an audio type, and for transmit audio exactly the
  audio packets whose header has the PTT flag.
\<close>

theorem relay_mirrors_the_wire_format:
  "is_audio_packet (header_bytes t f @ body) = is_audio t
   \<and> audio_ptt_active (header_bytes t f @ body) = (is_audio t \<and> flag_ptt f)
   \<and> AUDIO_TYPE_BYTES = AUDIO_PACKET_TYPES"
proof -
  have "AUDIO_TYPE_BYTES = AUDIO_PACKET_TYPES"
    by (simp add: AUDIO_TYPE_BYTES_def AUDIO_PACKET_TYPES_def packet_code_def)
  then show ?thesis
    by (simp add: is_audio_packet_def audio_ptt_active_def header_bytes_def classified_alike
        flag_ptt_def PTT_FLAG_BIT_def)
qed

section \<open>A frame carried on both paths\<close>

type_synonym stream_key = "u8 \<times> u16"
type_synonym frame_key = "u8 \<times> u16 \<times> u32"

record dedup_window =
  dw_order :: "frame_key list"
  dw_seen :: "frame_key set"
  dw_max_seq :: "stream_key \<Rightarrow> u32 option"
  dw_dropped :: "(stream_key \<times> nat) list"

definition DEDUP_CAP :: nat where "DEDUP_CAP = 512"
definition RESTART_BACKJUMP :: u32 where "RESTART_BACKJUMP = 64"
definition HALF_RANGE :: u32 where "HALF_RANGE = 2147483647"

definition dedup_new :: dedup_window where
  "dedup_new = \<lparr>dw_order = [], dw_seen = {}, dw_max_seq = (\<lambda>_. None), dw_dropped = []\<rparr>"

text \<open>The report of what was dropped: the total and the number of streams; how it is spelled is left out.\<close>

definition take_drop_report :: "dedup_window \<Rightarrow> dedup_window \<times> (nat \<times> nat) option" where
  "take_drop_report d =
     (if dw_dropped d = [] then (d, None)
      else (d\<lparr>dw_dropped := []\<rparr>, Some (sum_list (map snd (dw_dropped d)), length (dw_dropped d))))"

definition stream_restarts :: "dedup_window \<Rightarrow> stream_key \<Rightarrow> u32 \<Rightarrow> bool" where
  "stream_restarts d k seq \<longleftrightarrow>
     (case dw_max_seq d k of None \<Rightarrow> False | Some m \<Rightarrow> RESTART_BACKJUMP < m - seq \<and> m - seq < HALF_RANGE)"

definition of_stream :: "stream_key \<Rightarrow> frame_key \<Rightarrow> bool" where
  "of_stream k f \<longleftrightarrow> (fst f, fst (snd f)) = k"

definition note_sequence :: "stream_key \<Rightarrow> u32 \<Rightarrow> dedup_window \<Rightarrow> dedup_window" where
  "note_sequence k seq d =
     (if stream_restarts d k seq then
        d\<lparr>dw_order := filter (\<lambda>f. \<not> of_stream k f) (dw_order d),
          dw_seen := Set.filter (\<lambda>f. \<not> of_stream k f) (dw_seen d),
          dw_max_seq := (dw_max_seq d)(k \<mapsto> seq)\<rparr>
      else (case dw_max_seq d k of
          Some m \<Rightarrow> if seq - m < HALF_RANGE then d\<lparr>dw_max_seq := (dw_max_seq d)(k \<mapsto> seq)\<rparr> else d
        | None \<Rightarrow> d\<lparr>dw_max_seq := (dw_max_seq d)(k \<mapsto> seq)\<rparr>))"

definition note_frame :: "frame_key \<Rightarrow> dedup_window \<Rightarrow> dedup_window \<times> bool" where
  "note_frame f d =
     (let k = (fst f, fst (snd f)) in
      if f \<in> dw_seen d
      then (d\<lparr>dw_dropped := AList.map_default k 0 Suc (dw_dropped d)\<rparr>, True)
      else (let order = dw_order d @ [f]; seen = insert f (dw_seen d)
            in (if DEDUP_CAP < length order
                then d\<lparr>dw_order := tl order, dw_seen := seen - {hd order}\<rparr>
                else d\<lparr>dw_order := order, dw_seen := seen\<rparr>, False)))"

definition is_duplicate :: "u8 \<Rightarrow> u8 list \<Rightarrow> dedup_window \<Rightarrow> dedup_window \<times> bool" where
  "is_duplicate cid payload d =
     (case audio_identity payload of
        None \<Rightarrow> (d, False)
      | Some (ty, seq) \<Rightarrow> note_frame (cid, ty, seq) (note_sequence (cid, ty) seq d))"

text \<open>A run of arrivals on both paths, as frames with their keys, and the frames let through.\<close>

fun dedup_run :: "(u8 \<times> u8 list) list \<Rightarrow> dedup_window \<Rightarrow> dedup_window \<times> frame_key list" where
  "dedup_run [] d = (d, [])"
| "dedup_run ((cid, payload) # xs) d =
     (let (d, dup) = is_duplicate cid payload d;
          (d, passed) = dedup_run xs d
      in (d, case audio_identity payload of
               None \<Rightarrow> passed
             | Some (ty, seq) \<Rightarrow> if dup then passed else (cid, ty, seq) # passed))"

text \<open>No arrival of a run is taken for a restart of its stream: none comes more than 64 frames late.\<close>

fun none_far_behind :: "(u8 \<times> u8 list) list \<Rightarrow> dedup_window \<Rightarrow> bool" where
  "none_far_behind [] d = True"
| "none_far_behind ((cid, payload) # xs) d =
     ((case audio_identity payload of None \<Rightarrow> True | Some (ty, seq) \<Rightarrow> \<not> stream_restarts d (cid, ty) seq)
      \<and> none_far_behind xs (fst (is_duplicate cid payload d)))"

definition dedup_inv :: "dedup_window \<Rightarrow> bool" where
  "dedup_inv d \<longleftrightarrow> distinct (dw_order d) \<and> set (dw_order d) = dw_seen d \<and> length (dw_order d) \<le> DEDUP_CAP"

lemma DEDUP_CAP_pos: "0 < DEDUP_CAP"
  by (simp add: DEDUP_CAP_def)

lemma dedup_inv_new: "dedup_inv dedup_new"
  by (simp add: dedup_inv_def dedup_new_def)

lemma note_sequence_inv: "dedup_inv d \<Longrightarrow> dedup_inv (note_sequence k seq d)"
  by (auto simp: dedup_inv_def note_sequence_def split: option.split
      intro: order_trans [OF length_filter_le])

lemma note_frame_inv:
  assumes "dedup_inv d" shows "dedup_inv (fst (note_frame f d))"
proof (cases "f \<in> dw_seen d")
  case True
  with assms show ?thesis by (simp add: note_frame_def dedup_inv_def Let_def)
next
  case False
  obtain x xs where x: "dw_order d @ [f] = x # xs" by (cases "dw_order d") auto
  have "distinct (x # xs)" "set (x # xs) = insert f (dw_seen d)" "length (x # xs) \<le> Suc DEDUP_CAP"
    using assms False unfolding x [symmetric] dedup_inv_def by auto
  with False show ?thesis by (auto simp: note_frame_def x dedup_inv_def Let_def)
qed

lemma is_duplicate_inv: "dedup_inv d \<Longrightarrow> dedup_inv (fst (is_duplicate cid p d))"
  by (auto simp: is_duplicate_def note_sequence_inv note_frame_inv split: option.split)

text \<open>Without a restart the window holds the last 512 frames let through.\<close>

lemma note_frame_order:
  assumes "dedup_inv d" "f \<notin> dw_seen d"
  shows "dw_order (fst (note_frame f d)) = keep_newest DEDUP_CAP (dw_order d @ [f])"
proof (cases "DEDUP_CAP < length (dw_order d @ [f])")
  case True
  then have "length (dw_order d @ [f]) - DEDUP_CAP = 1" using assms(1) by (auto simp: dedup_inv_def)
  with True assms(2) show ?thesis by (simp add: note_frame_def keep_newest_def Let_def drop_Suc del: drop_append)
next
  case False
  with assms(2) show ?thesis by (simp add: note_frame_def keep_newest_def Let_def)
qed

lemma note_sequence_keeps:
  "\<not> stream_restarts d k seq \<Longrightarrow> dw_order (note_sequence k seq d) = dw_order d \<and> dw_seen (note_sequence k seq d) = dw_seen d"
  by (simp add: note_sequence_def split: option.split)

text \<open>No frame stands again among the 512 let through before it.\<close>

definition spaced :: "frame_key list \<Rightarrow> bool" where
  "spaced fs \<longleftrightarrow> (\<forall>j < length fs. fs ! j \<notin> set (keep_newest DEDUP_CAP (take j fs)))"

lemma spaced_snoc: "spaced (fs @ [f]) \<longleftrightarrow> spaced fs \<and> f \<notin> set (keep_newest DEDUP_CAP fs)"
  by (auto simp: spaced_def nth_append less_Suc_eq)

lemma dedup_run_spaced:
  assumes "dedup_inv d" "dw_order d = keep_newest DEDUP_CAP before" "spaced before" "none_far_behind xs d"
  shows "spaced (before @ snd (dedup_run xs d))"
  using assms
proof (induction xs arbitrary: d before)
  case (Cons x xs)
  obtain cid p where x: "x = (cid, p)" by (cases x)
  obtain d1 dup where d1: "is_duplicate cid p d = (d1, dup)" by fastforce
  have inv: "dedup_inv d1" using is_duplicate_inv [OF Cons.prems(1), of cid p] by (simp add: d1)
  show ?case
  proof (cases "audio_identity p")
    case None
    with d1 have "d1 = d" by (simp add: is_duplicate_def)
    with Cons.IH [OF Cons.prems(1-3)] Cons.prems(4) None show ?thesis by (simp add: x d1 split_beta)
  next
    case (Some i)
    obtain ty seq where i: "i = (ty, seq)" by (cases i)
    let ?f = "(cid, ty, seq)" and ?e = "note_sequence (cid, ty) seq d"
    have e: "dw_order ?e = dw_order d" "dw_seen ?e = dw_seen d" "dedup_inv ?e"
      using Cons.prems(4) Some i note_sequence_keeps [of d "(cid, ty)" seq] note_sequence_inv [OF Cons.prems(1)]
      by (simp_all add: x)
    have n: "note_frame ?f ?e = (d1, dup)" using d1 Some i by (simp add: is_duplicate_def)
    show ?thesis
    proof (cases "?f \<in> dw_seen d")
      case True
      with n e have "dup" "dw_order d1 = dw_order d" by (auto simp: note_frame_def Let_def)
      with Cons.IH [OF inv, of before] Cons.prems Some i show ?thesis by (simp add: x d1 split_beta)
    next
      case False
      have "\<not> dup" using n e False by (auto simp: note_frame_def Let_def split: if_splits)
      moreover have o1: "dw_order d1 = keep_newest DEDUP_CAP (before @ [?f])"
        using note_frame_order [OF e(3), of ?f] n e False Cons.prems(2) by simp
      moreover have "spaced (before @ [?f])"
        using Cons.prems(1-3) False by (simp add: spaced_snoc dedup_inv_def)
      ultimately show ?thesis
        using Cons.IH [OF inv o1] Cons.prems(4) Some i by (simp add: x d1 split_beta)
    qed
  qed
qed simp

text \<open>C26. A frame carried on both paths is heard once: over any run of arrivals of any clients and streams in
  which none comes more than 64 frames behind its stream, no frame that was let through stands among the
  512 let through before it.\<close>

theorem no_frame_is_heard_twice:
  assumes "none_far_behind xs dedup_new" "j < length (snd (dedup_run xs dedup_new))"
  shows "snd (dedup_run xs dedup_new) ! j \<notin> set (keep_newest DEDUP_CAP (take j (snd (dedup_run xs dedup_new))))"
proof -
  have "spaced ([] @ snd (dedup_run xs dedup_new))"
    by (rule dedup_run_spaced [OF dedup_inv_new _ _ assms(1)]) (simp_all add: dedup_new_def spaced_def)
  with assms(2) show ?thesis by (simp add: spaced_def)
qed

definition vrx_frame :: "u32 \<Rightarrow> u8 list" where
  "vrx_frame seq = header_bytes packet_type.AudioVrx 0 @ u32_to_be seq @ [0, 0, 0, 0, 1]"

lemma vrx_frame_identity: "audio_identity (vrx_frame seq) = Some (0x121, seq)"
proof -
  have "u32_be (ucast (drop_bit 24 seq)) (ucast (drop_bit 16 seq)) (ucast (drop_bit 8 seq)) (ucast seq) = seq"
    by (rule u32_be_roundtrip)
  then show ?thesis
    by (simp add: audio_identity_def is_audio_packet_def vrx_frame_def header_bytes_def packet_code_def
        AUDIO_TYPE_BYTES_def u32_to_be_def)
qed

lemmas dedup_eval = is_duplicate_def vrx_frame_identity note_frame_def note_sequence_def stream_restarts_def
  dedup_new_def HALF_RANGE_def RESTART_BACKJUMP_def DEDUP_CAP_def of_stream_def

lemma no_frame_is_heard_twice_witness:
  "snd (dedup_run [(3, vrx_frame 7), (3, vrx_frame 8), (3, vrx_frame 7)] dedup_new) ! 1
     \<notin> set (keep_newest DEDUP_CAP (take 1 (snd (dedup_run [(3, vrx_frame 7), (3, vrx_frame 8), (3, vrx_frame 7)] dedup_new))))"
  by (rule no_frame_is_heard_twice) (simp_all add: dedup_eval)

text \<open>Nothing is dropped that was not heard: what is refused as a repeat was let through before.\<close>

lemma dedup_run_seen:
  assumes "dw_seen d \<subseteq> set before"
  shows "dw_seen (fst (dedup_run xs d)) \<subseteq> set (before @ snd (dedup_run xs d))"
  using assms
proof (induction xs arbitrary: d before)
  case (Cons x xs)
  obtain cid p where x: "x = (cid, p)" by (cases x)
  obtain d1 dup where d1: "is_duplicate cid p d = (d1, dup)" by fastforce
  have "dw_seen (note_sequence k seq d) \<subseteq> dw_seen d" for k seq
    by (auto simp: note_sequence_def split: option.split)
  with d1 Cons.prems have
    "dw_seen d1 \<subseteq> set (before @ (case audio_identity p of None \<Rightarrow> []
       | Some (ty, seq) \<Rightarrow> if dup then [] else [(cid, ty, seq)]))"
    by (fastforce simp: is_duplicate_def note_frame_def Let_def split: option.splits if_splits prod.splits)
  from Cons.IH [OF this] show ?case
    by (auto simp: x d1 split_beta split: option.split)
qed simp

text \<open>No audio is thrown away that was not heard: whenever an arrival is refused as a repeat, on any run,
  with restarts of streams, lost frames and both paths in any order, that same frame of that same client
  and stream was let through earlier in the run.\<close>

theorem a_refused_frame_was_heard:
  assumes "snd (is_duplicate cid payload (fst (dedup_run xs dedup_new)))"
    and "audio_identity payload = Some (ty, seq)"
  shows "(cid, ty, seq) \<in> set (snd (dedup_run xs dedup_new))"
proof -
  have "dw_seen (fst (dedup_run xs dedup_new)) \<subseteq> set ([] @ snd (dedup_run xs dedup_new))"
    by (rule dedup_run_seen) (simp add: dedup_new_def)
  moreover have "dw_seen (note_sequence k s d) \<subseteq> dw_seen d" for k s d
    by (auto simp: note_sequence_def split: option.split)
  ultimately show ?thesis using assms
    by (fastforce simp: is_duplicate_def note_frame_def Let_def split: if_splits)
qed

lemma a_refused_frame_was_heard_witness:
  "(3, 0x121, 8) \<in> set (snd (dedup_run [(3, vrx_frame 8)] dedup_new))"
  by (rule a_refused_frame_was_heard [of 3 "vrx_frame 8"]) (simp_all add: dedup_eval)

text \<open>A path that lags by more than 64 frames, 1.3 s of audio, defeats the window: its late copies are
  taken for a stream that starts over, what was remembered of the stream is forgotten, and a frame heard
  a moment ago over the other path is heard again.\<close>

theorem a_lagging_path_is_heard_twice:
  "snd (dedup_run [(3, vrx_frame 100), (3, vrx_frame 200), (3, vrx_frame 100), (3, vrx_frame 201), (3, vrx_frame 101),
      (3, vrx_frame 201)] dedup_new)
   = [(3, 0x121, 100), (3, 0x121, 200), (3, 0x121, 100), (3, 0x121, 201), (3, 0x121, 101), (3, 0x121, 201)]"
  by (simp add: dedup_eval)

end
