(* ===== verification/RelayFallback.thy ===== *)
theory RelayFallback
  imports RelayFrames
begin

text \<open>
  Audio over UDP or over the websocket (\<^verbatim>\<open>sdr-remote-relay/src/lib.rs\<close>, \<^verbatim>\<open>run_connection\<close>). A client watches
  the datagrams that come down to it - beacons once a second, audio when there is any - and asks its
  station for audio over the websocket while they stay away; the station keeps, per client, what was
  last asked and whether the client can see a beacon, for as long as the client keeps saying so.

  The state of each side is a record of the loop's variables that the decision reads; the loop's arms -
  a datagram, traffic of the peer, the timer, a control frame, a frame to send - are its operations. The
  frames a tick sends are relay-control frames, wrapped in a TLT1 frame by the caller. An instant counts
  from well before the session, so that \<^verbatim>\<open>ready_at - FALLBACK_DWELL\<close> does not underflow.
\<close>

section \<open>The decisions\<close>

definition FALLBACK_CONNECT_TIMEOUT :: duration where "FALLBACK_CONNECT_TIMEOUT = secs 2"
definition FALLBACK_DOWNLINK_STALL :: duration where "FALLBACK_DOWNLINK_STALL = ms 2500"
definition UDP_BEACON_INTERVAL :: duration where "UDP_BEACON_INTERVAL = secs 1"
definition FALLBACK_RECOVER :: duration where "FALLBACK_RECOVER = secs 3"
definition FALLBACK_DWELL :: duration where "FALLBACK_DWELL = secs 3"
definition FALLBACK_HEARTBEAT :: duration where "FALLBACK_HEARTBEAT = secs 5"
definition FALLBACK_LEASE :: duration where "FALLBACK_LEASE = secs 15"
definition PEER_TIMEOUT :: duration where "PEER_TIMEOUT = secs 15"

lemmas fallback_consts = FALLBACK_CONNECT_TIMEOUT_def FALLBACK_DOWNLINK_STALL_def FALLBACK_RECOVER_def
  FALLBACK_DWELL_def FALLBACK_HEARTBEAT_def FALLBACK_LEASE_def PEER_TIMEOUT_def

definition udp_recovered :: "instant \<Rightarrow> instant option \<Rightarrow> instant option \<Rightarrow> duration \<Rightarrow> duration \<Rightarrow> bool" where
  "udp_recovered now healthy_since last_udp_audio recover_after stall_after \<longleftrightarrow>
     (case healthy_since of None \<Rightarrow> False | Some t \<Rightarrow> recover_after \<le> now - t)
     \<and> (case last_udp_audio of None \<Rightarrow> False | Some t \<Rightarrow> now - t < stall_after)"

definition downlink_stalled :: "instant \<Rightarrow> duration option \<Rightarrow> instant option \<Rightarrow> duration \<Rightarrow> duration \<Rightarrow> bool" where
  "downlink_stalled now since_peer_ready last_downlink connect_timeout stall_after =
     (case last_downlink of
        None \<Rightarrow> (case since_peer_ready of None \<Rightarrow> False | Some d \<Rightarrow> connect_timeout \<le> d)
      | Some t \<Rightarrow> stall_after \<le> now - t)"

datatype absence_event = NothingToSay | AbsenceBegan duration | EndedAudioBack | EndedPathBroken

definition audio_absent_while_path_alive :: "bool \<Rightarrow> duration \<Rightarrow> bool" where
  "audio_absent_while_path_alive stalled without_audio \<longleftrightarrow> \<not> stalled \<and> FALLBACK_DOWNLINK_STALL \<le> without_audio"

definition absence_edge :: "bool \<Rightarrow> bool \<Rightarrow> duration option \<Rightarrow> duration \<Rightarrow> absence_event" where
  "absence_edge latched stalled since_audio since_ready =
     (let without_audio = (case since_audio of None \<Rightarrow> since_ready | Some d \<Rightarrow> d);
          explaining = audio_absent_while_path_alive stalled without_audio
      in if explaining \<and> \<not> latched then AbsenceBegan without_audio
         else if \<not> explaining \<and> latched \<and> stalled then EndedPathBroken
         else if \<not> explaining \<and> latched then EndedAudioBack
         else NothingToSay)"

definition station_audio_paths :: "bool \<Rightarrow> bool \<Rightarrow> duration \<Rightarrow> duration \<Rightarrow> bool \<Rightarrow> bool \<times> bool" where
  "station_audio_paths udp_up fallback_on lease_age lease reads_beacon =
     (let fb = fallback_on \<and> lease_age < lease
      in if fb \<and> reads_beacon then (False, True) else (udp_up, fb))"

definition note_path_packet :: "instant option \<Rightarrow> instant \<Rightarrow> instant option \<times> duration option" where
  "note_path_packet last_packet now = (Some now, map_option (\<lambda>t. now - t) last_packet)"

definition note_downlink ::
    "instant option \<Rightarrow> instant option \<Rightarrow> instant \<Rightarrow> duration \<Rightarrow> (instant option \<times> instant option) \<times> duration option" where
  "note_downlink last_downlink healthy_since now stall =
     (let (last_downlink, gap) = note_path_packet last_downlink now
      in ((last_downlink,
           if (case gap of None \<Rightarrow> True | Some g \<Rightarrow> stall < g) then Some now else healthy_since), gap))"

section \<open>The client\<close>

record relay_client =
  rc_ready_at :: instant
  rc_peer_active :: bool
  rc_peer_active_since :: "instant option"
  rc_last_peer_activity :: instant
  rc_last_udp_downlink :: "instant option"
  rc_udp_healthy_since :: "instant option"
  rc_last_udp_audio :: "instant option"
  rc_audio_absent_since :: "instant option"
  rc_fallback_requested :: bool
  rc_last_fallback_flip :: instant
  rc_last_fallback_heartbeat :: instant
  rc_last_caps_sent :: instant
  rc_declared :: bool
  rc_fallback_flips :: nat

definition relay_client_start :: "instant \<Rightarrow> relay_client" where
  "relay_client_start now =
     \<lparr>rc_ready_at = now, rc_peer_active = False, rc_peer_active_since = None, rc_last_peer_activity = now,
      rc_last_udp_downlink = None, rc_udp_healthy_since = None, rc_last_udp_audio = None,
      rc_audio_absent_since = None, rc_fallback_requested = False,
      rc_last_fallback_flip = now - FALLBACK_DWELL, rc_last_fallback_heartbeat = now,
      rc_last_caps_sent = now, rc_declared = False, rc_fallback_flips = 0\<rparr>"

text \<open>A datagram down the UDP path: the relay's \<^verbatim>\<open>[client_id]\<close> and a payload, empty for a beacon.\<close>

definition client_datagram :: "instant \<Rightarrow> u8 list \<Rightarrow> relay_client \<Rightarrow> relay_client" where
  "client_datagram now bytes c =
     (let c = (if bytes \<noteq> []
          then (let ((dl, hs), _) = note_downlink (rc_last_udp_downlink c) (rc_udp_healthy_since c) now FALLBACK_DOWNLINK_STALL
                in c\<lparr>rc_last_udp_downlink := dl, rc_udp_healthy_since := hs\<rparr>)
          else c)
      in if 1 < length bytes
         then c\<lparr>rc_peer_active := True, rc_last_peer_activity := now,
                rc_last_udp_audio := (if audio_identity (tl bytes) \<noteq> None then Some now else rc_last_udp_audio c)\<rparr>
         else c)"

text \<open>Traffic of the peer over the websocket.\<close>

definition client_peer_traffic :: "instant \<Rightarrow> relay_client \<Rightarrow> relay_client" where
  "client_peer_traffic now c = c\<lparr>rc_peer_active := True, rc_last_peer_activity := now\<rparr>"

definition note_absence :: "instant \<Rightarrow> bool \<Rightarrow> relay_client \<Rightarrow> relay_client" where
  "note_absence now stalled c =
     (case absence_edge (rc_audio_absent_since c \<noteq> None) stalled
             (map_option (\<lambda>t. now - t) (rc_last_udp_audio c)) (now - rc_ready_at c) of
        AbsenceBegan without_audio \<Rightarrow> c\<lparr>rc_audio_absent_since := Some (now - without_audio)\<rparr>
      | EndedAudioBack \<Rightarrow> c\<lparr>rc_audio_absent_since := None\<rparr>
      | EndedPathBroken \<Rightarrow> c\<lparr>rc_audio_absent_since := None\<rparr>
      | NothingToSay \<Rightarrow> c)"

definition client_stalled :: "instant \<Rightarrow> relay_client \<Rightarrow> bool" where
  "client_stalled now c = downlink_stalled now (map_option (\<lambda>t. now - t) (rc_peer_active_since c))
     (rc_last_udp_downlink c) FALLBACK_CONNECT_TIMEOUT FALLBACK_DOWNLINK_STALL"

definition client_recovered :: "instant \<Rightarrow> relay_client \<Rightarrow> bool" where
  "client_recovered now c = udp_recovered now (rc_udp_healthy_since c) (rc_last_udp_downlink c)
     FALLBACK_RECOVER FALLBACK_DOWNLINK_STALL"

definition client_transport :: "instant \<Rightarrow> relay_client \<Rightarrow> relay_client \<times> u8 list list" where
  "client_transport now c =
     (if FALLBACK_DWELL \<le> now - rc_last_fallback_flip c then
        (if \<not> rc_fallback_requested c then
           (let c = note_absence now (client_stalled now c) c
            in if client_stalled now c
               then (c\<lparr>rc_fallback_requested := True, rc_last_fallback_flip := now,
                       rc_last_fallback_heartbeat := now, rc_fallback_flips := rc_fallback_flips c + 1\<rparr>,
                     [encode_rcf_fallback True])
               else (c, []))
         else if client_recovered now c
         then (c\<lparr>rc_fallback_requested := False, rc_last_fallback_flip := now,
                 rc_fallback_flips := rc_fallback_flips c + 1\<rparr>,
               [encode_rcf_fallback False])
         else (c, []))
      else (c, []))"

definition client_peer_tick :: "instant \<Rightarrow> relay_client \<Rightarrow> relay_client" where
  "client_peer_tick now c =
     (let c = (if rc_peer_active c \<and> PEER_TIMEOUT \<le> now - rc_last_peer_activity c then c\<lparr>rc_peer_active := False\<rparr> else c)
      in if rc_peer_active c
         then c\<lparr>rc_peer_active_since := (case rc_peer_active_since c of None \<Rightarrow> Some now | Some t \<Rightarrow> Some t)\<rparr>
         else c\<lparr>rc_peer_active_since := None\<rparr>)"

text \<open>The timer's arm on a client: \<open>udp_socket\<close> is whether the session has a UDP socket.\<close>

definition client_tick :: "bool \<Rightarrow> instant \<Rightarrow> relay_client \<Rightarrow> relay_client \<times> u8 list list" where
  "client_tick udp_socket now c =
     (let c = client_peer_tick now c
      in if udp_socket \<and> rc_peer_active c then
           (let first = (if rc_declared c then [] else [encode_rcf_fallback False]);
                (c, flip) = client_transport now (c\<lparr>rc_declared := True\<rparr>);
                caps_due = FALLBACK_HEARTBEAT \<le> now - rc_last_caps_sent c;
                beat_due = rc_fallback_requested c \<and> FALLBACK_HEARTBEAT \<le> now - rc_last_fallback_heartbeat c
            in (c\<lparr>rc_last_caps_sent := (if caps_due then now else rc_last_caps_sent c),
                  rc_last_fallback_heartbeat := (if beat_due then now else rc_last_fallback_heartbeat c)\<rparr>,
                first @ flip @ (if caps_due then [encode_rcf_caps CAPS_READS_BEACON] else [])
                  @ (if beat_due then [encode_rcf_fallback True] else [])))
         else (c, []))"

datatype client_event = Datagram instant "u8 list" | PeerTraffic instant | ClientTick bool instant

fun event_time :: "client_event \<Rightarrow> instant" where
  "event_time (Datagram now _) = now"
| "event_time (PeerTraffic now) = now"
| "event_time (ClientTick _ now) = now"

fun client_step :: "client_event \<Rightarrow> relay_client \<Rightarrow> relay_client \<times> u8 list list" where
  "client_step (Datagram now bytes) c = (client_datagram now bytes c, [])"
| "client_step (PeerTraffic now) c = (client_peer_traffic now c, [])"
| "client_step (ClientTick udp now) c = client_tick udp now c"

definition client_run :: "client_event list \<Rightarrow> relay_client \<Rightarrow> relay_client" where
  "client_run es c = fold (\<lambda>e. fst \<circ> client_step e) es c"

lemma client_run_simps [simp]:
  "client_run [] c = c"
  "client_run (e # es) c = client_run es (fst (client_step e c))"
  "client_run (es @ fs) c = client_run fs (client_run es c)"
  by (simp_all add: client_run_def)

text \<open>What a tick, a datagram and the peer's traffic do to the fields the decision reads.\<close>

lemma note_absence_keeps [simp]:
  "rc_fallback_requested (note_absence now b c) = rc_fallback_requested c"
  "rc_last_fallback_flip (note_absence now b c) = rc_last_fallback_flip c"
  "rc_fallback_flips (note_absence now b c) = rc_fallback_flips c"
  "rc_last_udp_downlink (note_absence now b c) = rc_last_udp_downlink c"
  "rc_udp_healthy_since (note_absence now b c) = rc_udp_healthy_since c"
  "rc_peer_active_since (note_absence now b c) = rc_peer_active_since c"
  by (simp_all add: note_absence_def split: absence_event.split)

lemma client_peer_tick_keeps [simp]:
  "rc_fallback_requested (client_peer_tick now c) = rc_fallback_requested c"
  "rc_last_fallback_flip (client_peer_tick now c) = rc_last_fallback_flip c"
  "rc_fallback_flips (client_peer_tick now c) = rc_fallback_flips c"
  "rc_last_udp_downlink (client_peer_tick now c) = rc_last_udp_downlink c"
  "rc_udp_healthy_since (client_peer_tick now c) = rc_udp_healthy_since c"
  by (simp_all add: client_peer_tick_def Let_def)

definition flips_at :: "bool \<Rightarrow> instant \<Rightarrow> relay_client \<Rightarrow> bool" where
  "flips_at udp now c \<longleftrightarrow> udp \<and> rc_peer_active (client_peer_tick now c) \<and> FALLBACK_DWELL \<le> now - rc_last_fallback_flip c
     \<and> (if rc_fallback_requested c then client_recovered now c else client_stalled now (client_peer_tick now c))"

lemma client_tick_effect:
  "rc_fallback_requested (fst (client_tick udp now c)) = (rc_fallback_requested c \<noteq> flips_at udp now c)"
  "rc_last_fallback_flip (fst (client_tick udp now c)) = (if flips_at udp now c then now else rc_last_fallback_flip c)"
  "rc_fallback_flips (fst (client_tick udp now c)) = rc_fallback_flips c + (if flips_at udp now c then 1 else 0)"
  "rc_last_udp_downlink (fst (client_tick udp now c)) = rc_last_udp_downlink c"
  "rc_udp_healthy_since (fst (client_tick udp now c)) = rc_udp_healthy_since c"
  by (auto simp: client_tick_def client_transport_def flips_at_def client_stalled_def client_recovered_def
      Let_def split_beta)

lemma flips_late: "flips_at udp now c \<Longrightarrow> rc_last_fallback_flip c + FALLBACK_DWELL \<le> now"
  unfolding flips_at_def FALLBACK_DWELL_def by linarith

lemma client_datagram_effect:
  "rc_fallback_requested (client_datagram now bytes c) = rc_fallback_requested c"
  "rc_last_fallback_flip (client_datagram now bytes c) = rc_last_fallback_flip c"
  "rc_fallback_flips (client_datagram now bytes c) = rc_fallback_flips c"
  "rc_last_udp_downlink (client_datagram now bytes c) = (if bytes = [] then rc_last_udp_downlink c else Some now)"
  "rc_udp_healthy_since (client_datagram now bytes c) =
     (if bytes = [] then rc_udp_healthy_since c
      else if (case rc_last_udp_downlink c of None \<Rightarrow> True | Some t \<Rightarrow> FALLBACK_DOWNLINK_STALL < now - t) then Some now
      else rc_udp_healthy_since c)"
  by (auto simp: client_datagram_def note_downlink_def note_path_packet_def Let_def split: option.split)

lemma client_peer_traffic_effect [simp]:
  "rc_fallback_requested (client_peer_traffic now c) = rc_fallback_requested c"
  "rc_last_fallback_flip (client_peer_traffic now c) = rc_last_fallback_flip c"
  "rc_fallback_flips (client_peer_traffic now c) = rc_fallback_flips c"
  "rc_last_udp_downlink (client_peer_traffic now c) = rc_last_udp_downlink c"
  "rc_udp_healthy_since (client_peer_traffic now c) = rc_udp_healthy_since c"
  by (simp_all add: client_peer_traffic_def)

lemmas client_effects = client_tick_effect client_datagram_effect client_peer_traffic_effect

text \<open>The transport does not flap: in a session that began at \<open>start\<close> and has run until \<open>end\<close> the client has
  changed between UDP and the websocket at most once per three seconds, and once.\<close>

theorem client_does_not_flap:
  assumes "FALLBACK_DWELL \<le> start" "\<forall>e \<in> set es. event_time e \<le> end_time" "start \<le> end_time"
  shows "FALLBACK_DWELL * rc_fallback_flips (client_run es (relay_client_start start)) \<le> end_time - start + FALLBACK_DWELL"
proof -
  have step: "FALLBACK_DWELL * rc_fallback_flips (fst (client_step e c)) + start \<le> rc_last_fallback_flip (fst (client_step e c)) + FALLBACK_DWELL
      \<and> rc_last_fallback_flip (fst (client_step e c)) \<le> end_time"
    if "FALLBACK_DWELL * rc_fallback_flips c + start \<le> rc_last_fallback_flip c + FALLBACK_DWELL"
      "rc_last_fallback_flip c \<le> end_time" "event_time e \<le> end_time" for e c
    using that by (cases e) (auto simp: client_effects dest: flips_late)
  have "FALLBACK_DWELL * rc_fallback_flips (client_run es c) + start \<le> rc_last_fallback_flip (client_run es c) + FALLBACK_DWELL
      \<and> rc_last_fallback_flip (client_run es c) \<le> end_time"
    if "FALLBACK_DWELL * rc_fallback_flips c + start \<le> rc_last_fallback_flip c + FALLBACK_DWELL"
      "rc_last_fallback_flip c \<le> end_time" for c
    using assms(2) that by (induction es arbitrary: c) (use step in auto)
  moreover have "FALLBACK_DWELL * rc_fallback_flips (relay_client_start start) + start
        \<le> rc_last_fallback_flip (relay_client_start start) + FALLBACK_DWELL"
      "rc_last_fallback_flip (relay_client_start start) \<le> end_time"
    using assms(1,3) by (simp_all add: relay_client_start_def)
  ultimately show ?thesis by fastforce
qed

text \<open>The times at which anything came down the UDP path.\<close>

fun beacon_times :: "client_event list \<Rightarrow> instant list" where
  "beacon_times [] = []"
| "beacon_times (Datagram t bytes # es) = (if bytes = [] then beacon_times es else t # beacon_times es)"
| "beacon_times (_ # es) = beacon_times es"

text \<open>A stretch in which datagrams come less than 2.5 s apart, with what holds throughout it.\<close>

lemma beacon_times_sub: "set (beacon_times es) \<subseteq> event_time ` set es"
  by (induction es rule: beacon_times.induct) auto

lemma beacons_keep:
  assumes "successively (\<lambda>x y. y - x < FALLBACK_DOWNLINK_STALL) (u # beacon_times post @ [T])"
    and "sorted (u # map event_time post @ [T])"
    and "rc_last_udp_downlink c = Some u" "rc_udp_healthy_since c = Some h" "h \<le> t0"
    and "rc_fallback_requested c \<longrightarrow> rc_last_fallback_flip c \<le> t0"
  shows "\<exists>v. rc_last_udp_downlink (client_run post c) = Some v \<and> T - v < FALLBACK_DOWNLINK_STALL
    \<and> rc_udp_healthy_since (client_run post c) = Some h
    \<and> (rc_fallback_requested (client_run post c) \<longrightarrow>
         rc_fallback_requested c \<and> rc_last_fallback_flip (client_run post c) \<le> t0)"
  using assms
proof (induction post arbitrary: c u rule: beacon_times.induct [case_names none datagram peer tick])
  case (datagram t bytes es)
  show ?case
  proof (cases "bytes = []")
    case True
    with datagram.IH(1) [of u "client_datagram t bytes c"] datagram.prems show ?thesis
      by (simp add: client_effects)
  next
    case False
    have "t - u < FALLBACK_DOWNLINK_STALL" using datagram.prems(1) False by (cases "beacon_times es") auto
    with datagram.IH(2) [of t "client_datagram t bytes c"] datagram.prems False show ?thesis
      by (auto simp: client_effects successively_Cons)
  qed
next
  case (peer now es)
  from peer.IH [of u "client_peer_traffic now c"] peer.prems show ?case by simp
next
  case (tick udp now es)
  have "now - u < FALLBACK_DOWNLINK_STALL"
  proof (cases "beacon_times es")
    case Nil
    with tick.prems(1,2) have "T - u < FALLBACK_DOWNLINK_STALL" "now \<le> T" by simp_all
    then show ?thesis by linarith
  next
    case (Cons b bs)
    then have "b \<in> event_time ` set es" using beacon_times_sub [of es] by auto
    with tick.prems(2) have "now \<le> b" by auto
    moreover have "b - u < FALLBACK_DOWNLINK_STALL" using tick.prems(1) Cons by simp
    ultimately show ?thesis by linarith
  qed
  then have "rc_fallback_requested (fst (client_tick udp now c)) \<Longrightarrow>
      rc_fallback_requested c \<and> rc_last_fallback_flip (fst (client_tick udp now c)) = rc_last_fallback_flip c"
    using tick.prems(3) by (auto simp: client_effects flips_at_def client_stalled_def downlink_stalled_def split: if_splits)
  with tick.IH [of u "fst (client_tick udp now c)"] tick.prems show ?case
    by (auto simp: client_effects(4,5))
qed auto

text \<open>What had happened before a moment: the last flip and the last datagram lie before it.\<close>

lemma client_run_past:
  assumes "sorted (map event_time es @ [t0])" "rc_last_fallback_flip c \<le> t0"
    "case rc_udp_healthy_since c of None \<Rightarrow> True | Some h \<Rightarrow> h \<le> t0"
  shows "rc_last_fallback_flip (client_run es c) \<le> t0
    \<and> (case rc_udp_healthy_since (client_run es c) of None \<Rightarrow> True | Some h \<Rightarrow> h \<le> t0)"
  using assms
proof (induction es arbitrary: c)
  case (Cons e es)
  have "event_time e \<le> t0" using Cons.prems(1) by simp
  then have "rc_last_fallback_flip (fst (client_step e c)) \<le> t0
      \<and> (case rc_udp_healthy_since (fst (client_step e c)) of None \<Rightarrow> True | Some h \<Rightarrow> h \<le> t0)"
    using Cons.prems(2,3) by (cases e) (auto simp: client_effects split: option.splits)
  with Cons.IH Cons.prems(1) show ?case by simp
qed simp

lemma healthy_after_datagram:
  assumes "b \<noteq> []" "(rc_last_udp_downlink c = None) = (rc_udp_healthy_since c = None)"
    "case rc_udp_healthy_since c of None \<Rightarrow> True | Some h \<Rightarrow> h \<le> t0"
  shows "\<exists>h \<le> t0. rc_udp_healthy_since (client_datagram t0 b c) = Some h"
  using assms by (auto simp: client_effects split: option.splits)

lemma downlink_and_health:
  "(rc_last_udp_downlink c = None) = (rc_udp_healthy_since c = None) \<Longrightarrow>
   (rc_last_udp_downlink (client_run es c) = None) = (rc_udp_healthy_since (client_run es c) = None)"
proof (induction es arbitrary: c)
  case (Cons e es)
  have "(rc_last_udp_downlink (fst (client_step e c)) = None) = (rc_udp_healthy_since (fst (client_step e c)) = None)"
    using Cons.prems by (cases e) (auto simp: client_effects split: option.splits)
  with Cons.IH show ?case by simp
qed simp

text \<open>C24. Audio comes back to UDP: whatever the session went through before, once datagrams - beacons are
  enough, no audio is needed - have come down the path less than 2.5 s apart for three seconds, the next
  tick with a peer finds the client on UDP.\<close>

theorem steady_beacons_bring_udp_back:
  assumes "sorted (start # map event_time pre @ [t0])" "sorted (t0 # map event_time post @ [T])"
    and "successively (\<lambda>x y. y - x < FALLBACK_DOWNLINK_STALL) (t0 # beacon_times post @ [T])"
    and "t0 + FALLBACK_RECOVER \<le> T" "b \<noteq> []"
    and "rc_peer_active (client_peer_tick T (client_run (pre @ Datagram t0 b # post) (relay_client_start start)))"
  shows "\<not> rc_fallback_requested (client_run (pre @ Datagram t0 b # post @ [ClientTick True T]) (relay_client_start start))"
proof -
  define c0 where "c0 = client_run pre (relay_client_start start)"
  define c1 where "c1 = client_datagram t0 b c0"
  define c2 where "c2 = client_run post c1"
  have "(rc_last_udp_downlink c0 = None) = (rc_udp_healthy_since c0 = None)"
    unfolding c0_def by (rule downlink_and_health) (simp add: relay_client_start_def)
  moreover have past: "rc_last_fallback_flip c0 \<le> t0"
    "case rc_udp_healthy_since c0 of None \<Rightarrow> True | Some h \<Rightarrow> h \<le> t0"
    using client_run_past [of pre t0 "relay_client_start start"] assms(1)
    by (auto simp: c0_def relay_client_start_def)
  ultimately obtain h where h: "h \<le> t0" "rc_udp_healthy_since c1 = Some h"
    using healthy_after_datagram [OF assms(5), of c0 t0] unfolding c1_def by auto
  have d: "rc_last_udp_downlink c1 = Some t0" "rc_last_fallback_flip c1 \<le> t0"
    using assms(5) past by (simp_all add: c1_def client_effects)
  obtain v where v: "rc_last_udp_downlink c2 = Some v" "T - v < FALLBACK_DOWNLINK_STALL"
    "rc_udp_healthy_since c2 = Some h" "rc_fallback_requested c2 \<longrightarrow> rc_last_fallback_flip c2 \<le> t0"
    using beacons_keep [OF assms(3,2) d(1) h(2,1)] d(2) unfolding c2_def by blast
  have peer: "rc_peer_active (client_peer_tick T c2)"
    using assms(6) by (simp add: c0_def c1_def c2_def)
  have "\<not> client_stalled T (client_peer_tick T c2)"
    using v by (simp add: client_stalled_def downlink_stalled_def)
  moreover have "flips_at True T c2" if "rc_fallback_requested c2"
  proof -
    have "FALLBACK_RECOVER \<le> T - h" "FALLBACK_DWELL \<le> T - rc_last_fallback_flip c2"
      using assms(4) h(1) v(4) that by (simp_all add: FALLBACK_RECOVER_def FALLBACK_DWELL_def)
    with v peer that show ?thesis by (simp add: flips_at_def client_recovered_def udp_recovered_def)
  qed
  ultimately have "\<not> rc_fallback_requested (fst (client_tick True T c2))"
    unfolding client_tick_effect(1) by (auto simp: flips_at_def split: if_splits)
  then show ?thesis by (simp add: c0_def c1_def c2_def)
qed

text \<open>C23. A dead path is left once and for good: on the first tick 2.5 s after the last datagram, dwell
  over and the peer there, the client asks for the websocket, and as long as no datagram comes it stays
  there, however long and whatever the peer says over the websocket.\<close>

theorem dead_path_is_left_for_good:
  assumes "rc_last_udp_downlink c = Some t0" "t0 + FALLBACK_DOWNLINK_STALL \<le> T"
    and "rc_last_fallback_flip c + FALLBACK_DWELL \<le> T" "rc_peer_active (client_peer_tick T c)"
    and "beacon_times post = []" "\<forall>e \<in> set post. T \<le> event_time e"
  shows "rc_fallback_requested (client_run (ClientTick True T # post) c)
    \<and> rc_fallback_flips (client_run (ClientTick True T # post) c)
      = rc_fallback_flips c + (if rc_fallback_requested c then 0 else 1)"
proof -
  have dead: "\<not> client_recovered now d" if "rc_last_udp_downlink d = Some t0" "T \<le> now" for now d
    using that assms(2) by (auto simp: client_recovered_def udp_recovered_def split: option.split)
  have stay: "rc_fallback_requested (client_run es d) \<and> rc_fallback_flips (client_run es d) = rc_fallback_flips d"
    if "beacon_times es = []" "\<forall>e \<in> set es. T \<le> event_time e" "rc_fallback_requested d" "rc_last_udp_downlink d = Some t0"
    for es d
    using that
  proof (induction es arbitrary: d rule: beacon_times.induct [case_names none datagram peer tick])
    case (datagram t bytes es)
    then show ?case by (cases "bytes = []") (auto simp: client_effects)
  next
    case (tick udp now es)
    then have "\<not> flips_at udp now d" using dead by (auto simp: flips_at_def)
    with tick.IH [of "fst (client_tick udp now d)"] tick.prems show ?case by (auto simp: client_tick_effect)
  qed auto
  have "client_stalled T (client_peer_tick T c)"
    using assms(1,2) by (simp add: client_stalled_def downlink_stalled_def)
  then have "flips_at True T c \<longleftrightarrow> \<not> rc_fallback_requested c"
    using assms(1,3,4) dead [of c T] by (auto simp: flips_at_def)
  then have "rc_fallback_requested (fst (client_tick True T c))" "rc_last_udp_downlink (fst (client_tick True T c)) = Some t0"
    "rc_fallback_flips (fst (client_tick True T c)) = rc_fallback_flips c + (if rc_fallback_requested c then 0 else 1)"
    using assms(1) by (auto simp: client_tick_effect)
  with stay [OF assms(5,6)] show ?thesis by simp
qed

lemmas client_eval = client_tick_def client_transport_def client_peer_tick_def client_stalled_def downlink_stalled_def
  client_recovered_def udp_recovered_def note_absence_def absence_edge_def audio_absent_while_path_alive_def
  client_datagram_def client_peer_traffic_def note_downlink_def note_path_packet_def relay_client_start_def
  audio_identity_def is_audio_packet_def fallback_consts

lemma client_does_not_flap_witness:
  "FALLBACK_DWELL * rc_fallback_flips (client_run [PeerTraffic (secs 10), ClientTick True (secs 11), ClientTick True (secs 14)]
     (relay_client_start (secs 10))) \<le> secs 14 - secs 10 + FALLBACK_DWELL"
  by (rule client_does_not_flap) (simp_all add: FALLBACK_DWELL_def)

lemma steady_beacons_bring_udp_back_witness:
  "\<not> rc_fallback_requested (client_run
     ([PeerTraffic (secs 10), ClientTick True (secs 10), ClientTick True (secs 12)] @ Datagram (secs 14) [3] #
      [Datagram (secs 16) [3]] @ [ClientTick True (secs 17)]) (relay_client_start (secs 10)))"
  by (rule steady_beacons_bring_udp_back) (simp_all add: client_eval)

lemma dead_path_is_left_for_good_witness:
  "rc_fallback_requested (client_run (ClientTick True (secs 14) # [PeerTraffic (secs 15), ClientTick True (secs 20)])
     (client_run [PeerTraffic (secs 10), Datagram (secs 11) [3]] (relay_client_start (secs 10))))
   \<and> rc_fallback_flips (client_run (ClientTick True (secs 14) # [PeerTraffic (secs 15), ClientTick True (secs 20)])
     (client_run [PeerTraffic (secs 10), Datagram (secs 11) [3]] (relay_client_start (secs 10)))) = 1"
  using dead_path_is_left_for_good
    [of "client_run [PeerTraffic (secs 10), Datagram (secs 11) [3]] (relay_client_start (secs 10))" "secs 11" "secs 14"
       "[PeerTraffic (secs 15), ClientTick True (secs 20)]"]
  by (simp add: client_eval)

section \<open>The station\<close>

record station_fallback =
  sf_on :: bool
  sf_last_change :: instant
  sf_last_seen :: instant
  sf_on_since :: "instant option"
  sf_udp_frames_while_on :: nat
  sf_reads_beacon :: bool

type_synonym station_table = "u8 \<Rightarrow> station_fallback option"

definition station_entry :: "instant \<Rightarrow> station_fallback" where
  "station_entry now = \<lparr>sf_on = False, sf_last_change = now - FALLBACK_DWELL, sf_last_seen = now, sf_on_since = None,
     sf_udp_frames_while_on = 0, sf_reads_beacon = False\<rparr>"

definition entry_or_new :: "instant \<Rightarrow> u8 \<Rightarrow> station_table \<Rightarrow> station_fallback" where
  "entry_or_new now cid st = (case st cid of None \<Rightarrow> station_entry now | Some e \<Rightarrow> e)"

definition note_caps :: "instant \<Rightarrow> u8 \<Rightarrow> station_fallback \<Rightarrow> station_fallback" where
  "note_caps now bits e = e\<lparr>sf_reads_beacon := (bits AND CAPS_READS_BEACON \<noteq> 0), sf_last_seen := now\<rparr>"

definition note_fallback :: "instant \<Rightarrow> bool \<Rightarrow> station_fallback \<Rightarrow> station_fallback" where
  "note_fallback now on e =
     (let e = e\<lparr>sf_last_seen := now\<rparr>
      in if sf_on e \<noteq> on \<and> FALLBACK_DWELL \<le> now - sf_last_change e
         then (if on then e\<lparr>sf_on := True, sf_last_change := now, sf_on_since := Some now, sf_udp_frames_while_on := 0\<rparr>
               else e\<lparr>sf_on := False, sf_last_change := now, sf_on_since := None\<rparr>)
         else e)"

text \<open>A tunnelled payload at the station: a control frame is taken here, anything else goes on.\<close>

definition station_payload :: "instant \<Rightarrow> u8 \<Rightarrow> u8 list \<Rightarrow> station_table \<Rightarrow> station_table \<times> bool" where
  "station_payload now cid payload st =
     (case parse_rcf_caps payload of
        Some bits \<Rightarrow> (st(cid \<mapsto> note_caps now bits (entry_or_new now cid st)), True)
      | None \<Rightarrow>
          (case parse_rcf_fallback payload of
             Some on \<Rightarrow> (st(cid \<mapsto> note_fallback now on (entry_or_new now cid st)), True)
           | None \<Rightarrow> (st, False)))"

definition station_tick :: "instant \<Rightarrow> station_table \<Rightarrow> station_table" where
  "station_tick now st = (\<lambda>cid. case st cid of
      None \<Rightarrow> None
    | Some e \<Rightarrow> if now - sf_last_seen e < FALLBACK_LEASE then Some e else None)"

definition station_paths :: "instant \<Rightarrow> bool \<Rightarrow> station_fallback option \<Rightarrow> bool \<times> bool" where
  "station_paths now udp_up e =
     station_audio_paths udp_up (case e of None \<Rightarrow> False | Some e \<Rightarrow> sf_on e)
       (case e of None \<Rightarrow> FALLBACK_LEASE | Some e \<Rightarrow> now - sf_last_seen e) FALLBACK_LEASE
       (case e of None \<Rightarrow> False | Some e \<Rightarrow> sf_reads_beacon e)"

text \<open>Which way a frame of the program goes: UDP, the websocket, or both.\<close>

definition uplink_paths ::
    "relay_role \<Rightarrow> instant \<Rightarrow> bool \<Rightarrow> bool \<Rightarrow> station_fallback option \<Rightarrow> u8 list \<Rightarrow> bool \<times> bool" where
  "uplink_paths role now udp_up fallback_requested e bytes =
     (if \<not> is_audio_packet bytes then (False, True)
      else (case role of
          RelayClient \<Rightarrow> (udp_up \<and> \<not> fallback_requested, fallback_requested \<or> audio_ptt_active bytes)
        | RelayStation \<Rightarrow> station_paths now udp_up e))"

text \<open>
  Sending it: \<open>udp_sent\<close> is whether a datagram offered to the socket left. Where none left the frame goes
  over the websocket after all.
\<close>

definition uplink_sent ::
    "relay_role \<Rightarrow> instant \<Rightarrow> bool \<Rightarrow> bool \<Rightarrow> bool \<Rightarrow> station_fallback option \<Rightarrow> u8 list \<Rightarrow> bool \<times> bool" where
  "uplink_sent role now udp_up udp_sent fallback_requested e bytes =
     (let (do_udp, do_wss) = uplink_paths role now udp_up fallback_requested e bytes;
          sent_any = (do_udp \<and> udp_up \<and> udp_sent)
      in (sent_any, do_wss \<or> \<not> sent_any))"

definition count_udp_frame ::
    "instant \<Rightarrow> u8 \<Rightarrow> bool \<Rightarrow> station_table \<Rightarrow> station_table" where
  "count_udp_frame now cid do_udp st =
     (case st cid of
        None \<Rightarrow> st
      | Some e \<Rightarrow> if do_udp \<and> sf_on e \<and> now - sf_last_seen e < FALLBACK_LEASE
                  then st(cid \<mapsto> e\<lparr>sf_udp_frames_while_on := sf_udp_frames_while_on e + 1\<rparr>) else st)"

text \<open>No frame is lost to the choice of a path: every frame leaves over UDP or over the websocket; what
  is not audio never goes over UDP; and an operator's transmit audio always goes over the websocket too,
  whatever state the fallback is in, so that a broken UDP path does not cut a transmission.\<close>

theorem every_frame_has_a_way_out:
  "(let (udp, wss) = uplink_sent role now udp_up udp_sent fb e bytes in
     (udp \<or> wss) \<and> (udp \<longrightarrow> is_audio_packet bytes \<and> udp_up) \<and>
     (role = RelayClient \<and> audio_ptt_active bytes \<longrightarrow> wss))"
  by (auto simp: uplink_sent_def uplink_paths_def station_paths_def station_audio_paths_def audio_ptt_active_def Let_def
      split: relay_role.split)

lemma every_frame_has_a_way_out_witness:
  "snd (uplink_sent RelayClient 0 True True False None (header_bytes packet_type.Audio FLAG_PTT))"
  using every_frame_has_a_way_out [of RelayClient 0 True True False None "header_bytes packet_type.Audio FLAG_PTT"]
    relay_mirrors_the_wire_format [of packet_type.Audio FLAG_PTT "[]"]
  by (simp add: is_audio_def flag_ptt_def FLAG_PTT_def split_beta)

text \<open>A client leaves UDP only when it can find its way back: the station keeps sending audio over UDP to
  every client that has not said within the lease that it reads beacons and wants the websocket.\<close>

theorem only_a_beacon_reader_is_taken_off_udp:
  assumes "is_audio_packet bytes" "\<not> fst (uplink_paths RelayStation now True fb e bytes)"
  shows "\<exists>entry. e = Some entry \<and> sf_on entry \<and> sf_reads_beacon entry \<and> now - sf_last_seen entry < FALLBACK_LEASE
    \<and> snd (uplink_paths RelayStation now True fb e bytes)"
  using assms by (auto simp: uplink_paths_def station_paths_def station_audio_paths_def Let_def split: if_splits option.splits)

lemma only_a_beacon_reader_is_taken_off_udp_witness:
  "\<exists>entry. Some (note_caps 5 1 (note_fallback 5 True (station_entry 4000000000))\<lparr>sf_on := True\<rparr>) = Some entry
    \<and> sf_on entry \<and> sf_reads_beacon entry \<and> 6 - sf_last_seen entry < FALLBACK_LEASE
    \<and> snd (uplink_paths RelayStation 6 True False
        (Some (note_caps 5 1 (note_fallback 5 True (station_entry 4000000000))\<lparr>sf_on := True\<rparr>)) (header_bytes packet_type.Audio 0))"
  by (rule only_a_beacon_reader_is_taken_off_udp)
    (simp_all add: header_bytes_def is_audio_packet_def packet_code_def AUDIO_TYPE_BYTES_def uplink_paths_def
      station_paths_def station_audio_paths_def note_caps_def note_fallback_def station_entry_def fallback_consts
      CAPS_READS_BEACON_def Let_def)

text \<open>What reaches the station: payloads of clients and its own timer.\<close>

datatype station_event = Payload instant u8 "u8 list" | StationTick instant

fun station_step :: "station_event \<Rightarrow> station_table \<Rightarrow> station_table" where
  "station_step (Payload now cid payload) st = fst (station_payload now cid payload st)"
| "station_step (StationTick now) st = station_tick now st"

definition station_run :: "station_event list \<Rightarrow> station_table \<Rightarrow> station_table" where
  "station_run es st = fold station_step es st"

text \<open>
  A client that only repeats what it can do: its capability frames, with the station's ticks between
  them, no later than a lease after the last.
\<close>

fun only_caps :: "u8 \<Rightarrow> instant \<Rightarrow> station_event list \<Rightarrow> bool" where
  "only_caps cid seen [] = True"
| "only_caps cid seen (StationTick now # es) = (seen \<le> now \<and> now - seen < FALLBACK_LEASE \<and> only_caps cid seen es)"
| "only_caps cid seen (Payload now c payload # es) =
     (if c = cid then payload = encode_rcf_caps CAPS_READS_BEACON \<and> only_caps cid now es else only_caps cid seen es)"

lemma only_caps_keeps:
  assumes "only_caps cid seen es" "st cid = Some e" "sf_last_seen e = seen" "sf_reads_beacon e"
  shows "\<exists>e'. station_run es st cid = Some e' \<and> sf_on e' = sf_on e \<and> sf_reads_beacon e'"
  using assms
proof (induction es arbitrary: seen st e)
  case (Cons x es)
  show ?case
  proof (cases x)
    case (StationTick now)
    with Cons.prems have "station_tick now st cid = Some e" by (simp add: station_tick_def)
    with Cons.IH [of seen "station_tick now st" e] Cons.prems StationTick show ?thesis
      by (simp add: station_run_def)
  next
    case (Payload now c payload)
    let ?st = "fst (station_payload now c payload st)"
    show ?thesis
    proof (cases "c = cid")
      case True
      then have st: "?st cid = Some (note_caps now CAPS_READS_BEACON e)"
        using Cons.prems Payload by (simp add: station_payload_def rcf_roundtrip entry_or_new_def)
      have "only_caps cid now es" using Cons.prems(1) Payload True by simp
      from Cons.IH [OF this, of ?st "note_caps now CAPS_READS_BEACON e"] st Cons.prems(4) show ?thesis
        by (simp add: Payload station_run_def note_caps_def CAPS_READS_BEACON_def)
    next
      case False
      then have "?st cid = Some e" using Cons.prems(2) by (auto simp: station_payload_def split: option.split)
      with Cons.IH [of seen ?st e] Cons.prems Payload False show ?thesis by (simp add: station_run_def)
    qed
  qed
qed (simp add: station_run_def)


definition early_return_run :: "station_event list" where
  "early_return_run = [Payload (secs 15) 2 (encode_rcf_caps CAPS_READS_BEACON), StationTick (secs 20),
     Payload (secs 28) 2 (encode_rcf_caps CAPS_READS_BEACON), StationTick (secs 40)]"


text \<open>
  What a client can do is not forgotten while it is there: as long as a capability frame of its comes
  within every lease, the station's ticks never drop its entry, whatever else arrives from other clients.
\<close>

theorem capability_outlives_the_lease:
  assumes "only_caps cid seen es" "st cid = Some e" "sf_last_seen e = seen" "sf_reads_beacon e"
  shows "\<exists>e'. station_run es st cid = Some e' \<and> sf_reads_beacon e' \<and> sf_on e' = sf_on e"
  using only_caps_keeps [OF assms(1), of st e] assms(2-4) by blast

lemma capability_outlives_the_lease_witness:
  "\<exists>e'. station_run early_return_run [2 \<mapsto> note_caps (secs 11) 1 (station_entry (secs 5))] 2 = Some e' \<and> sf_reads_beacon e'
    \<and> sf_on e' = False"
  using capability_outlives_the_lease [of 2 "secs 11" early_return_run
    "[2 \<mapsto> note_caps (secs 11) 1 (station_entry (secs 5))]" "note_caps (secs 11) 1 (station_entry (secs 5))"]
  by (simp add: early_return_run_def note_caps_def station_entry_def fallback_consts CAPS_READS_BEACON_def)

end
