(* ===== verification/RelayRooms.thy ===== *)
theory RelayRooms
  imports RelayFrames "HOL-Library.AList" "HOL-Library.Product_Lexorder"
begin

text \<open>
  The relay itself (\<^verbatim>\<open>thetislink-relay/src/main.rs\<close>): rooms of one station and up to eight clients, the
  routing of their frames, and the UDP tokens by which audio finds its way past the websocket.

  A connection is its serial, which also names its outgoing channel and its byte counter. The map of a
  room's clients and the table of tokens are association lists; the map of rooms is only looked up and
  is a function. What is sent is returned as a list of channels and messages. The registry of stations
  and devices (SQLite) is asked through arguments: what it says of the hello.
\<close>

section \<open>Rooms\<close>

definition MAX_CLIENTS :: nat where "MAX_CLIENTS = 8"

datatype peer_role = StationRole | ClientRole

record relay_peer =
  rp_chan :: nat
  rp_instance :: "string option"

datatype registration = RegStation | RegClient u8 | RegFull

record room =
  rm_station :: "relay_peer option"
  rm_clients :: "(u8 \<times> relay_peer) list"
  rm_next_id :: u8

definition room_default :: room where
  "room_default = \<lparr>rm_station = None, rm_clients = [], rm_next_id = 0\<rparr>"

definition room_is_empty :: "room \<Rightarrow> bool" where
  "room_is_empty r \<longleftrightarrow> rm_station r = None \<and> rm_clients r = []"

definition slot_at :: "u8 \<Rightarrow> nat \<Rightarrow> u8" where
  "slot_at next_id offset = of_nat ((unat next_id + offset) mod MAX_CLIENTS)"

definition alloc_client_id :: "nat \<Rightarrow> room \<Rightarrow> room \<times> u8 option" where
  "alloc_client_id cap r =
     (let cap = min cap MAX_CLIENTS
      in if cap \<le> length (rm_clients r) then (r, None)
         else (case find (\<lambda>i. map_of (rm_clients r) i = None) (map (slot_at (rm_next_id r)) [0..<MAX_CLIENTS]) of
                 None \<Rightarrow> (r, None)
               | Some i \<Rightarrow> (r\<lparr>rm_next_id := of_nat ((unat i + 1) mod MAX_CLIENTS)\<rparr>, Some i)))"

datatype relay_message = RText "u8 list" | RBinary "u8 list" | RPing | RPong | RClose

type_synonym outgoing = "(nat \<times> relay_message) list"
type_synonym rooms = "string \<Rightarrow> room option"

definition room_or_new :: "rooms \<Rightarrow> string \<Rightarrow> room" where
  "room_or_new rooms key = (case rooms key of None \<Rightarrow> room_default | Some r \<Rightarrow> r)"

definition register_station :: "relay_peer \<Rightarrow> room \<Rightarrow> room \<times> registration \<times> outgoing" where
  "register_station p r = (r\<lparr>rm_station := Some p\<rparr>, RegStation,
     case rm_station r of None \<Rightarrow> [] | Some old \<Rightarrow> [(rp_chan old, RClose)])"

definition register_client :: "nat \<Rightarrow> relay_peer \<Rightarrow> room \<Rightarrow> room \<times> registration \<times> outgoing" where
  "register_client client_cap p r =
     (case (if rp_instance p = None then None
            else find (\<lambda>(_, q). rp_instance q = rp_instance p) (rm_clients r)) of
        Some (old_id, old) \<Rightarrow>
          (r\<lparr>rm_clients := AList.update old_id p (rm_clients r)\<rparr>, RegClient old_id, [(rp_chan old, RClose)])
      | None \<Rightarrow>
          (case alloc_client_id client_cap r of
             (r, Some i) \<Rightarrow> (r\<lparr>rm_clients := AList.update i p (rm_clients r)\<rparr>, RegClient i, [])
           | (r, None) \<Rightarrow> (r, RegFull, [])))"

text \<open>\<open>conn\<close> is the serial the connection takes under the lock of the rooms.\<close>

definition register_peer ::
    "string \<Rightarrow> peer_role \<Rightarrow> nat \<Rightarrow> string option \<Rightarrow> nat \<Rightarrow> rooms \<Rightarrow> rooms \<times> registration \<times> outgoing" where
  "register_peer key role conn inst client_cap rooms =
     (let p = \<lparr>rp_chan = conn, rp_instance = inst\<rparr>;
          (r, reg, out) = (case role of
              StationRole \<Rightarrow> register_station p (room_or_new rooms key)
            | ClientRole \<Rightarrow> register_client client_cap p (room_or_new rooms key))
      in (rooms(key \<mapsto> r), reg, out))"

definition unregister_from :: "peer_role \<Rightarrow> u8 option \<Rightarrow> nat \<Rightarrow> room \<Rightarrow> room" where
  "unregister_from role client_id chan r =
     (case role of
        StationRole \<Rightarrow> if (case rm_station r of None \<Rightarrow> False | Some p \<Rightarrow> rp_chan p = chan)
                       then r\<lparr>rm_station := None\<rparr> else r
      | ClientRole \<Rightarrow>
          (case client_id of
             None \<Rightarrow> r
           | Some i \<Rightarrow> if (case map_of (rm_clients r) i of None \<Rightarrow> False | Some p \<Rightarrow> rp_chan p = chan)
                       then r\<lparr>rm_clients := AList.delete i (rm_clients r)\<rparr> else r))"

definition unregister_peer :: "string \<Rightarrow> peer_role \<Rightarrow> u8 option \<Rightarrow> nat \<Rightarrow> rooms \<Rightarrow> rooms" where
  "unregister_peer key role client_id chan rooms =
     (case rooms key of
        None \<Rightarrow> rooms
      | Some r \<Rightarrow> (let r = unregister_from role client_id chan r
                   in if room_is_empty r then rooms(key := None) else rooms(key \<mapsto> r)))"

definition live_install_ids :: "string \<Rightarrow> rooms \<Rightarrow> string list" where
  "live_install_ids key rooms =
     (case rooms key of
        None \<Rightarrow> []
      | Some r \<Rightarrow> List.map_filter rp_instance
          ((case rm_station r of None \<Rightarrow> [] | Some p \<Rightarrow> [p]) @ map snd (rm_clients r)))"

definition kick_device :: "string \<Rightarrow> string \<Rightarrow> rooms \<Rightarrow> outgoing" where
  "kick_device key install_id rooms =
     (case rooms key of
        None \<Rightarrow> []
      | Some r \<Rightarrow> map (\<lambda>(_, p). (rp_chan p, RClose)) (filter (\<lambda>(_, p). rp_instance p = Some install_id) (rm_clients r)))"

section \<open>Routing\<close>

text \<open>\<^verbatim>\<open>OK\<close>, \<^verbatim>\<open>ERR\<close>, \<^verbatim>\<open>udp-token-rotate\<close>, \<^verbatim>\<open>chat-ticket-rotate\<close>, \<^verbatim>\<open>udp-seen\<close>, as bytes.\<close>

definition ascii :: "string \<Rightarrow> u8 list" where
  "ascii s = map (\<lambda>c. of_nat (of_char c)) s"

definition RELAY_LINES :: "u8 list list" where
  "RELAY_LINES = map ascii [''OK'', ''ERR'', ''udp-token-rotate'', ''chat-ticket-rotate'', ''udp-seen'']"

definition is_relay_line :: "u8 list \<Rightarrow> bool" where
  "is_relay_line text \<longleftrightarrow> list_ex (\<lambda>w. take (length w) text = w) RELAY_LINES"

definition is_tlt1 :: "u8 list \<Rightarrow> bool" where
  "is_tlt1 data \<longleftrightarrow> 8 \<le> length data \<and> take 4 data = TLT1_MAGIC"

definition stamp_if_tlt1 :: "relay_message \<Rightarrow> u8 \<Rightarrow> relay_message" where
  "stamp_if_tlt1 m i =
     (case m of RBinary data \<Rightarrow> if is_tlt1 data then RBinary (data[5 := i]) else m | _ \<Rightarrow> m)"

definition msg_len :: "relay_message \<Rightarrow> nat" where
  "msg_len m = (case m of RText t \<Rightarrow> length t | RBinary d \<Rightarrow> length d | _ \<Rightarrow> 0)"

text \<open>\<open>bytes\<close> is the counter of every connection; \<open>chan\<close> the sender's.\<close>

definition route_message ::
    "string \<Rightarrow> peer_role \<Rightarrow> u8 option \<Rightarrow> nat \<Rightarrow> relay_message \<Rightarrow> rooms \<Rightarrow> (nat \<Rightarrow> nat) \<Rightarrow> (nat \<Rightarrow> nat) \<times> outgoing" where
  "route_message key role client_id chan m rooms bytes =
     (if (case m of RText t \<Rightarrow> is_relay_line t | _ \<Rightarrow> False) then (bytes, [])
      else (case role of
          ClientRole \<Rightarrow>
            (bytes(chan := bytes chan + msg_len m),
             case Option.bind (rooms key) rm_station of
               None \<Rightarrow> []
             | Some p \<Rightarrow> [(rp_chan p, stamp_if_tlt1 m (case client_id of None \<Rightarrow> 0 | Some i \<Rightarrow> i))])
        | StationRole \<Rightarrow>
            (case m of
               RBinary data \<Rightarrow>
                 (if is_tlt1 data
                  then (case Option.bind (rooms key) (\<lambda>r. map_of (rm_clients r) (data ! 5)) of
                      None \<Rightarrow> (bytes, [])
                    | Some p \<Rightarrow> (bytes(rp_chan p := bytes (rp_chan p) + msg_len m), [(rp_chan p, m)]))
                  else (bytes, case rooms key of None \<Rightarrow> [] | Some r \<Rightarrow> map (\<lambda>(_, p). (rp_chan p, m)) (rm_clients r)))
             | _ \<Rightarrow> (bytes, case rooms key of None \<Rightarrow> [] | Some r \<Rightarrow> map (\<lambda>(_, p). (rp_chan p, m)) (rm_clients r)))))"

section \<open>The rooms' invariant\<close>

text \<open>
  No id twice, every id below eight, and no two clients of one install: so a room never holds more than
  eight clients and a device never more than one of its places.
\<close>

definition room_ok :: "room \<Rightarrow> bool" where
  "room_ok r \<longleftrightarrow> distinct (map fst (rm_clients r)) \<and> (\<forall>i \<in> fst ` set (rm_clients r). i < 8)
     \<and> distinct (List.map_filter (rp_instance \<circ> snd) (rm_clients r)) \<and> rm_next_id r < 8"

lemma room_ok_default: "room_ok room_default"
  by (simp add: room_ok_def room_default_def map_filter_simps)

lemma slot_at_less: "slot_at n k < 8"
  by (simp add: slot_at_def MAX_CLIENTS_def word_less_nat_alt unsigned_of_nat take_bit_nat_eq_self)

lemma slots_are_all: "n < 8 \<Longrightarrow> i < 8 \<Longrightarrow> i \<in> set (map (slot_at n) [0..<MAX_CLIENTS])"
proof -
  assume n: "n < 8" and i: "i < (8 :: u8)"
  have un: "unat n < 8" and ui: "unat i < 8" using n i by (simp_all add: word_less_nat_alt)
  define k where "k = (unat i + 8 - unat n) mod 8"
  have "(unat n + k) mod 8 = unat i"
    using un ui by (simp add: k_def mod_add_right_eq)
  then have "slot_at n k = i" by (simp add: slot_at_def MAX_CLIENTS_def)
  moreover have "k < MAX_CLIENTS" by (simp add: k_def MAX_CLIENTS_def)
  ultimately show ?thesis by (force simp: image_iff)
qed

lemma free_slot:
  assumes "rm_next_id r < 8" "length (rm_clients r) < 8"
  shows "find (\<lambda>i. map_of (rm_clients r) i = None) (map (slot_at (rm_next_id r)) [0..<MAX_CLIENTS]) \<noteq> None"
proof
  assume "find (\<lambda>i. map_of (rm_clients r) i = None) (map (slot_at (rm_next_id r)) [0..<MAX_CLIENTS]) = None"
  then have "map_of (rm_clients r) i \<noteq> None" if "i < 8" for i
    using slots_are_all [OF assms(1) that] by (auto simp: find_None_iff)
  then have "i \<in> fst ` set (rm_clients r)" if "i < 8" for i
    using that by (simp add: map_of_eq_None_iff)
  then have "{0, 1, 2, 3, 4, 5, 6, 7} \<subseteq> fst ` set (rm_clients r)" by auto
  then have "card {0 :: u8, 1, 2, 3, 4, 5, 6, 7} \<le> card (fst ` set (rm_clients r))"
    by (rule card_mono [rotated]) simp
  moreover have "card (fst ` set (rm_clients r)) \<le> length (rm_clients r)"
    by (metis card_image_le card_length finite_set le_trans)
  ultimately show False using assms(2) by simp
qed

lemma alloc_id:
  assumes "room_ok r" "alloc_client_id cap r = (r1, out)"
  shows "out = Some i \<Longrightarrow> i < 8 \<and> map_of (rm_clients r) i = None"
    and "rm_clients r1 = rm_clients r \<and> rm_station r1 = rm_station r \<and> rm_next_id r1 < 8"
    and "out = None \<longleftrightarrow> min cap MAX_CLIENTS \<le> length (rm_clients r)"
proof -
  let ?find = "find (\<lambda>i. map_of (rm_clients r) i = None) (map (slot_at (rm_next_id r)) [0..<MAX_CLIENTS])"
  have cursor: "rm_next_id r < 8" using assms(1) by (simp add: room_ok_def)
  have less: "of_nat (n mod MAX_CLIENTS) < (8 :: u8)" for n
    by (simp add: MAX_CLIENTS_def word_less_nat_alt unsigned_of_nat take_bit_nat_eq_self)
  show "rm_clients r1 = rm_clients r \<and> rm_station r1 = rm_station r \<and> rm_next_id r1 < 8"
    using assms(2) cursor less by (auto simp: alloc_client_id_def Let_def split: if_splits option.splits)
  show "i < 8 \<and> map_of (rm_clients r) i = None" if "out = Some i"
    using assms(2) that slot_at_less
    by (auto simp: alloc_client_id_def Let_def find_Some_iff split: if_splits option.splits)
  show "out = None \<longleftrightarrow> min cap MAX_CLIENTS \<le> length (rm_clients r)"
  proof (cases "min cap MAX_CLIENTS \<le> length (rm_clients r)")
    case False
    then have "length (rm_clients r) < 8" by (simp add: MAX_CLIENTS_def)
    then obtain j where "?find = Some j" using free_slot [OF cursor] by blast
    with False have "snd (alloc_client_id cap r) = Some j" by (simp add: alloc_client_id_def Let_def)
    with False assms(2) show ?thesis by simp
  qed (use assms(2) in \<open>simp add: alloc_client_id_def\<close>)
qed

lemma map_filter_update:
  "map_of xs i = None \<Longrightarrow> List.map_filter f (AList.update i p xs) = List.map_filter f xs @ List.map_filter f [(i, p)]"
  by (induction xs) (auto simp: map_filter_def)

lemma set_map_filter_subset: "set xs \<subseteq> set ys \<Longrightarrow> set (List.map_filter f xs) \<subseteq> set (List.map_filter f ys)"
  by (auto simp: map_filter_def)

lemma distinct_map_filter_delete:
  "distinct (List.map_filter f xs) \<Longrightarrow> distinct (List.map_filter f (AList.delete i xs))"
proof (induction xs)
  case (Cons x xs)
  have "set (List.map_filter f (AList.delete i xs)) \<subseteq> set (List.map_filter f xs)"
    by (rule set_map_filter_subset) (auto simp: AList.delete_eq)
  with Cons show ?case by (cases x) (auto simp: map_filter_simps split: option.splits)
qed simp

text \<open>Putting a peer of the same install in the place it had leaves the installs as they were.\<close>

lemma installs_replaced:
  assumes "(i, q) \<in> set xs" "distinct (map fst xs)" "rp_instance p = rp_instance q"
  shows "List.map_filter (rp_instance \<circ> snd) (AList.update i p xs) = List.map_filter (rp_instance \<circ> snd) xs"
  using assms
proof (induction xs)
  case (Cons x xs)
  obtain j y where x: "x = (j, y)" by (cases x)
  show ?case
  proof (cases "j = i")
    case True
    with Cons.prems x have "y = q" by (force simp: image_iff)
    with Cons.prems(3) True x show ?thesis by (simp add: map_filter_simps)
  next
    case False
    with Cons x show ?thesis by (auto simp: map_filter_simps split: option.split)
  qed
qed simp

lemma register_client_ok:
  assumes "room_ok r" "register_client cap p r = (r1, reg, out)"
  shows "room_ok r1" and "rm_station r1 = rm_station r"
    and "reg = RegClient i \<Longrightarrow> i < 8 \<and> map_of (rm_clients r1) i = Some p"
    and "reg \<noteq> RegStation"
    and "reg = RegFull \<Longrightarrow> rm_clients r1 = rm_clients r \<and> min cap MAX_CLIENTS \<le> length (rm_clients r)"
proof -
  let ?mine = "if rp_instance p = None then None else find (\<lambda>(_, q). rp_instance q = rp_instance p) (rm_clients r)"
  have "room_ok r1 \<and> rm_station r1 = rm_station r \<and> (\<forall>i. reg = RegClient i \<longrightarrow> i < 8 \<and> map_of (rm_clients r1) i = Some p)
      \<and> reg \<noteq> RegStation \<and> (reg = RegFull \<longrightarrow> rm_clients r1 = rm_clients r \<and> min cap MAX_CLIENTS \<le> length (rm_clients r))"
  proof (cases ?mine)
    case (Some x)
    obtain i q where x: "x = (i, q)" by (cases x)
    have q: "(i, q) \<in> set (rm_clients r)" "rp_instance q = rp_instance p"
      using Some by (auto simp: x find_Some_iff split: if_splits) (metis nth_mem)
    have r1: "r1 = r\<lparr>rm_clients := AList.update i p (rm_clients r)\<rparr>" "reg = RegClient i"
      using assms(2) Some by (auto simp: register_client_def x)
    have keys: "i \<in> fst ` set (rm_clients r)" using q(1) by force
    with assms(1) q r1 installs_replaced [OF q(1), of p] show ?thesis
      by (auto simp: room_ok_def distinct_update update_conv' dom_update)
  next
    case None
    obtain r2 out2 where al: "alloc_client_id cap r = (r2, out2)" by fastforce
    note a = alloc_id [OF assms(1) al]
    have new: "rp_instance p = None \<or> rp_instance p \<notin> rp_instance ` snd ` set (rm_clients r)"
      using None by (force simp: find_None_iff split: if_splits)
    show ?thesis
    proof (cases out2)
      case (Some i)
      have i: "i < 8" "map_of (rm_clients r) i = None" using a(1) Some by auto
      have r1: "r1 = r2\<lparr>rm_clients := AList.update i p (rm_clients r2)\<rparr>" "reg = RegClient i"
        using assms(2) None al Some by (auto simp: register_client_def)
      have r2: "rm_clients r2 = rm_clients r" "rm_station r2 = rm_station r" "rm_next_id r2 < 8"
        using a(2) by simp_all
      have "distinct (List.map_filter (rp_instance \<circ> snd) (AList.update i p (rm_clients r)))"
        using assms(1) new unfolding map_filter_update [OF i(2)] room_ok_def
        by (cases "rp_instance p") (auto simp: map_filter_def image_iff)
      with assms(1) i r1 r2 show ?thesis
        by (auto simp: room_ok_def distinct_update update_conv' dom_update)
    next
      case None2: None
      with assms(2) None al have "r1 = r2" "reg = RegFull" by (auto simp: register_client_def)
      with a None2 assms(1) show ?thesis
        by (auto simp: room_ok_def alloc_client_id_def)
    qed
  qed
  then show "room_ok r1" "rm_station r1 = rm_station r"
    "reg = RegClient i \<Longrightarrow> i < 8 \<and> map_of (rm_clients r1) i = Some p" "reg \<noteq> RegStation"
    "reg = RegFull \<Longrightarrow> rm_clients r1 = rm_clients r \<and> min cap MAX_CLIENTS \<le> length (rm_clients r)" by auto
qed

lemma in_delete: "x \<in> set (AList.delete i xs) \<Longrightarrow> x \<in> set xs"
  by (simp add: AList.delete_eq)

lemma unregister_ok: "room_ok r \<Longrightarrow> room_ok (unregister_from role i chan r)"
  by (auto simp: unregister_from_def room_ok_def distinct_map_filter_delete distinct_delete
      split: peer_role.split option.split dest!: in_delete)

end
