(* ===== verification/RelayTokens.thy ===== *)
theory RelayTokens
  imports RelayRooms
begin

text \<open>
  The relay's UDP tokens and the relay as a whole (\<^verbatim>\<open>thetislink-relay/src/main.rs\<close>): one event is one
  step some connection's task or the UDP task does under a lock, so that every interleaving of
  connections coming, rotating their tokens and leaving is a run.

  A token is its 32 bytes; the table the code keeps under the hexadecimal text is keyed by the bytes.
  \<^verbatim>\<open>gen_udp_token\<close> (the operating system's random numbers) and the chat's ticket are arguments of the
  events.
\<close>

section \<open>Tokens\<close>

definition UDP_TOKEN_TTL :: duration where "UDP_TOKEN_TTL = secs (30 * 60)"
definition UDP_TOKEN_OVERLAP :: duration where "UDP_TOKEN_OVERLAP = secs 60"
definition UDP_REPLAY_WINDOW :: u32 where "UDP_REPLAY_WINDOW = 512"

type_synonym udp_token = "u8 list"

record udp_session =
  us_room_key :: string
  us_client_id :: "u8 option"
  us_role :: peer_role
  us_conn :: nat
  us_expires_at :: instant
  us_src :: "socket_addr option"
  us_last_seq :: "u32 option"
  us_seen_tx :: bool

type_synonym token_table = "(udp_token \<times> udp_session) list"

definition udp_state_of :: "token_table \<Rightarrow> nat \<Rightarrow> bool option" where
  "udp_state_of toks conn =
     (let mine = filter (\<lambda>(_, s). us_conn s = conn) toks
      in if list_ex (\<lambda>(_, s). us_src s \<noteq> None) mine then Some True else if mine \<noteq> [] then Some False else None)"

definition revoke_tokens_of :: "nat \<Rightarrow> token_table \<Rightarrow> token_table" where
  "revoke_tokens_of conn toks = filter (\<lambda>(_, s). us_conn s \<noteq> conn) toks"

definition same_slot :: "udp_session \<Rightarrow> string \<Rightarrow> peer_role \<Rightarrow> u8 option \<Rightarrow> bool" where
  "same_slot s key role client_id \<longleftrightarrow>
     us_room_key s = key \<and> us_role s = role \<and> (role = StationRole \<or> us_client_id s = client_id)"

definition revoke_superseded :: "string \<Rightarrow> peer_role \<Rightarrow> u8 option \<Rightarrow> nat \<Rightarrow> token_table \<Rightarrow> token_table" where
  "revoke_superseded key role client_id newer_conn toks =
     filter (\<lambda>(_, s). \<not> (same_slot s key role client_id \<and> us_conn s < newer_conn)) toks"

text \<open>\<^verbatim>\<open>Iterator::max_by_key\<close>: the last of the greatest.\<close>

fun max_by_key :: "('a \<Rightarrow> 'k::linorder) \<Rightarrow> 'a list \<Rightarrow> 'a option" where
  "max_by_key f [] = None"
| "max_by_key f (x # xs) =
     (case max_by_key f xs of None \<Rightarrow> Some x | Some y \<Rightarrow> if f x \<le> f y then Some y else Some x)"

definition udp_target :: "token_table \<Rightarrow> string \<Rightarrow> peer_role \<Rightarrow> u8 option \<Rightarrow> udp_session option" where
  "udp_target toks key role client_id =
     max_by_key (\<lambda>s. (us_conn s, us_src s \<noteq> None, us_expires_at s))
       (filter (\<lambda>s. same_slot s key role client_id) (map snd toks))"

definition seq_before :: "u32 \<Rightarrow> u32 \<Rightarrow> bool" where
  "seq_before a b \<longleftrightarrow> 0x80000000 < a - b"

definition seq_ok :: "u32 option \<Rightarrow> u32 \<Rightarrow> bool" where
  "seq_ok last_seq seq =
     (case last_seq of
        None \<Rightarrow> True
      | Some l \<Rightarrow> if seq = l then False
                  else if seq_before l seq then True
                  else l - seq \<le> UDP_REPLAY_WINDOW)"

definition parse_tlu1 :: "u8 list \<Rightarrow> (u8 \<times> u32 \<times> udp_token \<times> u8 list) option" where
  "parse_tlu1 data =
     (if length data < TLU1_HEADER_LEN \<or> take 4 data \<noteq> TLU1_MAGIC \<or> data ! 4 \<noteq> TLU1_VERSION then None
      else Some (data ! 6, u32_be (data ! 10) (data ! 9) (data ! 8) (data ! 7),
                 take TLU1_TOKEN_LEN (drop 11 data), drop TLU1_HEADER_LEN data))"

definition live_tokens :: "instant \<Rightarrow> token_table \<Rightarrow> token_table" where
  "live_tokens now toks = filter (\<lambda>(_, s). now < us_expires_at s) toks"

definition token_accepts :: "instant \<Rightarrow> socket_addr \<Rightarrow> u32 \<Rightarrow> udp_session \<Rightarrow> bool" where
  "token_accepts now src seq s \<longleftrightarrow>
     now < us_expires_at s \<and> (case us_src s of None \<Rightarrow> True | Some bound \<Rightarrow> bound = src) \<and> seq_ok (us_last_seq s) seq"

definition note_datagram :: "socket_addr \<Rightarrow> u32 \<Rightarrow> udp_session \<Rightarrow> udp_session" where
  "note_datagram src seq s =
     s\<lparr>us_src := (case us_src s of None \<Rightarrow> Some src | Some b \<Rightarrow> Some b),
       us_last_seq := (case us_last_seq s of
          None \<Rightarrow> Some seq
        | Some l \<Rightarrow> if seq_before l seq then Some seq else Some l)\<rparr>"

text \<open>
  What one datagram does: the table, the counters, the one datagram sent on, and the lines to peers. An
  address is written as IPv4.
\<close>

fun decimal_text :: "nat \<Rightarrow> string" where
  "decimal_text n = (if n < 10 then [char_of (48 + n)] else decimal_text (n div 10) @ [char_of (48 + n mod 10)])"

declare decimal_text.simps [simp del]

definition addr_text :: "socket_addr \<Rightarrow> string" where
  "addr_text a = decimal_text (sa_ip a div 2 ^ 24) @ ''.'' @ decimal_text (sa_ip a div 2 ^ 16 mod 256) @ ''.''
     @ decimal_text (sa_ip a div 2 ^ 8 mod 256) @ ''.'' @ decimal_text (sa_ip a mod 256) @ '':'' @ decimal_text (sa_port a)"

definition seen_line :: "socket_addr \<Rightarrow> u8 list" where
  "seen_line src = ascii (''udp-seen '' @ addr_text src)"

definition serve_datagram ::
    "instant \<Rightarrow> socket_addr \<Rightarrow> u8 list \<Rightarrow> token_table \<Rightarrow> (nat \<Rightarrow> nat)
      \<Rightarrow> token_table \<times> (nat \<Rightarrow> nat) \<times> (socket_addr \<times> u8 list) option \<times> outgoing" where
  "serve_datagram now src data toks bytes =
     (case parse_tlu1 data of
        None \<Rightarrow> (toks, bytes, None, [])
      | Some (target_client_id, seq, token, payload) \<Rightarrow>
          (case map_of toks token of
             None \<Rightarrow> (toks, bytes, None, [])
           | Some s \<Rightarrow>
               if \<not> token_accepts now src seq s then (toks, bytes, None, [])
               else (let told = (if us_src s = None \<and> us_seen_tx s then [(us_conn s, RText (seen_line src))] else []);
                         toks = AList.update token (note_datagram src seq s) toks;
                         (dst, cid, counter) = (case us_role s of
                             ClientRole \<Rightarrow>
                               (Option.bind (udp_target toks (us_room_key s) StationRole None) us_src,
                                (case us_client_id s of None \<Rightarrow> 0 | Some i \<Rightarrow> i), Some (us_conn s))
                           | StationRole \<Rightarrow>
                               (let target = udp_target toks (us_room_key s) ClientRole (Some target_client_id)
                                in (Option.bind target us_src, target_client_id, map_option us_conn target)))
                     in (case dst of
                           None \<Rightarrow> (toks, bytes, None, told)
                         | Some d \<Rightarrow>
                             (toks,
                              (case counter of None \<Rightarrow> bytes | Some c \<Rightarrow> bytes(c := bytes c + length data)),
                              Some (d, cid # payload), told)))))"

section \<open>The relay\<close>

datatype conn_phase = Entered | Open | Left

record relay_conn =
  cn_key :: string
  cn_role :: peer_role
  cn_client_id :: "u8 option"
  cn_quic :: bool
  cn_token :: udp_token
  cn_phase :: conn_phase

record relay =
  rl_rooms :: rooms
  rl_next_conn :: nat
  rl_tokens :: token_table
  rl_bytes :: "nat \<Rightarrow> nat"
  rl_conns :: "nat \<Rightarrow> relay_conn option"

definition relay_start :: relay where
  "relay_start = \<lparr>rl_rooms = Map.empty, rl_next_conn = 1, rl_tokens = [], rl_bytes = (\<lambda>_. 0), rl_conns = Map.empty\<rparr>"

definition new_session :: "instant \<Rightarrow> nat \<Rightarrow> relay_conn \<Rightarrow> udp_session" where
  "new_session now conn c =
     \<lparr>us_room_key = cn_key c, us_client_id = cn_client_id c, us_role = cn_role c, us_conn = conn,
      us_expires_at = now + UDP_TOKEN_TTL, us_src = None, us_last_seq = None, us_seen_tx = cn_quic c\<rparr>"

definition enter :: "string \<Rightarrow> peer_role \<Rightarrow> string option \<Rightarrow> nat \<Rightarrow> bool \<Rightarrow> relay \<Rightarrow> relay \<times> outgoing" where
  "enter key role inst client_cap quic s =
     (let conn = rl_next_conn s;
          (rooms, reg, out) = register_peer key role conn inst client_cap (rl_rooms s);
          s = s\<lparr>rl_rooms := rooms, rl_next_conn := conn + 1\<rparr>;
          add = (\<lambda>i. s\<lparr>rl_conns := (rl_conns s)(conn \<mapsto>
            \<lparr>cn_key = key, cn_role = role, cn_client_id = i, cn_quic = quic, cn_token = [], cn_phase = Entered\<rparr>)\<rparr>)
      in (case reg of
            RegFull \<Rightarrow> (s, [(conn, RText (ascii ''ERR relay full''))])
          | RegStation \<Rightarrow> (add None, out)
          | RegClient i \<Rightarrow> (add (Some i), out)))"

definition issue_token :: "instant \<Rightarrow> nat \<Rightarrow> udp_token \<Rightarrow> u8 list \<Rightarrow> relay \<Rightarrow> relay \<times> outgoing" where
  "issue_token now conn token ready s =
     (case rl_conns s conn of
        None \<Rightarrow> (s, [])
      | Some c \<Rightarrow>
          if cn_phase c \<noteq> Entered then (s, [])
          else (s\<lparr>rl_tokens := revoke_superseded (cn_key c) (cn_role c) (cn_client_id c) conn
                     (AList.update token (new_session now conn c) (live_tokens now (rl_tokens s))),
                  rl_conns := (rl_conns s)(conn \<mapsto> c\<lparr>cn_token := token, cn_phase := Open\<rparr>)\<rparr>,
                [(conn, RText ready)]))"

definition shorten :: "instant \<Rightarrow> udp_token \<Rightarrow> token_table \<Rightarrow> token_table" where
  "shorten overlap token toks =
     (case map_of toks token of
        None \<Rightarrow> toks
      | Some old \<Rightarrow> if overlap < us_expires_at old then AList.update token (old\<lparr>us_expires_at := overlap\<rparr>) toks else toks)"

definition rotate_token :: "instant \<Rightarrow> nat \<Rightarrow> udp_token \<Rightarrow> u8 list \<Rightarrow> relay \<Rightarrow> relay \<times> outgoing" where
  "rotate_token now conn token line s =
     (case rl_conns s conn of
        None \<Rightarrow> (s, [])
      | Some c \<Rightarrow>
          if cn_phase c \<noteq> Open then (s, [])
          else (s\<lparr>rl_tokens := AList.update token (new_session now conn c)
                     (shorten (now + UDP_TOKEN_OVERLAP) (cn_token c) (live_tokens now (rl_tokens s))),
                  rl_conns := (rl_conns s)(conn \<mapsto> c\<lparr>cn_token := token\<rparr>)\<rparr>,
                [(conn, RText line)]))"

definition from_peer :: "nat \<Rightarrow> relay_message \<Rightarrow> relay \<Rightarrow> relay \<times> outgoing" where
  "from_peer conn m s =
     (case rl_conns s conn of
        None \<Rightarrow> (s, [])
      | Some c \<Rightarrow>
          if cn_phase c \<noteq> Open then (s, [])
          else (case m of
              RText _ \<Rightarrow> (let (bytes, out) = route_message (cn_key c) (cn_role c) (cn_client_id c) conn m (rl_rooms s) (rl_bytes s)
                        in (s\<lparr>rl_bytes := bytes\<rparr>, out))
            | RBinary _ \<Rightarrow> (let (bytes, out) = route_message (cn_key c) (cn_role c) (cn_client_id c) conn m (rl_rooms s) (rl_bytes s)
                        in (s\<lparr>rl_bytes := bytes\<rparr>, out))
            | RPing \<Rightarrow> (s, [(conn, RPong)])
            | _ \<Rightarrow> (s, [])))"

definition leave :: "nat \<Rightarrow> relay \<Rightarrow> relay" where
  "leave conn s =
     (case rl_conns s conn of
        None \<Rightarrow> s
      | Some c \<Rightarrow>
          if cn_phase c \<noteq> Open then s
          else s\<lparr>rl_rooms := unregister_peer (cn_key c) (cn_role c) (cn_client_id c) conn (rl_rooms s),
                 rl_conns := (rl_conns s)(conn \<mapsto> c\<lparr>cn_phase := Left\<rparr>)\<rparr>)"

definition revoke :: "nat \<Rightarrow> relay \<Rightarrow> relay" where
  "revoke conn s =
     (case rl_conns s conn of
        None \<Rightarrow> s
      | Some c \<Rightarrow>
          if cn_phase c \<noteq> Left then s
          else s\<lparr>rl_tokens := revoke_tokens_of conn (rl_tokens s), rl_bytes := (rl_bytes s)(conn := 0),
                 rl_conns := (rl_conns s)(conn := None)\<rparr>)"

datatype relay_event =
    Enter string peer_role "string option" nat bool
  | IssueToken instant nat udp_token "u8 list"
  | RotateToken instant nat udp_token "u8 list"
  | FromPeer nat relay_message
  | Leave nat
  | Revoke nat
  | Datagram instant socket_addr "u8 list"
  | Kick string string

record relay_sent =
  se_messages :: outgoing
  se_datagram :: "(socket_addr \<times> u8 list) option"

abbreviation (input) said :: "outgoing \<Rightarrow> relay_sent" where
  "said out \<equiv> \<lparr>se_messages = out, se_datagram = None\<rparr>"

fun relay_step :: "relay_event \<Rightarrow> relay \<Rightarrow> relay \<times> relay_sent" where
  "relay_step (Enter key role inst cap quic) s = apsnd said (enter key role inst cap quic s)"
| "relay_step (IssueToken now conn token ready) s = apsnd said (issue_token now conn token ready s)"
| "relay_step (RotateToken now conn token line) s = apsnd said (rotate_token now conn token line s)"
| "relay_step (FromPeer conn m) s = apsnd said (from_peer conn m s)"
| "relay_step (Leave conn) s = (leave conn s, said [])"
| "relay_step (Revoke conn) s = (revoke conn s, said [])"
| "relay_step (Datagram now src data) s =
     (let (toks, bytes, sent, told) = serve_datagram now src data (rl_tokens s) (rl_bytes s)
      in (s\<lparr>rl_tokens := toks, rl_bytes := bytes\<rparr>, \<lparr>se_messages = told, se_datagram = sent\<rparr>))"
| "relay_step (Kick key install_id) s = (s, said (kick_device key install_id (rl_rooms s)))"

definition relay_run :: "relay_event list \<Rightarrow> relay" where
  "relay_run es = fold (\<lambda>e. fst \<circ> relay_step e) es relay_start"

lemma relay_run_simps [simp]:
  "relay_run [] = relay_start" "relay_run (es @ [e]) = fst (relay_step e (relay_run es))"
  by (simp_all add: relay_run_def)

section \<open>What every run keeps\<close>

text \<open>
  Whoever stands in a room is a connection that entered that room, in that part, with that number, and has
  not left; and every token belongs to a connection that has not gone, with the same room, part and
  number.
\<close>

definition stands :: "(nat \<Rightarrow> relay_conn option) \<Rightarrow> string \<Rightarrow> peer_role \<Rightarrow> u8 option \<Rightarrow> nat \<Rightarrow> bool" where
  "stands conns key role i n \<longleftrightarrow>
     (\<exists>c. conns n = Some c \<and> cn_key c = key \<and> cn_role c = role \<and> cn_client_id c = i \<and> cn_phase c \<noteq> Left)"

definition room_stands :: "(nat \<Rightarrow> relay_conn option) \<Rightarrow> string \<Rightarrow> room \<Rightarrow> bool" where
  "room_stands conns key r \<longleftrightarrow> room_ok r
     \<and> (\<forall>p. rm_station r = Some p \<longrightarrow> stands conns key StationRole None (rp_chan p))
     \<and> (\<forall>(i, p) \<in> set (rm_clients r). stands conns key ClientRole (Some i) (rp_chan p))"

definition token_stands :: "(nat \<Rightarrow> relay_conn option) \<Rightarrow> udp_session \<Rightarrow> bool" where
  "token_stands conns u \<longleftrightarrow> (\<exists>c. conns (us_conn u) = Some c \<and> cn_key c = us_room_key u \<and> cn_role c = us_role u
     \<and> cn_client_id c = us_client_id u)"

definition relay_ok :: "relay \<Rightarrow> bool" where
  "relay_ok s \<longleftrightarrow> (\<forall>key r. rl_rooms s key = Some r \<longrightarrow> room_stands (rl_conns s) key r)
     \<and> (\<forall>u \<in> snd ` set (rl_tokens s). token_stands (rl_conns s) u)
     \<and> (\<forall>n. rl_conns s n \<noteq> None \<longrightarrow> n < rl_next_conn s)"

lemma relay_ok_start: "relay_ok relay_start"
  by (simp add: relay_ok_def relay_start_def)

lemma room_stands_mono:
  "room_stands conns key r \<Longrightarrow> (\<And>role i n. stands conns key role i n \<Longrightarrow> stands conns' key role i n)
   \<Longrightarrow> room_stands conns' key r"
  by (fastforce simp: room_stands_def)

lemma stands_fresh: "stands conns key role i n \<Longrightarrow> conns m = None \<Longrightarrow> stands (conns(m \<mapsto> c)) key role i n"
  by (auto simp: stands_def)

lemma set_update_subset: "set (AList.update k v xs) \<subseteq> insert (k, v) (set xs)"
  by (induction xs) auto

lemma register_client_members:
  assumes "register_client cap p r = (r1, reg, out)"
  shows "set (rm_clients r1) \<subseteq> set (rm_clients r) \<union> (case reg of RegClient i \<Rightarrow> {(i, p)} | _ \<Rightarrow> {})"
  using assms set_update_subset
  by (fastforce simp: register_client_def alloc_client_id_def Let_def split: option.splits if_splits prod.splits)

lemma enter_ok:
  assumes "relay_ok s" shows "relay_ok (fst (enter key role inst cap quic s))"
proof -
  let ?n = "rl_next_conn s" and ?p = "\<lparr>rp_chan = rl_next_conn s, rp_instance = inst\<rparr>" and ?r = "room_or_new (rl_rooms s) key"
  have fresh: "rl_conns s ?n = None" using assms unfolding relay_ok_def by blast
  have r: "room_stands (rl_conns s) key ?r"
    using assms room_ok_default
    by (auto simp: relay_ok_def room_or_new_def room_stands_def room_default_def split: option.split)
  note keep = stands_fresh [where conns = "rl_conns s" and m = "rl_next_conn s", OF _ fresh]
  show ?thesis
  proof (cases role)
    case StationRole
    let ?c = "\<lparr>cn_key = key, cn_role = role, cn_client_id = None, cn_quic = quic, cn_token = [], cn_phase = Entered\<rparr>"
    let ?conns = "(rl_conns s)(?n \<mapsto> ?c)"
    have "room_stands ?conns key (?r\<lparr>rm_station := Some ?p\<rparr>)"
      using r keep [where c = ?c] StationRole by (fastforce simp: room_stands_def room_ok_def stands_def)
    moreover have "room_stands ?conns k r'" if "rl_rooms s k = Some r'" for k r'
      using assms that by (auto simp: relay_ok_def intro: room_stands_mono keep)
    ultimately show ?thesis
      using assms fresh StationRole
      by (auto simp: relay_ok_def enter_def register_peer_def register_station_def token_stands_def Let_def less_Suc_eq)
  next
    case ClientRole
    obtain r1 reg out where reg: "register_client cap ?p ?r = (r1, reg, out)" by (cases "register_client cap ?p ?r")
    have ok: "room_ok ?r" using r by (simp add: room_stands_def)
    note eff = register_client_ok [OF ok reg] register_client_members [OF reg]
    define conns where "conns = (case reg of RegClient i \<Rightarrow> (rl_conns s)(?n \<mapsto>
      \<lparr>cn_key = key, cn_role = role, cn_client_id = Some i, cn_quic = quic, cn_token = [], cn_phase = Entered\<rparr>) | _ \<Rightarrow> rl_conns s)"
    have keep': "stands (rl_conns s) k ro i n \<Longrightarrow> stands conns k ro i n" for k ro i n
      using keep by (auto simp: conns_def split: registration.split)
    have mine: "stands conns key ClientRole (Some i) ?n" if "reg = RegClient i" for i
      using that ClientRole by (simp add: conns_def stands_def)
    have new: "room_stands conns key r1"
      unfolding room_stands_def
    proof (intro conjI ballI allI impI)
      show "room_ok r1" by (rule eff(1))
      show "stands conns key StationRole None (rp_chan q)" if "rm_station r1 = Some q" for q
        using that r eff(2) keep' by (simp add: room_stands_def)
      show "case x of (i, q) \<Rightarrow> stands conns key ClientRole (Some i) (rp_chan q)" if "x \<in> set (rm_clients r1)" for x
      proof (cases "x \<in> set (rm_clients ?r)")
        case True
        with r keep' show ?thesis by (fastforce simp: room_stands_def)
      next
        case False
        with that eff(6) obtain i where "reg = RegClient i" "x = (i, ?p)"
          by (auto split: registration.splits)
        with mine show ?thesis by simp
      qed
    qed
    have s1: "fst (enter key role inst cap quic s) = s\<lparr>rl_rooms := (rl_rooms s)(key \<mapsto> r1), rl_next_conn := ?n + 1, rl_conns := conns\<rparr>"
      using reg ClientRole eff(4) by (auto simp: enter_def register_peer_def conns_def Let_def split: registration.split)
    have tok: "token_stands conns u" if "token_stands (rl_conns s) u" for u
      using that fresh by (auto simp: conns_def token_stands_def split: registration.split)
    have lt: "n < Suc ?n" if "conns n \<noteq> None" for n
      using that assms by (auto simp: conns_def relay_ok_def less_Suc_eq split: registration.splits if_splits)
    have others: "room_stands conns k r'" if "rl_rooms s k = Some r'" for k r'
    proof (rule room_stands_mono)
      show "room_stands (rl_conns s) k r'" using assms that by (simp add: relay_ok_def)
    qed (rule keep')
    show ?thesis
      unfolding s1 using assms new tok lt others by (auto simp: relay_ok_def)
  qed
qed

lemma token_table_sub:
  "snd ` set toks \<subseteq> A \<Longrightarrow> snd ` set (live_tokens now toks) \<subseteq> A"
  "snd ` set toks \<subseteq> A \<Longrightarrow> snd ` set (revoke_superseded key role i n toks) \<subseteq> A"
  "snd ` set toks \<subseteq> A \<Longrightarrow> u \<in> A \<Longrightarrow> snd ` set (AList.update t u toks) \<subseteq> A"
  using set_update_subset [of t u toks]
  by (auto simp: live_tokens_def revoke_superseded_def) (blast dest: image_eqI [of _ snd, OF snd_conv [symmetric]])

lemma map_of_sub: "map_of toks t = Some u \<Longrightarrow> snd ` set toks \<subseteq> A \<Longrightarrow> u \<in> A"
  by (force dest: map_of_SomeD)

definition tokens_stand :: "(nat \<Rightarrow> relay_conn option) \<Rightarrow> token_table \<Rightarrow> bool" where
  "tokens_stand conns toks \<longleftrightarrow> snd ` set toks \<subseteq> {u. token_stands conns u}"

lemma tokens_standI [intro]:
  "tokens_stand conns toks \<Longrightarrow> tokens_stand conns (live_tokens now toks)"
  "tokens_stand conns toks \<Longrightarrow> tokens_stand conns (revoke_superseded key role i n toks)"
  "tokens_stand conns toks \<Longrightarrow> token_stands conns u \<Longrightarrow> tokens_stand conns (AList.update t u toks)"
  unfolding tokens_stand_def by (rule token_table_sub; simp)+

lemma shorten_stands: "tokens_stand conns toks \<Longrightarrow> tokens_stand conns (shorten overlap t toks)"
proof (cases "map_of toks t")
  case (Some u)
  assume t: "tokens_stand conns toks"
  with Some have "token_stands conns u" by (auto simp: tokens_stand_def dest: map_of_sub)
  then have "token_stands conns (u\<lparr>us_expires_at := overlap\<rparr>)" by (simp add: token_stands_def)
  with t Some show ?thesis by (auto simp: shorten_def)
qed (simp add: shorten_def)

lemma new_session_stands: "conns n = Some c \<Longrightarrow> token_stands conns (new_session now n c)"
  by (simp add: token_stands_def new_session_def)

text \<open>A change of a connection's own record that keeps its room, part and number.\<close>

lemma conns_update:
  assumes "conns n = Some c" "cn_key c' = cn_key c" "cn_role c' = cn_role c" "cn_client_id c' = cn_client_id c"
  shows "tokens_stand conns toks \<Longrightarrow> tokens_stand (conns(n \<mapsto> c')) toks"
    and "cn_phase c' \<noteq> Left \<Longrightarrow> stands conns key role i m \<Longrightarrow> stands (conns(n \<mapsto> c')) key role i m"
  using assms by (auto simp: tokens_stand_def token_stands_def stands_def)

lemma relay_okD:
  assumes "relay_ok s"
  shows "rl_rooms s key = Some r \<Longrightarrow> room_stands (rl_conns s) key r"
    and "tokens_stand (rl_conns s) (rl_tokens s)"
    and "rl_conns s n \<noteq> None \<Longrightarrow> n < rl_next_conn s"
  using assms by (auto simp: relay_ok_def tokens_stand_def)

lemma relay_okI:
  assumes "\<And>key r. rl_rooms s key = Some r \<Longrightarrow> room_stands (rl_conns s) key r"
    and "tokens_stand (rl_conns s) (rl_tokens s)" and "\<And>n. rl_conns s n \<noteq> None \<Longrightarrow> n < rl_next_conn s"
  shows "relay_ok s"
  using assms by (auto simp: relay_ok_def tokens_stand_def)

lemma conn_changed:
  assumes "relay_ok s" "rl_conns s n = Some c"
    and "cn_key c' = cn_key c" "cn_role c' = cn_role c" "cn_client_id c' = cn_client_id c" "cn_phase c' \<noteq> Left"
    and "tokens_stand (rl_conns s) toks"
  shows "relay_ok (s\<lparr>rl_tokens := toks, rl_conns := (rl_conns s)(n \<mapsto> c')\<rparr>)"
proof (rule relay_okI)
  note upd = conns_update [of "rl_conns s" n c c', OF assms(2-5)]
  fix key r assume "rl_rooms (s\<lparr>rl_tokens := toks, rl_conns := (rl_conns s)(n \<mapsto> c')\<rparr>) key = Some r"
  then have "room_stands (rl_conns s) key r" using relay_okD(1) [OF assms(1)] by simp
  then show "room_stands (rl_conns (s\<lparr>rl_tokens := toks, rl_conns := (rl_conns s)(n \<mapsto> c')\<rparr>)) key r"
    using upd(2) [OF assms(6)] by (auto intro: room_stands_mono)
next
  show "tokens_stand (rl_conns (s\<lparr>rl_tokens := toks, rl_conns := (rl_conns s)(n \<mapsto> c')\<rparr>))
      (rl_tokens (s\<lparr>rl_tokens := toks, rl_conns := (rl_conns s)(n \<mapsto> c')\<rparr>))"
    using conns_update(1) [of "rl_conns s" n c c', OF assms(2-5,7)] by simp
next
  fix m assume "rl_conns (s\<lparr>rl_tokens := toks, rl_conns := (rl_conns s)(n \<mapsto> c')\<rparr>) m \<noteq> None"
  then have "rl_conns s m \<noteq> None" using assms(2) by (auto split: if_splits)
  then show "m < rl_next_conn (s\<lparr>rl_tokens := toks, rl_conns := (rl_conns s)(n \<mapsto> c')\<rparr>)"
    using relay_okD(3) [OF assms(1)] by simp
qed

lemma issue_ok: "relay_ok s \<Longrightarrow> relay_ok (fst (issue_token now n t ready s))"
proof (cases "rl_conns s n")
  case (Some c)
  assume ok: "relay_ok s"
  have "tokens_stand (rl_conns s) (revoke_superseded (cn_key c) (cn_role c) (cn_client_id c) n
      (AList.update t (new_session now n c) (live_tokens now (rl_tokens s))))"
    using relay_okD(2) [OF ok] new_session_stands [of "rl_conns s", OF Some] by blast
  then show ?thesis using ok conn_changed [OF ok Some] by (simp add: issue_token_def Some)
qed (simp add: issue_token_def)

lemma rotate_ok: "relay_ok s \<Longrightarrow> relay_ok (fst (rotate_token now n t line s))"
proof (cases "rl_conns s n")
  case (Some c)
  assume ok: "relay_ok s"
  have "tokens_stand (rl_conns s) (AList.update t (new_session now n c)
      (shorten (now + UDP_TOKEN_OVERLAP) (cn_token c) (live_tokens now (rl_tokens s))))"
    using relay_okD(2) [OF ok] new_session_stands [of "rl_conns s", OF Some] shorten_stands by blast
  then show ?thesis using ok conn_changed [OF ok Some, of "c\<lparr>cn_token := t\<rparr>"]
    by (simp add: rotate_token_def Some)
qed (simp add: rotate_token_def)

lemma from_peer_keeps: "fst (from_peer n m s) = s\<lparr>rl_bytes := rl_bytes (fst (from_peer n m s))\<rparr>"
  by (auto simp: from_peer_def split_beta Let_def split: option.split relay_message.split)

lemma from_peer_ok: "relay_ok s \<Longrightarrow> relay_ok (fst (from_peer n m s))"
  by (subst from_peer_keeps) (simp add: relay_ok_def)

text \<open>A connection that leaves is in no room after it: its place was its own, or somebody else's by then.\<close>

lemma stands_left:
  "stands conns key role i m \<Longrightarrow> m \<noteq> n \<Longrightarrow> stands (conns(n \<mapsto> c)) key role i m"
  by (auto simp: stands_def)

lemma unregister_members:
  "rm_station (unregister_from role i n r) = Some p \<Longrightarrow> rm_station r = Some p \<and> (role = StationRole \<longrightarrow> rp_chan p \<noteq> n)"
  "x \<in> set (rm_clients (unregister_from role i n r)) \<Longrightarrow> x \<in> set (rm_clients r)"
  by (auto simp: unregister_from_def split: peer_role.splits option.splits if_splits dest: in_delete)

lemma unregister_removes:
  assumes "distinct (map fst (rm_clients r))" "(i, p) \<in> set (rm_clients (unregister_from ClientRole (Some i) n r))"
  shows "rp_chan p \<noteq> n"
proof
  assume n: "rp_chan p = n"
  have "(i, p) \<in> set (rm_clients r)" using assms(2) by (rule unregister_members(2))
  then have "map_of (rm_clients r) i = Some p" using assms(1) by simp
  with n assms(2) show False by (auto simp: unregister_from_def AList.delete_eq)
qed

lemma leave_ok: "relay_ok s \<Longrightarrow> relay_ok (leave n s)"
proof (cases "\<exists>c. rl_conns s n = Some c \<and> cn_phase c = Open")
  case True
  assume ok: "relay_ok s"
  obtain c where c: "rl_conns s n = Some c" "cn_phase c = Open" using True by blast
  let ?c = "c\<lparr>cn_phase := Left\<rparr>" and ?un = "unregister_from (cn_role c) (cn_client_id c) n"
  have other: "room_stands ((rl_conns s)(n \<mapsto> ?c)) k r" if "rl_rooms s k = Some r" "k \<noteq> cn_key c" for k r
  proof -
    have "m \<noteq> n" if "stands (rl_conns s) k role i m" for role i m
      using that \<open>k \<noteq> cn_key c\<close> c by (auto simp: stands_def)
    then show ?thesis
      by (intro room_stands_mono [OF relay_okD(1) [OF ok that(1)]] stands_left) auto
  qed
  have own: "room_stands ((rl_conns s)(n \<mapsto> ?c)) (cn_key c) (?un r)" if "rl_rooms s (cn_key c) = Some r" for r
  proof -
    have r: "room_stands (rl_conns s) (cn_key c) r" using relay_okD(1) [OF ok that] .
    then have ok_r: "room_ok r" by (simp add: room_stands_def)
    show ?thesis unfolding room_stands_def
    proof (intro conjI allI impI ballI)
      show "room_ok (?un r)" by (rule unregister_ok [OF ok_r])
      show "stands ((rl_conns s)(n \<mapsto> ?c)) (cn_key c) StationRole None (rp_chan p)"
        if "rm_station (?un r) = Some p" for p
      proof -
        have "stands (rl_conns s) (cn_key c) StationRole None (rp_chan p)"
          using unregister_members(1) [OF that] r by (simp add: room_stands_def)
        moreover have "rp_chan p \<noteq> n"
          using calculation unregister_members(1) [OF that] c by (auto simp: stands_def)
        ultimately show ?thesis by (rule stands_left)
      qed
      show "case x of (i, p) \<Rightarrow> stands ((rl_conns s)(n \<mapsto> ?c)) (cn_key c) ClientRole (Some i) (rp_chan p)"
        if x: "x \<in> set (rm_clients (?un r))" for x
      proof -
        obtain i p where ip: "x = (i, p)" by (cases x)
        have st: "stands (rl_conns s) (cn_key c) ClientRole (Some i) (rp_chan p)"
          using unregister_members(2) [OF x] r by (auto simp: room_stands_def ip)
        have "rp_chan p \<noteq> n"
        proof
          assume n: "rp_chan p = n"
          with st c have "cn_role c = ClientRole" "cn_client_id c = Some i" by (auto simp: stands_def)
          with unregister_removes [of r i p n] x ok_r n show False by (simp add: ip room_ok_def)
        qed
        with st show ?thesis by (simp add: ip stands_left)
      qed
    qed
  qed
  have rooms: "room_stands ((rl_conns s)(n \<mapsto> ?c)) k r"
    if "unregister_peer (cn_key c) (cn_role c) (cn_client_id c) n (rl_rooms s) k = Some r" for k r
    using that own other by (cases "k = cn_key c") (auto simp: unregister_peer_def Let_def split: option.splits if_splits)
  have toks: "tokens_stand ((rl_conns s)(n \<mapsto> ?c)) (rl_tokens s)"
    using conns_update(1) [of "rl_conns s" n c ?c, OF c(1) _ _ _ relay_okD(2) [OF ok]] by simp
  have "m < rl_next_conn s" if "((rl_conns s)(n \<mapsto> ?c)) m \<noteq> None" for m
    using that relay_okD(3) [OF ok, of m] c by (auto split: if_splits)
  with rooms toks show ?thesis
    by (intro relay_okI) (auto simp: leave_def c)
qed (auto simp: leave_def split: option.split)

lemma revoke_ok: "relay_ok s \<Longrightarrow> relay_ok (revoke n s)"
proof (cases "\<exists>c. rl_conns s n = Some c \<and> cn_phase c = Left")
  case True
  assume ok: "relay_ok s"
  obtain c where c: "rl_conns s n = Some c" "cn_phase c = Left" using True by blast
  have "stands ((rl_conns s)(n := None)) k role i m" if "stands (rl_conns s) k role i m" for k role i m
    using that c by (auto simp: stands_def)
  then have "room_stands ((rl_conns s)(n := None)) k r" if "rl_rooms s k = Some r" for k r
    using relay_okD(1) [OF ok that] by (auto intro: room_stands_mono)
  moreover have "tokens_stand ((rl_conns s)(n := None)) (revoke_tokens_of n (rl_tokens s))"
    using relay_okD(2) [OF ok] by (auto simp: tokens_stand_def token_stands_def revoke_tokens_of_def)
  moreover have "m < rl_next_conn s" if "((rl_conns s)(n := None)) m \<noteq> None" for m
    using that relay_okD(3) [OF ok, of m] by (auto split: if_splits)
  ultimately show ?thesis by (intro relay_okI) (auto simp: revoke_def c)
qed (auto simp: revoke_def split: option.split)

lemma note_datagram_stands: "token_stands conns (note_datagram src seq u) = token_stands conns u"
  by (simp add: token_stands_def note_datagram_def)

lemma serve_datagram_stands:
  assumes "tokens_stand conns toks"
  shows "tokens_stand conns (fst (serve_datagram now src data toks bytes))"
proof (cases "parse_tlu1 data")
  case (Some x)
  obtain cid seq t payload where x: "x = (cid, seq, t, payload)" by (cases x)
  show ?thesis
  proof (cases "map_of toks t")
    case None
    with assms Some x show ?thesis by (simp add: serve_datagram_def)
  next
    case u: (Some u)
    have "token_stands conns u" using map_of_sub [OF u] assms by (auto simp: tokens_stand_def)
    then have "tokens_stand conns (AList.update t (note_datagram src seq u) toks)"
      using assms by (auto simp: note_datagram_stands)
    with assms show ?thesis
      by (auto simp: serve_datagram_def Some x u Let_def split: option.split peer_role.split prod.split)
  qed
qed (use assms in \<open>simp add: serve_datagram_def\<close>)

lemma relay_step_ok: "relay_ok s \<Longrightarrow> relay_ok (fst (relay_step e s))"
proof (cases e)
  case (Datagram now src data)
  assume ok: "relay_ok s"
  have "tokens_stand (rl_conns s) (fst (serve_datagram now src data (rl_tokens s) (rl_bytes s)))"
    by (rule serve_datagram_stands [OF relay_okD(2) [OF ok]])
  with ok Datagram show ?thesis
    using relay_okD(3) [OF ok] by (auto simp: split_beta Let_def intro!: relay_okI dest: relay_okD(1))
qed (auto simp: enter_ok issue_ok rotate_ok from_peer_ok leave_ok revoke_ok)

lemma relay_run_ok: "relay_ok (relay_run es)"
  by (induction es rule: rev_induct) (simp_all add: relay_ok_start relay_step_ok)

section \<open>Who hears whom\<close>

lemma map_of_room: "room_stands conns key r \<Longrightarrow> map_of (rm_clients r) i = Some p \<Longrightarrow> stands conns key ClientRole (Some i) (rp_chan p)"
  by (fastforce simp: room_stands_def dest: map_of_SomeD)

text \<open>C8. Rooms are closed to each other, and a client speaks for itself only: whatever a peer sends, in
  every reachable state, reaches only connections of its own room and of the other part - a client's frame
  its station, stamped with the number the relay gave that client; a station's tunnel frame the one client
  it names, everything else of a station its clients.\<close>

theorem frames_stay_in_the_room:
  assumes "(k, out) \<in> set (se_messages (snd (relay_step (FromPeer n m) (relay_run es))))" "out \<noteq> RPong"
  shows "\<exists>c d. rl_conns (relay_run es) n = Some c \<and> rl_conns (relay_run es) k = Some d \<and> cn_key d = cn_key c
    \<and> cn_role d \<noteq> cn_role c \<and> (\<forall>t. m = RText t \<longrightarrow> \<not> is_relay_line t)
    \<and> (cn_role c = ClientRole \<longrightarrow> out = stamp_if_tlt1 m (case cn_client_id c of None \<Rightarrow> 0 | Some i \<Rightarrow> i))
    \<and> (cn_role c = StationRole \<longrightarrow> out = m \<and> (\<forall>data. m = RBinary data \<and> is_tlt1 data \<longrightarrow> cn_client_id d = Some (data ! 5)))"
proof -
  let ?s = "relay_run es"
  obtain c where c: "rl_conns ?s n = Some c" "cn_phase c = Open"
    using assms(1) by (auto simp: from_peer_def split: option.splits if_splits)
  have sent: "(k, out) \<in> set (snd (route_message (cn_key c) (cn_role c) (cn_client_id c) n m (rl_rooms ?s) (rl_bytes ?s)))"
    using assms c by (auto simp: from_peer_def split_beta Let_def split: relay_message.splits)
  have room: "room_stands (rl_conns ?s) (cn_key c) r" if "rl_rooms ?s (cn_key c) = Some r" for r
    using relay_okD(1) [OF relay_run_ok that] .
  obtain r where r: "rl_rooms ?s (cn_key c) = Some r"
    using sent by (cases "rl_rooms ?s (cn_key c)")
      (auto simp: route_message_def split: if_splits peer_role.splits relay_message.splits)
  have plain: "\<forall>t. m = RText t \<longrightarrow> \<not> is_relay_line t" using sent by (auto simp: route_message_def)
  show ?thesis
  proof (cases "cn_role c")
    case ClientRole
    with sent r obtain p where p: "rm_station r = Some p" "k = rp_chan p"
      "out = stamp_if_tlt1 m (case cn_client_id c of None \<Rightarrow> 0 | Some i \<Rightarrow> i)"
      by (cases "rm_station r") (auto simp: route_message_def split: if_splits)
    then have "stands (rl_conns ?s) (cn_key c) StationRole None k" using room [OF r] by (auto simp: room_stands_def)
    with c p plain ClientRole show ?thesis by (auto simp: stands_def)
  next
    case StationRole
    show ?thesis
    proof (cases "\<exists>data. m = RBinary data \<and> is_tlt1 data")
      case True
      then obtain data where data: "m = RBinary data" "is_tlt1 data" by blast
      with sent StationRole r obtain p where p: "map_of (rm_clients r) (data ! 5) = Some p" "k = rp_chan p" "out = m"
        by (cases "map_of (rm_clients r) (data ! 5)") (auto simp: route_message_def)
      then have "stands (rl_conns ?s) (cn_key c) ClientRole (Some (data ! 5)) k" using room [OF r] map_of_room by blast
      with c p data StationRole show ?thesis by (auto simp: stands_def)
    next
      case False
      with sent StationRole r obtain i p where p: "(i, p) \<in> set (rm_clients r)" "k = rp_chan p" "out = m"
        by (auto simp: route_message_def split: if_splits relay_message.splits)
      then have "stands (rl_conns ?s) (cn_key c) ClientRole (Some i) k" using room [OF r] by (fastforce simp: room_stands_def)
      with c p plain False StationRole show ?thesis by (auto simp: stands_def)
    qed
  qed
qed

lemma max_by_key_None [simp]: "max_by_key f xs = None \<longleftrightarrow> xs = []"
  by (induction xs) (auto split: option.splits)

lemma max_by_key_Some: "max_by_key f xs = Some y \<Longrightarrow> y \<in> set xs \<and> (\<forall>x \<in> set xs. f x \<le> f y)"
proof (induction xs arbitrary: y)
  case (Cons x xs)
  then show ?case by (cases "max_by_key f xs") (auto split: if_splits)
qed simp

lemma udp_target_Some:
  assumes "udp_target toks key role i = Some u"
  shows "u \<in> snd ` set toks" "same_slot u key role i"
    and "v \<in> snd ` set toks \<Longrightarrow> same_slot v key role i \<Longrightarrow> us_conn v \<le> us_conn u"
  using max_by_key_Some [OF assms [unfolded udp_target_def]] by (auto simp: less_eq_prod_def less_prod_def)

lemma tokens_standD: "tokens_stand conns toks \<Longrightarrow> u \<in> snd ` set toks \<Longrightarrow> token_stands conns u"
  by (auto simp: tokens_stand_def)

text \<open>What is served: a datagram goes on only for an accepted token, to the place opposite.\<close>

lemma served_datagram:
  assumes "serve_datagram now src data toks bytes = (toks', bytes', Some (dst, out), told)"
  shows "\<exists>cid seq t payload u v. parse_tlu1 data = Some (cid, seq, t, payload)
    \<and> map_of toks t = Some u \<and> token_accepts now src seq u
    \<and> toks' = AList.update t (note_datagram src seq u) toks
    \<and> udp_target toks' (us_room_key u) (if us_role u = ClientRole then StationRole else ClientRole)
        (if us_role u = ClientRole then None else Some cid) = Some v \<and> us_src v = Some dst
    \<and> out = (if us_role u = ClientRole then case us_client_id u of None \<Rightarrow> 0 | Some i \<Rightarrow> i else cid) # payload"
  using assms
  by (fastforce simp: serve_datagram_def Let_def bind_eq_Some_conv split: option.splits if_splits peer_role.splits prod.splits)

text \<open>C9. No datagram crosses from one room to another: a datagram is sent on only for a token that is not
  expired and came from the address the token was first used from, to the address learned with a token of
  a connection in the same room and the other part; and the number in front of it is the client's own.\<close>

theorem datagrams_stay_in_the_room:
  assumes "se_datagram (snd (relay_step (Datagram now src data) (relay_run es))) = Some (dst, out)"
  shows "\<exists>cid seq t payload u v c d. parse_tlu1 data = Some (cid, seq, t, payload)
    \<and> map_of (rl_tokens (relay_run es)) t = Some u \<and> token_accepts now src seq u
    \<and> v \<in> snd ` set (rl_tokens (fst (relay_step (Datagram now src data) (relay_run es)))) \<and> us_src v = Some dst
    \<and> rl_conns (relay_run es) (us_conn u) = Some c \<and> rl_conns (relay_run es) (us_conn v) = Some d
    \<and> cn_key d = cn_key c \<and> cn_role d \<noteq> cn_role c
    \<and> out = (if cn_role c = ClientRole then case cn_client_id c of None \<Rightarrow> 0 | Some i \<Rightarrow> i else cid) # payload
    \<and> (cn_role c = StationRole \<longrightarrow> cn_client_id d = Some cid)"
proof -
  let ?s = "relay_run es" and ?toks = "rl_tokens (relay_run es)"
    and ?after = "rl_tokens (fst (relay_step (Datagram now src data) (relay_run es)))"
  obtain cid seq t payload u v where p: "parse_tlu1 data = Some (cid, seq, t, payload)"
      "map_of ?toks t = Some u" "token_accepts now src seq u"
      "?after = AList.update t (note_datagram src seq u) ?toks"
    and v: "udp_target ?after (us_room_key u) (if us_role u = ClientRole then StationRole else ClientRole)
        (if us_role u = ClientRole then None else Some cid) = Some v" "us_src v = Some dst"
      "out = (if us_role u = ClientRole then case us_client_id u of None \<Rightarrow> 0 | Some i \<Rightarrow> i else cid) # payload"
    using assms served_datagram [of now src data ?toks "rl_bytes ?s"]
    by (cases "serve_datagram now src data ?toks (rl_bytes ?s)") auto
  have stand: "tokens_stand (rl_conns ?s) ?toks" by (rule relay_okD(2) [OF relay_run_ok])
  then have us: "token_stands (rl_conns ?s) u" using map_of_sub [OF p(2)] by (auto simp: tokens_stand_def)
  have after: "tokens_stand (rl_conns ?s) ?after" using stand us p(4) by (auto simp: note_datagram_stands)
  obtain c where c: "rl_conns ?s (us_conn u) = Some c" "cn_key c = us_room_key u" "cn_role c = us_role u"
    "cn_client_id c = us_client_id u" using us by (auto simp: token_stands_def)
  note slot = udp_target_Some(1,2) [OF v(1)]
  obtain d where "rl_conns ?s (us_conn v) = Some d" "cn_key d = us_room_key v" "cn_role d = us_role v"
    "cn_client_id d = us_client_id v"
    using tokens_standD [OF after slot(1)] by (auto simp: token_stands_def)
  with slot v c have "v \<in> snd ` set ?after \<and> us_src v = Some dst \<and> rl_conns ?s (us_conn v) = Some d
      \<and> cn_key d = cn_key c \<and> cn_role d \<noteq> cn_role c
      \<and> out = (if cn_role c = ClientRole then case cn_client_id c of None \<Rightarrow> 0 | Some i \<Rightarrow> i else cid) # payload
      \<and> (cn_role c = StationRole \<longrightarrow> cn_client_id d = Some cid)"
    by (cases "us_role u") (auto simp: same_slot_def)
  with p(1-3) c(1) show ?thesis by blast
qed

text \<open>A small relay at work: a station and a client in one room, with their tokens, the station heard from.\<close>

definition token_of :: "u8 \<Rightarrow> udp_token" where
  "token_of b = replicate 32 b"

definition small_relay :: "relay_event list" where
  "small_relay = [Enter ''k'' StationRole None 8 False, Enter ''k'' ClientRole (Some ''d1'') 8 False,
     IssueToken 0 1 (token_of 1) [], IssueToken 0 2 (token_of 2) [],
     Datagram 1 (SocketAddr 7 9) (encode_tlu1_raw 0 1 (token_of 1) [])]"

lemmas relay_eval = relay_run_def relay_start_def small_relay_def enter_def register_peer_def register_station_def
  register_client_def room_or_new_def room_default_def alloc_client_id_def MAX_CLIENTS_def slot_at_def
  issue_token_def new_session_def live_tokens_def revoke_superseded_def same_slot_def serve_datagram_def
  parse_tlu1_def encode_tlu1_raw_def TLU1_HEADER_LEN_def TLU1_TOKEN_LEN_def TLU1_MAGIC_def TLU1_VERSION_def
  u32_to_be_def token_of_def token_accepts_def seq_ok_def note_datagram_def udp_target_def UDP_TOKEN_TTL_def
  upt_rec

lemma small_relay_state:
  "rl_conns (relay_run small_relay) 1 = Some \<lparr>cn_key = ''k'', cn_role = StationRole, cn_client_id = None, cn_quic = False,
     cn_token = token_of 1, cn_phase = Open\<rparr>"
  "rl_conns (relay_run small_relay) 2 = Some \<lparr>cn_key = ''k'', cn_role = ClientRole, cn_client_id = Some 0, cn_quic = False,
     cn_token = token_of 2, cn_phase = Open\<rparr>"
  "rl_rooms (relay_run small_relay) ''k'' = Some \<lparr>rm_station = Some \<lparr>rp_chan = 1, rp_instance = None\<rparr>,
     rm_clients = [(0, \<lparr>rp_chan = 2, rp_instance = Some ''d1''\<rparr>)], rm_next_id = 1\<rparr>"
  by (simp_all add: relay_eval)

lemma frames_stay_in_the_room_witness:
  "\<exists>c d. rl_conns (relay_run small_relay) 2 = Some c \<and> rl_conns (relay_run small_relay) 1 = Some d \<and> cn_key d = cn_key c
    \<and> cn_role d \<noteq> cn_role c \<and> (\<forall>t. RBinary (encode_tlt1 9 [5]) = RText t \<longrightarrow> \<not> is_relay_line t)
    \<and> (cn_role c = ClientRole \<longrightarrow> RBinary (encode_tlt1 0 [5])
        = stamp_if_tlt1 (RBinary (encode_tlt1 9 [5])) (case cn_client_id c of None \<Rightarrow> 0 | Some i \<Rightarrow> i))
    \<and> (cn_role c = StationRole \<longrightarrow> RBinary (encode_tlt1 0 [5]) = RBinary (encode_tlt1 9 [5])
        \<and> (\<forall>data. RBinary (encode_tlt1 9 [5]) = RBinary data \<and> is_tlt1 data \<longrightarrow> cn_client_id d = Some (data ! 5)))"
  by (rule frames_stay_in_the_room)
    (simp_all add: from_peer_def small_relay_state route_message_def stamp_if_tlt1_def is_tlt1_def encode_tlt1_def
      TLT1_MAGIC_def TLT1_VERSION_def u16_to_be_def Let_def)

definition up_datagram :: relay_event where
  "up_datagram = Datagram 2 (SocketAddr 8 9) (encode_tlu1_raw 0 1 (token_of 2) [0xAA])"

lemma datagrams_stay_in_the_room_witness:
  "\<exists>cid seq t payload u v c d. parse_tlu1 (encode_tlu1_raw 0 1 (token_of 2) [0xAA]) = Some (cid, seq, t, payload)
    \<and> map_of (rl_tokens (relay_run small_relay)) t = Some u \<and> token_accepts 2 (SocketAddr 8 9) seq u
    \<and> v \<in> snd ` set (rl_tokens (fst (relay_step (Datagram 2 (SocketAddr 8 9) (encode_tlu1_raw 0 1 (token_of 2) [0xAA])) (relay_run small_relay))))
    \<and> us_src v = Some (SocketAddr 7 9)
    \<and> rl_conns (relay_run small_relay) (us_conn u) = Some c \<and> rl_conns (relay_run small_relay) (us_conn v) = Some d
    \<and> cn_key d = cn_key c \<and> cn_role d \<noteq> cn_role c
    \<and> [0, 0xAA] = (if cn_role c = ClientRole then case cn_client_id c of None \<Rightarrow> 0 | Some i \<Rightarrow> i else cid) # payload
    \<and> (cn_role c = StationRole \<longrightarrow> cn_client_id d = Some cid)"
  by (rule datagrams_stay_in_the_room) (simp add: relay_eval)

section \<open>A device that comes back\<close>

text \<open>
  Whoever holds a place entered last of all that ever had it: the serial is taken under the lock that
  hands out the place.
\<close>

definition holder :: "rooms \<Rightarrow> string \<Rightarrow> peer_role \<Rightarrow> u8 option \<Rightarrow> nat option" where
  "holder rooms key role i =
     map_option rp_chan (Option.bind (rooms key)
       (\<lambda>r. case role of StationRole \<Rightarrow> rm_station r
          | ClientRole \<Rightarrow> (case i of None \<Rightarrow> None | Some i \<Rightarrow> map_of (rm_clients r) i)))"

definition last_holds :: "relay \<Rightarrow> bool" where
  "last_holds s \<longleftrightarrow> (\<forall>key role i m n c. holder (rl_rooms s) key role i = Some m \<longrightarrow> rl_conns s n = Some c
     \<longrightarrow> cn_key c = key \<longrightarrow> cn_role c = role \<longrightarrow> cn_client_id c = i \<longrightarrow> n \<le> m)"

lemma holder_unregister:
  assumes "\<And>r. rooms k = Some r \<Longrightarrow> room_ok r"
  shows "holder (unregister_peer k role i n rooms) key ro j = Some m \<Longrightarrow> holder rooms key ro j = Some m"
  using assms
  by (cases "rooms k")
    (auto simp: holder_def unregister_peer_def unregister_from_def Let_def room_is_empty_def AList.delete_conv'
      split: if_splits peer_role.splits option.splits)

lemma alloc_keeps: "alloc_client_id cap r = (r1, x) \<Longrightarrow> rm_clients r1 = rm_clients r \<and> rm_station r1 = rm_station r"
  by (auto simp: alloc_client_id_def Let_def split: if_splits option.splits)

lemma register_client_map:
  assumes "register_client cap p r = (r1, reg, out)"
  shows "map_of (rm_clients r1) = (case reg of RegClient i \<Rightarrow> (map_of (rm_clients r))(i \<mapsto> p) | _ \<Rightarrow> map_of (rm_clients r))"
    and "rm_station r1 = rm_station r" and "reg \<noteq> RegStation"
  using assms
  by (auto simp: register_client_def update_conv' dest: alloc_keeps split: option.splits prod.splits)

lemma room_or_new_holds:
  "rm_station (room_or_new rooms key) = Some p \<Longrightarrow> holder rooms key StationRole i = Some (rp_chan p)"
  "map_of (rm_clients (room_or_new rooms key)) j = Some p \<Longrightarrow> holder rooms key ClientRole (Some j) = Some (rp_chan p)"
  by (auto simp: room_or_new_def room_default_def holder_def split: option.splits)

lemma holder_enter:
  assumes "register_peer key role n inst cap rooms = (rooms', reg, out)" "holder rooms' k ro j = Some m"
  shows "holder rooms k ro j = Some m \<or> m = n \<and> k = key \<and> ro = role
      \<and> (case role of StationRole \<Rightarrow> reg = RegStation | ClientRole \<Rightarrow> (\<exists>i. j = Some i \<and> reg = RegClient i))"
proof (cases role)
  case StationRole
  with assms room_or_new_holds [of rooms key] show ?thesis
    by (cases "k = key"; cases ro) (auto simp: register_peer_def register_station_def holder_def Let_def split: option.splits)
next
  case ClientRole
  obtain r1 where r1: "register_client cap \<lparr>rp_chan = n, rp_instance = inst\<rparr> (room_or_new rooms key) = (r1, reg, out)"
    "rooms' = rooms(key \<mapsto> r1)"
    using assms(1) ClientRole by (auto simp: register_peer_def Let_def split: prod.splits)
  note map = register_client_map [OF r1(1)]
  show ?thesis
  proof (cases "k = key")
    case True
    show ?thesis
    proof (cases ro)
      case StationRole
      with assms(2) True r1 map(2) obtain p where "rm_station (room_or_new rooms key) = Some p" "m = rp_chan p"
        by (auto simp: holder_def)
      with True StationRole room_or_new_holds(1) show ?thesis by auto
    next
      case cl: ClientRole
      with assms(2) True r1 obtain i p where i: "j = Some i" "map_of (rm_clients r1) i = Some p" "m = rp_chan p"
        by (auto simp: holder_def split: option.splits)
      then have "map_of (rm_clients (room_or_new rooms key)) i = Some p \<or> reg = RegClient i \<and> m = n"
        using map(1) by (auto split: registration.splits if_splits)
      with i True cl ClientRole room_or_new_holds(2) show ?thesis by auto
    qed
  next
    case False
    with assms(2) r1 show ?thesis by (auto simp: holder_def)
  qed
qed

lemma holder_of_new:
  assumes "register_peer key role n inst cap rooms = (rooms', reg, out)"
  shows "role = StationRole \<Longrightarrow> holder rooms' key role j = Some n"
    and "reg = RegClient i \<Longrightarrow> holder rooms' key role (Some i) = Some n"
proof -
  show "holder rooms' key role j = Some n" if "role = StationRole"
    using assms that by (auto simp: register_peer_def register_station_def holder_def Let_def)
  show "holder rooms' key role (Some i) = Some n" if reg: "reg = RegClient i"
  proof (cases role)
    case ClientRole
    then obtain r1 where "register_client cap \<lparr>rp_chan = n, rp_instance = inst\<rparr> (room_or_new rooms key) = (r1, reg, out)"
      "rooms' = rooms(key \<mapsto> r1)"
      using assms by (auto simp: register_peer_def Let_def split: prod.splits)
    with register_client_map(1) reg ClientRole show ?thesis by (fastforce simp: holder_def)
  qed (use assms reg in \<open>auto simp: register_peer_def register_station_def Let_def\<close>)
qed

text \<open>A step that neither lets anybody in nor changes whose a connection is.\<close>

lemma last_holds_mono:
  assumes "last_holds s" "\<And>key role i m. holder (rl_rooms t) key role i = Some m \<Longrightarrow> holder (rl_rooms s) key role i = Some m"
    and "\<And>n c. rl_conns t n = Some c \<Longrightarrow> \<exists>c0. rl_conns s n = Some c0 \<and> cn_key c0 = cn_key c \<and> cn_role c0 = cn_role c
      \<and> cn_client_id c0 = cn_client_id c"
  shows "last_holds t"
  using assms unfolding last_holds_def by metis

lemma enter_last:
  assumes "last_holds s" "relay_ok s" shows "last_holds (fst (enter key role inst cap quic s))"
proof -
  let ?n = "rl_next_conn s"
  obtain rooms reg out where reg: "register_peer key role ?n inst cap (rl_rooms s) = (rooms, reg, out)"
    by (cases "register_peer key role ?n inst cap (rl_rooms s)")
  have below: "n < ?n" if "rl_conns s n \<noteq> None" for n using relay_okD(3) [OF assms(2) that] .
  let ?t = "fst (enter key role inst cap quic s)"
  have rooms: "rl_rooms ?t = rooms"
    by (auto simp: enter_def reg Let_def split: registration.split)
  have conns: "rl_conns ?t n = rl_conns s n" if "n \<noteq> ?n" for n
    using that by (auto simp: enter_def reg Let_def split: registration.split)
  have mine: "cn_key c = key \<and> cn_role c = role \<and> (case reg of RegStation \<Rightarrow> cn_client_id c = None
      | RegClient i \<Rightarrow> cn_client_id c = Some i | RegFull \<Rightarrow> False)" if "rl_conns ?t ?n = Some c" for c
    using that below [of ?n] by (auto simp: enter_def reg Let_def split: registration.splits)
  show ?thesis
    unfolding last_holds_def rooms
  proof (intro allI impI)
    fix k ro i m n c
    assume h: "holder rooms k ro i = Some m" "rl_conns ?t n = Some c" "cn_key c = k" "cn_role c = ro" "cn_client_id c = i"
    consider "holder (rl_rooms s) k ro i = Some m" | "m = ?n"
      using holder_enter [OF reg h(1)] by blast
    then show "n \<le> m"
    proof cases
      case 2
      with below conns h(2) show ?thesis by (cases "n = ?n") (force dest: less_imp_le)+
    next
      case 1
      show ?thesis
      proof (cases "n = ?n")
        case False
        with 1 assms(1) h conns show ?thesis by (auto simp: last_holds_def)
      next
        case True
        with mine h have me: "k = key" "ro = role" by auto
        have "role = ClientRole \<Longrightarrow> reg \<noteq> RegStation"
          using reg register_client_map(3) by (auto simp: register_peer_def Let_def split: prod.splits)
        with mine h(2,5) True me holder_of_new [OF reg] h(1) show ?thesis
          by (cases reg; cases role) auto
      qed
    qed
  qed
qed

fun enters :: "relay_event \<Rightarrow> bool" where
  "enters (Enter _ _ _ _ _) = True"
| "enters _ = False"

lemma conns_step:
  assumes "rl_conns (fst (relay_step e s)) n = Some c" "\<not> enters e"
  shows "\<exists>c0. rl_conns s n = Some c0 \<and> cn_key c0 = cn_key c \<and> cn_role c0 = cn_role c \<and> cn_client_id c0 = cn_client_id c"
  using assms
  by (cases e) (auto simp: issue_token_def rotate_token_def from_peer_def leave_def revoke_def split_beta Let_def
      split: option.splits if_splits relay_message.splits)

lemma rooms_step:
  assumes "holder (rl_rooms (fst (relay_step e s))) key role i = Some m" "\<not> enters e"
    and "relay_ok s"
  shows "holder (rl_rooms s) key role i = Some m"
proof (cases e)
  case (Leave n)
  have "room_ok r" if "rl_rooms s k = Some r" for k r using relay_okD(1) [OF assms(3) that] by (simp add: room_stands_def)
  with assms Leave show ?thesis
    by (auto simp: leave_def intro: holder_unregister split: option.splits if_splits)
qed (use assms in \<open>auto simp: issue_token_def rotate_token_def revoke_def from_peer_def split_beta Let_def
      split: option.splits if_splits relay_message.splits\<close>)

lemma last_holds_run: "last_holds (relay_run es)"
proof (induction es rule: rev_induct)
  case Nil
  then show ?case by (simp add: last_holds_def relay_start_def)
next
  case (snoc e es)
  show ?case
  proof (cases "enters e")
    case True
    with enter_last [OF snoc relay_run_ok] show ?thesis by (cases e) auto
  next
    case False
    then show ?thesis
      using last_holds_mono [OF snoc, of "fst (relay_step e (relay_run es))"] conns_step [of e "relay_run es"]
        rooms_step [of e "relay_run es", OF _ _ relay_run_ok]
      by simp
  qed
qed

lemma slot_token_le:
  assumes "holder (rl_rooms (relay_run es)) key role i = Some m"
    and "u \<in> snd ` set (rl_tokens (relay_run es))" "same_slot u key role i"
  shows "us_conn u \<le> m"
proof -
  obtain c where c: "rl_conns (relay_run es) (us_conn u) = Some c" "cn_key c = us_room_key u" "cn_role c = us_role u"
    "cn_client_id c = us_client_id u"
    using tokens_standD [OF relay_okD(2) [OF relay_run_ok] assms(2)] by (auto simp: token_stands_def)
  show ?thesis
  proof (cases role)
    case ClientRole
    with c assms(1,3) last_holds_run [of es] show ?thesis by (auto simp: last_holds_def same_slot_def)
  next
    case StationRole
    then have "holder (rl_rooms (relay_run es)) key role (cn_client_id c) = Some m"
      using assms(1) by (simp add: holder_def)
    with c assms(3) last_holds_run [of es] show ?thesis by (auto simp: last_holds_def same_slot_def)
  qed
qed

lemma holder_stands:
  assumes "holder (rl_rooms s) key role i = Some m" "relay_ok s"
  shows "\<exists>c. rl_conns s m = Some c \<and> cn_key c = key \<and> cn_role c = role \<and> (role = StationRole \<or> cn_client_id c = i)"
proof -
  obtain r where r: "rl_rooms s key = Some r" using assms(1) by (auto simp: holder_def bind_eq_Some_conv)
  then have "room_stands (rl_conns s) key r" using relay_okD(1) [OF assms(2)] by blast
  then show ?thesis
    using assms(1) r map_of_room [of "rl_conns s" key r]
    by (cases role) (fastforce simp: holder_def room_stands_def stands_def split: option.splits)+
qed

lemma first_token_is_alone:
  fixes now :: instant and token :: udp_token and ready :: "u8 list"
  assumes "holder (rl_rooms (relay_run es)) key role i = Some m"
    and "rl_conns (relay_run es) m = Some c" "cn_phase c = Entered"
  defines "toks \<equiv> rl_tokens (fst (relay_step (IssueToken now m token ready) (relay_run es)))"
  shows "new_session now m c \<in> snd ` set toks" "same_slot (new_session now m c) key role i"
    and "u \<in> snd ` set toks \<Longrightarrow> same_slot u key role i \<Longrightarrow> us_conn u = m"
proof -
  let ?old = "rl_tokens (relay_run es)" and ?new = "new_session now m c"
  have c: "cn_key c = key" "cn_role c = role" "role = StationRole \<or> cn_client_id c = i"
    using holder_stands [OF assms(1) relay_run_ok] assms(2) by auto
  have toks: "toks = revoke_superseded key role (cn_client_id c) m (AList.update token ?new (live_tokens now ?old))"
    using assms(2,3) c by (simp add: toks_def issue_token_def)
  have "(token, ?new) \<in> set (AList.update token ?new (live_tokens now ?old))"
    by (simp add: map_of_SomeD update_conv')
  then have "(token, ?new) \<in> set toks" unfolding toks by (simp add: revoke_superseded_def new_session_def)
  then show "?new \<in> snd ` set toks" by force
  show "same_slot ?new key role i" using c by (auto simp: same_slot_def new_session_def)
  show "us_conn u = m" if u: "u \<in> snd ` set toks" "same_slot u key role i"
  proof -
    have "same_slot u key role (cn_client_id c)" using u(2) c(3) by (auto simp: same_slot_def)
    then have "u = ?new \<or> u \<in> snd ` set ?old" "\<not> us_conn u < m"
      using u(1) set_update_subset [of token ?new "live_tokens now ?old"]
      by (force simp: toks revoke_superseded_def live_tokens_def)+
    then show ?thesis using slot_token_le [OF assms(1) _ u(2)] by (auto simp: new_session_def)
  qed
qed

text \<open>C10. Audio follows the device when a connection has come back to its place - a phone on its new network,
  a station restarted. In every reachable state the datagrams for a place are addressed by a token of that
  place, if there is one: by a token of the connection that holds the place now as soon as it has one, never
  again by one of the connection before, which may stand half open on a network that is gone and rotate
  its token there. Until then - the connection has entered and its first token is not issued, or it let its
  token expire - they still go where the connection before it was heard. The first token issued to it turns
  them over at once: after it no token of the place is anybody else's.\<close>

theorem downlink_follows_the_place:
  assumes "holder (rl_rooms (relay_run es)) key role i = Some m"
  shows "(case udp_target (rl_tokens (relay_run es)) key role i of
       None \<Rightarrow> filter (\<lambda>(_, u). same_slot u key role i) (rl_tokens (relay_run es)) = []
     | Some v \<Rightarrow> same_slot v key role i \<and>
         (if list_ex (\<lambda>(_, u). same_slot u key role i \<and> us_conn u = m) (rl_tokens (relay_run es))
          then us_conn v = m else us_conn v < m))
    \<and> (case rl_conns (relay_run es) m of
         None \<Rightarrow> False
       | Some c \<Rightarrow> cn_phase c = Entered \<longrightarrow>
           (let toks = rl_tokens (fst (relay_step (IssueToken now m token ready) (relay_run es)))
            in map_option us_conn (udp_target toks key role i) = Some m
               \<and> filter (\<lambda>(_, u). same_slot u key role i \<and> us_conn u \<noteq> m) toks = []))"
proof -
  let ?s = "relay_run es" and ?toks = "rl_tokens (fst (relay_step (IssueToken now m token ready) (relay_run es)))"
  have now: "case udp_target (rl_tokens ?s) key role i of
       None \<Rightarrow> filter (\<lambda>(_, u). same_slot u key role i) (rl_tokens ?s) = []
     | Some v \<Rightarrow> same_slot v key role i \<and>
         (if list_ex (\<lambda>(_, u). same_slot u key role i \<and> us_conn u = m) (rl_tokens ?s)
          then us_conn v = m else us_conn v < m)"
  proof (cases "udp_target (rl_tokens ?s) key role i")
    case None
    then show ?thesis by (auto simp: udp_target_def filter_empty_conv)
  next
    case (Some v)
    note t = udp_target_Some [OF Some]
    have "us_conn v \<le> m" by (rule slot_token_le [OF assms t(1,2)])
    moreover have "us_conn v = m" if "list_ex (\<lambda>(_, u). same_slot u key role i \<and> us_conn u = m) (rl_tokens ?s)"
      using that t(3) calculation by (fastforce simp: list_ex_iff)
    moreover have "us_conn v \<noteq> m" if "\<not> list_ex (\<lambda>(_, u). same_slot u key role i \<and> us_conn u = m) (rl_tokens ?s)"
      using that t(1,2) by (auto simp: list_ex_iff)
    ultimately show ?thesis using Some t(2) by auto
  qed
  obtain c where c: "rl_conns ?s m = Some c" using holder_stands [OF assms relay_run_ok] by blast
  have "map_option us_conn (udp_target ?toks key role i) = Some m
      \<and> filter (\<lambda>(_, u). same_slot u key role i \<and> us_conn u \<noteq> m) ?toks = []" if "cn_phase c = Entered"
  proof -
    note alone = first_token_is_alone(1) [OF assms c that, of now token ready] first_token_is_alone(2) [OF assms c that, of now]
      first_token_is_alone(3) [OF assms c that, of _ now token ready]
    have "udp_target ?toks key role i \<noteq> None"
      using alone(1,2) unfolding udp_target_def max_by_key_None filter_empty_conv set_map by blast
    then show ?thesis using udp_target_Some(1,2) [of ?toks key role i] alone(3) by (fastforce simp: filter_empty_conv)
  qed
  with now c show ?thesis by (simp add: Let_def)
qed

definition phone_comes_back :: "relay_event list" where
  "phone_comes_back = small_relay @ [Enter ''k'' ClientRole (Some ''d1'') 8 False, IssueToken 3 3 (token_of 3) [],
     RotateToken 4 2 (token_of 4) []]"

lemma phone_comes_back_state:
  "holder (rl_rooms (relay_run phone_comes_back)) ''k'' ClientRole (Some 0) = Some 3"
  "map (us_conn \<circ> snd) (rl_tokens (relay_run phone_comes_back)) = [1, 3, 2]"
  "list_all (\<lambda>(_, u). us_role u = StationRole \<or> same_slot u ''k'' ClientRole (Some 0)) (rl_tokens (relay_run phone_comes_back))"
  by (simp_all add: phone_comes_back_def relay_eval holder_def rotate_token_def shorten_def UDP_TOKEN_OVERLAP_def)

text \<open>While the phone is back and its token not issued, audio still goes to the connection before; then to it, for good.\<close>

definition phone_enters :: "relay_event list" where
  "phone_enters = small_relay @ [Enter ''k'' ClientRole (Some ''d1'') 8 False]"

lemma phone_enters_state:
  "holder (rl_rooms (relay_run phone_enters)) ''k'' ClientRole (Some 0) = Some 3"
  "map_option us_conn (udp_target (rl_tokens (relay_run phone_enters)) ''k'' ClientRole (Some 0)) = Some 2"
  "map_option cn_phase (rl_conns (relay_run phone_enters) 3) = Some Entered"
  by (simp_all add: phone_enters_def relay_eval holder_def)

lemma downlink_follows_the_place_witness:
  "map_option us_conn (udp_target (rl_tokens (relay_run phone_comes_back)) ''k'' ClientRole (Some 0)) = Some 3
   \<and> map_option us_conn (udp_target (rl_tokens (fst (relay_step (IssueToken 3 3 (token_of 3) []) (relay_run phone_enters))))
        ''k'' ClientRole (Some 0)) = Some 3"
proof
  have "list_ex (\<lambda>(_, u). same_slot u ''k'' ClientRole (Some 0) \<and> us_conn u = 3) (rl_tokens (relay_run phone_comes_back))"
    by (simp add: phone_comes_back_def relay_eval rotate_token_def shorten_def UDP_TOKEN_OVERLAP_def)
  then show "map_option us_conn (udp_target (rl_tokens (relay_run phone_comes_back)) ''k'' ClientRole (Some 0)) = Some 3"
    using downlink_follows_the_place [OF phone_comes_back_state(1), of 0 "[]" "[]", THEN conjunct1]
    by (cases "udp_target (rl_tokens (relay_run phone_comes_back)) ''k'' ClientRole (Some 0)")
      (auto simp: list_ex_iff filter_empty_conv)
  show "map_option us_conn (udp_target (rl_tokens (fst (relay_step (IssueToken 3 3 (token_of 3) []) (relay_run phone_enters))))
        ''k'' ClientRole (Some 0)) = Some 3"
    using downlink_follows_the_place [OF phone_enters_state(1), of 3 "token_of 3" "[]"] phone_enters_state(3)
    by (auto simp: Let_def split: option.splits)
qed

text \<open>C11. A connection that was replaced takes nothing with it when it goes: its leaving changes no room and
  its revoking no token of any other connection, so a phone that switched networks keeps its place and
  its audio when the old connection times out.\<close>

theorem going_takes_only_its_own:
  assumes "rl_conns (relay_run es) n = Some c"
    and "holder (rl_rooms (relay_run es)) (cn_key c) (cn_role c) (cn_client_id c) = Some m" "m \<noteq> n"
  shows "rl_rooms (fst (relay_step (Leave n) (relay_run es))) = rl_rooms (relay_run es)
    \<and> filter (\<lambda>(_, u). us_conn u \<noteq> n) (rl_tokens (fst (relay_step (Revoke n) (fst (relay_step (Leave n) (relay_run es))))))
      = filter (\<lambda>(_, u). us_conn u \<noteq> n) (rl_tokens (relay_run es))"
proof -
  let ?s = "relay_run es"
  obtain r where r: "rl_rooms ?s (cn_key c) = Some r" using assms(2) by (auto simp: holder_def bind_eq_Some_conv)
  have "unregister_from (cn_role c) (cn_client_id c) n r = r"
    using assms(2,3) r by (auto simp: unregister_from_def holder_def split: peer_role.splits option.splits)
  moreover have "\<not> room_is_empty r"
    using assms(2) r by (auto simp: room_is_empty_def holder_def split: peer_role.splits option.splits)
  ultimately have "unregister_peer (cn_key c) (cn_role c) (cn_client_id c) n (rl_rooms ?s) = rl_rooms ?s"
    using r by (auto simp: unregister_peer_def)
  then have "rl_rooms (leave n ?s) = rl_rooms ?s" by (auto simp: leave_def assms(1))
  moreover have "filter (\<lambda>(_, u). us_conn u \<noteq> n) (rl_tokens (revoke n t)) = filter (\<lambda>(_, u). us_conn u \<noteq> n) (rl_tokens t)" for t
    by (auto simp: revoke_def revoke_tokens_of_def case_prod_unfold split: option.split)
  moreover have "rl_tokens (leave n ?s) = rl_tokens ?s" by (auto simp: leave_def split: option.split)
  ultimately show ?thesis by simp
qed

lemma going_takes_only_its_own_witness:
  "rl_rooms (fst (relay_step (Leave 2) (relay_run phone_comes_back))) = rl_rooms (relay_run phone_comes_back)
   \<and> filter (\<lambda>(_, u). us_conn u \<noteq> 2) (rl_tokens (fst (relay_step (Revoke 2) (fst (relay_step (Leave 2) (relay_run phone_comes_back))))))
     = filter (\<lambda>(_, u). us_conn u \<noteq> 2) (rl_tokens (relay_run phone_comes_back))"
proof (rule going_takes_only_its_own)
  let ?c = "\<lparr>cn_key = ''k'', cn_role = ClientRole, cn_client_id = Some (0 :: u8), cn_quic = False,
     cn_token = token_of 4, cn_phase = Open\<rparr>"
  show "rl_conns (relay_run phone_comes_back) 2 = Some ?c"
    by (simp add: phone_comes_back_def relay_eval rotate_token_def shorten_def UDP_TOKEN_OVERLAP_def)
  show "holder (rl_rooms (relay_run phone_comes_back)) (cn_key ?c) (cn_role ?c) (cn_client_id ?c) = Some 3"
    using phone_comes_back_state(1) by simp
qed simp

text \<open>A room never holds more than eight clients, no two with one number and no two of one device,
  however connections come, return and leave.\<close>

theorem room_is_never_overfull:
  assumes "rl_rooms (relay_run es) key = Some r"
  shows "length (rm_clients r) \<le> MAX_CLIENTS \<and> distinct (map fst (rm_clients r))
    \<and> distinct (List.map_filter (rp_instance \<circ> snd) (rm_clients r))"
proof -
  have ok: "room_ok r" using relay_okD(1) [OF relay_run_ok assms] by (simp add: room_stands_def)
  have "length (rm_clients r) = card (fst ` set (rm_clients r))"
    using ok by (metis distinct_card length_map list.set_map room_ok_def)
  also have "\<dots> \<le> card (of_nat ` {..<8} :: u8 set)"
  proof (rule card_mono)
    show "fst ` set (rm_clients r) \<subseteq> of_nat ` {..<8}"
    proof
      fix i assume "i \<in> fst ` set (rm_clients r)"
      then have "unat i < 8" using ok by (auto simp: room_ok_def word_less_nat_alt)
      then show "i \<in> of_nat ` {..<8}" by (intro image_eqI [where x = "unat i"]) auto
    qed
  qed simp
  also have "\<dots> \<le> 8" using card_image_le [of "{..<8 :: nat}" "of_nat :: nat \<Rightarrow> u8"] by simp
  finally show ?thesis using ok by (simp add: room_ok_def MAX_CLIENTS_def)
qed

lemma room_is_never_overfull_witness:
  "length [(0 :: u8, \<lparr>rp_chan = 2, rp_instance = Some ''d1''\<rparr>)] \<le> MAX_CLIENTS
   \<and> distinct (map fst [(0 :: u8, \<lparr>rp_chan = 2, rp_instance = Some ''d1''\<rparr>)])
   \<and> distinct (List.map_filter (rp_instance \<circ> snd) [(0 :: u8, \<lparr>rp_chan = 2, rp_instance = Some ''d1''\<rparr>)])"
  using room_is_never_overfull [OF small_relay_state(3)] by simp

section \<open>How long a token lives\<close>

fun issues :: "udp_token \<Rightarrow> relay_event \<Rightarrow> bool" where
  "issues t (IssueToken _ _ t' _) = (t' = t)"
| "issues t (RotateToken _ _ t' _) = (t' = t)"
| "issues t _ = False"

definition expires_by :: "udp_token \<Rightarrow> instant \<Rightarrow> token_table \<Rightarrow> bool" where
  "expires_by t b toks \<longleftrightarrow> (\<forall>(t', u) \<in> set toks. t' = t \<longrightarrow> us_expires_at u \<le> b)"

lemma expires_by_filter [intro]: "expires_by t b toks \<Longrightarrow> expires_by t b (filter P toks)"
  by (auto simp: expires_by_def)

lemma expires_by_update: "expires_by t b toks \<Longrightarrow> t' \<noteq> t \<or> us_expires_at u \<le> b \<Longrightarrow> expires_by t b (AList.update t' u toks)"
  using set_update_subset [of t' u toks] by (fastforce simp: expires_by_def)

lemma expires_by_map: "expires_by t b toks \<Longrightarrow> map_of toks t = Some u \<Longrightarrow> us_expires_at u \<le> b"
  by (fastforce simp: expires_by_def dest: map_of_SomeD)

lemma expires_by_shorten: "expires_by t b toks \<Longrightarrow> expires_by t b (shorten o' t' toks)"
  by (auto simp: shorten_def dest: expires_by_map intro!: expires_by_update split: option.split)

lemma expires_by_step:
  assumes "expires_by t b (rl_tokens s)" "\<not> issues t e"
  shows "expires_by t b (rl_tokens (fst (relay_step e s)))"
proof (cases e)
  case (IssueToken now n t' r)
  with assms show ?thesis
    by (auto simp: issue_token_def live_tokens_def revoke_superseded_def intro!: expires_by_update expires_by_filter split: option.split)
next
  case (RotateToken now n t' r)
  with assms show ?thesis
    by (auto simp: rotate_token_def live_tokens_def intro!: expires_by_update expires_by_filter expires_by_shorten split: option.split)
next
  case (Datagram now src data)
  have "expires_by t b (fst (serve_datagram now src data (rl_tokens s) (rl_bytes s)))"
    using assms(1)
    by (auto simp: serve_datagram_def split_beta Let_def note_datagram_def dest: expires_by_map intro!: expires_by_update
        split: option.split peer_role.split)
  then show ?thesis using Datagram by (simp add: split_beta Let_def)
next
  case (Revoke n)
  with assms show ?thesis by (auto simp: revoke_def revoke_tokens_of_def split: option.split)
next
  case (Leave n)
  with assms show ?thesis by (simp add: leave_def split: option.split)
qed (use assms in \<open>auto simp: enter_def from_peer_def split_beta Let_def split: registration.split option.split relay_message.split\<close>)

lemma expires_by_run:
  assumes "expires_by t b (rl_tokens s)" "\<not> list_ex (issues t) es"
  shows "expires_by t b (rl_tokens (fold (\<lambda>e. fst \<circ> relay_step e) es s))"
  using assms by (induction es arbitrary: s) (auto simp: expires_by_step)

text \<open>C12. A captured token is worth half an hour at most: from the moment a fresh token is handed out no run -
  no traffic, no rotation, no other connection - makes the relay take it later than thirty minutes after.\<close>

theorem token_lives_half_an_hour:
  assumes "t \<notin> fst ` set (rl_tokens (relay_run es))"
    and "e = IssueToken t0 n t line \<or> e = RotateToken t0 n t line"
    and "\<not> list_ex (issues t) fs"
    and "map_of (rl_tokens (relay_run (es @ e # fs))) t = Some u" "token_accepts now src seq u"
  shows "now < t0 + UDP_TOKEN_TTL"
proof -
  have "expires_by t (t0 + UDP_TOKEN_TTL) (rl_tokens (relay_run es))"
    using assms(1) by (force simp: expires_by_def)
  then have "expires_by t (t0 + UDP_TOKEN_TTL) (rl_tokens (fst (relay_step e (relay_run es))))"
    using assms(2)
    by (auto simp: issue_token_def rotate_token_def live_tokens_def revoke_superseded_def new_session_def
        intro!: expires_by_update expires_by_filter expires_by_shorten split: option.split)
  then have "expires_by t (t0 + UDP_TOKEN_TTL) (rl_tokens (relay_run (es @ e # fs)))"
    using expires_by_run [OF _ assms(3)] by (simp add: relay_run_def)
  then have "us_expires_at u \<le> t0 + UDP_TOKEN_TTL" by (rule expires_by_map [OF _ assms(4)])
  then show ?thesis using assms(5) by (simp add: token_accepts_def)
qed

lemma token_lives_half_an_hour_witness: "1 < (0 :: nat) + UDP_TOKEN_TTL"
proof (rule token_lives_half_an_hour)
  let ?es = "take 3 small_relay" and ?fs = "drop 4 small_relay"
  let ?c = "\<lparr>cn_key = ''k'', cn_role = ClientRole, cn_client_id = Some (0 :: u8), cn_quic = False,
     cn_token = [], cn_phase = Entered\<rparr>"
  show "token_of 2 \<notin> fst ` set (rl_tokens (relay_run ?es))" by (simp add: relay_eval)
  show "IssueToken 0 2 (token_of 2) [] = IssueToken 0 2 (token_of 2) []
      \<or> IssueToken 0 2 (token_of 2) [] = RotateToken 0 2 (token_of 2) []" by simp
  show "\<not> list_ex (issues (token_of 2)) ?fs" by (simp add: small_relay_def)
  show "map_of (rl_tokens (relay_run (?es @ IssueToken 0 2 (token_of 2) [] # ?fs))) (token_of 2) = Some (new_session 0 2 ?c)"
    by (simp add: relay_eval)
  show "token_accepts 1 (SocketAddr 8 9) 1 (new_session 0 2 ?c)"
    by (simp add: token_accepts_def new_session_def seq_ok_def UDP_TOKEN_TTL_def)
qed

text \<open>
  The replay guard keeps a high-water mark: nothing more than 512 behind it is taken, whatever was taken
  before and across the wrap of the sequence.
\<close>

lemma seq_ok_window:
  "seq_ok (Some l) seq \<longleftrightarrow> seq \<noteq> l \<and> (0x80000000 < l - seq \<or> l - seq \<le> 512)"
  by (auto simp: seq_ok_def seq_before_def UDP_REPLAY_WINDOW_def)

section \<open>Who may come in\<close>

datatype 'e auth_outcome = Registry 'e | Legacy | Reject

text \<open>
  \<open>store\<close> is what the station registry says of the secret shown: how many stations it holds and which
  one the secret is for; \<^verbatim>\<open>None\<close> where there is no registry.
\<close>

definition authorize :: "(nat \<times> (string \<Rightarrow> nat option)) option \<Rightarrow> string \<Rightarrow> string option \<Rightarrow> nat auth_outcome" where
  "authorize store token required_token =
     (case store of
        Some (count, authenticate) \<Rightarrow>
          if 0 < count then (case authenticate token of Some i \<Rightarrow> Registry i | None \<Rightarrow> Reject)
          else (case required_token of None \<Rightarrow> Legacy | Some r \<Rightarrow> if token \<noteq> r then Reject else Legacy)
      | None \<Rightarrow> (case required_token of None \<Rightarrow> Legacy | Some r \<Rightarrow> if token \<noteq> r then Reject else Legacy))"

definition room_key :: "string \<Rightarrow> string \<Rightarrow> string" where
  "room_key station token = station @ [CHR 0x00] @ token"

definition room_for :: "nat auth_outcome \<Rightarrow> string \<Rightarrow> string \<Rightarrow> string option" where
  "room_for outcome station token =
     (case outcome of
        Registry i \<Rightarrow> Some (''db:'' @ decimal_text i)
      | Legacy \<Rightarrow> Some (room_key station token)
      | Reject \<Rightarrow> None)"

text \<open>
  The gate for a client's device: what the registry knows of it, the station's limits, its month's bytes
  and the devices it counts; the cap on clients that then applies, or the refusal.
\<close>

definition device_gate ::
    "bool option \<Rightarrow> int option \<Rightarrow> int option \<Rightarrow> int option \<Rightarrow> int \<Rightarrow> int \<Rightarrow> string + nat" where
  "device_gate existing max_dev max_cli max_monthly used enabled_count =
     (if existing = Some False then Inl ''device blocked''
      else if existing = None \<and> (case max_dev of None \<Rightarrow> False | Some md \<Rightarrow> md \<le> enabled_count)
      then Inl ''too many devices''
      else if (case max_monthly of None \<Rightarrow> False | Some cap \<Rightarrow> cap \<le> used) then Inl ''station data limit reached''
      else Inr (case max_cli of None \<Rightarrow> MAX_CLIENTS | Some mc \<Rightarrow> if 0 < mc then min (nat mc) MAX_CLIENTS else MAX_CLIENTS))"

lemma digit_char: "d < 10 \<Longrightarrow> of_char (char_of (48 + d)) = (48 + d :: nat)"
  by (simp add: of_char_of)

lemma decimal_no_null: "CHR 0x00 \<notin> set (decimal_text n)"
proof (induction n rule: decimal_text.induct)
  case (1 n)
  have digit: "CHR 0x00 \<noteq> char_of (48 + d)" if "d < 10" for d :: nat
  proof
    assume "CHR 0x00 = char_of (48 + d)"
    then have "(of_char (CHR 0x00) :: nat) = of_char (char_of (48 + d))" by (rule arg_cong)
    with digit_char [OF that] show False by simp
  qed
  show ?case
    using 1 digit [of n] digit [of "n mod 10"] by (subst decimal_text.simps) (simp del: decimal_text.simps)
qed

definition decimal_value :: "string \<Rightarrow> nat" where
  "decimal_value cs = foldl (\<lambda>v c. 10 * v + (of_char c - 48)) 0 cs"

lemma decimal_value_text: "decimal_value (decimal_text n) = n"
proof (induction n rule: decimal_text.induct)
  case (1 n)
  show ?case
    using 1 digit_char [of n] digit_char [of "n mod 10"]
    by (subst decimal_text.simps) (auto simp: decimal_value_def simp del: decimal_text.simps)
qed

lemma decimal_text_inject: "decimal_text i = decimal_text j \<Longrightarrow> i = j"
  by (metis decimal_value_text)

text \<open>Two peers meet in one room only if they showed the same credentials: a room of the registry is never
  one of the shared-token mode, and in that mode the station's name and the token are both the same -
  station names hold no null character (\<^verbatim>\<open>parse_hello\<close> refuses them).\<close>

theorem one_room_per_credential:
  assumes "room_for a s t = Some key" "room_for b s' t' = Some key" "CHR 0x00 \<notin> set s" "CHR 0x00 \<notin> set s'"
  shows "(a = Legacy \<and> b = Legacy \<and> s = s' \<and> t = t')
    \<or> (\<exists>i j. a = Registry i \<and> b = Registry j \<and> i = j)"
proof -
  have nul: "CHR 0x00 \<in> set (room_key s t)" for s t by (simp add: room_key_def)
  have no: "CHR 0x00 \<notin> set (''db:'' @ decimal_text i)" for i using decimal_no_null [of i] by simp
  have apart: "CHR ''d'' # CHR ''b'' # CHR '':'' # decimal_text i \<noteq> room_key s t" for i s t
  proof
    assume "CHR ''d'' # CHR ''b'' # CHR '':'' # decimal_text i = room_key s t"
    then have "set (''db:'' @ decimal_text i) = set (room_key s t)" by simp
    with nul [of s t] no [of i] show False by blast
  qed
  have cut: "s = s' \<and> t = t'" if "room_key s t = room_key s' t'"
  proof -
    have "takeWhile (\<lambda>c. c \<noteq> CHR 0x00) (room_key s t) = s" "takeWhile (\<lambda>c. c \<noteq> CHR 0x00) (room_key s' t') = s'"
      unfolding room_key_def using assms(3,4) by (subst takeWhile_append2; auto)+
    with that have "s = s'" by metis
    with that show ?thesis by (simp add: room_key_def)
  qed
  show ?thesis
    using assms(1,2) cut apart [of _ s t] apart [of _ s' t']
    by (cases a; cases b) (auto simp: room_for_def dest: decimal_text_inject)
qed

lemma one_room_per_credential_witness:
  "(Legacy = (Legacy :: nat auth_outcome) \<and> Legacy = (Legacy :: nat auth_outcome) \<and> ''home'' = ''home'' \<and> ''x y'' = ''x y'')
   \<or> (\<exists>i j. (Legacy :: nat auth_outcome) = Registry i \<and> (Legacy :: nat auth_outcome) = Registry j \<and> i = j)"
  by (rule one_room_per_credential [of Legacy "''home''" "''x y''" "room_key ''home'' ''x y''"])
    (simp_all add: room_for_def)

end
