(* ===== verification/RelayRetry.thy ===== *)
theory RelayRetry
  imports Complex_Main RelayFrames
begin

text \<open>
  When an endpoint tries the relay again (\<^verbatim>\<open>sdr-remote-relay/src/lib.rs\<close>, \<^verbatim>\<open>Recovery\<close>), and the datagrams it
  sends to keep its UDP path open. The spread of a wait is an \<^verbatim>\<open>f64\<close> in the code and a rational here;
  \<^verbatim>\<open>Duration::mul_f64\<close> rounds to a nanosecond, which is the floor here.
\<close>

section \<open>The wait before the next attempt\<close>

definition RECONNECT_DELAY :: duration where "RECONNECT_DELAY = secs 5"
definition RECONNECT_SPREAD :: rat where "RECONNECT_SPREAD = 1 / 5"
definition STOOD_AT_LEAST :: duration where "STOOD_AT_LEAST = secs 1"
definition LOCAL_RETRY_LADDER :: "duration list" where
  "LOCAL_RETRY_LADDER = [ms 250, ms 500, secs 1, secs 2]"

record session_outcome =
  so_rejected :: "string option"
  so_carried_traffic :: bool
  so_traffic_since :: "instant option"
  so_failed_locally :: bool
  so_closed_by_relay :: bool
  so_network_changed :: bool

definition mark_traffic :: "instant \<Rightarrow> session_outcome \<Rightarrow> session_outcome" where
  "mark_traffic now o1 = o1\<lparr>so_carried_traffic := True,
     so_traffic_since := (case so_traffic_since o1 of None \<Rightarrow> Some now | Some t \<Rightarrow> Some t)\<rparr>"

record recovery =
  rv_step :: "nat option"

definition waits_for_the_network :: "recovery \<Rightarrow> bool" where
  "waits_for_the_network r \<longleftrightarrow> rv_step r \<noteq> None"

definition mul_duration :: "duration \<Rightarrow> rat \<Rightarrow> duration" where
  "mul_duration d f = nat \<lfloor>of_nat d * f\<rfloor>"

definition plain_wait :: "rat \<Rightarrow> duration" where
  "plain_wait spread = mul_duration RECONNECT_DELAY (1 - RECONNECT_SPREAD + 2 * RECONNECT_SPREAD * clamp 0 1 spread)"

definition session_stood :: "instant \<Rightarrow> session_outcome \<Rightarrow> bool" where
  "session_stood now o1 \<longleftrightarrow> (case so_traffic_since o1 of None \<Rightarrow> False | Some t \<Rightarrow> STOOD_AT_LEAST \<le> now - t)"

definition next_wait :: "session_outcome \<Rightarrow> bool \<Rightarrow> instant \<Rightarrow> rat \<Rightarrow> recovery \<Rightarrow> recovery \<times> duration" where
  "next_wait o1 ended_on_error now spread r =
     (if so_network_changed o1 then (r\<lparr>rv_step := Some 0\<rparr>, 0)
      else if ended_on_error \<and> session_stood now o1 \<and> so_rejected o1 = None \<and> \<not> so_closed_by_relay o1
      then (r\<lparr>rv_step := Some 0\<rparr>, 0)
      else (case (rv_step r, so_failed_locally o1) of
          (Some i, True) \<Rightarrow>
            (let step = min i (length LOCAL_RETRY_LADDER - 1)
             in (r\<lparr>rv_step := Some (i + 1)\<rparr>, LOCAL_RETRY_LADDER ! step))
        | _ \<Rightarrow> (r\<lparr>rv_step := None\<rparr>, plain_wait spread)))"

text \<open>A run of attempts: how each ended, and the waits between them.\<close>

type_synonym attempt = "session_outcome \<times> bool \<times> instant \<times> rat"

fun waits :: "attempt list \<Rightarrow> recovery \<Rightarrow> recovery \<times> duration list" where
  "waits [] r = (r, [])"
| "waits ((o1, err, now, spread) # as) r =
     (let (r, w) = next_wait o1 err now spread r; (r, ws) = waits as r in (r, w # ws))"

text \<open>The line broke under a session that worked, or the device moved to another network.\<close>

definition broke_at_work :: "attempt \<Rightarrow> bool" where
  "broke_at_work a = (case a of (o1, err, now, _) \<Rightarrow>
     so_network_changed o1 \<or> err \<and> session_stood now o1 \<and> so_rejected o1 = None \<and> \<not> so_closed_by_relay o1)"

definition failed_at_home :: "attempt \<Rightarrow> bool" where
  "failed_at_home a = so_failed_locally (fst a)"

lemma plain_wait_bounds: "secs 4 \<le> plain_wait spread \<and> plain_wait spread \<le> secs 6"
proof -
  let ?f = "1 - RECONNECT_SPREAD + 2 * RECONNECT_SPREAD * clamp 0 1 spread"
  have c: "0 \<le> clamp 0 1 spread" "clamp 0 1 spread \<le> 1"
    using clamp_bounds [of 0 1 spread] by simp_all
  have f: "4 / 5 \<le> ?f" "?f \<le> 6 / 5" unfolding RECONNECT_SPREAD_def using c by linarith+
  have "4000000000 \<le> 5000000000 * g" "5000000000 * g \<le> 6000000000" if "4 / 5 \<le> g" "g \<le> 6 / 5" for g :: rat
    using that by linarith+
  from this [OF f] have "4000000000 \<le> of_nat RECONNECT_DELAY * ?f" "of_nat RECONNECT_DELAY * ?f \<le> 6000000000"
    unfolding RECONNECT_DELAY_def of_nat_mult of_nat_numeral by simp_all
  then have "4000000000 \<le> \<lfloor>of_nat RECONNECT_DELAY * ?f\<rfloor>" "\<lfloor>of_nat RECONNECT_DELAY * ?f\<rfloor> \<le> 6000000000"
    by (simp_all add: le_floor_iff floor_le_iff)
  then show ?thesis unfolding plain_wait_def mul_duration_def by linarith
qed

lemma waits_snoc:
  "waits (xs @ [(o1, err, now, spread)]) r =
     (let (r1, ws) = waits xs r; (r2, w) = next_wait o1 err now spread r1 in (r2, ws @ [w]))"
  by (induction xs arbitrary: r) (auto simp: split_beta Let_def)

lemma broke_recently:
  "rv_step (fst (waits xs \<lparr>rv_step = None\<rparr>)) \<noteq> None \<Longrightarrow>
   \<exists>pre b post. xs = pre @ b # post \<and> broke_at_work b \<and> list_all failed_at_home post"
proof (induction xs rule: rev_induct)
  case (snoc x xs)
  obtain o1 err now spread where x: "x = (o1, err, now, spread)" by (cases x)
  show ?case
  proof (cases "broke_at_work x")
    case True
    then show ?thesis by (intro exI [of _ xs] exI [of _ x] exI [of _ "[]"]) simp
  next
    case False
    with snoc.prems have "rv_step (fst (waits xs \<lparr>rv_step = None\<rparr>)) \<noteq> None" "failed_at_home x"
      by (auto simp: x waits_snoc next_wait_def broke_at_work_def failed_at_home_def split_beta Let_def
          split: if_splits option.splits bool.splits)
    with snoc.IH obtain pre b post where "xs = pre @ b # post" "broke_at_work b" "list_all failed_at_home post" by blast
    with \<open>failed_at_home x\<close> show ?thesis
      by (intro exI [of _ pre] exI [of _ b] exI [of _ "post @ [x]"]) simp
  qed
qed simp

text \<open>C27. Knocking sooner than the plain wait of four to six seconds is earned: it follows only a session that
  had carried traffic for a second and broke, or a change of network, with nothing after it but attempts
  that failed inside the device before they reached the relay. A refusal, the relay's own closing and a
  line that never worked always wait the plain time.\<close>

theorem quick_retry_is_earned:
  assumes "waits (as @ [a]) \<lparr>rv_step = None\<rparr> = (r, ws)" "last ws < secs 4"
  shows "\<exists>pre b post. as @ [a] = pre @ b # post \<and> broke_at_work b \<and> list_all failed_at_home post"
proof -
  obtain o1 err now spread where a: "a = (o1, err, now, spread)" by (cases a)
  obtain r1 ws1 where r1: "waits as \<lparr>rv_step = None\<rparr> = (r1, ws1)" by fastforce
  have w: "snd (next_wait o1 err now spread r1) < secs 4"
    using assms by (auto simp: a waits_snoc r1 split_beta Let_def)
  show ?thesis
  proof (cases "broke_at_work a")
    case True
    then show ?thesis by (intro exI [of _ as] exI [of _ a] exI [of _ "[]"]) simp
  next
    case False
    with w have "rv_step r1 \<noteq> None" "failed_at_home a"
      using plain_wait_bounds [of spread]
      by (auto simp: a next_wait_def broke_at_work_def failed_at_home_def split: if_splits option.splits bool.splits)
    with broke_recently [of as] r1 obtain pre b post where "as = pre @ b # post" "broke_at_work b" "list_all failed_at_home post"
      by auto
    with \<open>failed_at_home a\<close> show ?thesis
      by (intro exI [of _ pre] exI [of _ b] exI [of _ "post @ [a]"]) simp
  qed
qed

definition worked_and_broke :: attempt where
  "worked_and_broke = (\<lparr>so_rejected = None, so_carried_traffic = True, so_traffic_since = Some 0, so_failed_locally = False,
     so_closed_by_relay = False, so_network_changed = False\<rparr>, True, secs 30, 0)"

definition no_network_yet :: attempt where
  "no_network_yet = (\<lparr>so_rejected = None, so_carried_traffic = False, so_traffic_since = None, so_failed_locally = True,
     so_closed_by_relay = False, so_network_changed = False\<rparr>, True, secs 31, 0)"

lemma quick_retry_is_earned_witness:
  "\<exists>pre b post. [worked_and_broke, no_network_yet] @ [no_network_yet] = pre @ b # post \<and> broke_at_work b
    \<and> list_all failed_at_home post"
  by (rule quick_retry_is_earned [of "[worked_and_broke, no_network_yet]" no_network_yet "\<lparr>rv_step = Some 2\<rparr>" "[0, ms 250, ms 500]"])
    (simp_all add: worked_and_broke_def no_network_yet_def next_wait_def session_stood_def STOOD_AT_LEAST_def LOCAL_RETRY_LADDER_def)

section \<open>Keeping the UDP path open\<close>

definition UDP_MAPPING_KEEPALIVE_ID :: u8 where "UDP_MAPPING_KEEPALIVE_ID = 0"

datatype keepalive_kind = KeepClient | KeepBeacons | KeepMappingOnly

text \<open>The bound clients are a set in the code; here a list without repeats, in any order.\<close>

definition station_udp_targets :: "u8 list \<Rightarrow> u8 list" where
  "station_udp_targets bound_clients = (if bound_clients = [] then [UDP_MAPPING_KEEPALIVE_ID] else sort bound_clients)"

fun number_datagrams :: "u8 list \<Rightarrow> u8 list \<Rightarrow> u32 \<Rightarrow> u8 list list \<times> u32" where
  "number_datagrams token [] udp_seq = ([], udp_seq)"
| "number_datagrams token (cid # cids) udp_seq =
     (let udp_seq = udp_seq + 1;
          (ds, last_seq) = number_datagrams token cids udp_seq
      in (encode_tlu1_raw cid udp_seq token [] # ds, last_seq))"

definition keepalive_datagrams :: "relay_role \<Rightarrow> u8 list \<Rightarrow> u8 list \<Rightarrow> u32 \<Rightarrow> u8 list list \<times> keepalive_kind \<times> u32" where
  "keepalive_datagrams role bound_clients token udp_seq =
     (let (targets, kind) = (case role of
            RelayClient \<Rightarrow> ([0], KeepClient)
          | RelayStation \<Rightarrow> (station_udp_targets bound_clients, if bound_clients = [] then KeepMappingOnly else KeepBeacons));
          (ds, last_seq) = number_datagrams token targets udp_seq
      in (ds, kind, last_seq))"

lemma number_datagrams_length: "length (fst (number_datagrams token cids n)) = length cids"
  by (induction cids arbitrary: n) (auto simp: split_beta Let_def)

lemma number_datagrams_ids: "map (\<lambda>d. d ! 6) (fst (number_datagrams token cids n)) = cids"
  by (induction cids arbitrary: n)
    (auto simp: split_beta Let_def encode_tlu1_raw_def TLU1_MAGIC_def)

lemma keepalives_reach_every_client:
  "fst (keepalive_datagrams role bound_clients token udp_seq) \<noteq> []
   \<and> (role = RelayStation \<and> bound_clients \<noteq> [] \<longrightarrow>
      set (map (\<lambda>d. d ! 6) (fst (keepalive_datagrams role bound_clients token udp_seq))) = set bound_clients)"
proof -
  have "fst (number_datagrams token cids udp_seq) \<noteq> []" if "cids \<noteq> []" for cids
    using that number_datagrams_length [of token cids udp_seq] by auto
  moreover have "sort bound_clients = [] \<longleftrightarrow> bound_clients = []" by (metis length_0_conv length_sort)
  ultimately show ?thesis
    using number_datagrams_ids [of token "sort bound_clients" udp_seq]
    by (fastforce simp: keepalive_datagrams_def station_udp_targets_def split_beta Let_def simp del: number_datagrams.simps
        split: relay_role.split simp flip: list.set_map)
qed

end
