(* ===== verification/StreamDecode.thy ===== *)
theory StreamDecode
  imports Complex_Main WireAudio
begin

text \<open>
  One stream of audio, from Opus packets to samples (\<^verbatim>\<open>sdr-remote-core/src/stream.rs\<close>, the decoders of
  \<^verbatim>\<open>codec.rs\<close>, \<^verbatim>\<open>sdr-remote-logic/src/rx_stream.rs\<close>). A stream owns a narrowband and a wideband decoder;
  a gap is filled by the one that holds the history. The decoders come from the \<^verbatim>\<open>audiopus\<close> crate: they
  are the argument \<open>oc\<close>, a new decoder (which may fail), whether bytes are an Opus packet, and one decoding
  step. The two resamplers of a receive stream are a step function too.
\<close>

section \<open>The decoders\<close>

record 'd opus_codec =
  oc_new :: "'d option"
  oc_packet :: "u8 list \<Rightarrow> bool"
  oc_run :: "'d \<Rightarrow> u8 list option \<Rightarrow> bool \<Rightarrow> 'd \<times> i16 list option"

definition opus_decode :: "'d opus_codec \<Rightarrow> u8 list \<Rightarrow> 'd \<Rightarrow> 'd \<times> i16 list option" where
  "opus_decode oc opus d = (if oc_packet oc opus then oc_run oc d (Some opus) False else (d, None))"

definition opus_decode_fec :: "'d opus_codec \<Rightarrow> u8 list \<Rightarrow> 'd \<Rightarrow> 'd \<times> i16 list option" where
  "opus_decode_fec oc opus d = (if oc_packet oc opus then oc_run oc d (Some opus) True else (d, None))"

definition opus_decode_plc :: "'d opus_codec \<Rightarrow> 'd \<Rightarrow> 'd \<times> i16 list option" where
  "opus_decode_plc oc d = oc_run oc d None False"

definition carries_redundancy :: "u8 list \<Rightarrow> bool" where
  "carries_redundancy packet =
     (if length packet < 2 then False
      else (let config = drop_bit 3 (packet ! 0); code = packet ! 0 AND 3;
                one_silk_frame = config \<in> {0, 1, 4, 5, 8, 9} \<or> 12 \<le> config \<and> config \<le> 15
            in one_silk_frame \<and> code = 0 \<and> drop_bit 6 (packet ! 1) AND 1 = 1))"

section \<open>A stream\<close>

definition CONCEAL_MAX_FRAMES :: nat where "CONCEAL_MAX_FRAMES = 400"

datatype filled = Rebuilt "i16 list" bool | Concealed "i16 list" bool

record 'd stream_decoder =
  sd_nb :: 'd
  sd_wb :: 'd
  sd_last_wb :: bool
  sd_has_history :: bool
  sd_conceal_frames :: nat
  sd_said_silent :: bool

text \<open>The two codecs, narrowband and wideband, are the arguments \<open>nb\<close> and \<open>wb\<close>.\<close>

definition stream_new :: "'d opus_codec \<Rightarrow> 'd opus_codec \<Rightarrow> 'd stream_decoder option" where
  "stream_new nb wb =
     (case (oc_new nb, oc_new wb) of
        (Some n, Some w) \<Rightarrow> Some \<lparr>sd_nb = n, sd_wb = w, sd_last_wb = False, sd_has_history = False,
          sd_conceal_frames = 0, sd_said_silent = False\<rparr>
      | _ \<Rightarrow> None)"

text \<open>The flags first, then the decoders one by one: either may fail to be made.\<close>

definition stream_reset :: "'d opus_codec \<Rightarrow> 'd opus_codec \<Rightarrow> 'd stream_decoder \<Rightarrow> 'd stream_decoder \<times> bool" where
  "stream_reset nb wb s0 =
     (let s = s0\<lparr>sd_last_wb := False, sd_has_history := False, sd_conceal_frames := 0, sd_said_silent := False\<rparr>
      in case oc_new nb of
           None \<Rightarrow> (s, False)
         | Some n \<Rightarrow> (case oc_new wb of
               None \<Rightarrow> (s\<lparr>sd_nb := n\<rparr>, False)
             | Some w \<Rightarrow> (s\<lparr>sd_nb := n, sd_wb := w\<rparr>, True)))"

definition stream_accept :: "i16 list option \<Rightarrow> bool \<Rightarrow> 'd stream_decoder \<Rightarrow> 'd stream_decoder \<times> i16 list option" where
  "stream_accept r wideband s =
     (case r of
        Some pcm \<Rightarrow> (s\<lparr>sd_last_wb := wideband, sd_has_history := True, sd_conceal_frames := 0\<rparr>, Some pcm)
      | None \<Rightarrow> (s, None))"

definition on_decoder :: "bool \<Rightarrow> ('d \<Rightarrow> 'd \<times> 'r) \<Rightarrow> ('d \<Rightarrow> 'd \<times> 'r) \<Rightarrow> 'd stream_decoder \<Rightarrow> 'd stream_decoder \<times> 'r" where
  "on_decoder wideband f g s =
     (if wideband then (let (d, r) = g (sd_wb s) in (s\<lparr>sd_wb := d\<rparr>, r))
      else (let (d, r) = f (sd_nb s) in (s\<lparr>sd_nb := d\<rparr>, r)))"

definition stream_decode ::
    "'d opus_codec \<Rightarrow> 'd opus_codec \<Rightarrow> u8 list \<Rightarrow> bool \<Rightarrow> 'd stream_decoder \<Rightarrow> 'd stream_decoder \<times> i16 list option" where
  "stream_decode nb wb opus wideband s =
     (let (s1, r) = on_decoder wideband (opus_decode nb opus) (opus_decode wb opus) s
      in stream_accept r wideband s1)"

definition stream_recover ::
    "'d opus_codec \<Rightarrow> 'd opus_codec \<Rightarrow> u8 list \<Rightarrow> bool \<Rightarrow> 'd stream_decoder \<Rightarrow> 'd stream_decoder \<times> i16 list option" where
  "stream_recover nb wb next_opus wideband s =
     (let (s1, r) = on_decoder wideband (opus_decode_fec nb next_opus) (opus_decode_fec wb next_opus) s
      in stream_accept r wideband s1)"

text \<open>The root mean square of samples is above zero just when a sample is not zero.\<close>

definition note_if_codec_went_silent :: "i16 list \<Rightarrow> 'd stream_decoder \<Rightarrow> 'd stream_decoder" where
  "note_if_codec_went_silent pcm s =
     (if sd_said_silent s \<or> \<not> sd_has_history s \<or> list_ex (\<lambda>x. x \<noteq> 0) pcm then s
      else s\<lparr>sd_said_silent := True\<rparr>)"

definition conceal :: "'d opus_codec \<Rightarrow> 'd opus_codec \<Rightarrow> 'd stream_decoder \<Rightarrow> 'd stream_decoder \<times> i16 list option" where
  "conceal nb wb s =
     (if \<not> sd_has_history s \<or> CONCEAL_MAX_FRAMES \<le> sd_conceal_frames s then (s, None)
      else (let (s1, r) = on_decoder (sd_last_wb s) (opus_decode_plc nb) (opus_decode_plc wb)
                  (s\<lparr>sd_conceal_frames := sd_conceal_frames s + 1\<rparr>)
            in case r of None \<Rightarrow> (s1, None) | Some pcm \<Rightarrow> (note_if_codec_went_silent pcm s1, Some pcm)))"

definition conceal_filled ::
    "'d opus_codec \<Rightarrow> 'd opus_codec \<Rightarrow> 'd stream_decoder \<Rightarrow> 'd stream_decoder \<times> filled option" where
  "conceal_filled nb wb s =
     (let wideband = sd_last_wb s; (s1, pcm) = conceal nb wb s
      in (s1, map_option (\<lambda>p. Concealed p wideband) pcm))"

definition recover_or_conceal ::
    "'d opus_codec \<Rightarrow> 'd opus_codec \<Rightarrow> (u8 list \<times> bool) option \<Rightarrow> 'd stream_decoder \<Rightarrow> 'd stream_decoder \<times> filled option" where
  "recover_or_conceal nb wb nxt s =
     (case nxt of
        Some (opus, wideband) \<Rightarrow>
          if carries_redundancy opus then
            (case stream_recover nb wb opus wideband s of
               (s1, Some pcm) \<Rightarrow> (s1, Some (Rebuilt pcm wideband))
             | (s1, None) \<Rightarrow> conceal_filled nb wb s1)
          else conceal_filled nb wb s
      | None \<Rightarrow> conceal_filled nb wb s)"

section \<open>A receive stream\<close>

definition NETWORK_SAMPLE_RATE :: u32 where "NETWORK_SAMPLE_RATE = 8000"
definition NETWORK_SAMPLE_RATE_WIDEBAND :: u32 where "NETWORK_SAMPLE_RATE_WIDEBAND = 16000"

record decoded =
  dc_pcm :: "i16 list"
  dc_rate :: u32
  dc_dev :: "rat list"
  dc_concealed :: bool

record ('d, 'r) rx_stream =
  rx_dec :: "'d stream_decoder"
  rx_res_nb :: 'r
  rx_res_wb :: 'r

text \<open>A resampler is a step \<open>rs\<close> that may fail; a sample divided by 32768 is exact in \<^verbatim>\<open>f32\<close>.\<close>

definition resample :: "('r \<Rightarrow> rat list \<Rightarrow> 'r \<times> rat list option) \<Rightarrow> i16 list \<Rightarrow> 'r \<Rightarrow> 'r \<times> rat list" where
  "resample rs pcm r =
     (let (r', out) = rs r (map (\<lambda>s. of_int (sint s) / 32768) pcm)
      in (r', case out of Some result \<Rightarrow> result | None \<Rightarrow> []))"

definition rx_finish ::
    "('r \<Rightarrow> rat list \<Rightarrow> 'r \<times> rat list option) \<Rightarrow> i16 list \<Rightarrow> bool \<Rightarrow> bool
      \<Rightarrow> ('d, 'r) rx_stream \<Rightarrow> ('d, 'r) rx_stream \<times> decoded" where
  "rx_finish rs pcm wideband concealed s =
     (let (s1, dev) = (if wideband then (let (r, d) = resample rs pcm (rx_res_wb s) in (s\<lparr>rx_res_wb := r\<rparr>, d))
                       else (let (r, d) = resample rs pcm (rx_res_nb s) in (s\<lparr>rx_res_nb := r\<rparr>, d)))
      in (s1, \<lparr>dc_pcm = pcm, dc_rate = (if wideband then NETWORK_SAMPLE_RATE_WIDEBAND else NETWORK_SAMPLE_RATE),
               dc_dev = dev, dc_concealed = concealed\<rparr>))"

definition rx_filled ::
    "('r \<Rightarrow> rat list \<Rightarrow> 'r \<times> rat list option) \<Rightarrow> filled \<Rightarrow> ('d, 'r) rx_stream \<Rightarrow> ('d, 'r) rx_stream \<times> decoded" where
  "rx_filled rs f s =
     (case f of Rebuilt pcm wideband \<Rightarrow> rx_finish rs pcm wideband False s
      | Concealed pcm wideband \<Rightarrow> rx_finish rs pcm wideband True s)"

text \<open>The stream's decoder does its step, and what comes out is finished.\<close>

definition with_dec ::
    "('d stream_decoder \<Rightarrow> 'd stream_decoder \<times> 'o option)
      \<Rightarrow> ('o \<Rightarrow> ('d, 'r) rx_stream \<Rightarrow> ('d, 'r) rx_stream \<times> decoded)
      \<Rightarrow> ('d, 'r) rx_stream \<Rightarrow> ('d, 'r) rx_stream \<times> decoded option" where
  "with_dec step fin s =
     (let (d, out) = step (rx_dec s); s1 = s\<lparr>rx_dec := d\<rparr>
      in case out of None \<Rightarrow> (s1, None) | Some x \<Rightarrow> apsnd Some (fin x s1))"

definition rx_decode where
  "rx_decode nb wb rs opus wideband s =
     with_dec (stream_decode nb wb opus wideband) (\<lambda>pcm. rx_finish rs pcm wideband False) s"

definition rx_recover where
  "rx_recover nb wb rs next_opus wideband s =
     with_dec (stream_recover nb wb next_opus wideband) (\<lambda>pcm. rx_finish rs pcm wideband False) s"

definition rx_recover_or_conceal where
  "rx_recover_or_conceal nb wb rs nxt s = with_dec (recover_or_conceal nb wb nxt) (rx_filled rs) s"

definition rx_conceal where
  "rx_conceal nb wb rs s = with_dec (conceal_filled nb wb) (rx_filled rs) s"

text \<open>New resamplers for another device come from \<open>mk\<close>; when one cannot be made the old ones stay.\<close>

definition set_playback_rate :: "(u32 \<Rightarrow> u32 \<Rightarrow> 'r option) \<Rightarrow> u32 \<Rightarrow> ('d, 'r) rx_stream \<Rightarrow> ('d, 'r) rx_stream" where
  "set_playback_rate mk rate s =
     (case (mk NETWORK_SAMPLE_RATE rate, mk NETWORK_SAMPLE_RATE_WIDEBAND rate) of
        (Some n, Some w) \<Rightarrow> s\<lparr>rx_res_nb := n, rx_res_wb := w\<rparr>
      | _ \<Rightarrow> s)"

definition rx_reset :: "'d opus_codec \<Rightarrow> 'd opus_codec \<Rightarrow> ('d, 'r) rx_stream \<Rightarrow> ('d, 'r) rx_stream" where
  "rx_reset nb wb s = s\<lparr>rx_dec := fst (stream_reset nb wb (rx_dec s))\<rparr>"

section \<open>Several channels in one frame\<close>

text \<open>How the client keeps the channels of one packet in one buffered frame (\<^verbatim>\<open>engine.rs\<close>), and finds one again.\<close>

definition channel_blob :: "(u8 \<times> u8 list) list \<Rightarrow> u8 list" where
  "channel_blob channels =
     of_nat (length channels)
       # concat (map (\<lambda>(ch_id, opus). ch_id # u16_to_be (of_nat (length opus)) @ opus) channels)"

fun channel_scan :: "nat \<Rightarrow> u8 list \<Rightarrow> nat \<Rightarrow> u8 \<Rightarrow> u8 list option" where
  "channel_scan 0 blob pos want = None"
| "channel_scan (Suc n) blob pos want =
     (if length blob < pos + 3 then None
      else (let ch = blob ! pos; len = unat (u16_be (blob ! (pos + 1)) (blob ! (pos + 2)))
            in if length blob < pos + 3 + len then None
               else if ch = want then Some (take len (drop (pos + 3) blob))
               else channel_scan n blob (pos + 3 + len) want))"

definition channel_opus :: "u8 list \<Rightarrow> u8 \<Rightarrow> u8 list option" where
  "channel_opus blob want = (if blob = [] then None else channel_scan (unat (blob ! 0)) blob 1 want)"

text \<open>A lost frame of one channel: from the next packet, when that carries the channel.\<close>

definition channel_recover_or_conceal where
  "channel_recover_or_conceal nb wb rs s nxt channel =
     rx_recover_or_conceal nb wb rs
       (case nxt of None \<Rightarrow> None
        | Some (blob, wideband) \<Rightarrow> map_option (\<lambda>o'. (o', wideband)) (channel_opus blob channel)) s"

section \<open>A stream's life\<close>

text \<open>What can be asked of a stream, and the log of what came of it; \<open>Rebuilt\<close> stands for real audio, arrived or
  rebuilt.\<close>

datatype stream_event =
    DecodeFrame "u8 list" bool
  | RecoverFrame "u8 list" bool
  | FillGap "(u8 list \<times> bool) option"
  | ConcealGap
  | ResetStream

datatype said = WasReset | Said "filled option"

fun stream_step :: "'d opus_codec \<Rightarrow> 'd opus_codec \<Rightarrow> stream_event \<Rightarrow> 'd stream_decoder \<Rightarrow> 'd stream_decoder \<times> said" where
  "stream_step nb wb (DecodeFrame opus w) s =
     apsnd (\<lambda>r. Said (map_option (\<lambda>pcm. Rebuilt pcm w) r)) (stream_decode nb wb opus w s)"
| "stream_step nb wb (RecoverFrame opus w) s =
     apsnd (\<lambda>r. Said (map_option (\<lambda>pcm. Rebuilt pcm w) r)) (stream_recover nb wb opus w s)"
| "stream_step nb wb (FillGap nxt) s = apsnd Said (recover_or_conceal nb wb nxt s)"
| "stream_step nb wb ConcealGap s = apsnd Said (conceal_filled nb wb s)"
| "stream_step nb wb ResetStream s = (fst (stream_reset nb wb s), WasReset)"

text \<open>The log is kept with its latest entry first.\<close>

fun stream_run ::
    "'d opus_codec \<Rightarrow> 'd opus_codec \<Rightarrow> stream_event list \<Rightarrow> 'd stream_decoder \<Rightarrow> said list \<Rightarrow> 'd stream_decoder \<times> said list" where
  "stream_run nb wb [] s past = (s, past)"
| "stream_run nb wb (e # es) s past =
     (let (s', x) = stream_step nb wb e s in stream_run nb wb es s' (x # past))"

fun last_real :: "said list \<Rightarrow> bool option" where
  "last_real (Said (Some (Rebuilt _ w)) # _) = Some w"
| "last_real (WasReset # _) = None"
| "last_real (_ # past) = last_real past"
| "last_real [] = None"

fun concealed_since :: "said list \<Rightarrow> nat" where
  "concealed_since (Said (Some (Rebuilt _ _)) # _) = 0"
| "concealed_since (WasReset # _) = 0"
| "concealed_since (Said (Some (Concealed _ _)) # past) = Suc (concealed_since past)"
| "concealed_since (Said None # past) = concealed_since past"
| "concealed_since [] = 0"

definition stream_ok :: "'d stream_decoder \<Rightarrow> said list \<Rightarrow> bool" where
  "stream_ok s past \<longleftrightarrow> sd_has_history s = (last_real past \<noteq> None) \<and> (\<forall>w. last_real past = Some w \<longrightarrow> sd_last_wb s = w)
     \<and> concealed_since past \<le> sd_conceal_frames s \<and> sd_conceal_frames s \<le> CONCEAL_MAX_FRAMES"

lemma on_decoder_keeps:
  assumes "on_decoder w f g s = (s', r)"
  shows "sd_last_wb s' = sd_last_wb s" "sd_has_history s' = sd_has_history s"
    "sd_conceal_frames s' = sd_conceal_frames s"
    "w \<Longrightarrow> r = snd (g (sd_wb s))" "\<not> w \<Longrightarrow> r = snd (f (sd_nb s))"
  using assms by (auto simp: on_decoder_def split: if_splits prod.splits)

lemma note_silent_keeps [simp]:
  "sd_last_wb (note_if_codec_went_silent pcm s) = sd_last_wb s"
  "sd_has_history (note_if_codec_went_silent pcm s) = sd_has_history s"
  "sd_conceal_frames (note_if_codec_went_silent pcm s) = sd_conceal_frames s"
  by (simp_all add: note_if_codec_went_silent_def)

lemma accepted_ok:
  assumes "on_decoder w f g s = (s1, r)" "stream_ok s past"
  shows "stream_ok (fst (stream_accept r w s1)) (Said (map_option (\<lambda>pcm. Rebuilt pcm w) r) # past)"
  using assms on_decoder_keeps(1-3) [OF assms(1)]
  by (auto simp: stream_accept_def stream_ok_def split: option.split)

lemma refused_ok:
  assumes "on_decoder w f g s = (s1, None)" "stream_ok s past"
  shows "stream_ok (fst (stream_accept None w s1)) past"
  using assms on_decoder_keeps(1-3) [OF assms(1)] by (auto simp: stream_accept_def stream_ok_def)

lemma concealed_ok:
  assumes "conceal_filled nb wb s = (s', r)" "stream_ok s past"
  shows "stream_ok s' (Said r # past)"
    and "r = Some (Rebuilt pcm w) \<Longrightarrow> False"
    and "r = Some (Concealed pcm w) \<Longrightarrow> last_real past = Some w \<and> concealed_since past < CONCEAL_MAX_FRAMES
      \<and> snd (opus_decode_plc (if w then wb else nb) (if w then sd_wb s else sd_nb s)) = Some pcm"
proof -
  obtain s1 o' where c: "on_decoder (sd_last_wb s) (opus_decode_plc nb) (opus_decode_plc wb)
      (s\<lparr>sd_conceal_frames := sd_conceal_frames s + 1\<rparr>) = (s1, o')" by fastforce
  note k = on_decoder_keeps [OF c]
  show "stream_ok s' (Said r # past)" "r = Some (Rebuilt pcm w) \<Longrightarrow> False"
    "r = Some (Concealed pcm w) \<Longrightarrow> last_real past = Some w \<and> concealed_since past < CONCEAL_MAX_FRAMES
      \<and> snd (opus_decode_plc (if w then wb else nb) (if w then sd_wb s else sd_nb s)) = Some pcm"
    using assms c k by (auto simp: conceal_filled_def conceal_def stream_ok_def Let_def split: if_splits option.splits)
qed

lemma stream_step_ok:
  assumes "stream_ok s past" "stream_step nb wb e s = (s', x)"
  shows "stream_ok s' (x # past)"
proof (cases e)
  case (DecodeFrame opus w)
  obtain s1 r where c: "on_decoder w (opus_decode nb opus) (opus_decode wb opus) s = (s1, r)" by fastforce
  show ?thesis
    using accepted_ok [OF c assms(1)] assms(2) DecodeFrame c
    by (cases r) (auto simp: stream_decode_def stream_accept_def)
next
  case (RecoverFrame opus w)
  obtain s1 r where c: "on_decoder w (opus_decode_fec nb opus) (opus_decode_fec wb opus) s = (s1, r)" by fastforce
  show ?thesis
    using accepted_ok [OF c assms(1)] assms(2) RecoverFrame c
    by (cases r) (auto simp: stream_recover_def stream_accept_def)
next
  case (FillGap nxt)
  consider "stream_step nb wb e s = apsnd Said (conceal_filled nb wb s)"
    | opus w where "stream_step nb wb e s = apsnd Said (case stream_recover nb wb opus w s of
         (s1, Some pcm) \<Rightarrow> (s1, Some (Rebuilt pcm w)) | (s1, None) \<Rightarrow> conceal_filled nb wb s1)"
    using FillGap by (cases nxt; cases "carries_redundancy (fst (the nxt))") (auto simp: recover_or_conceal_def)
  then show ?thesis
  proof cases
    case 1
    then show ?thesis using concealed_ok(1) [OF _ assms(1)] assms(2) by (cases "conceal_filled nb wb s") auto
  next
    case 2
    obtain s1 r where c: "on_decoder w (opus_decode_fec nb opus) (opus_decode_fec wb opus) s = (s1, r)" by fastforce
    show ?thesis
    proof (cases r)
      case None
      then have "stream_ok s1 past" using refused_ok [of w _ _ s s1 past] c assms(1) by (simp add: stream_accept_def)
      then show ?thesis using concealed_ok(1) [of nb wb s1] 2 assms(2) c None
        by (cases "conceal_filled nb wb s1") (auto simp: stream_recover_def stream_accept_def)
    next
      case (Some pcm)
      then show ?thesis using accepted_ok [OF c assms(1)] 2 assms(2) c
        by (auto simp: stream_recover_def stream_accept_def)
    qed
  qed
next
  case ConcealGap
  then show ?thesis using concealed_ok(1) [OF _ assms(1)] assms(2) by (cases "conceal_filled nb wb s") auto
next
  case ResetStream
  then show ?thesis using assms(2) by (auto simp: stream_reset_def stream_ok_def Let_def split: option.splits)
qed

lemma stream_run_ok:
  "stream_ok s past \<Longrightarrow> stream_run nb wb es s past = (s', past') \<Longrightarrow> stream_ok s' past'"
  by (induction es arbitrary: s past) (auto simp: split_beta dest: stream_step_ok [OF _ surjective_pairing])

lemma stream_new_ok: "stream_new nb wb = Some s \<Longrightarrow> stream_ok s []"
  by (auto simp: stream_new_def stream_ok_def split: option.splits)

text \<open>C40. A gap is never filled from another stream's history or the wrong decoder: in every run of a stream
  a concealed frame comes only after real audio since the last reset, in the format of the last of it, from the
  decoder of that format as it stands, and at most 400 times in a row.\<close>

theorem concealed_from_its_own_history:
  assumes "stream_new nb wb = Some s0" "stream_run nb wb es s0 [] = (s, past)"
    and "snd (stream_step nb wb e s) = Said (Some (Concealed pcm w))"
  shows "last_real past = Some w \<and> concealed_since past < CONCEAL_MAX_FRAMES
    \<and> (\<exists>s1. (s1 = s \<or> (\<exists>opus v. s1 = fst (stream_recover nb wb opus v s) \<and> snd (stream_recover nb wb opus v s) = None))
         \<and> snd (opus_decode_plc (if w then wb else nb) (if w then sd_wb s1 else sd_nb s1)) = Some pcm)"
proof -
  have ok: "stream_ok s past" using stream_run_ok [OF stream_new_ok] assms(1,2) by blast
  obtain s1 where s1: "s1 = s \<or> (\<exists>opus v. s1 = fst (stream_recover nb wb opus v s) \<and> snd (stream_recover nb wb opus v s) = None)"
    "stream_ok s1 past" "snd (conceal_filled nb wb s1) = Some (Concealed pcm w)"
  proof (cases e)
    case (FillGap nxt)
    show ?thesis
    proof (cases "\<exists>opus v. nxt = Some (opus, v) \<and> carries_redundancy opus")
      case True
      then obtain opus v where n: "nxt = Some (opus, v)" "carries_redundancy opus" by blast
      obtain s1 r where c: "on_decoder v (opus_decode_fec nb opus) (opus_decode_fec wb opus) s = (s1, r)" by fastforce
      have "r = None" using assms(3) FillGap n c
        by (cases r) (auto simp: recover_or_conceal_def stream_recover_def stream_accept_def)
      then have r: "stream_recover nb wb opus v s = (s1, None)" "stream_ok s1 past"
        using c refused_ok [of v _ _ s s1 past] ok by (simp_all add: stream_recover_def stream_accept_def)
      then have "snd (conceal_filled nb wb s1) = Some (Concealed pcm w)"
        using assms(3) FillGap n by (simp add: recover_or_conceal_def)
      moreover have "s1 = fst (stream_recover nb wb opus v s) \<and> snd (stream_recover nb wb opus v s) = None"
        using r(1) by simp
      ultimately show ?thesis using that [of s1] r(2) by blast
    next
      case False
      then show ?thesis using that [of s] ok assms(3) FillGap by (cases nxt) (auto simp: recover_or_conceal_def)
    qed
  qed (use that [of s] ok assms(3) in auto)
  from concealed_ok(3) [OF _ s1(2)] s1(1,3) show ?thesis by (metis surjective_pairing)
qed

text \<open>A codec whose decoders answer with their own kind and a count of what they decoded.\<close>

definition counting_codec :: "i16 \<Rightarrow> nat opus_codec" where
  "counting_codec tone =
     \<lparr>oc_new = Some 0, oc_packet = (\<lambda>p. p \<noteq> []), oc_run = (\<lambda>d p fec. (d + 1, Some [tone, of_nat d]))\<rparr>"

lemma concealed_from_its_own_history_witness:
  "let nb = counting_codec 8; wb = counting_codec 16;
       s0 = the (stream_new nb wb); es = [DecodeFrame [1] False, DecodeFrame [2] True];
       (s, past) = stream_run nb wb es s0 []
   in snd (stream_step nb wb ConcealGap s) = Said (Some (Concealed [16, 1] True)) \<and> last_real past = Some True"
proof -
  let ?nb = "counting_codec 8" and ?wb = "counting_codec 16"
  let ?s0 = "\<lparr>sd_nb = 0, sd_wb = 0, sd_last_wb = False, sd_has_history = False, sd_conceal_frames = 0, sd_said_silent = False\<rparr>"
  have n: "stream_new ?nb ?wb = Some ?s0" by (simp add: stream_new_def counting_codec_def)
  obtain s past where r: "stream_run ?nb ?wb [DecodeFrame [1] False, DecodeFrame [2] True] ?s0 [] = (s, past)" by fastforce
  then have c: "snd (stream_step ?nb ?wb ConcealGap s) = Said (Some (Concealed [16, 1] True))"
    by (auto simp: stream_decode_def on_decoder_def opus_decode_def counting_codec_def stream_accept_def
        conceal_filled_def conceal_def opus_decode_plc_def CONCEAL_MAX_FRAMES_def)
  then show ?thesis
    using concealed_from_its_own_history [OF n r c] n r by simp
qed

section \<open>Each frame in its own format\<close>

text \<open>Whatever a receive stream hands out came through the resampler of the format it was decoded in, and
  is labelled with that format's rate; the other resampler is not touched.\<close>

definition in_own_format where
  "in_own_format rs s s' out \<longleftrightarrow>
     (case out of
        None \<Rightarrow> rx_res_nb s' = rx_res_nb s \<and> rx_res_wb s' = rx_res_wb s
      | Some d \<Rightarrow>
          if sd_last_wb (rx_dec s')
          then dc_rate d = NETWORK_SAMPLE_RATE_WIDEBAND \<and> (rx_res_wb s', dc_dev d) = resample rs (dc_pcm d) (rx_res_wb s)
            \<and> rx_res_nb s' = rx_res_nb s
          else dc_rate d = NETWORK_SAMPLE_RATE \<and> (rx_res_nb s', dc_dev d) = resample rs (dc_pcm d) (rx_res_nb s)
            \<and> rx_res_wb s' = rx_res_wb s)"

lemma finish_in_own_format:
  "rx_finish rs pcm w concealed s1 = (s', d) \<Longrightarrow> sd_last_wb (rx_dec s1) = w \<Longrightarrow>
   rx_res_nb s1 = rx_res_nb s \<Longrightarrow> rx_res_wb s1 = rx_res_wb s \<Longrightarrow> in_own_format rs s s' (Some d)"
  by (auto simp: rx_finish_def in_own_format_def split: if_splits prod.splits)

lemma format_of_a_step:
  "stream_decode nb wb opus w s = (s', Some pcm) \<Longrightarrow> sd_last_wb s' = w"
  "stream_recover nb wb opus w s = (s', Some pcm) \<Longrightarrow> sd_last_wb s' = w"
  by (auto simp: stream_decode_def stream_recover_def stream_accept_def split: prod.splits option.splits)

lemma format_of_a_gap:
  "conceal_filled nb wb s = (s', Some f) \<Longrightarrow> \<exists>pcm. f = Concealed pcm (sd_last_wb s')"
  by (auto simp: conceal_filled_def conceal_def Let_def split: prod.splits option.splits if_splits dest: on_decoder_keeps(1))

lemma format_of_a_fill:
  "recover_or_conceal nb wb nxt s = (s', Some f) \<Longrightarrow>
     (\<exists>pcm. f = Concealed pcm (sd_last_wb s')) \<or> (\<exists>pcm. f = Rebuilt pcm (sd_last_wb s'))"
  by (auto simp: recover_or_conceal_def split: prod.splits option.splits if_splits
      dest: format_of_a_gap format_of_a_step(2))

lemma with_dec_in_own_format:
  assumes "\<And>d x. step (rx_dec s) = (d, Some x) \<Longrightarrow> \<exists>pcm c. fin x = rx_finish rs pcm (sd_last_wb d) c"
  shows "case with_dec step fin s of (s', out) \<Rightarrow> in_own_format rs s s' out"
proof -
  obtain d out where st: "step (rx_dec s) = (d, out)" by fastforce
  show ?thesis
  proof (cases out)
    case None
    then show ?thesis using st by (simp add: with_dec_def in_own_format_def)
  next
    case (Some x)
    then obtain pcm c where f: "fin x = rx_finish rs pcm (sd_last_wb d) c" using assms st by blast
    obtain s' o' where r: "rx_finish rs pcm (sd_last_wb d) c (s\<lparr>rx_dec := d\<rparr>) = (s', o')" by fastforce
    then have "in_own_format rs s s' (Some o')" by (rule finish_in_own_format) simp_all
    then show ?thesis using st Some f r by (simp add: with_dec_def)
  qed
qed

lemma rx_filled_simps: "rx_filled rs (Rebuilt pcm w) = rx_finish rs pcm w False"
  "rx_filled rs (Concealed pcm w) = rx_finish rs pcm w True"
  by (simp_all add: rx_filled_def fun_eq_iff)

theorem each_frame_in_its_own_format:
  "(case rx_decode nb wb rs opus w s of (s', out) \<Rightarrow> in_own_format rs s s' out)
   \<and> (case rx_recover nb wb rs opus w s of (s', out) \<Rightarrow> in_own_format rs s s' out)
   \<and> (case rx_recover_or_conceal nb wb rs nxt s of (s', out) \<Rightarrow> in_own_format rs s s' out)
   \<and> (case rx_conceal nb wb rs s of (s', out) \<Rightarrow> in_own_format rs s s' out)"
  unfolding rx_decode_def rx_recover_def rx_recover_or_conceal_def rx_conceal_def
  by (intro conjI with_dec_in_own_format;
      auto simp: rx_filled_simps dest!: format_of_a_step format_of_a_gap format_of_a_fill; blast)

section \<open>A channel reaches its decoder\<close>

lemma scan_reads:
  "read_channels n buf pos = Ok cs \<Longrightarrow> channel_scan n buf pos want = map_of cs want"
proof (induction n arbitrary: pos cs)
  case (Suc n)
  show ?case
  proof (cases "length buf < pos + 3 + unat (u16_be (buf ! (pos + 1)) (buf ! (pos + 2))) \<or> length buf < pos + 3")
    case True
    then have "cs = []" using Suc.prems by (auto simp: byte_at_def u16_at_def slice_at_def split: if_splits)
    then show ?thesis using True by (auto simp: Let_def)
  next
    case False
    then obtain rest where "read_channels n buf (pos + 3 + unat (u16_be (buf ! (pos + 1)) (buf ! (pos + 2)))) = Ok rest"
      "cs = (buf ! pos, take (unat (u16_be (buf ! (pos + 1)) (buf ! (pos + 2)))) (drop (pos + 3) buf)) # rest"
      using Suc.prems by (auto simp: byte_at_def u16_at_def slice_at_def wbind_ok_iff)
    then show ?thesis using False Suc.IH by (auto simp: Let_def)
  qed
qed simp

text \<open>What the client keeps of a packet of several channels and takes apart again for each decoder is what the
  packet carried: of any datagram that parses, the decoder of a channel is given exactly that channel's
  bytes, and nothing where the packet does not carry it.\<close>

theorem channel_reaches_its_decoder:
  assumes "multi_deserialize buf = Ok p"
  shows "channel_opus (channel_blob (ma_channels p)) want = map_of (ma_channels p) want"
proof -
  let ?cs = "ma_channels p"
  obtain count pos where r: "read_channels (unat (count :: u8)) buf pos = Ok ?cs"
    using assms by (auto simp: multi_deserialize_def expect_ok_iff wbind_ok_iff)
  have sizes: "length cs \<le> n \<and> (\<forall>(_, d) \<in> set cs. length d < 2 ^ 16)" if "read_channels n buf q = Ok cs" for n q cs
    using that
  proof (induction n arbitrary: q cs)
    case (Suc n)
    show ?case
    proof (cases cs)
      case (Cons c rest)
      have v: "unat v < 65536" for v :: u16 using unsigned_less [of v, where ?'a = nat] by simp
      have "\<exists>q'. read_channels n buf q' = Ok rest \<and> length (snd c) < 2 ^ 16"
        using Suc.prems Cons v by (auto simp: wbind_ok_iff min_def split: if_splits intro: order.strict_trans1)
      then show ?thesis using Suc.IH Cons by (cases c) fastforce
    qed simp
  qed simp
  have "unat count < 256" using unsigned_less [of count, where ?'a = nat] by simp
  then have n: "length ?cs < 256" "\<forall>(_, d) \<in> set ?cs. length d < 2 ^ 16" using sizes [OF r] by auto
  have b: "channel_blob ?cs = [of_nat (length ?cs)] @ concat (map channel_bytes ?cs)"
    by (simp add: channel_blob_def channel_bytes_def [abs_def] case_prod_unfold)
  have "read_channels (length ?cs) (channel_blob ?cs) 1 = Ok ?cs"
    using read_channels_written [OF n(2), of "[]"] read_channels_past [of "[of_nat (length ?cs)]" 1 "length ?cs" "concat (map channel_bytes ?cs)"]
    unfolding b by simp
  from scan_reads [OF this, of want] n(1) show ?thesis
    by (simp add: channel_opus_def channel_blob_def)
qed

lemma channel_reaches_its_decoder_witness:
  "channel_opus (channel_blob [(0, [7, 8]), (2, [9])]) 2 = Some [9]"
proof -
  let ?p = "\<lparr>ma_sequence = 1, ma_timestamp = 2, ma_channels = [(0, [7, 8]), (2, [9])], ma_flags = 0\<rparr>"
  have "multi_deserialize (multi_serialize ?p) = Ok ?p" by (rule multi.roundtrip) simp
  from channel_reaches_its_decoder [OF this, of 2] show ?thesis by simp
qed

end
