(* ===== verification/TxPlayout.thy ===== *)
theory TxPlayout
  imports JitterBuffer StreamDecode PttSafety
begin

text \<open>
  The operator's speech as the server plays it (\<^verbatim>\<open>sdr-remote-server/src/tx_recover.rs\<close>, \<^verbatim>\<open>pause_trim.rs\<close>):
  packets go into the transmit jitter buffer, every 20 ms a tick takes a frame out, decodes it or fills the
  gap, catches up in the pauses, and ends the transmission at the release frame. The single-precision arithmetic of
  the levels is the argument \<open>pf\<close>: the decibels of a frame from the sum of its squares and its length, and the
  two additions to a level. Levels are rational numbers, as \<^verbatim>\<open>f32\<close> values are; the index of a percentile is
  rounded half up, which for up to 150 levels is what the \<^verbatim>\<open>f32\<close> product and \<^verbatim>\<open>round\<close> give.
\<close>

section \<open>Catching up in the pauses\<close>

record pause_f32 =
  pf_db :: "nat \<Rightarrow> nat \<Rightarrow> rat"
  pf_above_floor :: "rat \<Rightarrow> rat"
  pf_below_speech :: "rat \<Rightarrow> rat"

definition FLOOR_FRAMES :: nat where "FLOOR_FRAMES = 150"
definition FLOOR_WARMUP_FRAMES :: nat where "FLOOR_WARMUP_FRAMES = 25"
definition MAX_WAIT :: duration where "MAX_WAIT = ms 1000"
definition LOG_EVERY :: duration where "LOG_EVERY = secs 10"
definition SILENT_DB :: rat where "SILENT_DB = - 96"

definition level_db :: "pause_f32 \<Rightarrow> i16 list \<Rightarrow> rat" where
  "level_db pf pcm =
     (if pcm = [] then SILENT_DB
      else (let sum = nat (sum_list (map (\<lambda>s. sint s * sint s) pcm))
            in if sum < length pcm then SILENT_DB else pf_db pf sum (length pcm)))"

definition backlog :: "nat \<Rightarrow> u32 \<Rightarrow> bool" where
  "backlog depth_after_pull target \<longleftrightarrow> unat target + 1 < depth_after_pull"

record pause_trim =
  pt_levels :: "rat list"
  pt_len :: nat
  pt_next :: nat
  pt_last_noted :: "instant option"
  pt_backlog_since :: "instant option"
  pt_in_pause :: nat
  pt_by_fallback :: nat
  pt_said_at :: instant

definition pause_new :: "instant \<Rightarrow> pause_trim" where
  "pause_new now =
     \<lparr>pt_levels = replicate FLOOR_FRAMES 0, pt_len = 0, pt_next = 0, pt_last_noted = None,
      pt_backlog_since = None, pt_in_pause = 0, pt_by_fallback = 0, pt_said_at = now\<rparr>"

definition quiet_below :: "pause_f32 \<Rightarrow> pause_trim \<Rightarrow> rat option" where
  "quiet_below pf t =
     (if pt_len t < FLOOR_WARMUP_FRAMES then None
      else (let v = sort (take (pt_len t) (pt_levels t)); n = length v - 1
            in Some (min (pf_above_floor pf (v ! ((n + 5) div 10))) (pf_below_speech pf (v ! ((8 * n + 5) div 10))))))"

definition forget_levels :: "instant \<Rightarrow> pause_trim \<Rightarrow> pause_trim" where
  "forget_levels now t =
     (if (case pt_last_noted t of None \<Rightarrow> False | Some u \<Rightarrow> silence_ended_the_over (Some (now - u)))
      then t\<lparr>pt_len := 0, pt_next := 0, pt_backlog_since := None\<rparr> else t)"

definition note_level :: "instant \<Rightarrow> rat \<Rightarrow> pause_trim \<Rightarrow> pause_trim" where
  "note_level now db t =
     t\<lparr>pt_last_noted := Some now, pt_levels := (pt_levels t)[pt_next t := db],
       pt_next := (pt_next t + 1) mod FLOOR_FRAMES, pt_len := min (pt_len t + 1) FLOOR_FRAMES\<rparr>"

definition or_since :: "instant \<Rightarrow> pause_trim \<Rightarrow> instant" where
  "or_since now t = (case pt_backlog_since t of None \<Rightarrow> now | Some u \<Rightarrow> u)"

definition let_go :: "pause_f32 \<Rightarrow> i16 list \<Rightarrow> bool \<Rightarrow> bool \<Rightarrow> instant \<Rightarrow> pause_trim \<Rightarrow> pause_trim \<times> bool" where
  "let_go pf pcm back may_go now t0 =
     (let t1 = forget_levels now t0; db = level_db pf pcm;
          quiet = (case quiet_below pf t1 of None \<Rightarrow> False | Some below \<Rightarrow> db < below);
          t = note_level now db t1; since = or_since now t
      in if \<not> back then (t\<lparr>pt_backlog_since := None\<rparr>, False)
         else if \<not> may_go then (t\<lparr>pt_backlog_since := Some since\<rparr>, False)
         else if quiet then (t\<lparr>pt_in_pause := pt_in_pause t + 1, pt_backlog_since := None\<rparr>, True)
         else if MAX_WAIT \<le> now - since then (t\<lparr>pt_by_fallback := pt_by_fallback t + 1, pt_backlog_since := None\<rparr>, True)
         else (t\<lparr>pt_backlog_since := Some since\<rparr>, False))"

definition counts_to_say :: "instant \<Rightarrow> pause_trim \<Rightarrow> pause_trim \<times> (nat \<times> nat) option" where
  "counts_to_say now t =
     (if now - pt_said_at t < LOG_EVERY then (t, None)
      else (t\<lparr>pt_said_at := now, pt_in_pause := 0, pt_by_fallback := 0\<rparr>,
            if 0 < pt_in_pause t + pt_by_fallback t then Some (pt_in_pause t, pt_by_fallback t) else None))"

section \<open>What became of lost frames\<close>

record tx_loss =
  tl_rebuilt :: nat
  tl_concealed :: nat
  tl_target_max :: u32
  tl_depth_max :: nat
  tl_thrown :: "nat list"
  tl_seen :: "nat list"
  tl_extra :: nat
  tl_since :: instant

definition tx_loss_new :: "instant \<Rightarrow> tx_loss" where
  "tx_loss_new now =
     \<lparr>tl_rebuilt = 0, tl_concealed = 0, tl_target_max = 0, tl_depth_max = 0, tl_thrown = replicate 5 0,
      tl_seen = replicate 5 0, tl_extra = 0, tl_since = now\<rparr>"

definition note_buffer :: "'f jitter_buffer \<Rightarrow> tx_loss \<Rightarrow> tx_loss" where
  "note_buffer jb l0 =
     (let now = [jb_capped jb, jb_trimmed jb, jb_late jb, jb_cleared jb, jb_skipped jb];
          l = l0\<lparr>tl_thrown := map2 (+) (tl_thrown l0) (map2 (-) now (tl_seen l0)), tl_seen := now\<rparr>
      in if jb_buffer jb = [] then l
         else l\<lparr>tl_target_max := max (tl_target_max l) (jb_target_depth jb),
                tl_depth_max := max (tl_depth_max l) (length (jb_buffer jb))\<rparr>)"

definition TX_MIN_DEPTH :: u32 where "TX_MIN_DEPTH = 2"
definition TX_MAX_DEPTH :: u32 where "TX_MAX_DEPTH = 10"

definition buffer_grew :: "tx_loss \<Rightarrow> (u32 \<times> nat) option" where
  "buffer_grew l = (if TX_MIN_DEPTH < tl_target_max l then Some (tl_target_max l, tl_depth_max l) else None)"

definition thrown_away :: "tx_loss \<Rightarrow> nat list option" where
  "thrown_away l = (if 0 < sum_list (tl_thrown l) then Some (tl_thrown l) else None)"

definition count_extra :: "tx_loss \<Rightarrow> tx_loss" where
  "count_extra l = l\<lparr>tl_extra := tl_extra l + 1\<rparr>"

definition count_filled :: "filled \<Rightarrow> tx_loss \<Rightarrow> tx_loss" where
  "count_filled f l =
     (case f of Rebuilt _ _ \<Rightarrow> l\<lparr>tl_rebuilt := tl_rebuilt l + 1\<rparr>
      | Concealed _ _ \<Rightarrow> l\<lparr>tl_concealed := tl_concealed l + 1\<rparr>)"

definition LOSS_EVERY :: duration where "LOSS_EVERY = secs 10"

definition maybe_log :: "instant \<Rightarrow> tx_loss \<Rightarrow> tx_loss" where
  "maybe_log now l =
     (if now - tl_since l < LOSS_EVERY then l
      else l\<lparr>tl_extra := 0, tl_thrown := replicate 5 0, tl_rebuilt := 0, tl_concealed := 0,
             tl_target_max := 0, tl_depth_max := 0, tl_since := now\<rparr>)"

section \<open>Before a packet goes in\<close>

definition clock_packet :: "instant \<Rightarrow> instant option \<Rightarrow> instant option \<times> duration option" where
  "clock_packet now earlier =
     (let silence = map_option (\<lambda>t. now - t) earlier
      in (Some now, if silence_ended_the_over silence then silence else None))"

datatype before_push_t = Keep | NewOver | Silence duration

definition before_push :: "nat \<Rightarrow> nat \<Rightarrow> duration option \<Rightarrow> before_push_t" where
  "before_push over now_over silence =
     (if now_over \<noteq> over then NewOver
      else case silence of Some d \<Rightarrow> Silence d | None \<Rightarrow> Keep)"

section \<open>One tick\<close>

record played =
  pl_pcm :: "i16 list list"
  pl_release :: "u32 option"
  pl_pressed_again :: bool
  pl_pressed :: bool
  pl_release_depth :: nat

definition played_default :: played where
  "played_default =
     \<lparr>pl_pcm = [], pl_release = None, pl_pressed_again = False, pl_pressed = False, pl_release_depth = 0\<rparr>"

record ('f, 'd) tick_state =
  tk_jitter :: "'f jitter_buffer"
  tk_dec :: "'d stream_decoder"
  tk_loss :: tx_loss
  tk_trim :: pause_trim
  tk_let_go :: bool
  tk_out :: played

definition fill_gap ::
    "'d opus_codec \<Rightarrow> 'd opus_codec \<Rightarrow> 'f jitter_buffer \<Rightarrow> 'd stream_decoder \<Rightarrow> tx_loss
      \<Rightarrow> 'd stream_decoder \<times> tx_loss \<times> i16 list option" where
  "fill_gap nb wb jb dec loss =
     (let nxt = Option.bind (jb_next_seq jb) (\<lambda>s. map_option (\<lambda>(opus, _). (opus, True)) (peek_frame jb s));
          (dec1, filled) = recover_or_conceal nb wb nxt dec
      in case filled of
           None \<Rightarrow> (dec1, loss, None)
         | Some f \<Rightarrow> (dec1, count_filled f loss, Some (case f of Rebuilt pcm _ \<Rightarrow> pcm | Concealed pcm _ \<Rightarrow> pcm)))"

lemma pull_cases:
  assumes "pull jb = (j, r)"
  obtains "r = NotReady" "jb_buffer j = jb_buffer jb"
  | jb2 where "jb_buffer jb2 = jb_buffer jb" "take_next (trim_buffer jb2) = (j, r)"
proof (cases "pull_start jb")
  case (Some jb1)
  then show ?thesis
    using that(2) [of "jb1\<lparr>jb_refilling := False, jb_initial_fill_remaining := jb_initial_fill_remaining jb1 - 1\<rparr>"]
      that(1) assms by (auto simp: pull_def pull_start_keeps(1) split: if_splits)
qed (use assms that(1) in \<open>auto simp: pull_def\<close>)

lemma trim_subset:
  "set (jb_buffer (trim_buffer jb)) \<subseteq> set (jb_buffer jb)" "length (jb_buffer (trim_buffer jb)) \<le> length (jb_buffer jb)"
  by (auto simp: trim_buffer_def Let_def split: list.splits)

lemma take_next_subset:
  assumes "take_next jb = (j, r)"
  shows "set (jb_buffer j) \<subseteq> set (jb_buffer jb)"
    and "r = Frame f \<Longrightarrow> (\<exists>k. (k, f) \<in> set (jb_buffer jb)) \<and> length (jb_buffer j) < length (jb_buffer jb)"
  using assms
  by (auto simp: take_next_def Let_def bt_remove_def dest!: map_of_SomeD split: option.splits list.splits if_splits
      intro!: length_filter_less)

lemma pull_takes:
  assumes "pull jb = (j, r)"
  shows "set (jb_buffer j) \<subseteq> set (jb_buffer jb)"
    and "r = Frame f \<Longrightarrow> \<exists>k. (k, f) \<in> set (jb_buffer jb)"
    and "r = Frame f \<Longrightarrow> length (jb_buffer j) < length (jb_buffer jb)"
proof (atomize (full), cases rule: pull_cases [OF assms])
  case (2 jb2)
  show "set (jb_buffer j) \<subseteq> set (jb_buffer jb) \<and> (r = Frame f \<longrightarrow> (\<exists>k. (k, f) \<in> set (jb_buffer jb)))
      \<and> (r = Frame f \<longrightarrow> length (jb_buffer j) < length (jb_buffer jb))"
    using take_next_subset [OF 2(2)] trim_subset [of jb2] 2(1) by fastforce
qed simp

function one_frame ::
    "pause_f32 \<Rightarrow> 'd opus_codec \<Rightarrow> 'd opus_codec \<Rightarrow> instant \<Rightarrow> ('f, 'd) tick_state
      \<Rightarrow> ('f, 'd) tick_state \<times> i16 list option" where
  "one_frame pf nb wb now s =
     (case pull (tk_jitter s) of
        (j, Frame frame) \<Rightarrow>
          (let s1 = s\<lparr>tk_jitter := j\<rparr>
           in if \<not> bf_ptt frame \<and> holds_a_press j
              then one_frame pf nb wb now (s1\<lparr>tk_out := (tk_out s1)\<lparr>pl_pressed_again := True\<rparr>\<rparr>)
              else if \<not> bf_ptt frame
              then (s1\<lparr>tk_out := (tk_out s1)\<lparr>pl_release := Some (bf_sequence frame), pl_release_depth := length (jb_buffer j)\<rparr>,
                       tk_jitter := jitter_discard j\<rparr>, None)
              else (let s2 = s1\<lparr>tk_out := (tk_out s1)\<lparr>pl_pressed := True\<rparr>\<rparr>
                    in if bf_opus_data frame = [] then (s2, None)
                       else case stream_decode nb wb (bf_opus_data frame) True (tk_dec s2) of
                           (d, None) \<Rightarrow> (s2\<lparr>tk_dec := d\<rparr>, None)
                         | (d, Some pcm) \<Rightarrow>
                             (case let_go pf pcm (backlog (length (jb_buffer j)) (jb_target_depth j)) (\<not> tk_let_go s2) now (tk_trim s2) of
                                (t, goes) \<Rightarrow>
                                  if goes then one_frame pf nb wb now (s2\<lparr>tk_dec := d, tk_trim := t, tk_let_go := True\<rparr>)
                                  else (s2\<lparr>tk_dec := d, tk_trim := t\<rparr>, Some pcm))))
      | (j, Missing) \<Rightarrow>
          (let (d, l, pcm) = fill_gap nb wb j (tk_dec s) (tk_loss s)
           in (s\<lparr>tk_jitter := j, tk_dec := d, tk_loss := l\<rparr>, pcm))
      | (j, NotReady) \<Rightarrow> (s\<lparr>tk_jitter := j\<rparr>, None))"
  by pat_completeness auto
termination
  by (relation "measure (\<lambda>(pf, nb, wb, now, s). length (jb_buffer (tk_jitter s)))")
    (auto dest: pull_takes(3) [OF sym])

declare one_frame.simps [simp del]

text \<open>Whether a second frame is pulled (\<^verbatim>\<open>pull_extra_for_ring_below\<close> of \<^verbatim>\<open>tci.rs\<close>), and the tick.\<close>

definition pull_extra_for_ring_below :: "nat \<Rightarrow> nat option \<Rightarrow> nat \<Rightarrow> u32 \<Rightarrow> bool" where
  "pull_extra_for_ring_below ring_low ring_at_tick jitter_depth jitter_target \<longleftrightarrow>
     (case ring_at_tick of None \<Rightarrow> False | Some level \<Rightarrow> level < ring_low) \<and> unat jitter_target < jitter_depth"

definition take_pcm :: "('f, 'd) tick_state \<times> i16 list option \<Rightarrow> ('f, 'd) tick_state" where
  "take_pcm r = (let (s, pcm) = r in
     case pcm of None \<Rightarrow> s | Some x \<Rightarrow> s\<lparr>tk_out := (tk_out s)\<lparr>pl_pcm := pl_pcm (tk_out s) @ [x]\<rparr>\<rparr>)"

definition second_pull :: "(nat \<times> nat) option \<Rightarrow> ('f, 'd) tick_state \<Rightarrow> bool" where
  "second_pull ring s \<longleftrightarrow>
     (case ring of None \<Rightarrow> False
      | Some (level, lead) \<Rightarrow>
          pull_extra_for_ring_below lead (Some level) (length (jb_buffer (tk_jitter s))) (jb_target_depth (tk_jitter s)))"

definition play_tick ::
    "pause_f32 \<Rightarrow> 'd opus_codec \<Rightarrow> 'd opus_codec \<Rightarrow> 'f jitter_buffer \<Rightarrow> 'd stream_decoder \<Rightarrow> tx_loss
      \<Rightarrow> pause_trim \<Rightarrow> instant \<Rightarrow> (nat \<times> nat) option \<Rightarrow> ('f, 'd) tick_state" where
  "play_tick pf nb wb jitter dec loss trim now ring =
     (let s1 = take_pcm (one_frame pf nb wb now
            \<lparr>tk_jitter = jitter, tk_dec = dec, tk_loss = loss, tk_trim = trim, tk_let_go = False, tk_out = played_default\<rparr>);
          s2 = (if pl_release (tk_out s1) \<noteq> None \<or> \<not> second_pull ring s1 then s1
                else take_pcm (one_frame pf nb wb now (s1\<lparr>tk_loss := count_extra (tk_loss s1)\<rparr>)))
      in s2\<lparr>tk_loss := note_buffer (tk_jitter s2) (tk_loss s2)\<rparr>)"

section \<open>The task of a radio\<close>

record tx_packet =
  tp_from :: socket_addr
  tp_sequence :: u32
  tp_timestamp :: u32
  tp_opus :: "u8 list"
  tp_ptt :: bool

record release_played =
  rp_target :: tx_target
  rp_from :: socket_addr
  rp_sequence :: u32
  rp_over :: nat

text \<open>
  \<^verbatim>\<open>radio_tx_task\<close> between its awaits. \<open>rt_timed\<close> is whether there is a \<^verbatim>\<open>TxTiming\<close>; its over and its ring are
  read at each step and are arguments there. Opening the decoder and the resampler, the gain and the
  resampling on the way to the bridge are left out.
\<close>

record ('f, 'd) tx_task =
  rt_jitter :: "'f jitter_buffer"
  rt_dec :: "'d stream_decoder"
  rt_loss :: tx_loss
  rt_trim :: pause_trim
  rt_over :: nat
  rt_sender :: "socket_addr option"
  rt_clock :: "instant option"
  rt_start :: instant
  rt_timed :: bool
  rt_target :: tx_target

definition tx_task_new :: "'f f32_ops \<Rightarrow> 'd stream_decoder \<Rightarrow> instant \<Rightarrow> nat option \<Rightarrow> tx_target \<Rightarrow> ('f, 'd) tx_task" where
  "tx_task_new fo dec now timing target =
     \<lparr>rt_jitter = for_transmit fo TX_MIN_DEPTH TX_MAX_DEPTH, rt_dec = dec, rt_loss = tx_loss_new now,
      rt_trim = pause_new now, rt_over = (case timing of None \<Rightarrow> 0 | Some over \<Rightarrow> over), rt_sender = None,
      rt_clock = None, rt_start = now, rt_timed = (timing \<noteq> None), rt_target = target\<rparr>"

definition frame_of_packet :: "tx_packet \<Rightarrow> buffered_frame" where
  "frame_of_packet p =
     \<lparr>bf_sequence = tp_sequence p, bf_timestamp = tp_timestamp p, bf_opus_data = tp_opus p, bf_ptt = tp_ptt p,
      bf_wideband = True\<rparr>"

text \<open>Before a packet goes in, while the over is \<open>over\<close>: another sender's line is forgotten, another over or a
  silence empties the buffer. Then the packet; told is whether the timing hears of audio (\<^verbatim>\<open>t.tx_audio()\<close>).\<close>

definition task_before ::
    "'f f32_ops \<Rightarrow> duration option \<Rightarrow> nat \<Rightarrow> socket_addr \<Rightarrow> ('f, 'd) tx_task \<Rightarrow> ('f, 'd) tx_task" where
  "task_before fo silence over from s1 =
     (let s2 = (if rt_sender s1 \<noteq> Some from
                then s1\<lparr>rt_sender := Some from, rt_jitter := jitter_reset fo (rt_jitter s1)\<rparr> else s1)
      in if \<not> rt_timed s2 then s2
         else case before_push (rt_over s2) over silence of
             NewOver \<Rightarrow> s2\<lparr>rt_over := over, rt_jitter := jitter_discard (rt_jitter s2)\<rparr>
           | Silence _ \<Rightarrow> s2\<lparr>rt_jitter := jitter_discard (rt_jitter s2)\<rparr>
           | Keep \<Rightarrow> s2)"

definition task_packet :: "'f f32_ops \<Rightarrow> instant \<Rightarrow> nat \<Rightarrow> tx_packet \<Rightarrow> ('f, 'd) tx_task \<Rightarrow> ('f, 'd) tx_task \<times> bool" where
  "task_packet fo now over p s0 =
     (let (clock, silence) = clock_packet now (rt_clock s0);
          s = task_before fo silence over (tp_from p) (s0\<lparr>rt_clock := clock\<rparr>)
      in (s\<lparr>rt_jitter := push fo (rt_jitter s) (frame_of_packet p) (as_millis (now - rt_start s))\<rparr>,
          rt_timed s0 \<and> tp_opus p \<noteq> []))"

record tick_sent =
  tc_pcm :: "i16 list list"
  tc_released :: "release_played option"

definition task_tick ::
    "pause_f32 \<Rightarrow> 'd opus_codec \<Rightarrow> 'd opus_codec \<Rightarrow> instant \<Rightarrow> (nat \<times> nat) option
      \<Rightarrow> ('f, 'd) tx_task \<Rightarrow> ('f, 'd) tx_task \<times> tick_sent" where
  "task_tick pf nb wb now ring s =
     (let r = play_tick pf nb wb (rt_jitter s) (rt_dec s) (rt_loss s) (rt_trim s) now (if rt_timed s then ring else None);
          (trim, _) = counts_to_say now (tk_trim r)
      in (s\<lparr>rt_jitter := tk_jitter r, rt_dec := tk_dec r, rt_loss := maybe_log now (tk_loss r), rt_trim := trim\<rparr>,
          \<lparr>tc_pcm = pl_pcm (tk_out r),
           tc_released = (case (pl_release (tk_out r), rt_sender s) of
               (Some sequence, Some from) \<Rightarrow>
                 Some \<lparr>rp_target = rt_target s, rp_from = from, rp_sequence = sequence, rp_over = rt_over s\<rparr>
             | _ \<Rightarrow> None)\<rparr>))"

datatype task_event = PacketIn tx_packet instant nat | TickIn instant "(nat \<times> nat) option"

fun task_step where
  "task_step pf fo nb wb (PacketIn p now over) s = (fst (task_packet fo now over p s), None)"
| "task_step pf fo nb wb (TickIn now ring) s = apsnd tc_released (task_tick pf nb wb now ring s)"

definition task_run where
  "task_run pf fo nb wb es s = fold (\<lambda>e. fst \<circ> task_step pf fo nb wb e) es s"

section \<open>What a tick takes\<close>

lemma bt_insert_subset: "set (bt_insert k v t) \<subseteq> insert (k, v) (set t)"
  by (induction k v t rule: bt_insert.induct) auto

lemma cap_buffer_subset: "set (jb_buffer (cap_buffer jb)) \<subseteq> set (jb_buffer jb)"
  using cap_buffer_drops [of jb] by (auto dest: in_set_dropD)

lemma push_subset: "set (jb_buffer (push fo jb f t)) \<subseteq> insert (bf_sequence f, f) (set (jb_buffer jb))"
  by (auto simp: push_def Let_def rebaseline_def split: if_splits
      dest!: subsetD [OF cap_buffer_subset] subsetD [OF bt_insert_subset])

text \<open>A tick that plays the release took it out of the buffer, found no press behind it, and emptied the buffer.\<close>

definition released_from :: "'f jitter_buffer \<Rightarrow> ('f, 'd) tick_state \<Rightarrow> bool" where
  "released_from jb s' \<longleftrightarrow>
     (\<exists>k f j. (k, f) \<in> set (jb_buffer jb) \<and> \<not> bf_ptt f \<and> pl_release (tk_out s') = Some (bf_sequence f)
        \<and> set (jb_buffer j) \<subseteq> set (jb_buffer jb) \<and> \<not> holds_a_press j \<and> tk_jitter s' = jitter_discard j
        \<and> pl_release_depth (tk_out s') = length (jb_buffer j))"

definition takes_from :: "('f, 'd) tick_state \<Rightarrow> ('f, 'd) tick_state \<Rightarrow> bool" where
  "takes_from s s' \<longleftrightarrow> set (jb_buffer (tk_jitter s')) \<subseteq> set (jb_buffer (tk_jitter s))
     \<and> (released_from (tk_jitter s) s' \<or> pl_release (tk_out s') = pl_release (tk_out s))"

lemma takes_fromI:
  "set (jb_buffer (tk_jitter s')) \<subseteq> set (jb_buffer (tk_jitter s)) \<Longrightarrow> pl_release (tk_out s') = pl_release (tk_out s)
     \<Longrightarrow> takes_from s s'"
  by (simp add: takes_from_def)

lemma released_from_mono:
  "released_from jb s' \<Longrightarrow> set (jb_buffer jb) \<subseteq> set (jb_buffer jb') \<Longrightarrow> released_from jb' s'"
  unfolding released_from_def by blast

lemma takes_from_after:
  assumes "takes_from s1 s'" "set (jb_buffer (tk_jitter s1)) \<subseteq> set (jb_buffer (tk_jitter s))"
    and "pl_release (tk_out s1) = pl_release (tk_out s)"
  shows "takes_from s s'"
  using assms released_from_mono [of "tk_jitter s1" s' "tk_jitter s"] unfolding takes_from_def by auto

text \<open>One pull of the loop: it goes round with a frame less, or plays the release, or is done.\<close>

lemma one_frame_cases:
  assumes "pull (tk_jitter s) = (j, r)"
  obtains (again) f s1 where "r = Frame f" "bf_ptt f \<or> holds_a_press j" "tk_jitter s1 = j"
      "pl_release (tk_out s1) = pl_release (tk_out s)" "one_frame pf nb wb now s = one_frame pf nb wb now s1"
    | (release) f where "r = Frame f" "\<not> bf_ptt f" "\<not> holds_a_press j"
      "tk_jitter (fst (one_frame pf nb wb now s)) = jitter_discard j"
      "pl_release (tk_out (fst (one_frame pf nb wb now s))) = Some (bf_sequence f)"
      "pl_release_depth (tk_out (fst (one_frame pf nb wb now s))) = length (jb_buffer j)"
    | (settled) "\<And>f. r = Frame f \<Longrightarrow> bf_ptt f" "tk_jitter (fst (one_frame pf nb wb now s)) = j"
      "pl_release (tk_out (fst (one_frame pf nb wb now s))) = pl_release (tk_out s)"
proof (cases r)
  case (Frame f)
  show ?thesis
  proof (cases "bf_ptt f")
    case True
    let ?s2 = "s\<lparr>tk_jitter := j, tk_out := (tk_out s)\<lparr>pl_pressed := True\<rparr>\<rparr>"
    show ?thesis
    proof (cases "bf_opus_data f = []")
      case True
      then show ?thesis using settled assms Frame \<open>bf_ptt f\<close> by (simp add: one_frame.simps [of pf nb wb now s])
    next
      case False
      obtain d o' where d: "stream_decode nb wb (bf_opus_data f) True (tk_dec s) = (d, o')" by fastforce
      show ?thesis
      proof (cases o')
        case None
        then show ?thesis using settled assms Frame \<open>bf_ptt f\<close> False d by (simp add: one_frame.simps [of pf nb wb now s])
      next
        case (Some pcm)
        obtain t goes where t: "let_go pf pcm (backlog (length (jb_buffer j)) (jb_target_depth j)) (\<not> tk_let_go s) now (tk_trim s) = (t, goes)"
          by fastforce
        show ?thesis
          using settled again [of f "?s2\<lparr>tk_dec := d, tk_trim := t, tk_let_go := True\<rparr>"] assms Frame \<open>bf_ptt f\<close> False d Some t
          by (cases goes) (simp_all add: one_frame.simps [of pf nb wb now s] Let_def)
      qed
    qed
  next
    case False
    show ?thesis
      using again [of f "s\<lparr>tk_jitter := j, tk_out := (tk_out s)\<lparr>pl_pressed_again := True\<rparr>\<rparr>"] release [of f] assms Frame False
      by (cases "holds_a_press j") (simp_all add: one_frame.simps [of pf nb wb now s])
  qed
next
  case Missing
  then show ?thesis using settled assms by (simp add: one_frame.simps [of pf nb wb now s] split_beta Let_def)
next
  case NotReady
  then show ?thesis using settled assms by (simp add: one_frame.simps [of pf nb wb now s])
qed

lemma one_frame_takes: "takes_from s (fst (one_frame pf nb wb now s))"
proof (induction "length (jb_buffer (tk_jitter s))" arbitrary: s rule: less_induct)
  case less
  obtain j r where p: "pull (tk_jitter s) = (j, r)" by fastforce
  note sub = pull_takes [OF p]
  show ?case
  proof (cases rule: one_frame_cases [OF p, where pf = pf and nb = nb and wb = wb and now = now])
    case (1 f s1)
    then show ?thesis using less [of s1] sub takes_from_after [of s1 _ s] by simp
  next
    case (2 f)
    then obtain k where "(k, f) \<in> set (jb_buffer (tk_jitter s))" using sub(2) by blast
    then have "released_from (tk_jitter s) (fst (one_frame pf nb wb now s))"
      using 2 sub(1) unfolding released_from_def by blast
    then show ?thesis using 2 by (simp add: takes_from_def jitter_discard_def)
  next
    case 3
    then show ?thesis using sub by (intro takes_fromI) simp_all
  qed
qed

lemma tick_takes:
  assumes "r = play_tick pf nb wb jb dec loss trim now ring"
  shows "set (jb_buffer (tk_jitter r)) \<subseteq> set (jb_buffer jb)"
    and "pl_release (tk_out r) = Some q \<Longrightarrow> released_from jb r"
proof -
  define s0 where "s0 = \<lparr>tk_jitter = jb, tk_dec = dec, tk_loss = loss, tk_trim = trim, tk_let_go = False, tk_out = played_default\<rparr>"
  define s1 where "s1 = take_pcm (one_frame pf nb wb now s0)"
  have pcm: "tk_jitter (take_pcm x) = tk_jitter (fst x)" "pl_release (tk_out (take_pcm x)) = pl_release (tk_out (fst x))"
    "released_from b (take_pcm x) = released_from b (fst x)" "takes_from s (take_pcm x) = takes_from s (fst x)"
    for x :: "('a, 'b) tick_state \<times> i16 list option" and b s
    by (auto simp: take_pcm_def takes_from_def released_from_def split: prod.split option.split)
  have t1: "takes_from s0 s1" unfolding s1_def pcm by (rule one_frame_takes)
  have t: "takes_from s0 r"
  proof (cases "pl_release (tk_out s1) \<noteq> None \<or> \<not> second_pull ring s1")
    case True
    then show ?thesis using t1 assms
      by (simp add: play_tick_def s0_def [symmetric] s1_def [symmetric] Let_def takes_from_def released_from_def)
  next
    case False
    let ?s = "s1\<lparr>tk_loss := count_extra (tk_loss s1)\<rparr>"
    have "takes_from ?s (take_pcm (one_frame pf nb wb now ?s))" unfolding pcm by (rule one_frame_takes)
    then have "takes_from s0 (take_pcm (one_frame pf nb wb now ?s))"
      by (rule takes_from_after) (use t1 False in \<open>auto simp: takes_from_def released_from_def s0_def played_default_def\<close>)
    then show ?thesis using False assms
      by (simp add: play_tick_def s0_def [symmetric] s1_def [symmetric] Let_def takes_from_def released_from_def)
  qed
  then show "set (jb_buffer (tk_jitter r)) \<subseteq> set (jb_buffer jb)"
    "pl_release (tk_out r) = Some q \<Longrightarrow> released_from jb r"
    by (auto simp: takes_from_def s0_def played_default_def)
qed

section \<open>One over, one sender\<close>

text \<open>The packets of a run, the latest first, and those of the over it is in: from the same sender, in the same
  over, with no silence past two seconds between them. Without a timing there are no overs, and
  only another sender begins anew.\<close>

fun packets_of :: "task_event list \<Rightarrow> (tx_packet \<times> instant \<times> nat) list" where
  "packets_of [] = []"
| "packets_of (PacketIn p now over # es) = packets_of es @ [(p, now, over)]"
| "packets_of (TickIn _ _ # es) = packets_of es"

fun of_this_over :: "bool \<Rightarrow> (tx_packet \<times> instant \<times> nat) list \<Rightarrow> tx_packet list" where
  "of_this_over timed [] = []"
| "of_this_over timed [(p, _, _)] = [p]"
| "of_this_over timed ((p, t, o1) # (q, u, o2) # rest) =
     p # (if tp_from p = tp_from q \<and> (timed \<longrightarrow> o1 = o2 \<and> t - u \<le> ms PTT_PACKET_TIMEOUT_MS)
          then of_this_over timed ((q, u, o2) # rest) else [])"

lemma packets_of_snoc [simp]:
  "packets_of (es @ [PacketIn p now over]) = (p, now, over) # packets_of es"
  "packets_of (es @ [TickIn now ring]) = packets_of es"
  by (induction es rule: packets_of.induct) simp_all

definition task_ok :: "task_event list \<Rightarrow> ('f, 'd) tx_task \<Rightarrow> bool" where
  "task_ok es s \<longleftrightarrow>
     (\<forall>(k, f) \<in> set (jb_buffer (rt_jitter s)). \<exists>p \<in> set (of_this_over (rt_timed s) (packets_of es)). f = frame_of_packet p)
     \<and> (case packets_of es of
          [] \<Rightarrow> rt_sender s = None \<and> rt_clock s = None
        | (p, t, over) # _ \<Rightarrow> rt_sender s = Some (tp_from p) \<and> rt_clock s = Some t \<and> (rt_timed s \<longrightarrow> rt_over s = over))"

lemma of_this_over_first: "p \<in> set (of_this_over timed ((p, t, over) # ps))"
  by (cases "(timed, (p, t, over) # ps)" rule: of_this_over.cases) simp_all

lemma of_this_over_rest:
  "q \<in> set (of_this_over timed ((q0, u, o2) # ps)) \<Longrightarrow> tp_from p = tp_from q0 \<Longrightarrow>
   (timed \<Longrightarrow> o1 = o2 \<and> t - u \<le> ms PTT_PACKET_TIMEOUT_MS) \<Longrightarrow>
   q \<in> set (of_this_over timed ((p, t, o1) # (q0, u, o2) # ps))"
  by simp

lemma cleared_buffer [simp]: "jb_buffer (jitter_reset fo jb) = []" "jb_buffer (jitter_discard jb) = []"
  by (simp_all add: jitter_reset_def jitter_discard_def)

lemma packet_keeps_ok:
  assumes "task_ok es s"
  shows "task_ok (es @ [PacketIn p now over]) (fst (task_packet fo now over p s))"
    and "rt_timed (fst (task_packet fo now over p s)) = rt_timed s"
proof -
  define s3 where "s3 = task_before fo (snd (clock_packet now (rt_clock s))) over (tp_from p) (s\<lparr>rt_clock := Some now\<rparr>)"
  have s3: "fst (task_packet fo now over p s)
      = s3\<lparr>rt_jitter := push fo (rt_jitter s3) (frame_of_packet p) (as_millis (now - rt_start s3))\<rparr>"
    by (simp add: task_packet_def s3_def clock_packet_def Let_def)
  have f3: "rt_timed s3 = rt_timed s" "rt_sender s3 = Some (tp_from p)" "rt_clock s3 = Some now"
      "rt_timed s \<longrightarrow> rt_over s3 = over"
    by (auto simp: s3_def task_before_def before_push_def Let_def split: option.split)
  have b3: "jb_buffer (rt_jitter s3) = [] \<or>
      (jb_buffer (rt_jitter s3) = jb_buffer (rt_jitter s) \<and> rt_sender s = Some (tp_from p) \<and>
       (rt_timed s \<longrightarrow> rt_over s = over \<and> (\<forall>t. rt_clock s = Some t \<longrightarrow> now - t \<le> ms PTT_PACKET_TIMEOUT_MS)))"
    by (auto simp: s3_def task_before_def before_push_def clock_packet_def silence_ended_the_over_def Let_def
        split: option.splits if_splits)
  show "rt_timed (fst (task_packet fo now over p s)) = rt_timed s" using s3 f3 by simp
  have old: "\<exists>q \<in> set (of_this_over (rt_timed s) ((p, now, over) # packets_of es)). f = frame_of_packet q"
    if kf: "(k, f) \<in> set (jb_buffer (rt_jitter s3))" for k f
  proof -
    have same: "jb_buffer (rt_jitter s3) = jb_buffer (rt_jitter s)" "rt_sender s = Some (tp_from p)"
      "rt_timed s \<longrightarrow> rt_over s = over \<and> (\<forall>t. rt_clock s = Some t \<longrightarrow> now - t \<le> ms PTT_PACKET_TIMEOUT_MS)"
      using b3 kf by auto
    then obtain q where q: "q \<in> set (of_this_over (rt_timed s) (packets_of es))" "f = frame_of_packet q"
      using assms kf by (fastforce simp: task_ok_def)
    then obtain q0 u o2 ps where ps: "packets_of es = (q0, u, o2) # ps"
      by (cases "packets_of es") auto
    have "tp_from p = tp_from q0" "rt_timed s \<Longrightarrow> over = o2 \<and> now - u \<le> ms PTT_PACKET_TIMEOUT_MS"
      using assms ps same by (auto simp: task_ok_def)
    then show ?thesis using of_this_over_rest [of q "rt_timed s" q0 u o2 ps p over now] q ps by auto
  qed
  show "task_ok (es @ [PacketIn p now over]) (fst (task_packet fo now over p s))"
    unfolding task_ok_def s3 using old f3 of_this_over_first [of p "rt_timed s" now over "packets_of es"]
      push_subset [of fo "rt_jitter s3" "frame_of_packet p" "as_millis (now - rt_start s3)"]
    by fastforce
qed

lemma tick_fields:
  "rt_timed (fst (task_tick pf nb wb now ring s)) = rt_timed s" "rt_sender (fst (task_tick pf nb wb now ring s)) = rt_sender s"
  "rt_clock (fst (task_tick pf nb wb now ring s)) = rt_clock s" "rt_over (fst (task_tick pf nb wb now ring s)) = rt_over s"
  "rt_target (fst (task_tick pf nb wb now ring s)) = rt_target s"
  "set (jb_buffer (rt_jitter (fst (task_tick pf nb wb now ring s)))) \<subseteq> set (jb_buffer (rt_jitter s))"
  by (simp_all add: task_tick_def Let_def split_beta tick_takes(1) [OF refl])

lemma step_keeps_ok:
  assumes "task_ok es s"
  shows "task_ok (es @ [e]) (fst (task_step pf fo nb wb e s))"
    and "rt_timed (fst (task_step pf fo nb wb e s)) = rt_timed s"
    and "rt_target (fst (task_step pf fo nb wb e s)) = rt_target s"
proof -
  have t: "rt_target (task_before fo d over a x) = rt_target x" for d over a and x :: "('a, 'b) tx_task"
    by (simp add: task_before_def Let_def split: before_push_t.split)
  show "task_ok (es @ [e]) (fst (task_step pf fo nb wb e s))" "rt_timed (fst (task_step pf fo nb wb e s)) = rt_timed s"
    "rt_target (fst (task_step pf fo nb wb e s)) = rt_target s"
    using assms packet_keeps_ok [OF assms] tick_fields(6) [where s = s]
    by (cases e; fastforce simp: task_ok_def tick_fields(1-5) t task_packet_def Let_def split_beta split: list.split)+
qed

lemma run_ok:
  assumes "s = task_run pf fo nb wb es (tx_task_new fo dec start timing target)"
  shows "task_ok es s \<and> rt_timed s = (timing \<noteq> None) \<and> rt_target s = target"
  unfolding assms
proof (induction es rule: rev_induct)
  case Nil
  show ?case by (simp add: task_run_def tx_task_new_def task_ok_def for_transmit_def jitter_new_def)
next
  case (snoc e es)
  note ok = conjunct1 [OF snoc.IH]
  show ?case using snoc.IH step_keeps_ok [OF ok, where e = e and pf = pf and fo = fo and nb = nb and wb = wb] by (simp add: task_run_def)
qed

lemma this_over_sender:
  "p \<in> set (of_this_over timed ((q, t, over) # ps)) \<Longrightarrow> tp_from p = tp_from q"
  by (induction timed "(q, t, over) # ps" arbitrary: q t over ps rule: of_this_over.induct) (auto split: if_splits)

text \<open>No word of one transmission is played in another, and none of one operator under another: in every run
  of a radio's task all that waits in its buffer came with packets of the over it is in, from the sender of the
  latest one, without a silence past two seconds between them.\<close>

theorem no_frame_outlives_its_over:
  assumes "s = task_run pf fo nb wb es (tx_task_new fo dec start timing target)" "(k, f) \<in> set (jb_buffer (rt_jitter s))"
  shows "\<exists>p \<in> set (of_this_over (timing \<noteq> None) (packets_of es)). f = frame_of_packet p"
  using run_ok [OF assms(1)] assms(2) by (auto simp: task_ok_def)

text \<open>C18. A release lets go of its own press only: what a tick of a radio's task tells the network loop is the number
  of a packet without the flag, of the over the task is in and from its operator, with that over's number.\<close>

theorem release_lets_go_its_own_over:
  assumes "s = task_run pf fo nb wb es (tx_task_new fo dec start timing target)"
    and "tc_released (snd (task_tick pf nb wb now ring s)) = Some r"
  shows "\<exists>q t over ps p. packets_of es = (q, t, over) # ps \<and> p \<in> set (of_this_over (timing \<noteq> None) (packets_of es))
    \<and> \<not> tp_ptt p \<and> rp_sequence r = tp_sequence p \<and> rp_from r = tp_from p \<and> tp_from p = tp_from q
    \<and> rp_target r = target \<and> (timing \<noteq> None \<longrightarrow> rp_over r = over)"
proof -
  let ?r = "play_tick pf nb wb (rt_jitter s) (rt_dec s) (rt_loss s) (rt_trim s) now (if rt_timed s then ring else None)"
  note ok = run_ok [OF assms(1)]
  obtain q sender where r: "pl_release (tk_out ?r) = Some q" "rt_sender s = Some sender"
    "r = \<lparr>rp_target = rt_target s, rp_from = sender, rp_sequence = q, rp_over = rt_over s\<rparr>"
    using assms(2) by (auto simp: task_tick_def Let_def split_beta split: option.splits)
  then obtain k f where f: "(k, f) \<in> set (jb_buffer (rt_jitter s))" "\<not> bf_ptt f" "bf_sequence f = q"
    using tick_takes(2) [OF refl r(1)] by (auto simp: released_from_def)
  then obtain p where p: "p \<in> set (of_this_over (timing \<noteq> None) (packets_of es))" "f = frame_of_packet p"
    using ok by (auto simp: task_ok_def)
  then obtain q0 t over ps where ps: "packets_of es = (q0, t, over) # ps" by (cases "packets_of es") auto
  then have "tp_from p = tp_from q0" using this_over_sender p(1) by metis
  then show ?thesis using ok r f p ps
    by - (rule exI [of _ q0], rule exI [of _ t], rule exI [of _ over], rule exI [of _ ps], rule exI [of _ p],
        auto simp: task_ok_def frame_of_packet_def)
qed

section \<open>The release comes\<close>

lemma release_leaves_nothing:
  assumes "order_inv h jb" "release_in_hand jb q f" "pull jb = (j, Frame f)"
  shows "jb_buffer j = []"
proof (rule ccontr)
  assume ne: "jb_buffer j \<noteq> []"
  then obtain k g where k: "(k, g) \<in> set (jb_buffer j)" by (metis hd_in_set surj_pair)
  have kq: "k \<le> q" "bf_sequence f = q"
    using assms(1,2) k pull_takes(1) [OF assms(3)] by (force simp: release_in_hand_def order_inv_def)+
  obtain n where n: "jb_next_seq j = Some n" "unat q < unat n" "order_inv h j"
    using pull_order [OF assms(1,3)] kq(2) by (auto simp: plays_at_next_def out_of_def)
  then have "unat n \<le> unat k" using k by (force simp: order_inv_def)
  then show False using n(2) kq(1) by (simp add: word_le_nat_alt)
qed

definition nearer :: "nat \<Rightarrow> u32 \<Rightarrow> buffered_frame \<Rightarrow> nat \<Rightarrow> ('f, 'd) tick_state \<Rightarrow> bool" where
  "nearer h q f n s \<longleftrightarrow>
     pl_release (tk_out s) \<noteq> None
     \<or> order_inv h (tk_jitter s) \<and> release_in_hand (tk_jitter s) q f \<and> n < first_due (tk_jitter s) \<and> jb_next_seq (tk_jitter s) \<noteq> None"

lemma one_frame_nearer:
  assumes "order_inv h (tk_jitter s)" "release_in_hand (tk_jitter s) q f" "n \<le> first_due (tk_jitter s)"
  shows "nearer h q f n (fst (one_frame pf nb wb now s))"
  using assms
proof (induction "length (jb_buffer (tk_jitter s))" arbitrary: s rule: less_induct)
  case less
  obtain j r where p: "pull (tk_jitter s) = (j, r)" by fastforce
  have o: "order_inv h j" using pull_order [OF less.prems(1) p] by simp
  have t: "r = Frame f \<or> (release_in_hand j q f \<and> first_due (tk_jitter s) < first_due j \<and> jb_next_seq j \<noteq> None)"
    using pull_towards_release [OF less.prems(1,2) p] .
  have f: "\<not> bf_ptt f" using less.prems(2) by (simp add: release_in_hand_def)
  show ?case
  proof (cases rule: one_frame_cases [OF p, where pf = pf and nb = nb and wb = wb and now = now])
    case (1 g s1)
    have "r \<noteq> Frame f"
      using 1(1,2) f release_leaves_nothing [OF less.prems(1,2), of j] p by (auto simp: holds_a_press_def)
    then have n: "release_in_hand (tk_jitter s1) q f" "n \<le> first_due (tk_jitter s1)" "order_inv h (tk_jitter s1)"
      using t o 1(3) less.prems(3) by auto
    have "length (jb_buffer (tk_jitter s1)) < length (jb_buffer (tk_jitter s))" using pull_takes(3) [OF p] 1(1,3) by simp
    from less.hyps [OF this n(3,1,2)] 1(5) show ?thesis by simp
  next
    case (2 g)
    then show ?thesis by (simp add: nearer_def)
  next
    case 3
    have "r \<noteq> Frame f" using 3(1) f by blast
    then show ?thesis using 3(2) t o less.prems(3) by (auto simp: nearer_def)
  qed
qed

lemma take_pcm_keeps:
  "tk_jitter (take_pcm x) = tk_jitter (fst x)" "pl_release (tk_out (take_pcm x)) = pl_release (tk_out (fst x))"
  by (auto simp: take_pcm_def split: prod.split option.split)

lemma tick_nearer:
  assumes "order_inv h jb" "release_in_hand jb q f"
  shows "nearer h q f (first_due jb) (play_tick pf nb wb jb dec loss trim now ring)"
proof -
  define s0 where "s0 = \<lparr>tk_jitter = jb, tk_dec = dec, tk_loss = loss, tk_trim = trim, tk_let_go = False, tk_out = played_default\<rparr>"
  define s1 where "s1 = take_pcm (one_frame pf nb wb now s0)"
  have n1: "nearer h q f (first_due jb) s1"
    using one_frame_nearer [of h s0 q f "first_due jb" pf nb wb now] assms
    by (simp add: s0_def s1_def nearer_def take_pcm_keeps)
  show ?thesis
  proof (cases "pl_release (tk_out s1) \<noteq> None \<or> \<not> second_pull ring s1")
    case True
    then show ?thesis using n1
      by (simp add: play_tick_def s0_def [symmetric] s1_def [symmetric] Let_def nearer_def)
  next
    case False
    let ?s = "s1\<lparr>tk_loss := count_extra (tk_loss s1)\<rparr>"
    have "nearer h q f (Suc (first_due jb)) (fst (one_frame pf nb wb now ?s))"
      by (rule one_frame_nearer) (use n1 False in \<open>auto simp: nearer_def\<close>)
    then have "nearer h q f (first_due jb) (take_pcm (one_frame pf nb wb now ?s))"
      by (auto simp: nearer_def take_pcm_keeps)
    then show ?thesis using False
      by (simp add: play_tick_def s0_def [symmetric] s1_def [symmetric] Let_def nearer_def)
  qed
qed


lemma tick_told:
  assumes "order_inv h (rt_jitter s)" "release_in_hand (rt_jitter s) q f" "rt_sender s = Some a"
    and "task_tick pf nb wb now ring s = (s1, sent)"
  shows "(\<exists>r. tc_released sent = Some r \<and> rp_from r = a \<and> rp_over r = rt_over s)
    \<or> (order_inv h (rt_jitter s1) \<and> release_in_hand (rt_jitter s1) q f
        \<and> first_due (rt_jitter s) < first_due (rt_jitter s1) \<and> jb_next_seq (rt_jitter s1) \<noteq> None)"
  using tick_nearer [OF assms(1,2), of pf nb wb "rt_dec s" "rt_loss s" "rt_trim s" now "if rt_timed s then ring else None"]
    assms(3,4)
  by (auto simp: nearer_def task_tick_def Let_def split_beta)


section \<open>The backlog goes\<close>

fun pause_run :: "pause_f32 \<Rightarrow> (i16 list \<times> instant) list \<Rightarrow> pause_trim \<Rightarrow> bool list" where
  "pause_run pf [] t = []"
| "pause_run pf ((pcm, now) # fs) t = (let (t1, goes) = let_go pf pcm True True now t in goes # pause_run pf fs t1)"

lemma let_go_waits:
  assumes "let_go pf pcm True True now t = (t1, False)"
  shows "pt_last_noted t1 = Some now"
    and "pt_last_noted t = Some v \<Longrightarrow> now - v \<le> ms PTT_PACKET_TIMEOUT_MS \<Longrightarrow> pt_backlog_since t = Some u
      \<Longrightarrow> pt_backlog_since t1 = Some u \<and> now - u < MAX_WAIT"
    and "\<exists>u. pt_backlog_since t1 = Some u \<and> (u = now \<or> pt_backlog_since t = Some u)"
  using assms
  by (auto simp: let_go_def Let_def forget_levels_def note_level_def or_since_def silence_ended_the_over_def
      split: if_splits option.splits)

lemma backlog_goes:
  assumes "successively (\<lambda>a b. b - a \<le> ms PTT_PACKET_TIMEOUT_MS) (v # map snd fs)"
    and "pt_last_noted t = Some v" "pt_backlog_since t = Some u" "x \<in> set fs" "u + MAX_WAIT \<le> snd x"
  shows "True \<in> set (pause_run pf fs t)"
  using assms
proof (induction fs arbitrary: t v)
  case (Cons y fs)
  obtain pcm now where y: "y = (pcm, now)" by fastforce
  obtain t1 goes where g: "let_go pf pcm True True now t = (t1, goes)" by fastforce
  show ?case
  proof (cases goes)
    case False
    then have g1: "let_go pf pcm True True now t = (t1, False)" using g by simp
    have w: "pt_last_noted t1 = Some now" "pt_backlog_since t1 = Some u" "now - u < MAX_WAIT"
      using let_go_waits(1) [OF g1] let_go_waits(2) [OF g1 Cons.prems(2)] Cons.prems(1,3) y by auto
    then have "x \<in> set fs" using Cons.prems(4,5) y by auto
    moreover have "successively (\<lambda>a b. b - a \<le> ms PTT_PACKET_TIMEOUT_MS) (now # map snd fs)"
      using Cons.prems(1) y by (cases fs) auto
    ultimately show ?thesis using Cons.IH [of now t1] w(1,2) Cons.prems(5) y g by simp
  qed (simp add: y g)
qed simp

text \<open>A transmit buffer that stands above its target comes down: of the frames played with a backlog, no two more
  than two seconds apart, one is let go at the latest by the first that comes a second after the first one,
  whatever was learned before and however loud they are.\<close>

theorem backlog_comes_down_in_a_second:
  assumes "successively (\<lambda>a b. b - a \<le> ms PTT_PACKET_TIMEOUT_MS) (map snd (f # fs))" "x \<in> set fs" "snd f + MAX_WAIT \<le> snd x"
    and "case pt_backlog_since t of None \<Rightarrow> True | Some u \<Rightarrow> u \<le> snd f"
  shows "True \<in> set (pause_run pf (f # fs) t)"
proof -
  obtain pcm now where f: "f = (pcm, now)" by fastforce
  obtain t1 goes where g: "let_go pf pcm True True now t = (t1, goes)" by fastforce
  show ?thesis
  proof (cases goes)
    case False
    then have g1: "let_go pf pcm True True now t = (t1, False)" using g by simp
    obtain u where u: "pt_last_noted t1 = Some now" "pt_backlog_since t1 = Some u" "u = now \<or> pt_backlog_since t = Some u"
      using let_go_waits(1,3) [OF g1] by blast
    then have "u + MAX_WAIT \<le> snd x" using assms(3,4) f by auto
    then show ?thesis using backlog_goes [of now fs t1 u x pf] assms(1,2) u f g by simp
  qed (simp add: f g)
qed

lemma backlog_comes_down_in_a_second_witness:
  "True \<in> set (pause_run \<lparr>pf_db = (\<lambda>s n. 0), pf_above_floor = (\<lambda>x. x + 4), pf_below_speech = (\<lambda>x. x - 5)\<rparr>
     [([], 0), ([], ms 600), ([], ms 1200)] (pause_new 0))"
  by (rule backlog_comes_down_in_a_second [where x = "([], ms 1200)"])
    (simp_all add: MAX_WAIT_def PTT_PACKET_TIMEOUT_MS_def pause_new_def)

section \<open>At work\<close>

text \<open>A radio's task that was sent a press without audio and then the release.\<close>

definition demo_pause :: pause_f32 where
  "demo_pause = \<lparr>pf_db = (\<lambda>s n. 0), pf_above_floor = (\<lambda>x. x + 4), pf_below_speech = (\<lambda>x. x - 5)\<rparr>"

definition demo_packet :: "u32 \<Rightarrow> bool \<Rightarrow> tx_packet" where
  "demo_packet n ptt = \<lparr>tp_from = SocketAddr 1 1, tp_sequence = n, tp_timestamp = 0, tp_opus = [], tp_ptt = ptt\<rparr>"

definition demo_task :: "(nat, nat) tx_task" where
  "demo_task = task_run demo_pause demo_f32 (counting_codec 8) (counting_codec 16)
     [PacketIn (demo_packet 7 False) 0 3]
     (tx_task_new demo_f32 (the (stream_new (counting_codec 8) (counting_codec 16))) 0 (Some 3) Yaesu1)"

lemma demo_task_state:
  "jb_buffer (rt_jitter demo_task) = [(7, frame_of_packet (demo_packet 7 False))]"
  "order_inv 7 (rt_jitter demo_task)" "release_in_hand (rt_jitter demo_task) 7 (frame_of_packet (demo_packet 7 False))"
  "rt_sender demo_task = Some (SocketAddr 1 1)" "first_due (rt_jitter demo_task) = 7" "rt_over demo_task = 3"
proof -
  let ?j = "jitter_reset demo_f32 (for_transmit demo_f32 TX_MIN_DEPTH TX_MAX_DEPTH)" and ?f = "frame_of_packet (demo_packet 7 False)"
  have r: "rt_jitter demo_task = push demo_f32 ?j ?f 0" "rt_sender demo_task = Some (SocketAddr 1 1)" "rt_over demo_task = 3"
    by (simp_all add: demo_task_def task_run_def task_packet_def task_before_def clock_packet_def before_push_def
        silence_ended_the_over_def tx_task_new_def demo_packet_def Let_def as_millis_def)
  have s: "bf_sequence ?f = 7" "\<not> bf_ptt ?f" by (simp_all add: frame_of_packet_def demo_packet_def)
  have z: "jb_next_seq ?j = None" "jb_buffer ?j = []" "hard_limit ?j = 20" "jb_ends_with_release ?j" "jb_tuning ?j = jb_tuning (for_transmit demo_f32 TX_MIN_DEPTH TX_MAX_DEPTH)"
    by (simp_all add: jitter_reset_def for_transmit_def jitter_new_def hard_limit_def tuning_transmit_def tuning_default_def
        CAP_ABOVE_MAX_def TX_MAX_DEPTH_def)
  have b: "jb_buffer (push demo_f32 ?j ?f 0) = [(7, ?f)]" "jb_next_seq (push demo_f32 ?j ?f 0) = None"
    "jb_ends_with_release (push demo_f32 ?j ?f 0)"
    using push_before_start [of ?j ?f demo_f32 0] z s by simp_all
  have "order_inv 0 ?j"
    using order_inv_start(1) [of demo_f32 TX_MIN_DEPTH TX_MAX_DEPTH] z by (auto simp: order_inv_def tuned_def)
  from push_order [OF this, of ?f demo_f32 0] s have o: "order_inv 7 (push demo_f32 ?j ?f 0)" by simp
  show "jb_buffer (rt_jitter demo_task) = [(7, ?f)]" "order_inv 7 (rt_jitter demo_task)"
    "release_in_hand (rt_jitter demo_task) 7 ?f" "rt_sender demo_task = Some (SocketAddr 1 1)"
    "first_due (rt_jitter demo_task) = 7" "rt_over demo_task = 3"
    using r b o s by (simp_all add: release_in_hand_def first_due_def)
qed

lemma demo_task_tells:
  "\<exists>r. tc_released (snd (task_tick demo_pause (counting_codec 8) (counting_codec 16) 0 None demo_task)) = Some r \<and> rp_over r = 3"
proof -
  obtain s1 sent where t: "task_tick demo_pause (counting_codec 8) (counting_codec 16) 0 None demo_task = (s1, sent)" by fastforce
  have "\<not> (order_inv 7 (rt_jitter s1) \<and> release_in_hand (rt_jitter s1) 7 (frame_of_packet (demo_packet 7 False))
      \<and> 7 < first_due (rt_jitter s1) \<and> jb_next_seq (rt_jitter s1) \<noteq> None)"
    by (force simp: order_inv_def release_in_hand_def first_due_def)
  then show ?thesis using tick_told [OF demo_task_state(2-4) t] demo_task_state(5,6) t by auto
qed


lemma release_lets_go_its_own_over_witness:
  "\<exists>r. tc_released (snd (task_tick demo_pause (counting_codec 8) (counting_codec 16) 0 None demo_task)) = Some r \<and> rp_sequence r = 7"
proof -
  obtain r where r: "tc_released (snd (task_tick demo_pause (counting_codec 8) (counting_codec 16) 0 None demo_task)) = Some r"
    using demo_task_tells by blast
  have "rp_sequence r = 7"
    using release_lets_go_its_own_over [OF demo_task_def r] by (auto simp: demo_packet_def)
  then show ?thesis using r by blast
qed

lemma no_frame_outlives_its_over_witness:
  "\<exists>p \<in> set (of_this_over True (packets_of [PacketIn (demo_packet 7 False) 0 3])). frame_of_packet (demo_packet 7 False) = frame_of_packet p"
  using no_frame_outlives_its_over [OF demo_task_def, of 7 "frame_of_packet (demo_packet 7 False)"] demo_task_state(1) by simp

end
