(* ===== verification/SpeExpert.thy ===== *)
theory SpeExpert
  imports PaPolicy TciLink Utf8
begin

text \<open>
  The driver of the SPE Expert amplifier (\<^verbatim>\<open>sdr-remote-server/src/spe_expert.rs\<close>): the frames on its serial line,
  the status text, the classification of a failed poll and the state of the connection, and what the amplifier
  policy sees of it. Reading the port gives a list of results, one per call; the parse of a decimal fraction, times
  ten, as a \<^verbatim>\<open>u16\<close>, is the argument \<open>x10\<close>. Text is its UTF-8 bytes. The lines it logs, the RTS pulse that powers
  the amplifier on and the answer to a command, which is only logged, are left out.
\<close>

section \<open>Data\<close>

record spe_reading =
  sp_connected :: bool
  sp_state :: u8
  sp_ptt :: bool
  sp_band :: u8
  sp_antenna :: u8
  sp_atu_bypassed :: bool
  sp_input :: u8
  sp_power_level :: u8
  sp_forward_power :: u16
  sp_swr_x10 :: u16
  sp_temp :: u8
  sp_voltage_x10 :: u16
  sp_current_x10 :: u16
  sp_warning :: u8
  sp_alarm :: u8

definition spe_default :: spe_reading where
  "spe_default =
     \<lparr>sp_connected = False, sp_state = 0, sp_ptt = False, sp_band = 0, sp_antenna = 0, sp_atu_bypassed = False,
      sp_input = 0, sp_power_level = 0, sp_forward_power = 0, sp_swr_x10 = 10, sp_temp = 0, sp_voltage_x10 = 0,
      sp_current_x10 = 0, sp_warning = 78, sp_alarm = 78\<rparr>"

datatype spe_cmd =
  ToggleOperate | Tune | CycleAntenna | CycleInput | CyclePower | BandUp | BandDown | PowerOff | PowerOn
  | DriveDown | DriveUp

definition RESP_PREAMBLE :: u8 where "RESP_PREAMBLE = 0xAA"
definition CMD_STATUS :: u8 where "CMD_STATUS = 0x90"

text \<open>The byte of a command; powering on is a pulse on a line.\<close>

definition cmd_byte :: "spe_cmd \<Rightarrow> u8 option" where
  "cmd_byte cmd =
     (case cmd of ToggleOperate \<Rightarrow> Some 0x0D | Tune \<Rightarrow> Some 0x09 | CycleAntenna \<Rightarrow> Some 0x04 | CycleInput \<Rightarrow> Some 0x01
      | CyclePower \<Rightarrow> Some 0x0B | BandUp \<Rightarrow> Some 0x03 | BandDown \<Rightarrow> Some 0x02 | PowerOff \<Rightarrow> Some 0x0A
      | DriveDown \<Rightarrow> Some 0x0F | DriveUp \<Rightarrow> Some 0x10 | PowerOn \<Rightarrow> None)"

definition single_command :: "u8 \<Rightarrow> u8 list" where
  "single_command cmd = [0x55, 0x55, 0x55, 0x01, cmd, cmd]"

section \<open>Why a poll failed\<close>

datatype poll_io_kind = Timeout | Read | Parse

datatype poll_failure_kind =
  TimeoutNoData | TimeoutNullOnly | TimeoutPartial | OverflowWithPreamble | CatPortMismatch | OverflowUnknown
  | IoError | ParseError

definition has_preamble :: "u8 list \<Rightarrow> bool" where
  "has_preamble collected \<longleftrightarrow> 3 \<le> length collected \<and> collected ! 0 = RESP_PREAMBLE
     \<and> collected ! 1 = RESP_PREAMBLE \<and> collected ! 2 = RESP_PREAMBLE"

definition classify_timeout_payload :: "u8 list \<Rightarrow> poll_failure_kind" where
  "classify_timeout_payload collected =
     (if collected = [] then TimeoutNoData
      else if has_preamble collected then (if 128 < length collected then OverflowWithPreamble else TimeoutPartial)
      else if 64 < length collected
      then (let preview = take (min (length collected) 64) collected;
                printable = length (filter (\<lambda>b. 0x20 \<le> b \<and> b < 0x7F) preview);
                looks_ascii = length preview * 9 \<le> printable * 10;
                has_cat_sep = list_ex (\<lambda>b. b = 59 \<or> b = 44) preview
            in if looks_ascii \<and> has_cat_sep then CatPortMismatch else OverflowUnknown)
      else if list_all (\<lambda>b. b = 0) collected then TimeoutNullOnly else TimeoutPartial)"

definition classify_poll_failure :: "u8 list \<Rightarrow> poll_io_kind \<Rightarrow> poll_failure_kind" where
  "classify_poll_failure collected io_kind =
     (case io_kind of Read \<Rightarrow> IoError | Parse \<Rightarrow> ParseError | Timeout \<Rightarrow> classify_timeout_payload collected)"

section \<open>The state of the connection\<close>

datatype spe_conn_state = Unknown | WarmingUp | Online | Offline | CatMisconfigured

datatype spe_event = InitialOk u8 | InitialFail | PollOk | PollFail poll_failure_kind

definition WARMUP_HARD_FAIL_THRESHOLD :: nat where "WARMUP_HARD_FAIL_THRESHOLD = 3"
definition ONLINE_FAIL_THRESHOLD :: nat where "ONLINE_FAIL_THRESHOLD = 5"

fun next_state :: "spe_conn_state \<Rightarrow> spe_event \<Rightarrow> nat \<Rightarrow> spe_conn_state" where
  "next_state Unknown (InitialOk _) fails = WarmingUp"
| "next_state Unknown InitialFail fails = Offline"
| "next_state WarmingUp PollOk fails = Online"
| "next_state WarmingUp (PollFail kind) fails =
     (case kind of
        CatPortMismatch \<Rightarrow> CatMisconfigured
      | IoError \<Rightarrow> Offline
      | TimeoutNoData \<Rightarrow> WarmingUp
      | TimeoutNullOnly \<Rightarrow> WarmingUp
      | TimeoutPartial \<Rightarrow> WarmingUp
      | _ \<Rightarrow> if WARMUP_HARD_FAIL_THRESHOLD \<le> fails + 1 then Offline else WarmingUp)"
| "next_state Online PollOk fails = Online"
| "next_state Online (PollFail kind) fails =
     (case kind of
        CatPortMismatch \<Rightarrow> CatMisconfigured
      | IoError \<Rightarrow> Offline
      | _ \<Rightarrow> if ONLINE_FAIL_THRESHOLD \<le> fails + 1 then Offline else Online)"
| "next_state Offline PollOk fails = Online"
| "next_state Offline (PollFail kind) fails = (if kind = CatPortMismatch then CatMisconfigured else Offline)"
| "next_state Offline (InitialOk _) fails = WarmingUp"
| "next_state Offline InitialFail fails = Offline"
| "next_state CatMisconfigured PollOk fails = Online"
| "next_state CatMisconfigured _ fails = CatMisconfigured"
| "next_state WarmingUp _ fails = WarmingUp"
| "next_state Online _ fails = Online"
| "next_state Unknown _ fails = Unknown"

definition counts_toward_threshold :: "spe_conn_state \<Rightarrow> poll_failure_kind \<Rightarrow> bool" where
  "counts_toward_threshold state kind =
     (case state of
        WarmingUp \<Rightarrow> kind \<in> {OverflowWithPreamble, OverflowUnknown, ParseError}
      | Online \<Rightarrow> kind \<notin> {IoError, CatPortMismatch}
      | _ \<Rightarrow> False)"

definition poll_interval :: "spe_conn_state \<Rightarrow> bool \<Rightarrow> duration" where
  "poll_interval state tx_active =
     (case state of
        Unknown \<Rightarrow> ms 500 | WarmingUp \<Rightarrow> ms 500
      | Online \<Rightarrow> if tx_active then ms 75 else ms 1000
      | Offline \<Rightarrow> ms 2000 | CatMisconfigured \<Rightarrow> ms 2000)"

definition state_is_connected :: "spe_conn_state \<Rightarrow> bool" where
  "state_is_connected state \<longleftrightarrow> state = WarmingUp \<or> state = Online"

section \<open>Frames\<close>

definition extract_status_data :: "u8 list \<Rightarrow> u8 list option" where
  "extract_status_data raw =
     (case find (\<lambda>i. raw ! i = RESP_PREAMBLE \<and> raw ! (i + 1) = RESP_PREAMBLE \<and> raw ! (i + 2) = RESP_PREAMBLE)
             [0..<length raw - 3] of
        None \<Rightarrow> None
      | Some start \<Rightarrow>
          (let cnt_pos = start + 3 in
           if length raw \<le> cnt_pos then None
           else (let cnt = unat (raw ! cnt_pos); data_start = cnt_pos + 1; data_end = data_start + cnt;
                     frame_end = data_end + 5
                 in if length raw < frame_end then None
                    else if raw ! (frame_end - 2) \<noteq> 0x0D \<or> raw ! (frame_end - 1) \<noteq> 0x0A then None
                    else Some (take cnt (drop data_start raw)))))"

text \<open>What one \<^verbatim>\<open>read\<close> of the port gives; no bytes at all is not the end.\<close>

datatype port_read = GotBytes "u8 list" | ReadTimedOut | ReadFailed

type_synonym poll_failure = "poll_io_kind \<times> u8 list"

definition ends_with_crlf :: "u8 list \<Rightarrow> bool" where
  "ends_with_crlf collected \<longleftrightarrow> 2 \<le> length collected
     \<and> collected ! (length collected - 2) = 0x0D \<and> collected ! (length collected - 1) = 0x0A"

definition extracted :: "u8 list \<Rightarrow> poll_failure + u8 list" where
  "extracted collected =
     (case extract_status_data collected of None \<Rightarrow> Inl (Parse, collected) | Some data \<Rightarrow> Inr data)"

text \<open>The reading loop over the port's results; \<open>None\<close> is a loop that still waits for more.\<close>

fun read_status_response_ex :: "u8 list \<Rightarrow> port_read list \<Rightarrow> (poll_failure + u8 list) option" where
  "read_status_response_ex collected [] = None"
| "read_status_response_ex collected (GotBytes bytes # rs) =
     (if bytes = [] then read_status_response_ex collected rs
      else (let collected = collected @ bytes in
            if ends_with_crlf collected then Some (extracted collected)
            else if (if has_preamble collected then 128 else 64) < length collected then Some (Inl (Timeout, collected))
            else read_status_response_ex collected rs))"
| "read_status_response_ex collected (ReadTimedOut # rs) =
     Some (if ends_with_crlf collected then extracted collected else Inl (Timeout, collected))"
| "read_status_response_ex collected (ReadFailed # rs) = Some (Inl (Read, collected))"

section \<open>The status text\<close>

text \<open>\<^verbatim>\<open>str::trim\<close>: the characters with the property \<^verbatim>\<open>White_Space\<close>, as UTF-8.\<close>

definition white_space :: "u8 list list" where
  "white_space = [[9], [10], [11], [12], [13], [32], [0xC2, 0x85], [0xC2, 0xA0], [0xE1, 0x9A, 0x80],
     [0xE2, 0x80, 0x80], [0xE2, 0x80, 0x81], [0xE2, 0x80, 0x82], [0xE2, 0x80, 0x83], [0xE2, 0x80, 0x84],
     [0xE2, 0x80, 0x85], [0xE2, 0x80, 0x86], [0xE2, 0x80, 0x87], [0xE2, 0x80, 0x88], [0xE2, 0x80, 0x89],
     [0xE2, 0x80, 0x8A], [0xE2, 0x80, 0xA8], [0xE2, 0x80, 0xA9], [0xE2, 0x80, 0xAF], [0xE2, 0x81, 0x9F],
     [0xE3, 0x80, 0x80]]"

function strip_front :: "u8 list list \<Rightarrow> u8 list \<Rightarrow> u8 list" where
  "strip_front spaces bs =
     (case find (\<lambda>w. w \<noteq> [] \<and> take (length w) bs = w) spaces of
        None \<Rightarrow> bs
      | Some w \<Rightarrow> strip_front spaces (drop (length w) bs))"
  by pat_completeness auto
termination
proof (relation "measure (\<lambda>(_, bs). length bs)")
  fix spaces bs w
  assume "find (\<lambda>w. w \<noteq> [] \<and> take (length w) bs = w) spaces = Some w"
  then have "w \<noteq> []" "take (length w) bs = w" by (auto simp: find_Some_iff)
  then have "bs \<noteq> []" by auto
  then show "((spaces, drop (length w) bs), spaces, bs) \<in> measure (\<lambda>(_, bs). length bs)"
    using \<open>w \<noteq> []\<close> by simp
qed simp

declare strip_front.simps [simp del]

definition trim_utf8 :: "u8 list \<Rightarrow> u8 list" where
  "trim_utf8 bs = rev (strip_front (map rev white_space) (rev (strip_front white_space bs)))"

fun split_at_commas :: "u8 list \<Rightarrow> u8 list list" where
  "split_at_commas [] = [[]]"
| "split_at_commas (b # bs) =
     (if b = 44 then [] # split_at_commas bs
      else (case split_at_commas bs of [] \<Rightarrow> [[b]] | f # fs \<Rightarrow> (b # f) # fs))"

definition as_chars :: "u8 list \<Rightarrow> string" where
  "as_chars = map (\<lambda>b. char_of (unat b))"

definition parse_u8 :: "u8 list \<Rightarrow> u8 option" where
  "parse_u8 f = map_option of_nat (parse_uint (2 ^ 8) (as_chars (trim_utf8 f)))"

definition parse_u16 :: "u8 list \<Rightarrow> u16 option" where
  "parse_u16 f = map_option of_nat (parse_uint (2 ^ 16) (as_chars (trim_utf8 f)))"

definition or_else :: "'a \<Rightarrow> 'a option \<Rightarrow> 'a" where
  "or_else d x = (case x of None \<Rightarrow> d | Some v \<Rightarrow> v)"

definition field :: "u8 list list \<Rightarrow> nat \<Rightarrow> u8 list" where
  "field fs i = trim_utf8 (fs ! i)"

definition parse_status_response :: "(u8 list \<Rightarrow> u16 option) \<Rightarrow> u8 list \<Rightarrow> spe_reading option" where
  "parse_status_response x10 data =
     (let fs = split_at_commas (utf8_lossy data); s = spe_default; ant = field fs 7;
          opt = (\<lambda>i. if i < length fs then Some (fs ! i) else None);
          first = (\<lambda>f. case trim_utf8 f of [] \<Rightarrow> 78 | b # _ \<Rightarrow> b)
      in if length fs < 18 then None
         else Some
           (s\<lparr>sp_connected := True,
              sp_state := (if field fs 2 = [79] then 2 else if field fs 2 = [83] then 1 else 0),
              sp_ptt := (field fs 3 = [84]),
              sp_input := or_else 0 (parse_u8 (fs ! 5)),
              sp_band := or_else 0 (parse_u8 (fs ! 6)),
              sp_antenna := (case ant of [] \<Rightarrow> 0 | b # _ \<Rightarrow> if 48 \<le> b \<and> b \<le> 57 then b - 48 else 0),
              sp_atu_bypassed := (take 1 (drop (fst (utf8_next ant)) ant) = [98]),
              sp_power_level := (if field fs 9 = [76] then 0 else if field fs 9 = [77] then 1
                                 else if field fs 9 = [72] then 2 else 0),
              sp_forward_power := or_else 0 (parse_u16 (fs ! 10)),
              sp_swr_x10 := or_else (sp_swr_x10 s) (x10 (field fs 11)),
              sp_voltage_x10 := or_else (sp_voltage_x10 s) (x10 (field fs 13)),
              sp_current_x10 := or_else (sp_current_x10 s) (x10 (field fs 14)),
              sp_temp := max (max (or_else 0 (parse_u8 (fs ! 15))) (or_else 0 (Option.bind (opt 16) parse_u8)))
                             (or_else 0 (Option.bind (opt 17) parse_u8)),
              sp_warning := (case opt 18 of None \<Rightarrow> sp_warning s | Some f \<Rightarrow> first f),
              sp_alarm := (case opt 19 of None \<Rightarrow> sp_alarm s | Some f \<Rightarrow> first f)\<rparr>))"

text \<open>A status query: the command may fail to be sent.\<close>

definition query_status_ex ::
    "(u8 list \<Rightarrow> u16 option) \<Rightarrow> bool \<Rightarrow> port_read list \<Rightarrow> (poll_failure + spe_reading) option" where
  "query_status_ex x10 sent rs =
     (if \<not> sent then Some (Inl (Read, []))
      else case read_status_response_ex [] rs of
          None \<Rightarrow> None
        | Some (Inl e) \<Rightarrow> Some (Inl e)
        | Some (Inr data) \<Rightarrow>
            Some (case parse_status_response x10 data of None \<Rightarrow> Inl (Parse, data) | Some s \<Rightarrow> Inr s))"

section \<open>The driver\<close>

record spe_driver =
  dv_status :: spe_reading
  dv_state :: spe_conn_state
  dv_fails :: nat
  dv_offline_since :: "instant option"

definition offline_like :: "spe_conn_state \<Rightarrow> bool" where
  "offline_like state \<longleftrightarrow> state = Offline \<or> state = CatMisconfigured"

definition apply_transition :: "instant \<Rightarrow> spe_conn_state \<Rightarrow> spe_conn_state \<Rightarrow> spe_driver \<Rightarrow> spe_driver" where
  "apply_transition now from_state to_state d =
     d\<lparr>dv_status := (dv_status d)\<lparr>sp_connected := state_is_connected to_state\<rparr>,
       dv_offline_since :=
         (if offline_like to_state \<and> \<not> offline_like from_state then Some now
          else if \<not> offline_like to_state \<and> offline_like from_state then None else dv_offline_since d)\<rparr>"

definition run_poll_cycle :: "instant \<Rightarrow> poll_failure + spe_reading \<Rightarrow> spe_driver \<Rightarrow> spe_driver" where
  "run_poll_cycle now result d =
     (case result of
        Inr parsed \<Rightarrow>
          (let new_state = next_state (dv_state d) PollOk (dv_fails d)
           in (apply_transition now (dv_state d) new_state (d\<lparr>dv_status := parsed, dv_fails := 0\<rparr>))
                \<lparr>dv_state := new_state\<rparr>)
      | Inl (io_kind, collected) \<Rightarrow>
          (let kind = classify_poll_failure collected io_kind; old_state = dv_state d;
               new_state = next_state old_state (PollFail kind) (dv_fails d);
               fails = (if old_state \<noteq> new_state then 0
                        else if counts_toward_threshold old_state kind then min (dv_fails d + 1) (2 ^ 32 - 1) else dv_fails d)
           in (apply_transition now old_state new_state (d\<lparr>dv_fails := fails\<rparr>))\<lparr>dv_state := new_state\<rparr>))"

text \<open>The thread's first query, and a run of polls, each at its time.\<close>

definition spe_start :: "instant \<Rightarrow> poll_failure + spe_reading \<Rightarrow> spe_driver" where
  "spe_start now result =
     (let d = \<lparr>dv_status = spe_default, dv_state = Unknown, dv_fails = 0, dv_offline_since = None\<rparr>;
          (d, event) = (case result of Inr parsed \<Rightarrow> (d\<lparr>dv_status := parsed\<rparr>, InitialOk (sp_state parsed))
                        | Inl _ \<Rightarrow> (d, InitialFail));
          new_state = next_state Unknown event 0
      in (apply_transition now Unknown new_state d)\<lparr>dv_state := new_state\<rparr>)"

definition spe_run :: "(instant \<times> (poll_failure + spe_reading)) list \<Rightarrow> spe_driver \<Rightarrow> spe_driver" where
  "spe_run polls d = fold (\<lambda>(now, result). run_poll_cycle now result) polls d"

text \<open>The thread's end, and what the amplifier policy takes of the status.\<close>

definition mark_disconnected :: "spe_driver \<Rightarrow> spe_driver" where
  "mark_disconnected d = d\<lparr>dv_status := (dv_status d)\<lparr>sp_connected := False\<rparr>\<rparr>"

definition policy_sees :: "spe_driver \<Rightarrow> spe_status" where
  "policy_sees d = \<lparr>spe_connected = sp_connected (dv_status d), spe_state = sp_state (dv_status d)\<rparr>"

section \<open>What a run of polls leaves\<close>

text \<open>The failures since the last good poll, the latest first.\<close>

type_synonym spe_poll = "instant \<times> (poll_failure + spe_reading)"

fun failures_since :: "spe_poll list \<Rightarrow> poll_failure_kind list" where
  "failures_since [] = []"
| "failures_since ((_, Inr _) # _) = []"
| "failures_since ((_, Inl (io, collected)) # rest) = classify_poll_failure collected io # failures_since rest"

fun last_reading :: "spe_poll list \<Rightarrow> spe_reading option" where
  "last_reading [] = None"
| "last_reading ((_, Inr r) # _) = Some r"
| "last_reading (_ # rest) = last_reading rest"

definition hard :: "poll_failure_kind \<Rightarrow> bool" where
  "hard kind \<longleftrightarrow> kind = IoError \<or> kind = CatPortMismatch"

definition alive :: "poll_failure_kind list \<Rightarrow> bool" where
  "alive ks \<longleftrightarrow> length ks < ONLINE_FAIL_THRESHOLD \<and> \<not> list_ex hard ks"

definition driver_ok :: "spe_poll list \<Rightarrow> spe_driver \<Rightarrow> bool" where
  "driver_ok past d \<longleftrightarrow> dv_state d \<noteq> Unknown
     \<and> (case last_reading past of None \<Rightarrow> True
        | Some r \<Rightarrow> dv_status d = r\<lparr>sp_connected := alive (failures_since past)\<rparr>
            \<and> (if alive (failures_since past) then dv_state d = Online \<and> dv_fails d = length (failures_since past)
               else offline_like (dv_state d)))"

lemma soft_cases: "\<not> hard kind \<longleftrightarrow> kind \<notin> {IoError, CatPortMismatch}"
  by (auto simp: hard_def)

lemma online_fail: "next_state Online (PollFail kind) n =
    (if kind = CatPortMismatch then CatMisconfigured else if kind = IoError then Offline
     else if ONLINE_FAIL_THRESHOLD \<le> n + 1 then Offline else Online)"
  by (cases kind) simp_all

lemma stays_offline: "offline_like s \<Longrightarrow> offline_like (next_state s (PollFail kind) n)"
  by (auto simp: offline_like_def)

lemma poll_ok_online: "s \<noteq> Unknown \<Longrightarrow> next_state s PollOk n = Online"
  by (cases s) simp_all

lemma stays_known: "s \<noteq> Unknown \<Longrightarrow> next_state s (PollFail kind) n \<noteq> Unknown"
  by (cases s; cases kind) auto

lemma poll_keeps_ok:
  assumes "driver_ok past d"
  shows "driver_ok ((now, result) # past) (run_poll_cycle now result d)"
proof (cases result)
  case (Inr r)
  then show ?thesis using assms
    by (simp add: driver_ok_def run_poll_cycle_def Let_def poll_ok_online apply_transition_def alive_def
        ONLINE_FAIL_THRESHOLD_def state_is_connected_def)
next
  case (Inl e)
  obtain io collected where e: "e = (io, collected)" by fastforce
  let ?k = "classify_poll_failure collected io"
  show ?thesis
  proof (cases "last_reading past")
    case None
    then show ?thesis using assms Inl e stays_known by (simp add: driver_ok_def run_poll_cycle_def Let_def apply_transition_def)
  next
    case (Some r)
    show ?thesis
    proof (cases "alive (failures_since past)")
      case True
      then have d: "dv_state d = Online" "dv_fails d = length (failures_since past)"
          "dv_status d = r\<lparr>sp_connected := True\<rparr>" "dv_fails d < 5"
        using assms Some by (auto simp: driver_ok_def alive_def ONLINE_FAIL_THRESHOLD_def)
      show ?thesis using d Inl e Some True
        by (cases "hard ?k")
          (auto simp: driver_ok_def run_poll_cycle_def Let_def apply_transition_def online_fail alive_def hard_def
            ONLINE_FAIL_THRESHOLD_def counts_toward_threshold_def offline_like_def state_is_connected_def
            simp del: next_state.simps)
    next
      case False
      then have d: "offline_like (dv_state d)" "dv_status d = r\<lparr>sp_connected := False\<rparr>" "dv_state d \<noteq> Unknown"
        using assms Some by (auto simp: driver_ok_def)
      have off: "offline_like (next_state (dv_state d) (PollFail ?k) n)" for n using stays_offline d(1) by blast
      then have "\<not> state_is_connected (next_state (dv_state d) (PollFail ?k) n)" for n
        by (metis offline_like_def state_is_connected_def spe_conn_state.distinct)
      moreover have "\<not> alive (?k # failures_since past)" using False by (auto simp: alive_def)
      ultimately show ?thesis using d Inl e Some off stays_known
        by (simp add: driver_ok_def run_poll_cycle_def Let_def apply_transition_def)
    qed
  qed
qed

lemma run_keeps_ok: "driver_ok past d \<Longrightarrow> driver_ok (rev polls @ past) (spe_run polls d)"
proof (induction polls arbitrary: past d)
  case (Cons x polls)
  then show ?case using poll_keeps_ok [of past d "fst x" "snd x"] by (auto simp: spe_run_def split_beta)
qed (simp add: spe_run_def)

lemma start_ok: "driver_ok [] (spe_start now result)"
  by (simp add: driver_ok_def spe_start_def Let_def split: sum.split)

text \<open>C16. What the amplifier policy is told of the SPE Expert is its last good reading, and the amplifier counts as there
  just while fewer than five polls failed since then, none of them with an error of the port or the signs
  of a transceiver's CAT port: in every run of the driver with a good poll.\<close>

theorem policy_sees_the_last_reading:
  assumes "last_reading (rev polls) = Some r"
  shows "policy_sees (spe_run polls (spe_start now result)) =
    \<lparr>spe_connected = length (failures_since (rev polls)) < 5 \<and> \<not> list_ex hard (failures_since (rev polls)),
     spe_state = sp_state r\<rparr>"
  using run_keeps_ok [OF start_ok, of polls now result] assms
  by (simp add: driver_ok_def policy_sees_def alive_def ONLINE_FAIL_THRESHOLD_def)

definition in_operate :: spe_reading where
  "in_operate = spe_default\<lparr>sp_connected := True, sp_state := 2\<rparr>"

lemma policy_sees_the_last_reading_witness:
  "policy_sees (spe_run [(1, Inr in_operate), (2, Inl (Timeout, []))] (spe_start 0 (Inl (Timeout, []))))
     = \<lparr>spe_connected = True, spe_state = 2\<rparr>"
  using policy_sees_the_last_reading [of "[(1, Inr in_operate), (2, Inl (Timeout, []))]" in_operate 0 "Inl (Timeout, [])"]
  by (simp add: classify_poll_failure_def classify_timeout_payload_def hard_def in_operate_def)

text \<open>An amplifier that answered the first query and then fell silent counts as there for good, with that first
  reading: while the connection warms up no number of silent polls ends it.\<close>

theorem silent_from_the_start_stays_connected:
  assumes "\<forall>(_, result) \<in> set polls. result = Inl (Timeout, [])"
  shows "policy_sees (spe_run polls (spe_start now (Inr r))) = \<lparr>spe_connected = True, spe_state = sp_state r\<rparr>"
proof -
  have "dv_state d = WarmingUp \<and> dv_status d = r\<lparr>sp_connected := True\<rparr> \<Longrightarrow>
      dv_state (spe_run polls d) = WarmingUp \<and> dv_status (spe_run polls d) = r\<lparr>sp_connected := True\<rparr>" for d
    using assms
  proof (induction polls arbitrary: d)
    case (Cons x polls)
    have "dv_state (run_poll_cycle (fst x) (Inl (Timeout, [])) d) = WarmingUp
        \<and> dv_status (run_poll_cycle (fst x) (Inl (Timeout, [])) d) = r\<lparr>sp_connected := True\<rparr>"
      using Cons.prems(1) by (simp add: run_poll_cycle_def classify_poll_failure_def classify_timeout_payload_def
          apply_transition_def state_is_connected_def)
    then show ?case using Cons.IH Cons.prems(2) by (auto simp: spe_run_def)
  qed (simp add: spe_run_def)
  then have "dv_state (spe_run polls (spe_start now (Inr r))) = WarmingUp
      \<and> dv_status (spe_run polls (spe_start now (Inr r))) = r\<lparr>sp_connected := True\<rparr>"
    by (simp add: spe_start_def apply_transition_def state_is_connected_def)
  then show ?thesis by (simp add: policy_sees_def)
qed

section \<open>A frame however it is cut\<close>

definition status_frame :: "u8 list \<Rightarrow> u8 \<Rightarrow> u8 \<Rightarrow> u8 \<Rightarrow> u8 list" where
  "status_frame data lo hi sep =
     [RESP_PREAMBLE, RESP_PREAMBLE, RESP_PREAMBLE, of_nat (length data)] @ data @ [lo, hi, sep, 0x0D, 0x0A]"

lemma extract_frame:
  assumes "length data < 256"
  shows "extract_status_data (status_frame data lo hi sep) = Some data"
proof -
  let ?f = "status_frame data lo hi sep"
  have l: "length ?f = length data + 9" by (simp add: status_frame_def)
  have first: "?f ! 0 = RESP_PREAMBLE" "?f ! (0 + 1) = RESP_PREAMBLE" "?f ! (0 + 2) = RESP_PREAMBLE"
    by (simp_all add: status_frame_def)
  have "[0..<length ?f - 3] = 0 # [Suc 0..<length ?f - 3]" using l by (simp add: upt_conv_Cons)
  then have find: "find (\<lambda>i. ?f ! i = RESP_PREAMBLE \<and> ?f ! (i + 1) = RESP_PREAMBLE \<and> ?f ! (i + 2) = RESP_PREAMBLE)
      [0..<length ?f - 3] = Some 0" using first by simp
  have "unat (?f ! (0 + 3)) = length data"
    using assms by (simp add: status_frame_def unsigned_of_nat take_bit_nat_eq_self)
  moreover have "?f ! (length data + 7) = 0x0D" "?f ! (length data + 8) = 0x0A" "take (length data) (drop 4 ?f) = data"
    by (simp_all add: status_frame_def nth_append)
  ultimately show ?thesis unfolding extract_status_data_def find using l by (simp add: Let_def add.commute)
qed

lemma read_cut:
  assumes frame: "frame = status_frame data lo hi sep" "length data < 256" "length frame \<le> 128"
    and whole: "\<And>n. n < length frame \<Longrightarrow> \<not> ends_with_crlf (take n frame)"
  shows "pre @ concat chunks = frame \<Longrightarrow> pre \<noteq> frame \<Longrightarrow>
    read_status_response_ex pre (map GotBytes chunks @ rest) = Some (Inr data)"
proof (induction chunks arbitrary: pre)
  case (Cons c chunks)
  show ?case
  proof (cases "c = []")
    case True
    then show ?thesis using Cons by simp
  next
    case False
    show ?thesis
    proof (cases "pre @ c = frame")
      case True
      have "ends_with_crlf frame" by (simp add: frame(1) ends_with_crlf_def status_frame_def nth_append)
      moreover have "extracted frame = Inr data"
        using extract_frame [OF frame(2)] by (simp add: extracted_def frame(1))
      ultimately show ?thesis using False True by (simp add: Let_def)
    next
      case short: False
      define n where "n = length (pre @ c)"
      have n: "pre @ c = take n frame" using Cons.prems(1) by (metis append_assoc append_eq_conv_conj concat.simps(2) n_def)
      then have "n < length frame" using short by (metis not_le take_all)
      then have "\<not> ends_with_crlf (pre @ c)" using whole n by simp
      moreover have "\<not> (if has_preamble (pre @ c) then 128 else 64) < length (pre @ c)"
      proof (cases "3 \<le> n")
        case True
        then have "has_preamble (pre @ c)"
          using \<open>n < length frame\<close> by (simp add: n has_preamble_def frame(1)) (simp add: status_frame_def nth_append)
        then show ?thesis using \<open>n < length frame\<close> frame(3) by (simp add: n_def)
      next
        case False
        then show ?thesis by (simp add: n_def)
      qed
      ultimately show ?thesis using Cons.IH [of "pre @ c"] Cons.prems(1) short False by (simp add: Let_def)
    qed
  qed
qed simp

text \<open>However the serial line cuts a status frame, with pauses in between or not, its data is what is read:
  up to 128 bytes, with the end of line nowhere before its end. The two checksum bytes may be anything; the driver
  does not compare them.\<close>

theorem frame_read_however_cut:
  assumes "concat chunks = status_frame data lo hi sep" "length data \<le> 119"
    and "\<And>n. n < length data + 9 \<Longrightarrow> \<not> ends_with_crlf (take n (status_frame data lo hi sep))"
  shows "read_status_response_ex [] (map GotBytes chunks @ rest) = Some (Inr data)"
proof -
  have l: "length (status_frame data lo hi sep) = length data + 9" by (simp add: status_frame_def)
  show ?thesis
    by (rule read_cut [OF refl]) (use assms l in \<open>auto simp: status_frame_def\<close>)
qed

lemma frame_read_however_cut_witness:
  "read_status_response_ex [] (map GotBytes [[0xAA, 0xAA], [], [0xAA, 2, 79, 44, 1], [0, 44, 13], [10]] @ []) = Some (Inr [79, 44])"
proof (rule frame_read_however_cut)
  show "concat [[0xAA, 0xAA], [], [0xAA, 2, 79, 44, 1], [0, 44, 13], [10]] = status_frame [79, 44] 1 0 44"
    by (simp add: status_frame_def RESP_PREAMBLE_def)
  show "length [79 :: u8, 44] \<le> 119" by simp
  fix n assume "n < length [79 :: u8, 44] + 9"
  then have "n \<in> set [0..<11]" by simp
  then show "\<not> ends_with_crlf (take n (status_frame [79, 44] 1 0 44))"
    by (auto simp: upt_conv_Cons status_frame_def RESP_PREAMBLE_def ends_with_crlf_def)
qed

end
